(* ===== verification/Prelude.thy ===== *)
theory Prelude
  imports Main "HOL-Library.List_Lexorder" "HOL-Library.Char_ord"
    "HOL-Library.Product_Lexorder" "HOL-Library.Multiset"
begin

text \<open>
  What every component shares: the collections that carry the proofs, Rust's ordered maps and
  sets as sorted lists, saturating 64-bit subtraction, the result type of a database
  transaction, and the breadth-first walk that both recursive SQL queries of the store use.
  Strings are byte strings (Rust strings are UTF-8; a \<open>char\<close> of HOL is one byte), ordered
  lexicographically by byte, as Rust's \<open>Ord\<close> for \<open>str\<close> and SQLite's BINARY collation do.
\<close>

named_theorems op_defs \<open>definitions of store operations, unfolded by the component proofs\<close>
named_theorems row_simps \<open>how table reads see table writes\<close>
named_theorems inv_intros \<open>one operation keeps one invariant\<close>

type_synonym time = int

section \<open>Ordered maps: \<open>BTreeMap\<close>\<close>

text \<open>A \<open>BTreeMap\<close> is the list of its entries in key order.\<close>

fun bt_insert :: "'k::linorder \<Rightarrow> 'v \<Rightarrow> ('k \<times> 'v) list \<Rightarrow> ('k \<times> 'v) list" where
  "bt_insert k v [] = [(k, v)]"
| "bt_insert k v ((k', v') # m) =
     (if k < k' then (k, v) # (k', v') # m
      else if k = k' then (k, v) # m
      else (k', v') # bt_insert k v m)"

definition bt_remove :: "'k \<Rightarrow> ('k \<times> 'v) list \<Rightarrow> ('k \<times> 'v) list" where
  "bt_remove k m = filter (\<lambda>e. fst e \<noteq> k) m"

definition bt_ok :: "('k::linorder \<times> 'v) list \<Rightarrow> bool" where
  "bt_ok m \<longleftrightarrow> sorted_wrt (<) (map fst m)"

lemma map_of_bt_insert [simp]: "map_of (bt_insert k v m) = (map_of m)(k \<mapsto> v)"
  by (induction k v m rule: bt_insert.induct) (auto simp: fun_eq_iff)

lemma fst_set_bt_insert [simp]: "fst ` set (bt_insert k v m) = insert k (fst ` set m)"
  by (induction k v m rule: bt_insert.induct) auto

lemma map_of_bt_remove [simp]: "map_of (bt_remove k m) = (map_of m)(k := None)"
  by (induction m) (auto simp: bt_remove_def fun_eq_iff)

lemma bt_ok_Nil [simp]: "bt_ok []"
  by (simp add: bt_ok_def)

lemma bt_ok_insert [simp]: "bt_ok m \<Longrightarrow> bt_ok (bt_insert k v m)"
  unfolding bt_ok_def
proof (induction k v m rule: bt_insert.induct)
  case (2 k v k' v' m)
  have "set (map fst (bt_insert k v m)) = insert k (set (map fst m))" by simp
  with 2 show ?case by (auto simp del: fst_set_bt_insert)
qed simp

lemma bt_ok_remove [simp]: "bt_ok m \<Longrightarrow> bt_ok (bt_remove k m)"
  by (induction m) (auto simp: bt_ok_def bt_remove_def)

lemma bt_ok_distinct: "bt_ok m \<Longrightarrow> distinct (map fst m)"
  by (simp add: bt_ok_def strict_sorted_iff)

lemma bt_insert_eqI:
  assumes "bt_ok m" and "bt_ok n" and "map_of m = map_of n"
  shows "m = n"
  using assms
proof (induction m arbitrary: n)
  case Nil
  then show ?case by (cases n) (auto simp: fun_eq_iff split: if_splits)
next
  case (Cons e m)
  obtain k v where e: "e = (k, v)" by fastforce
  from Cons.prems(3) e have "map_of n k = Some v" by (simp add: fun_eq_iff split: if_splits)
  then obtain k' v' n' where n: "n = (k', v') # n'" by (cases n) auto
  have k_in: "k \<in> fst ` set n" using \<open>map_of n k = Some v\<close> by (force dest: map_of_SomeD)
  have "map_of (e # m) k' = Some v'" using fun_cong [OF Cons.prems(3), of k'] n by simp
  then have k'_in: "k' \<in> fst ` set (e # m)" by (force dest: map_of_SomeD)
  have kk: "k = k'" using k_in k'_in Cons.prems(1,2) e n by (fastforce simp: bt_ok_def)
  have tl: "map_of m = map_of n'"
  proof
    fix x
    have "map_of m k = None" and "map_of n' k = None"
      using Cons.prems(1,2) e n kk by (auto simp: bt_ok_def map_of_eq_None_iff)
    moreover have "map_of (e # m) x = map_of n x" using fun_cong [OF Cons.prems(3)] .
    ultimately show "map_of m x = map_of n' x" using e n kk by (cases "x = k") auto
  qed
  have "m = n'" using Cons.IH [OF _ _ tl] Cons.prems(1,2) e n by (simp add: bt_ok_def)
  moreover have "v = v'" using \<open>map_of n k = Some v\<close> n kk by simp
  ultimately show ?case using e n kk by simp
qed

text \<open>\<open>iter.collect()\<close> into a map inserts the pairs in order, so the last pair of a key wins.\<close>

definition bt_collect :: "('k::linorder \<times> 'v) list \<Rightarrow> ('k \<times> 'v) list" where
  "bt_collect xs = fold (\<lambda>(k, v). bt_insert k v) xs []"

text \<open>A \<open>BTreeSet\<close> is the sorted list of its elements.\<close>

definition bs_insert :: "'a::linorder \<Rightarrow> 'a list \<Rightarrow> 'a list" where
  "bs_insert x xs = insort_insert x xs"

definition bs_collect :: "'a::linorder list \<Rightarrow> 'a list" where
  "bs_collect xs = sorted_list_of_set (set xs)"

section \<open>The interface of a keyed store\<close>

text \<open>
  The contract that the clients of a map rely on (replay guard, dependency colouring, record
  engine): a lookup sees the last write of its key and no other. The laws are stated over the
  operations only, so a client lemma holds for every provider.
\<close>

locale key_map =
  fixes empty_map :: "'m"
    and put :: "'k \<Rightarrow> 'v \<Rightarrow> 'm \<Rightarrow> 'm"
    and del :: "'k \<Rightarrow> 'm \<Rightarrow> 'm"
    and look :: "'m \<Rightarrow> 'k \<Rightarrow> 'v option"
    and ok :: "'m \<Rightarrow> bool"
  assumes ok_empty: "ok empty_map"
    and ok_put: "ok m \<Longrightarrow> ok (put k v m)"
    and ok_del: "ok m \<Longrightarrow> ok (del k m)"
    and look_empty: "look empty_map k = None"
    and look_put: "ok m \<Longrightarrow> look (put k v m) k' = (if k' = k then Some v else look m k')"
    and look_del: "ok m \<Longrightarrow> look (del k m) k' = (if k' = k then None else look m k')"
begin

lemma look_put_put:
  "ok m \<Longrightarrow> look (put k v (put k u m)) k' = look (put k v m) k'"
  by (simp add: look_put ok_put)

lemma look_put_commute:
  "ok m \<Longrightarrow> k \<noteq> j \<Longrightarrow> look (put k v (put j u m)) k' = look (put j u (put k v m)) k'"
  by (simp add: look_put ok_put)

lemma ok_fold_put: "ok m \<Longrightarrow> ok (fold (\<lambda>(k, v). put k v) xs m)"
  by (induction xs arbitrary: m) (auto simp: ok_put)

lemma look_fold_put:
  "ok m \<Longrightarrow> look (fold (\<lambda>(k, v). put k v) xs m) k =
     (case map_of (rev xs) k of None \<Rightarrow> look m k | Some v \<Rightarrow> Some v)"
proof (induction xs arbitrary: m)
  case (Cons x xs)
  then show ?case
    by (cases x) (simp add: ok_put look_put map_add_def split: option.splits)
qed simp

lemma look_collect:
  "look (fold (\<lambda>(k, v). put k v) xs empty_map) k = map_of (rev xs) k"
  by (simp add: look_fold_put ok_empty look_empty split: option.splits)

end

interpretation bt: key_map "[]" bt_insert bt_remove map_of bt_ok
  by unfold_locales auto

lemma map_of_bt_collect [simp]: "map_of (bt_collect xs) = map_of (rev xs)"
  unfolding bt_collect_def by (rule ext) (rule bt.look_collect)

lemma bt_ok_collect [simp]: "bt_ok (bt_collect xs)"
  unfolding bt_collect_def by (rule bt.ok_fold_put) (rule bt.ok_empty)

lemma set_bs_insert [simp]: "set (bs_insert x xs) = insert x (set xs)"
  by (simp add: bs_insert_def set_insort_insert)

lemma sorted_bs_insert [simp]: "sorted xs \<Longrightarrow> sorted (bs_insert x xs)"
  by (simp add: bs_insert_def sorted_insort_insert)

lemma distinct_bs_insert [simp]: "distinct xs \<Longrightarrow> distinct (bs_insert x xs)"
  by (simp add: bs_insert_def distinct_insort_insert)

section \<open>Text\<close>

text \<open>
  The UTF-8 encodings of the characters with the Unicode property White_Space, which is what
  \<open>str::trim\<close> and \<open>char::is_whitespace\<close> test.
\<close>

definition utf8_spaces :: "string list" where
  "utf8_spaces =
    [[CHR 0x09], [CHR 0x0A], [CHR 0x0B], [CHR 0x0C], [CHR 0x0D], [CHR 0x20],
     [CHR 0xC2, CHR 0x85], [CHR 0xC2, CHR 0xA0], [CHR 0xE1, CHR 0x9A, CHR 0x80],
     [CHR 0xE2, CHR 0x80, CHR 0x80], [CHR 0xE2, CHR 0x80, CHR 0x81],
     [CHR 0xE2, CHR 0x80, CHR 0x82], [CHR 0xE2, CHR 0x80, CHR 0x83],
     [CHR 0xE2, CHR 0x80, CHR 0x84], [CHR 0xE2, CHR 0x80, CHR 0x85],
     [CHR 0xE2, CHR 0x80, CHR 0x86], [CHR 0xE2, CHR 0x80, CHR 0x87],
     [CHR 0xE2, CHR 0x80, CHR 0x88], [CHR 0xE2, CHR 0x80, CHR 0x89],
     [CHR 0xE2, CHR 0x80, CHR 0x8A], [CHR 0xE2, CHR 0x80, CHR 0xA8],
     [CHR 0xE2, CHR 0x80, CHR 0xA9], [CHR 0xE2, CHR 0x80, CHR 0xAF],
     [CHR 0xE2, CHR 0x81, CHR 0x9F], [CHR 0xE3, CHR 0x80, CHR 0x80]]"

text \<open>The rest of the text after one of the words, if it starts with one.\<close>

fun strip_any :: "string list \<Rightarrow> string \<Rightarrow> string option" where
  "strip_any [] s = None"
| "strip_any (w # ws) s =
     (if w \<noteq> [] \<and> take (length w) s = w then Some (drop (length w) s) else strip_any ws s)"

lemma strip_any_shorter: "strip_any ws s = Some t \<Longrightarrow> length t < length s"
proof (induction ws)
  case (Cons w ws)
  show ?case
  proof (cases "w \<noteq> [] \<and> take (length w) s = w")
    case True
    then have "0 < length s" by (cases s) auto
    with True Cons.prems show ?thesis by auto
  next
    case False
    with Cons.prems Cons.IH show ?thesis by (simp split: if_splits)
  qed
qed simp

function trim_with :: "string list \<Rightarrow> string \<Rightarrow> string" where
  "trim_with ws s = (case strip_any ws s of None \<Rightarrow> s | Some t \<Rightarrow> trim_with ws t)"
  by pat_completeness auto
termination
  by (relation "measure (\<lambda>(ws, s). length s)") (auto dest: strip_any_shorter)

declare trim_with.simps [simp del]

definition trim_start :: "string \<Rightarrow> string" where
  "trim_start s = trim_with utf8_spaces s"

definition trim_end :: "string \<Rightarrow> string" where
  "trim_end s = rev (trim_with (map rev utf8_spaces) (rev s))"

definition trim :: "string \<Rightarrow> string" where
  "trim s = trim_end (trim_start s)"

fun has_space :: "string \<Rightarrow> bool" where
  "has_space [] = False"
| "has_space (c # s) = (strip_any utf8_spaces (c # s) \<noteq> None \<or> has_space s)"

definition ascii_alnum :: "char \<Rightarrow> bool" where
  "ascii_alnum c =
     (let n = of_char c :: nat
      in (48 \<le> n \<and> n \<le> 57) \<or> (65 \<le> n \<and> n \<le> 90) \<or> (97 \<le> n \<and> n \<le> 122))"

lemma trim_with_none: "strip_any ws (trim_with ws s) = None"
proof (induction ws s rule: trim_with.induct)
  case (1 ws s)
  then show ?case by (cases "strip_any ws s") (simp_all add: trim_with.simps [of ws s])
qed

lemma trim_with_idem: "trim_with ws (trim_with ws s) = trim_with ws s"
  by (subst trim_with.simps) (simp add: trim_with_none)

lemma trim_with_Nil [simp]: "trim_with ws [] = []"
  by (subst trim_with.simps) (auto split: option.splits dest: strip_any_shorter)

lemma trim_Nil [simp]: "trim [] = []"
  by (simp add: trim_def trim_end_def trim_start_def)

text \<open>A character that no white space contains survives trimming.\<close>

lemma strip_any_keeps:
  "strip_any ws s = Some t \<Longrightarrow> c \<in> set s \<Longrightarrow> \<forall>w \<in> set ws. c \<notin> set w \<Longrightarrow> c \<in> set t"
proof (induction ws)
  case (Cons w ws)
  show ?case
  proof (cases "w \<noteq> [] \<and> take (length w) s = w")
    case True
    then have "s = w @ t" using Cons.prems(1) by (metis append_take_drop_id option.inject strip_any.simps(2))
    then show ?thesis using Cons.prems(2,3) by auto
  next
    case False
    then show ?thesis using Cons by (simp split: if_splits)
  qed
qed simp

lemma trim_with_keeps: "c \<in> set s \<Longrightarrow> \<forall>w \<in> set ws. c \<notin> set w \<Longrightarrow> c \<in> set (trim_with ws s)"
proof (induction ws s rule: trim_with.induct)
  case (1 ws s)
  then show ?case
    by (cases "strip_any ws s") (simp_all add: trim_with.simps [of ws s] strip_any_keeps)
qed

lemma trim_keeps:
  assumes "c \<in> set s" and "\<forall>w \<in> set utf8_spaces. c \<notin> set w"
  shows "c \<in> set (trim s)"
proof -
  have "c \<in> set (rev (trim_start s))"
    using trim_with_keeps [OF assms] by (simp add: trim_start_def)
  then have "c \<in> set (trim_with (map rev utf8_spaces) (rev (trim_start s)))"
    by (rule trim_with_keeps) (use assms(2) in simp)
  then show ?thesis by (simp add: trim_def trim_end_def)
qed

section \<open>Saturating 64-bit subtraction\<close>

definition i64_min :: int where "i64_min = - (2 ^ 63)"
definition i64_max :: int where "i64_max = 2 ^ 63 - 1"

definition sat_sub :: "int \<Rightarrow> int \<Rightarrow> int" where
  "sat_sub a b = max i64_min (min i64_max (a - b))"

lemma sat_sub_le_iff:
  "i64_min \<le> w \<Longrightarrow> w < i64_max \<Longrightarrow> sat_sub a b \<le> w \<longleftrightarrow> a - b \<le> w"
  by (auto simp: sat_sub_def)

section \<open>Transactions\<close>

text \<open>
  A store operation takes the state and returns its result and the next state. The body of a
  transaction returns either an error or a value with the state it would commit;
  \<open>tx\<close> commits or drops it, as \<open>Db::tx\<close> does.
\<close>

definition tx :: "('s \<Rightarrow> 'e + ('a \<times> 's)) \<Rightarrow> 's \<Rightarrow> ('e + 'a) \<times> 's" where
  "tx body s = (case body s of Inl e \<Rightarrow> (Inl e, s) | Inr (a, s') \<Rightarrow> (Inr a, s'))"

lemma tx_Inr [simp]: "fst (tx body s) = Inr a \<longleftrightarrow> (\<exists>s'. body s = Inr (a, s'))"
  by (auto simp: tx_def split: sum.splits)

lemma tx_Inl [simp]: "fst (tx body s) = Inl e \<longleftrightarrow> body s = Inl e"
  by (auto simp: tx_def split: sum.splits)

lemma tx_eq_Inr [simp]: "tx body s = (Inr a, s') \<longleftrightarrow> body s = Inr (a, s')"
  by (auto simp: tx_def split: sum.splits)

lemma tx_eq_Inl [simp]: "tx body s = (Inl e, s') \<longleftrightarrow> body s = Inl e \<and> s' = s"
  by (auto simp: tx_def split: sum.splits)

lemma tx_keeps:
  assumes "P s" and "\<And>a s'. body s = Inr (a, s') \<Longrightarrow> P s'"
  shows "P (snd (tx body s))"
  using assms by (auto simp: tx_def split: sum.splits)

section \<open>Walking a relation given as rows\<close>

text \<open>
  The recursive common table expressions of the store (\<open>ancestors\<close> of a folder, \<open>walk\<close> over
  dependencies) use UNION, so a row enters the queue once. \<open>seen\<close> holds every row produced
  so far, the queue the ones whose successors are still to be looked up.
\<close>

definition succs :: "('a \<times> 'a) list \<Rightarrow> 'a \<Rightarrow> 'a list" where
  "succs E x = map snd (filter (\<lambda>e. fst e = x) E)"

function cte_walk :: "('a \<times> 'a) list \<Rightarrow> 'a list \<Rightarrow> 'a list \<Rightarrow> 'a list" where
  "cte_walk E [] seen = seen"
| "cte_walk E (x # q) seen =
     (let new = remdups (filter (\<lambda>y. y \<notin> set seen) (succs E x))
      in cte_walk E (q @ new) (seen @ new))"
  by pat_completeness auto
termination
proof (relation "measures [\<lambda>(E, q, seen). card (snd ` set E - set seen), \<lambda>(E, q, seen). length q]")
  fix E x q seen new
  assume new: "new = remdups (filter (\<lambda>y. y \<notin> set seen) (succs E x))"
  show "((E, q @ new, seen @ new), (E, x # q, seen))
    \<in> measures [\<lambda>(E, q, seen). card (snd ` set E - set seen), \<lambda>(E, q, seen). length q]"
  proof (cases new)
    case Nil
    then show ?thesis by simp
  next
    case (Cons y ys)
    then have "y \<in> set new" by simp
    then have y: "y \<in> snd ` set E - set seen" using new by (force simp: succs_def)
    have "snd ` set E - set (seen @ new) \<subset> snd ` set E - set seen"
      using y \<open>y \<in> set new\<close> by auto
    then have "card (snd ` set E - set (seen @ new)) < card (snd ` set E - set seen)"
      by (simp add: psubset_card_mono)
    then show ?thesis by simp
  qed
qed simp

definition cte_reach :: "('a \<times> 'a) list \<Rightarrow> 'a \<Rightarrow> 'a \<Rightarrow> bool" where
  "cte_reach E x y \<longleftrightarrow> y \<in> set (cte_walk E [x] [x])"

lemma set_succs [simp]: "set (succs E x) = {y. (x, y) \<in> set E}"
  by (force simp: succs_def)

lemma cte_walk_set:
  assumes "set q \<subseteq> set seen"
    and "\<forall>x \<in> set seen - set q. \<forall>y. (x, y) \<in> set E \<longrightarrow> y \<in> set seen"
  shows "set (cte_walk E q seen) = (set E)\<^sup>* `` set seen"
  using assms
proof (induction E q seen rule: cte_walk.induct)
  case (1 E seen)
  then have "set E `` set seen \<subseteq> set seen" by auto
  then show ?case by (simp add: Image_closed_trancl)
next
  case (2 E x q seen)
  let ?new = "remdups (filter (\<lambda>y. y \<notin> set seen) (succs E x))"
  have sub: "set (q @ ?new) \<subseteq> set (seen @ ?new)" using "2.prems"(1) by auto
  have closed: "\<forall>z \<in> set (seen @ ?new) - set (q @ ?new). \<forall>y. (z, y) \<in> set E \<longrightarrow> y \<in> set (seen @ ?new)"
  proof (intro ballI allI impI)
    fix z y
    assume z: "z \<in> set (seen @ ?new) - set (q @ ?new)" and e: "(z, y) \<in> set E"
    from z have "z \<in> set seen" "z \<notin> set q" by auto
    show "y \<in> set (seen @ ?new)"
    proof (cases "z = x")
      case True
      with e show ?thesis by simp
    next
      case False
      with e "2.prems"(2) \<open>z \<in> set seen\<close> \<open>z \<notin> set q\<close> have "y \<in> set seen"
        unfolding Diff_iff set_simps by blast
      then show ?thesis by simp
    qed
  qed
  have "set (cte_walk E (q @ ?new) (seen @ ?new)) = (set E)\<^sup>* `` set (seen @ ?new)"
    using "2.IH" [OF refl] sub closed by blast
  also have "\<dots> = (set E)\<^sup>* `` set seen"
  proof
    have "x \<in> set seen" using "2.prems"(1) by simp
    show "(set E)\<^sup>* `` set (seen @ ?new) \<subseteq> (set E)\<^sup>* `` set seen"
    proof
      fix z
      assume "z \<in> (set E)\<^sup>* `` set (seen @ ?new)"
      then obtain u where u: "u \<in> set seen \<or> (x, u) \<in> set E" "(u, z) \<in> (set E)\<^sup>*" by auto
      then have "(u, z) \<in> (set E)\<^sup>* \<and> u \<in> set seen \<or> (x, z) \<in> (set E)\<^sup>*"
        by (meson converse_rtrancl_into_rtrancl)
      with \<open>x \<in> set seen\<close> show "z \<in> (set E)\<^sup>* `` set seen" by (meson ImageI)
    qed
    show "(set E)\<^sup>* `` set seen \<subseteq> (set E)\<^sup>* `` set (seen @ ?new)"
      by (rule Image_mono) auto
  qed
  finally show ?case by (simp add: Let_def)
qed

lemma cte_reach_iff: "cte_reach E x y \<longleftrightarrow> (x, y) \<in> (set E)\<^sup>*"
  unfolding cte_reach_def by (subst cte_walk_set) auto

text \<open>Adding the edge \<open>a \<rightarrow> b\<close> keeps a relation acyclic when \<open>a\<close> is not reachable from \<open>b\<close>.\<close>

lemma acyclic_insert_edge:
  "acyclic R \<Longrightarrow> (b, a) \<notin> R\<^sup>* \<Longrightarrow> acyclic (insert (a, b) R)"
  by (simp add: acyclic_insert)

section \<open>Lists of rows\<close>

lemma distinct_map_filter: "distinct (map f xs) \<Longrightarrow> distinct (map f (filter P xs))"
  by (induction xs) auto

lemma find_map_key:
  assumes "\<And>r. k (f r) = k r"
  shows "find (\<lambda>r. k r = i) (map f xs) = map_option f (find (\<lambda>r. k r = i) xs)"
  using assms by (induction xs) auto

lemma find_Some_mem: "find P xs = Some x \<Longrightarrow> x \<in> set xs \<and> P x"
  by (induction xs) (auto split: if_splits)

lemma find_None_iff_all: "find P xs = None \<longleftrightarrow> (\<forall>x \<in> set xs. \<not> P x)"
  by (induction xs) auto

lemma find_distinct_key:
  "distinct (map k xs) \<Longrightarrow> r \<in> set xs \<Longrightarrow> find (\<lambda>x. k x = k r) xs = Some r"
  by (induction xs) (auto simp: rev_image_eqI)

lemma set_map_filter_Some: "set (List.map_filter f xs) = {y. \<exists>x \<in> set xs. f x = Some y}"
  by (induction xs) (auto simp: map_filter_simps split: option.splits)

lemma map_key_if:
  "(\<And>x. P x \<Longrightarrow> k (f x) = k x) \<Longrightarrow> map k (map (\<lambda>x. if P x then f x else x) xs) = map k xs"
  by auto

lemma image_key_if:
  assumes "\<And>x. P x \<Longrightarrow> k (f x) = k x"
  shows "k ` set (map (\<lambda>x. if P x then f x else x) xs) = k ` set xs"
  using map_key_if [of P k f xs] assms by (metis list.set_map)

section \<open>\<open>find\<close> on lists\<close>

lemma find_append: "find P (xs @ ys) = (case find P xs of None \<Rightarrow> find P ys | Some x \<Rightarrow> Some x)"
  by (induction xs) auto

lemma find_map: "find P (map f xs) = map_option f (find (\<lambda>x. P (f x)) xs)"
  by (induction xs) auto

lemma find_SomeD: "find P xs = Some x \<Longrightarrow> x \<in> set xs \<and> P x"
  by (auto simp: find_Some_iff)

lemma find_in:
  assumes "x \<in> set xs" and "P x" and "\<And>y. y \<in> set xs \<Longrightarrow> P y \<Longrightarrow> y = x"
  shows "find P xs = Some x"
proof -
  have "find P xs \<noteq> None" using assms(1,2) by (auto simp: find_None_iff)
  then obtain y where y: "find P xs = Some y" by blast
  then show ?thesis using find_SomeD [OF y] assms(3) by simp
qed

lemma map_of_rev_distinct: "distinct (map fst xs) \<Longrightarrow> map_of (rev xs) = map_of xs"
  by (intro map_of_inject_set [THEN iffD2]) (simp_all add: rev_map [symmetric])

end
