(* ===== verification/Json.thy ===== *)
theory Json
  imports Prelude "HOL-Library.Word"
begin

text \<open>
  JSON values as \<open>serde_json::Value\<close> has them (the crate is built without
  \<open>preserve_order\<close>, so an object is a \<open>BTreeMap\<close>), with the accessors the source uses, and
  the decimal notation of 64-bit integers (\<open>i64::from_str\<close>, \<open>Display for i64\<close>). A number
  is an integer of the \<open>i64\<close>/\<open>u64\<close> ranges or the bits of an \<open>f64\<close>.
\<close>

datatype json =
    JNull
  | JBool bool
  | JInt int
  | JFloat "64 word"
  | JStr string
  | JArr "json list"
  | JObj "(string \<times> json) list"

fun json_get :: "json \<Rightarrow> string \<Rightarrow> json option" where
  "json_get (JObj m) k = map_of m k"
| "json_get _ k = None"

fun as_str :: "json \<Rightarrow> string option" where
  "as_str (JStr s) = Some s"
| "as_str _ = None"

fun as_i64 :: "json \<Rightarrow> int option" where
  "as_i64 (JInt n) = (if i64_min \<le> n \<and> n \<le> i64_max then Some n else None)"
| "as_i64 _ = None"

definition is_null :: "json \<Rightarrow> bool" where
  "is_null v \<longleftrightarrow> v = JNull"

text \<open>Decimal digits, most significant first.\<close>

definition digit_char :: "nat \<Rightarrow> char" where
  "digit_char d = char_of (48 + d)"

fun show_nat :: "nat \<Rightarrow> string" where
  "show_nat n = (if n < 10 then [digit_char n] else show_nat (n div 10) @ [digit_char (n mod 10)])"

declare show_nat.simps [simp del]

definition show_int :: "int \<Rightarrow> string" where
  "show_int i = (if i < 0 then CHR ''-'' # show_nat (nat (- i)) else show_nat (nat i))"

definition char_digit :: "char \<Rightarrow> nat option" where
  "char_digit c = (let n = of_char c in if 48 \<le> n \<and> n \<le> 57 then Some (n - 48) else None)"

text \<open>The value of a digit string, \<open>None\<close> at the first character that is not a digit.\<close>

fun read_digits :: "nat \<Rightarrow> string \<Rightarrow> nat option" where
  "read_digits acc [] = Some acc"
| "read_digits acc (c # s) =
     (case char_digit c of None \<Rightarrow> None | Some d \<Rightarrow> read_digits (10 * acc + d) s)"

definition in_i64 :: "int \<Rightarrow> int option" where
  "in_i64 i = (if i64_min \<le> i \<and> i \<le> i64_max then Some i else None)"

definition parse_i64 :: "string \<Rightarrow> int option" where
  "parse_i64 s =
     (case s of
        [] \<Rightarrow> None
      | c # t \<Rightarrow>
          if c = CHR ''-'' then
            (if t = [] then None else Option.bind (read_digits 0 t) (\<lambda>n. in_i64 (- int n)))
          else if c = CHR ''+'' then
            (if t = [] then None else Option.bind (read_digits 0 t) (\<lambda>n. in_i64 (int n)))
          else Option.bind (read_digits 0 s) (\<lambda>n. in_i64 (int n)))"

section \<open>Printing and reading integers\<close>

lemma char_digit_digit_char [simp]: "d < 10 \<Longrightarrow> char_digit (digit_char d) = Some d"
  by (simp add: char_digit_def digit_char_def)

lemma read_digits_append:
  "read_digits acc (s @ t) = Option.bind (read_digits acc s) (\<lambda>n. read_digits n t)"
  by (induction s arbitrary: acc) (auto split: option.splits)

lemma read_show_nat: "read_digits acc (show_nat n) = Some (acc * 10 ^ length (show_nat n) + n)"
proof (induction n arbitrary: acc rule: show_nat.induct)
  case (1 n)
  show ?case
  proof (cases "n < 10")
    case True
    then show ?thesis by (simp add: show_nat.simps [of n])
  next
    case False
    with "1.IH" have "read_digits acc (show_nat (n div 10)) =
        Some (acc * 10 ^ length (show_nat (n div 10)) + n div 10)" by simp
    with False show ?thesis
      by (simp add: show_nat.simps [of n] read_digits_append algebra_simps)
  qed
qed

lemma show_nat_neq_Nil [simp]: "show_nat n \<noteq> []"
  by (subst show_nat.simps) simp

lemma show_nat_inj:
  assumes "show_nat m = show_nat n"
  shows "m = n"
proof -
  have r: "read_digits 0 (show_nat k) = Some k" for k
    using read_show_nat [of 0 k] by (simp only: mult_zero_left add_0_left)
  have "Some m = read_digits 0 (show_nat m)" by (rule r [symmetric])
  also have "\<dots> = read_digits 0 (show_nat n)" by (rule arg_cong [OF assms])
  also have "\<dots> = Some n" by (rule r)
  finally show ?thesis by (rule option.inject [THEN iffD1])
qed

lemma char_digit_colon [simp]: "char_digit (CHR '':'') = None"
  by (simp add: char_digit_def)

lemma char_digit_minus [simp]: "char_digit (CHR ''-'') = None"
  by (simp add: char_digit_def)

lemma show_nat_digits: "ch \<in> set (show_nat n) \<Longrightarrow> char_digit ch \<noteq> None"
proof (induction n rule: show_nat.induct)
  case (1 n)
  then show ?case by (cases "n < 10") (auto simp: show_nat.simps [of n])
qed

lemma show_int_inj: "show_int i = show_int j \<longleftrightarrow> i = j"
proof
  have no: "CHR ''-'' \<notin> set (show_nat n)" for n using show_nat_digits [of "CHR ''-''" n] by auto
  have ne: "CHR ''-'' # s \<noteq> show_nat n" for s n using no [of n] by (metis list.set_intros(1))
  assume e: "show_int i = show_int j"
  show "i = j"
  proof (cases "i < 0")
    case True
    then have "j < 0" using e ne [of "show_nat (nat (- i))" "nat j"] by (auto simp: show_int_def split: if_splits)
    then have "nat (- i) = nat (- j)" using e True by (auto simp: show_int_def dest: show_nat_inj)
    then show ?thesis using True \<open>j < 0\<close> by simp
  next
    case False
    then have "\<not> j < 0" using e ne [of "show_nat (nat (- j))" "nat i"] by (auto simp: show_int_def split: if_splits)
    then have "nat i = nat j" using e False by (auto simp: show_int_def dest: show_nat_inj)
    then show ?thesis using False \<open>\<not> j < 0\<close> by simp
  qed
qed simp

end
