(* ===== verification/Types.thy ===== *)
theory Types
  imports Json
begin

text \<open>
  The domain vocabulary of \<open>src/src/types.rs\<close>: statuses, evidence, actor kinds, issues and
  the requests that change them, the claim policy, and the timestamp reader for foreign
  exports. Field names carry a prefix where HOL or another record has the name.
\<close>

definition STATUSES :: "string list" where
  "STATUSES = [''open'', ''in_progress'', ''review'', ''blocked'', ''deferred'', ''closed'']"

definition is_terminal :: "string \<Rightarrow> bool" where
  "is_terminal status \<longleftrightarrow> status = ''closed''"

record evidence =
  ev_kind :: string
  ev_value :: string

definition evidence_pr :: "string \<Rightarrow> evidence" where
  "evidence_pr url = \<lparr>ev_kind = ''pr'', ev_value = url\<rparr>"

definition evidence_commit :: "string \<Rightarrow> evidence" where
  "evidence_commit sha = \<lparr>ev_kind = ''commit'', ev_value = sha\<rparr>"

definition evidence_ack :: "string \<Rightarrow> evidence" where
  "evidence_ack reason = \<lparr>ev_kind = ''ack'', ev_value = reason\<rparr>"

datatype actor_kind = Agent | Human

definition actor_kind_parse :: "string \<Rightarrow> actor_kind option" where
  "actor_kind_parse s =
     (if s = ''agent'' then Some Agent else if s = ''human'' then Some Human else None)"

fun actor_kind_str :: "actor_kind \<Rightarrow> string" where
  "actor_kind_str Agent = ''agent''"
| "actor_kind_str Human = ''human''"

lemma actor_kind_parse_str [simp]: "actor_kind_parse (actor_kind_str k) = Some k"
  by (cases k) (simp_all add: actor_kind_parse_def)

record dependency =
  depends_on_id :: "string option"

record remote_dependency =
  rd_canonical_ref :: string
  rd_store_id :: string
  rd_remote_issue_id :: string
  rd_state :: string
  rd_asserted_at :: time
  rd_observed_at :: time
  rd_signature :: string
  rd_key_id :: string
  rd_freshness :: "string option"

record issue =
  i_id :: string
  i_title :: string
  i_description :: string
  i_status :: string
  i_priority :: int
  i_issue_type :: string
  i_labels :: "string list"
  i_metadata :: json
  i_external_ref :: "string option"
  i_dependency_count :: int
  i_dependent_count :: int
  i_dependencies :: "dependency list"
  i_evidence :: "evidence list"
  i_parent :: "string option"
  i_assignee :: "string option"
  i_actor_kind :: "string option"
  i_expires_at :: "time option"
  i_available_at :: "time option"
  i_closed_at :: "time option"
  i_created_at :: time
  i_updated_at :: time
  i_project :: string

record new_issue =
  n_title :: string
  n_description :: string
  n_issue_type :: string
  n_priority :: int
  n_labels :: "string list"
  n_parent :: "string option"
  n_id :: "string option"
  n_project :: "string option"
  n_available_at :: "time option"
  n_created_by :: "string option"
  n_metadata :: "json option"
  n_external_ref :: "string option"

record issue_patch =
  p_title :: "string option"
  p_description :: "string option"
  p_status :: "string option"
  p_priority :: "int option"
  p_append_notes :: "string option"
  p_available_at :: "time option"
  p_evidence :: "evidence list option"
  p_metadata :: "json option"

record claim_request =
  cr_id :: string
  cr_assignee :: string
  cr_actor_kind :: actor_kind
  cr_ttl_seconds :: "int option"

record claim_receipt =
  rc_id :: string
  rc_assignee :: string
  rc_actor_kind :: actor_kind
  rc_expires_at :: time

record history_event =
  he_issue_id :: string
  he_ts :: time
  he_actor :: string
  he_event :: string
  he_detail :: string

record policy =
  agent_ttl_seconds :: int
  human_ttl_business_hours :: int
  creation_grace_seconds :: int
  edit_deferral_seconds :: int
  max_ttl_seconds :: int

definition default_policy :: policy where
  "default_policy =
     \<lparr>agent_ttl_seconds = 30 * 60, human_ttl_business_hours = 48,
      creation_grace_seconds = 10 * 60, edit_deferral_seconds = 2 * 60,
      max_ttl_seconds = 7 * 24 * 3600\<rparr>"

text \<open>
  A timestamp of a foreign export: epoch seconds or an RFC 3339 string. The RFC 3339 parser is
  chrono's, so it is a parameter.
\<close>

fun ts_from :: "(string \<Rightarrow> time option) \<Rightarrow> json \<Rightarrow> time option" where
  "ts_from rfc3339 JNull = None"
| "ts_from rfc3339 (JInt n) = as_i64 (JInt n)"
| "ts_from rfc3339 (JFloat f) = as_i64 (JFloat f)"
| "ts_from rfc3339 (JStr s) = rfc3339 s"
| "ts_from rfc3339 _ = None"

definition de_ts :: "(string \<Rightarrow> time option) \<Rightarrow> json \<Rightarrow> time" where
  "de_ts rfc3339 v = (case ts_from rfc3339 v of None \<Rightarrow> 0 | Some t \<Rightarrow> t)"

definition de_ts_opt :: "(string \<Rightarrow> time option) \<Rightarrow> json \<Rightarrow> time option" where
  "de_ts_opt rfc3339 v = ts_from rfc3339 v"

record folder =
  fo_slug :: string
  fo_name :: string
  fo_parent :: "string option"
  fo_created_at :: time

record project_folder =
  pf_project :: string
  pf_folder :: string

record folder_view =
  fv_folders :: "folder list"
  fv_projects :: "project_folder list"

end
