(* ===== verification/WorkTime.thy ===== *)
theory WorkTime
  imports Types
begin

text \<open>
  Business-hours claim deadlines (\<open>src/src/time.rs\<close>). An instant is its epoch second;
  \<open>local\<close> is the wall clock of the configured offset, as seconds since 1970-01-01 00:00 of that
  clock. A calendar day is its number since 1970-01-01, a Thursday. The two loops of the source
  run until chrono's calendar overflows: both are modelled with fuel, \<open>None\<close> standing for the
  panic, and the lemmas below give the fuel that suffices.
\<close>

record work_week =
  ww_days :: "nat list"
  ww_start_hour :: nat
  ww_end_hour :: nat
  ww_utc_offset_minutes :: int

definition default_week :: work_week where
  "default_week =
     \<lparr>ww_days = [1, 2, 3, 4, 5], ww_start_hour = 9, ww_end_hour = 17, ww_utc_offset_minutes = 0\<rparr>"

text \<open>\<open>day.weekday().number_from_monday()\<close>: day 0 is a Thursday.\<close>

definition weekday :: "int \<Rightarrow> nat" where
  "weekday day = nat ((day + 3) mod 7) + 1"

definition day_of :: "time \<Rightarrow> int" where
  "day_of t = t div 86400"

definition start_of_day :: "work_week \<Rightarrow> int \<Rightarrow> time" where
  "start_of_day w day = day * 86400 + int (ww_start_hour w) * 3600"

text \<open>\<open>end_of\<close>: hour 24 is midnight after the day, which is the same second count.\<close>

definition end_of :: "work_week \<Rightarrow> int \<Rightarrow> time" where
  "end_of w day =
     (if ww_end_hour w = 24 then (day + 1) * 86400
      else day * 86400 + int (ww_end_hour w) * 3600)"

text \<open>
  The loop of \<open>working_instant_or_after\<close> over the days from \<open>t\<close>'s day on. Hours that
  \<open>and_hms_opt\<close> refuses are panics.
\<close>

fun working_from :: "work_week \<Rightarrow> nat \<Rightarrow> int \<Rightarrow> time \<Rightarrow> time option" where
  "working_from w 0 day t = None"
| "working_from w (Suc fuel) day t =
     (if weekday day \<in> set (ww_days w) then
        if 24 \<le> ww_start_hour w \<or> 24 < ww_end_hour w then None
        else if t < start_of_day w day then Some (start_of_day w day)
        else if t < end_of w day then Some t
        else working_from w fuel (day + 1) t
      else working_from w fuel (day + 1) t)"

definition working_instant_or_after :: "work_week \<Rightarrow> time \<Rightarrow> time option" where
  "working_instant_or_after w t = working_from w 8 (day_of t) t"

definition day_end :: "work_week \<Rightarrow> time \<Rightarrow> time" where
  "day_end w t = end_of w (day_of t)"

text \<open>\<open>Duration::num_minutes\<close> truncates towards zero.\<close>

definition num_minutes :: "int \<Rightarrow> int" where
  "num_minutes secs = (if secs < 0 then - ((- secs) div 60) else secs div 60)"

fun deadline_loop :: "work_week \<Rightarrow> nat \<Rightarrow> time \<Rightarrow> int \<Rightarrow> time option" where
  "deadline_loop w 0 cursor remaining = None"
| "deadline_loop w (Suc fuel) cursor remaining =
     (let e = day_end w cursor; available = num_minutes (e - cursor)
      in if remaining \<le> available then Some (cursor + remaining * 60)
         else case working_instant_or_after w (e + 60) of
                None \<Rightarrow> None
              | Some c \<Rightarrow> deadline_loop w fuel c (remaining - available))"

text \<open>A later day has at least one hour, so \<open>minutes div 60 + 2\<close> rounds suffice.\<close>

definition deadline :: "work_week \<Rightarrow> time \<Rightarrow> int \<Rightarrow> time option" where
  "deadline w now minutes =
     (let off = ww_utc_offset_minutes w * 60
      in if 86400 \<le> \<bar>off\<bar> then None else case working_instant_or_after w (now + off) of
           None \<Rightarrow> None
         | Some c \<Rightarrow>
             map_option (\<lambda>t. t - off) (deadline_loop w (nat (minutes div 60) + 3) c minutes))"

definition human_expiry :: "work_week \<Rightarrow> time \<Rightarrow> policy \<Rightarrow> time option" where
  "human_expiry w now pol = deadline w now (human_ttl_business_hours pol * 60)"

section \<open>Specification: what counts as working time\<close>

text \<open>A second of the local clock is a working second when it is inside the hours of a working day.\<close>

definition working :: "work_week \<Rightarrow> time \<Rightarrow> bool" where
  "working w t \<longleftrightarrow> weekday (day_of t) \<in> set (ww_days w) \<and>
     start_of_day w (day_of t) \<le> t \<and> t < end_of w (day_of t)"

definition working_seconds :: "work_week \<Rightarrow> time \<Rightarrow> time \<Rightarrow> nat" where
  "working_seconds w a b = card {t. a \<le> t \<and> t < b \<and> working w t}"

text \<open>A week whose hours make sense; with the round-the-clock day excluded separately.\<close>

definition week_ok :: "work_week \<Rightarrow> bool" where
  "week_ok w \<longleftrightarrow> (\<exists>d \<in> set (ww_days w). 1 \<le> d \<and> d \<le> 7) \<and>
     ww_start_hour w < ww_end_hour w \<and> ww_end_hour w \<le> 24 \<and> \<bar>ww_utc_offset_minutes w\<bar> < 1440"

definition round_the_clock :: "work_week \<Rightarrow> bool" where
  "round_the_clock w \<longleftrightarrow> ww_start_hour w = 0 \<and> ww_end_hour w = 24"

lemma end_of_eq [simp]: "end_of w day = day * 86400 + int (ww_end_hour w) * 3600"
  by (simp add: end_of_def algebra_simps)

lemma day_of_bounds: "day_of t * 86400 \<le> t \<and> t < (day_of t + 1) * 86400"
proof -
  define r where "r = t mod 86400"
  have "t = 86400 * day_of t + r" by (simp add: r_def day_of_def)
  moreover have "0 \<le> r" and "r < 86400" by (simp_all add: r_def)
  ultimately show ?thesis by (simp add: algebra_simps)
qed

lemma day_of_eqI: "d * 86400 \<le> t \<Longrightarrow> t < (d + 1) * 86400 \<Longrightarrow> day_of t = d"
  unfolding day_of_def by (rule int_div_pos_eq [of t 86400 d "t - 86400 * d"]) auto

lemma weekday_range: "1 \<le> weekday d \<and> weekday d \<le> 7"
  using pos_mod_bound [of 7 "d + 3"] pos_mod_sign [of 7 "d + 3"]
  unfolding weekday_def by linarith

lemma weekday_within:
  assumes "1 \<le> (d::nat)" and "d \<le> 7"
  shows "\<exists>k. 1 \<le> k \<and> k \<le> 7 \<and> weekday (day + int k) = d"
proof -
  define x where "x = int d - 1 - (day + 4)"
  have x: "0 \<le> x mod 7" "x mod 7 < 7" by simp_all
  define k where "k = nat (x mod 7 + 1)"
  have k: "1 \<le> k" "k \<le> 7" using x unfolding k_def by linarith+
  have "(day + int k + 3) mod 7 = (day + 4 + x mod 7) mod 7"
    using x by (simp add: k_def algebra_simps)
  also have "\<dots> = (day + 4 + x) mod 7" by (rule mod_add_right_eq)
  also have "\<dots> = int d - 1" using assms by (simp add: x_def)
  finally have "weekday (day + int k) = d" using assms by (simp add: weekday_def)
  with k show ?thesis by blast
qed

subsection \<open>The search for a working instant\<close>

lemma working_from_finds:
  assumes "k < fuel" and "weekday (day + int k) \<in> set (ww_days w)"
    and "t < start_of_day w (day + int k)"
    and "ww_start_hour w < 24" and "ww_end_hour w \<le> 24"
  shows "\<exists>c. working_from w fuel day t = Some c"
  using assms
proof (induction fuel arbitrary: day k)
  case (Suc fuel)
  show ?case
  proof (cases k)
    case 0
    with Suc.prems show ?thesis by simp
  next
    case (Suc k')
    with Suc.prems have "\<exists>c. working_from w fuel (day + 1) t = Some c"
      by (intro Suc.IH [of k']) (auto simp: algebra_simps)
    with Suc.prems show ?thesis by auto
  qed
qed simp

lemma working_instant_exists:
  assumes "week_ok w"
  shows "\<exists>c. working_instant_or_after w t = Some c"
proof -
  from assms obtain d where d: "d \<in> set (ww_days w)" "1 \<le> d" "d \<le> 7" by (auto simp: week_ok_def)
  from weekday_within [OF d(2,3)] obtain k where
    k: "1 \<le> k" "k \<le> 7" "weekday (day_of t + int k) = d" by blast
  have "t < (day_of t + 1) * 86400" using day_of_bounds by blast
  also have "\<dots> \<le> start_of_day w (day_of t + int k)"
    using k(1) by (simp add: start_of_day_def)
  finally have lt: "t < start_of_day w (day_of t + int k)" .
  show ?thesis
    unfolding working_instant_or_after_def
    by (rule working_from_finds [where k = k]) (use assms d k lt in \<open>auto simp: week_ok_def\<close>)
qed

lemma working_from_sound:
  assumes "working_from w fuel day t = Some c" and "day_of t \<le> day"
    and "\<forall>u. t \<le> u \<and> u < day * 86400 \<longrightarrow> \<not> working w u" and "ww_start_hour w < ww_end_hour w"
  shows "t \<le> c \<and> working w c \<and> (\<forall>u. t \<le> u \<and> u < c \<longrightarrow> \<not> working w u) \<and>
    (c = t \<or> c = start_of_day w (day_of c))"
  using assms
proof (induction fuel arbitrary: day)
  case (Suc fuel)
  have hours: "ww_start_hour w < 24 \<and> ww_end_hour w \<le> 24" if "weekday day \<in> set (ww_days w)"
    using Suc.prems(1) that by (auto split: if_splits)
  have in_day: "day_of u = day" if "day * 86400 \<le> u" "u < (day + 1) * 86400" for u
    using day_of_eqI that by blast
  show ?case
  proof (cases "weekday day \<in> set (ww_days w) \<and> t < end_of w day")
    case True
    let ?c = "if t < start_of_day w day then start_of_day w day else t"
    have c: "c = ?c" using Suc.prems(1) True hours by auto
    have dc: "day_of ?c = day"
      using True hours Suc.prems(2) day_of_bounds [of t]
      by (intro in_day) (auto simp: start_of_day_def not_less)
    have w: "working w ?c"
      unfolding working_def dc using True hours Suc.prems(4) by (auto simp: start_of_day_def)
    have none: "\<not> working w u" if "t \<le> u" "u < ?c" for u
    proof (cases "u < day * 86400")
      case True
      with Suc.prems(3) that show ?thesis by blast
    next
      case False
      with that hours \<open>weekday day \<in> set (ww_days w) \<and> t < end_of w day\<close> have "day_of u = day"
        by (intro in_day) (auto simp: start_of_day_def split: if_splits)
      with that show ?thesis by (auto simp: working_def split: if_splits)
    qed
    from c w none dc show ?thesis by auto
  next
    case False
    have rec: "working_from w fuel (day + 1) t = Some c"
    proof (cases "weekday day \<in> set (ww_days w)")
      case True
      with False hours have "\<not> t < start_of_day w day" using Suc.prems(4)
        by (auto simp: start_of_day_def)
      with True False hours Suc.prems(1) show ?thesis by (simp split: if_splits)
    next
      case False
      with Suc.prems(1) show ?thesis by simp
    qed
    have none: "\<forall>u. t \<le> u \<and> u < (day + 1) * 86400 \<longrightarrow> \<not> working w u"
    proof (intro allI impI)
      fix u
      assume u: "t \<le> u \<and> u < (day + 1) * 86400"
      show "\<not> working w u"
      proof (cases "u < day * 86400")
        case True
        with Suc.prems(3) u show ?thesis by blast
      next
        case f: False
        with u have "day_of u = day" by (intro in_day) auto
        with False u show ?thesis by (auto simp: working_def)
      qed
    qed
    have "day_of t \<le> day + 1" using Suc.prems(2) by simp
    from Suc.IH [OF rec this none Suc.prems(4)] show ?thesis .
  qed
qed simp

lemma working_instant_sound:
  assumes "working_instant_or_after w t = Some c" and "week_ok w"
  shows "t \<le> c" and "working w c" and "\<And>u. t \<le> u \<Longrightarrow> u < c \<Longrightarrow> \<not> working w u"
    and "c = t \<or> c = start_of_day w (day_of c)"
proof -
  have "\<forall>u. t \<le> u \<and> u < day_of t * 86400 \<longrightarrow> \<not> working w u"
    using day_of_bounds [of t] by auto
  then have "t \<le> c \<and> working w c \<and> (\<forall>u. t \<le> u \<and> u < c \<longrightarrow> \<not> working w u) \<and>
      (c = t \<or> c = start_of_day w (day_of c))"
    using assms by (intro working_from_sound) (auto simp: working_instant_or_after_def week_ok_def)
  then show "t \<le> c" and "working w c" and "\<And>u. t \<le> u \<Longrightarrow> u < c \<Longrightarrow> \<not> working w u"
    and "c = t \<or> c = start_of_day w (day_of c)" by blast+
qed


subsection \<open>Counting working seconds\<close>

lemma working_seconds_split:
  assumes "a \<le> b" and "b \<le> c"
  shows "working_seconds w a c = working_seconds w a b + working_seconds w b c"
proof -
  let ?S = "\<lambda>x y. {t. x \<le> t \<and> t < y \<and> working w t}"
  have fin: "finite (?S x y)" for x y
    by (rule finite_subset [of _ "{x..<y}"]) auto
  have "?S a c = ?S a b \<union> ?S b c" using assms by auto
  moreover have "?S a b \<inter> ?S b c = {}" by auto
  ultimately show ?thesis
    unfolding working_seconds_def using card_Un_disjoint [OF fin fin] by simp
qed

lemma working_seconds_none:
  assumes "\<And>u. a \<le> u \<Longrightarrow> u < b \<Longrightarrow> \<not> working w u"
  shows "working_seconds w a b = 0"
proof -
  have "{t. a \<le> t \<and> t < b \<and> working w t} = {}" using assms by blast
  then show ?thesis unfolding working_seconds_def by (simp only: card.empty)
qed

lemma working_seconds_all:
  assumes "a \<le> b" and "\<And>u. a \<le> u \<Longrightarrow> u < b \<Longrightarrow> working w u"
  shows "int (working_seconds w a b) = b - a"
proof -
  have "{t. a \<le> t \<and> t < b \<and> working w t} = {a..<b}" using assms(2) by auto
  then show ?thesis using assms(1) by (simp add: working_seconds_def)
qed

lemma working_until_day_end:
  assumes "working w c" and "c \<le> u" and "u < day_end w c" and "week_ok w"
  shows "working w u"
proof -
  have "u < (day_of c + 1) * 86400"
    using assms(3,4) by (simp add: day_end_def week_ok_def)
  then have "day_of u = day_of c"
    using assms(2) day_of_bounds [of c] by (intro day_of_eqI) auto
  with assms show ?thesis by (auto simp: working_def day_end_def)
qed

lemma num_minutes_exact: "60 dvd d \<Longrightarrow> num_minutes d * 60 = d"
  by (auto simp: num_minutes_def dvd_def)

lemma day_end_aligned: "60 dvd day_end w c"
proof -
  have "day_end w c = 60 * (day_of c * 1440 + int (ww_end_hour w) * 60)" by (simp add: day_end_def)
  then show ?thesis by (rule dvdI)
qed

lemma start_aligned: "60 dvd start_of_day w d"
proof -
  have "start_of_day w d = 60 * (d * 1440 + int (ww_start_hour w) * 60)"
    by (simp add: start_of_day_def)
  then show ?thesis by (rule dvdI)
qed

lemma closing_minute_idle:
  assumes "week_ok w" and "\<not> round_the_clock w" and "working w c"
    and "day_end w c \<le> u" and "u < day_end w c + 60"
  shows "\<not> working w u"
proof (cases "ww_end_hour w = 24")
  case True
  then have "day_of u = day_of c + 1"
    using assms(4,5) by (intro day_of_eqI) (auto simp: day_end_def)
  with True assms show ?thesis
    by (auto simp: working_def start_of_day_def round_the_clock_def day_end_def)
next
  case False
  then have "day_of u = day_of c"
    using assms(1,4,5) by (intro day_of_eqI) (auto simp: day_end_def week_ok_def)
  with assms show ?thesis by (auto simp: working_def day_end_def)
qed

lemma deadline_loop_counts:
  assumes "deadline_loop w fuel c m = Some d" and "working w c" and "60 dvd c" and "0 \<le> m"
    and "week_ok w" and "\<not> round_the_clock w"
  shows "c \<le> d \<and> int (working_seconds w c d) = m * 60 \<and>
    (0 < m \<longrightarrow> working w (d - 1))"
  using assms
proof (induction fuel arbitrary: c m)
  case (Suc fuel)
  define e where "e = day_end w c"
  have ce: "c < e" using Suc.prems(2) by (simp add: e_def working_def day_end_def)
  have avail: "num_minutes (e - c) * 60 = e - c"
    by (rule num_minutes_exact) (use day_end_aligned Suc.prems(3) in \<open>simp add: e_def\<close>)
  have inside: "working w u" if "c \<le> u" "u < e" for u
    using working_until_day_end [OF Suc.prems(2)] that Suc.prems(5) by (simp add: e_def)
  show ?case
  proof (cases "m \<le> num_minutes (e - c)")
    case True
    then have d: "d = c + m * 60" using Suc.prems(1) by (simp add: Let_def e_def)
    have "d \<le> e" using True avail d by linarith
    have "int (working_seconds w c d) = d - c"
      by (rule working_seconds_all) (use d Suc.prems(4) \<open>d \<le> e\<close> inside in auto)
    with d Suc.prems(4) \<open>d \<le> e\<close> inside show ?thesis by auto
  next
    case False
    then obtain c' where c': "working_instant_or_after w (e + 60) = Some c'"
      and rec: "deadline_loop w fuel c' (m - num_minutes (e - c)) = Some d"
      using Suc.prems(1) by (auto simp: Let_def e_def split: option.splits)
    note ws = working_instant_sound [OF c' Suc.prems(5)]
    have "60 dvd e + 60" using day_end_aligned [of w c] by (simp add: e_def)
    then have al: "60 dvd c'" using ws(4) by (metis start_aligned)
    have IH: "c' \<le> d \<and> int (working_seconds w c' d) = (m - num_minutes (e - c)) * 60 \<and>
        (0 < m - num_minutes (e - c) \<longrightarrow> working w (d - 1))"
      by (rule Suc.IH [OF rec ws(2) al]) (use False Suc.prems in auto)
    have none: "\<not> working w u" if "e \<le> u" "u < c'" for u
      using closing_minute_idle [OF Suc.prems(5,6,2)] ws(3) that unfolding e_def
      by (cases "u < e + 60") (auto simp: e_def)
    have "e + 60 \<le> c'" by (rule ws(1))
    have "working_seconds w c d = working_seconds w c e + (working_seconds w e c' + working_seconds w c' d)"
      using working_seconds_split [of c e d] working_seconds_split [of e c' d] ce IH \<open>e + 60 \<le> c'\<close>
      by simp
    moreover have "int (working_seconds w c e) = e - c"
      by (rule working_seconds_all) (use ce inside in auto)
    moreover have "working_seconds w e c' = 0" by (rule working_seconds_none) (rule none)
    ultimately have "int (working_seconds w c d) = m * 60"
      using IH avail by (simp add: algebra_simps)
    with IH ce \<open>e + 60 \<le> c'\<close> False show ?thesis by auto
  qed
qed simp

subsection \<open>Enough rounds\<close>

lemma later_day_has_an_hour:
  assumes "week_ok w" and "working w c" and "working_instant_or_after w (day_end w c + 60) = Some c'"
  shows "60 \<le> num_minutes (day_end w c' - c')"
proof -
  note ws = working_instant_sound [OF assms(3,1)]
  have h: "ww_start_hour w < ww_end_hour w" "ww_end_hour w \<le> 24" using assms(1) by (auto simp: week_ok_def)
  have from_start: "3600 \<le> day_end w c' - c'" if "c' = start_of_day w (day_of c')"
  proof -
    have "day_end w c' - c' = (int (ww_end_hour w) - int (ww_start_hour w)) * 3600"
      using that by (simp add: day_end_def start_of_day_def algebra_simps)
    with h show ?thesis by simp
  qed
  have "3600 \<le> day_end w c' - c'"
  proof (cases "c' = day_end w c + 60")
    case True
    show ?thesis
    proof (cases "ww_end_hour w = 24")
      case e: True
      with True have "day_of c' = day_of c + 1"
        by (intro day_of_eqI) (auto simp: day_end_def)
      with True e show ?thesis by (simp add: day_end_def)
    next
      case False
      with True h have "day_of c' = day_of c" by (intro day_of_eqI) (auto simp: day_end_def)
      with True ws(2) show ?thesis by (simp add: working_def day_end_def)
    qed
  next
    case False
    with ws(4) from_start show ?thesis by blast
  qed
  then show ?thesis by (simp add: num_minutes_def)
qed

lemma deadline_loop_later:
  assumes "week_ok w" and "working w c" and "60 \<le> num_minutes (day_end w c - c)"
    and "m < 60 * int fuel" and "0 < fuel"
  shows "\<exists>d. deadline_loop w fuel c m = Some d"
  using assms
proof (induction fuel arbitrary: c m)
  case (Suc fuel)
  show ?case
  proof (cases "m \<le> num_minutes (day_end w c - c)")
    case True
    then show ?thesis by (simp add: Let_def)
  next
    case False
    from working_instant_exists [OF Suc.prems(1)] obtain c' where
      c': "working_instant_or_after w (day_end w c + 60) = Some c'" by blast
    have "0 < fuel" using False Suc.prems(3,4) by (cases fuel) auto
    then have "\<exists>d. deadline_loop w fuel c' (m - num_minutes (day_end w c - c)) = Some d"
      using Suc.prems working_instant_sound(2) [OF c' Suc.prems(1)]
        later_day_has_an_hour [OF Suc.prems(1,2) c']
      by (intro Suc.IH) auto
    with False c' show ?thesis by (simp add: Let_def)
  qed
qed simp

lemma deadline_terminates:
  assumes "week_ok w" and "0 \<le> m"
  shows "\<exists>d. deadline w now m = Some d"
proof -
  define off where "off = ww_utc_offset_minutes w * 60"
  have off: "\<not> 86400 \<le> \<bar>off\<bar>" using assms(1) by (auto simp: week_ok_def off_def abs_mult)
  from working_instant_exists [OF assms(1)] obtain c where
    c: "working_instant_or_after w (now + off) = Some c" by blast
  note ws = working_instant_sound [OF c assms(1)]
  define e where "e = day_end w c"
  have ce: "c < e" using ws(2) by (simp add: e_def working_def day_end_def)
  obtain k where k: "nat (m div 60) + 3 = Suc k" "k = nat (m div 60) + 2" by simp
  have "\<exists>d. deadline_loop w (Suc k) c m = Some d"
  proof (cases "m \<le> num_minutes (e - c)")
    case True
    then show ?thesis by (simp add: Let_def e_def)
  next
    case False
    from working_instant_exists [OF assms(1)] obtain c' where
      c': "working_instant_or_after w (e + 60) = Some c'" by blast
    have "0 \<le> num_minutes (e - c)" using ce by (simp add: num_minutes_def)
    then have "m - num_minutes (e - c) < 60 * int k"
      using assms(2) k(2) by simp linarith
    then have "\<exists>d. deadline_loop w k c' (m - num_minutes (e - c)) = Some d"
      using working_instant_sound(2) [OF c' assms(1)] assms(1)
        later_day_has_an_hour [OF assms(1) ws(2)] c'
      by (intro deadline_loop_later) (auto simp: e_def k(2))
    with False c' show ?thesis by (simp add: Let_def e_def)
  qed
  then obtain d where "deadline_loop w (nat (m div 60) + 3) c m = Some d" unfolding k(1) by blast
  with c off show ?thesis by (simp add: deadline_def off_def Let_def)
qed

lemma deadline_counts:
  assumes "deadline w now m = Some d" and "week_ok w" and "\<not> round_the_clock w"
    and "60 dvd now" and "0 \<le> m"
  defines "off \<equiv> ww_utc_offset_minutes w * 60"
  shows "now \<le> d \<and> int (working_seconds w (now + off) (d + off)) = m * 60 \<and>
    (0 < m \<longrightarrow> working w (d + off - 1))"
proof -
  obtain c d' where c: "working_instant_or_after w (now + off) = Some c"
    and loop: "deadline_loop w (nat (m div 60) + 3) c m = Some d'" and d: "d = d' - off"
    using assms(1) by (auto simp: deadline_def off_def Let_def split: if_splits option.splits)
  note ws = working_instant_sound [OF c assms(2)]
  have "60 dvd now + off" using assms(4) by (simp add: off_def)
  then have "60 dvd c" using ws(4) by (metis start_aligned)
  from deadline_loop_counts [OF loop ws(2) this assms(5,2,3)] have
    *: "c \<le> d'" "int (working_seconds w c d') = m * 60" "0 < m \<longrightarrow> working w (d' - 1)" by auto
  have "working_seconds w (now + off) d' = working_seconds w (now + off) c + working_seconds w c d'"
    by (rule working_seconds_split) (use ws(1) * in auto)
  moreover have "working_seconds w (now + off) c = 0" by (rule working_seconds_none) (rule ws(3))
  ultimately show ?thesis using * ws(1) by (auto simp: d)
qed

end
