(* ===== verification/CanonicalRef.thy ===== *)
theory CanonicalRef
  imports Types
begin

text \<open>
  Canonical cross-store references, \<open>marbles://store_id/company/project/issue_id\<close>: the parser,
  its named errors and the display form (the first half of \<open>src/src/refs.rs\<close>). Text is a byte
  string; the characters the parser looks for are ASCII, so splitting bytes and splitting
  characters agree.
\<close>

datatype ref_error =
    MissingScheme
  | UnknownScheme string
  | Whitespace
  | TrailingSlash
  | EmptySegment string
  | MissingSegment string
  | ExtraSegments nat
  | InvalidSegment string string
  | EmptyStoreId

record canonical_ref =
  cf_store_id :: string
  cf_company :: string
  cf_project :: string
  cf_issue_id :: string

definition strip_prefix :: "string \<Rightarrow> string \<Rightarrow> string option" where
  "strip_prefix p s = (if take (length p) s = p then Some (drop (length p) s) else None)"

text \<open>\<open>str::split_once\<close>: the text before and after the first occurrence.\<close>

fun split_once :: "string \<Rightarrow> string \<Rightarrow> (string \<times> string) option" where
  "split_once p [] = (if p = [] then Some ([], []) else None)"
| "split_once p (c # s) =
     (case strip_prefix p (c # s) of
        Some r \<Rightarrow> Some ([], r)
      | None \<Rightarrow> map_option (\<lambda>(a, b). (c # a, b)) (split_once p s))"

fun split_char :: "char \<Rightarrow> string \<Rightarrow> string list" where
  "split_char c [] = [[]]"
| "split_char c (x # s) =
     (if x = c then [] # split_char c s
      else case split_char c s of [] \<Rightarrow> [[x]] | p # ps \<Rightarrow> (x # p) # ps)"

fun join_char :: "char \<Rightarrow> string list \<Rightarrow> string" where
  "join_char c [] = []"
| "join_char c [p] = p"
| "join_char c (p # q # ps) = p @ c # join_char c (q # ps)"

definition SEGMENTS :: "string list" where
  "SEGMENTS = [''store_id'', ''company'', ''project'', ''issue_id'']"

definition segment_name :: "nat \<Rightarrow> string" where
  "segment_name i = (if i < 4 then SEGMENTS ! i else ''path'')"

definition segment_char :: "char \<Rightarrow> bool" where
  "segment_char b \<longleftrightarrow> ascii_alnum b \<or> b = CHR ''_'' \<or> b = CHR ''-'' \<or> b = CHR ''.''"

definition validate_segment :: "string \<Rightarrow> string \<Rightarrow> ref_error option" where
  "validate_segment segment value =
     (if value = [] \<or> value = ''.'' \<or> value = ''..'' \<or> \<not> list_all segment_char value
      then Some (InvalidSegment segment value) else None)"

text \<open>The first problem of a loop that returns at the first problem.\<close>

fun first_problem :: "'e option list \<Rightarrow> 'e option" where
  "first_problem [] = None"
| "first_problem (None # es) = first_problem es"
| "first_problem (Some e # es) = Some e"

definition parse_path :: "string \<Rightarrow> ref_error + canonical_ref" where
  "parse_path rest =
     (if rest = [] then Inl EmptyStoreId
      else if last rest = CHR ''/'' then Inl TrailingSlash
      else let parts = split_char CHR ''/'' rest; n = length parts in
        case first_problem (map (\<lambda>(i, p). if p = [] then Some (EmptySegment (segment_name i)) else None)
            (enumerate 0 parts)) of
          Some e \<Rightarrow> Inl e
        | None \<Rightarrow>
            if n < 4 then Inl (MissingSegment (SEGMENTS ! n))
            else if 4 < n then Inl (ExtraSegments n)
            else case first_problem (map (\<lambda>(name, p). validate_segment name p) (zip SEGMENTS parts)) of
              Some e \<Rightarrow> Inl e
            | None \<Rightarrow>
                if parts ! 0 = [] then Inl EmptyStoreId
                else Inr \<lparr>cf_store_id = parts ! 0, cf_company = parts ! 1,
                          cf_project = parts ! 2, cf_issue_id = parts ! 3\<rparr>)"

definition parse_ref :: "string \<Rightarrow> ref_error + canonical_ref" where
  "parse_ref input =
     (if has_space input then Inl Whitespace
      else case strip_prefix ''marbles://'' input of
        Some rest \<Rightarrow> parse_path rest
      | None \<Rightarrow>
          (case split_once ''://'' input of
             Some (scheme, _) \<Rightarrow> Inl (UnknownScheme scheme)
           | None \<Rightarrow> Inl MissingScheme))"

definition display_ref :: "canonical_ref \<Rightarrow> string" where
  "display_ref r = ''marbles://'' @ cf_store_id r @ ''/'' @ cf_company r @ ''/'' @
     cf_project r @ ''/'' @ cf_issue_id r"

definition ref_names :: "canonical_ref \<Rightarrow> string \<Rightarrow> string \<Rightarrow> bool" where
  "ref_names r store_id issue_id \<longleftrightarrow> cf_store_id r = store_id \<and> cf_issue_id r = issue_id"

section \<open>Parsing and display are inverse\<close>

definition segment_ok :: "string \<Rightarrow> bool" where
  "segment_ok v \<longleftrightarrow> v \<noteq> [] \<and> v \<noteq> ''.'' \<and> v \<noteq> ''..'' \<and> list_all segment_char v"

definition ref_ok :: "canonical_ref \<Rightarrow> bool" where
  "ref_ok r \<longleftrightarrow> segment_ok (cf_store_id r) \<and> segment_ok (cf_company r) \<and>
     segment_ok (cf_project r) \<and> segment_ok (cf_issue_id r)"

lemma split_char_neq_Nil [simp]: "split_char c s \<noteq> []"
  by (induction s) (auto split: list.splits)

lemma join_split_char: "join_char c (split_char c s) = s"
proof (induction s)
  case (Cons x s)
  obtain p ps where ps: "split_char c s = p # ps" by (cases "split_char c s") auto
  with Cons show ?case by (cases ps) auto
qed simp

lemma split_char_free: "c \<notin> set p \<Longrightarrow> split_char c p = [p]"
  by (induction p) auto

lemma split_char_append: "c \<notin> set p \<Longrightarrow> split_char c (p @ c # s) = p # split_char c s"
  by (induction p) auto

lemma first_problem_None [simp]: "first_problem es = None \<longleftrightarrow> (\<forall>e \<in> set es. e = None)"
  by (induction es rule: first_problem.induct) auto

lemma validate_segment_None [simp]: "validate_segment n v = None \<longleftrightarrow> segment_ok v"
  by (auto simp: validate_segment_def segment_ok_def)

lemma list4: "length xs = 4 \<Longrightarrow> xs = [xs ! 0, xs ! 1, xs ! 2, xs ! 3]"
  by (auto simp: eval_nat_numeral length_Suc_conv)

lemma parse_path_Inr:
  assumes "parse_path rest = Inr r"
  shows "split_char CHR ''/'' rest = [cf_store_id r, cf_company r, cf_project r, cf_issue_id r]"
    and "ref_ok r"
proof -
  let ?ps = "split_char CHR ''/'' rest"
  have n: "length ?ps = 4" and r: "r = \<lparr>cf_store_id = ?ps ! 0, cf_company = ?ps ! 1,
        cf_project = ?ps ! 2, cf_issue_id = ?ps ! 3\<rparr>"
    and v: "\<forall>e \<in> set (map (\<lambda>(name, p). validate_segment name p) (zip SEGMENTS ?ps)). e = None"
    using assms
    by (auto simp: parse_path_def Let_def simp del: set_map split: if_splits option.splits)
  show "?ps = [cf_store_id r, cf_company r, cf_project r, cf_issue_id r]"
    using list4 [OF n] r by simp
  then show "ref_ok r" using v by (simp add: SEGMENTS_def ref_ok_def)
qed

lemma segment_ok_no_slash: "segment_ok v \<Longrightarrow> CHR ''/'' \<notin> set v"
  by (auto simp: segment_ok_def list_all_iff segment_char_def ascii_alnum_def)

lemma strip_prefix_Some [simp]: "strip_prefix p s = Some r \<longleftrightarrow> s = p @ r"
proof
  assume "strip_prefix p s = Some r"
  then have "take (length p) s = p" and "drop (length p) s = r"
    by (auto simp: strip_prefix_def split: if_splits)
  then show "s = p @ r" by (metis append_take_drop_id)
qed (simp add: strip_prefix_def)

lemma strip_any_hd: "strip_any ws (c # s) \<noteq> None \<Longrightarrow> c \<in> hd ` set ws"
proof (induction ws)
  case (Cons w ws)
  show ?case
  proof (cases "w \<noteq> [] \<and> take (length w) (c # s) = w")
    case True
    then have "hd w = c" by (cases w) auto
    then show ?thesis by simp
  next
    case False
    with Cons show ?thesis by (simp split: if_splits)
  qed
qed simp

lemma has_space_hd: "has_space s \<Longrightarrow> \<exists>c \<in> set s. c \<in> hd ` set utf8_spaces"
proof (induction s)
  case (Cons c s)
  then show ?case by (cases "has_space s") (use strip_any_hd [of utf8_spaces c s] in auto)
qed simp

lemma space_heads:
  "hd ` set utf8_spaces = {CHR 0x09, CHR 0x0A, CHR 0x0B, CHR 0x0C, CHR 0x0D, CHR 0x20,
     CHR 0xC2, CHR 0xE1, CHR 0xE2, CHR 0xE3}"
  unfolding utf8_spaces_def by auto

lemma segment_char_plain: "segment_char c \<or> c = CHR ''/'' \<or> c = CHR '':'' \<Longrightarrow> c \<notin> hd ` set utf8_spaces"
  unfolding space_heads by (auto simp: segment_char_def ascii_alnum_def)

lemma parse_ref_Inr:
  "parse_ref s = Inr r \<Longrightarrow> \<exists>rest. s = ''marbles://'' @ rest \<and> parse_path rest = Inr r"
  unfolding parse_ref_def
  by (cases "strip_prefix ''marbles://'' s") (auto split: if_splits option.splits)

lemma display_parse:
  assumes "parse_ref s = Inr r"
  shows "display_ref r = s"
proof -
  from parse_ref_Inr [OF assms] obtain rest
    where s: "s = ''marbles://'' @ rest" and p: "parse_path rest = Inr r" by blast
  have "rest = join_char CHR ''/'' [cf_store_id r, cf_company r, cf_project r, cf_issue_id r]"
    using join_split_char [of "CHR ''/''" rest] parse_path_Inr(1) [OF p] by simp
  then show ?thesis unfolding s by (simp add: display_ref_def)
qed

lemma display_ref_plain:
  assumes "ref_ok r"
  shows "\<not> has_space (display_ref r)"
proof
  assume "has_space (display_ref r)"
  then obtain c where c: "c \<in> set (display_ref r)" "c \<in> hd ` set utf8_spaces"
    using has_space_hd by blast
  have scheme: "\<forall>c \<in> set ''marbles://''. segment_char c \<or> c = CHR ''/'' \<or> c = CHR '':''"
    by (simp add: segment_char_def ascii_alnum_def)
  have "segment_char c \<or> c = CHR ''/'' \<or> c = CHR '':''"
    using c(1) assms scheme
    unfolding display_ref_def ref_ok_def segment_ok_def list_all_iff set_append by auto
  with segment_char_plain c(2) show False by blast
qed

lemma parse_path_display:
  assumes "ref_ok r"
  shows "parse_path (cf_store_id r @ ''/'' @ cf_company r @ ''/'' @ cf_project r @ ''/'' @ cf_issue_id r)
    = Inr r"
proof -
  let ?p = "cf_store_id r @ ''/'' @ cf_company r @ ''/'' @ cf_project r @ ''/'' @ cf_issue_id r"
  have ok: "segment_ok (cf_store_id r)" "segment_ok (cf_company r)" "segment_ok (cf_project r)"
    "segment_ok (cf_issue_id r)" using assms by (auto simp: ref_ok_def)
  note ns = ok [THEN segment_ok_no_slash]
  have ne: "cf_store_id r \<noteq> []" "cf_company r \<noteq> []" "cf_project r \<noteq> []" "cf_issue_id r \<noteq> []"
    using ok by (auto simp: segment_ok_def)
  have sp: "split_char CHR ''/'' ?p = [cf_store_id r, cf_company r, cf_project r, cf_issue_id r]"
    using ns by (simp add: split_char_append split_char_free)
  have "last ?p \<noteq> CHR ''/''" using ne ns by (metis append_is_Nil_conv last_appendR last_in_set)
  moreover have val: "first_problem (map (\<lambda>(name, p). validate_segment name p) (zip SEGMENTS
      [cf_store_id r, cf_company r, cf_project r, cf_issue_id r])) = None"
    using ok by (simp add: SEGMENTS_def)
  moreover have "first_problem (map (\<lambda>(i, p). if p = [] then Some (EmptySegment (segment_name i)) else None)
      (enumerate 0 [cf_store_id r, cf_company r, cf_project r, cf_issue_id r])) = None"
    using ne by simp
  ultimately show ?thesis
    using ne unfolding parse_path_def sp Let_def
    by (simp add: eval_nat_numeral del: first_problem_None)
qed

lemma parse_display:
  assumes "ref_ok r"
  shows "parse_ref (display_ref r) = Inr r"
proof -
  have "strip_prefix ''marbles://'' (display_ref r)
      = Some (cf_store_id r @ ''/'' @ cf_company r @ ''/'' @ cf_project r @ ''/'' @ cf_issue_id r)"
    unfolding strip_prefix_Some display_ref_def ..
  with display_ref_plain [OF assms] parse_path_display [OF assms] show ?thesis
    by (simp add: parse_ref_def del: strip_prefix_Some)
qed

lemma parse_ref_ok: "parse_ref s = Inr r \<Longrightarrow> ref_ok r"
  using parse_ref_Inr parse_path_Inr(2) by blast

end
