(* ===== verification/Store.thy ===== *)
theory Store
  imports WorkTime CanonicalRef
begin

text \<open>
  The database of \<open>src/src/db.rs\<close> as a state: one list per table, in insertion order, plus the
  fields of \<open>struct Db\<close> that its operations read. The error type is \<open>store.rs\<close>'s; a message
  built by \<open>format!\<close> is a constructor that carries its arguments. JSON columns
  (\<open>labels_json\<close>, \<open>evidence_json\<close>, \<open>metadata_json\<close>) hold the value they encode. A row
  selection without ORDER BY is in table order. \<open>outbound_event.store_id\<close> is filled from
  \<open>store_meta\<close>, whose row every constructor of \<open>Db\<close> writes before the value exists.
\<close>

datatype sql_error =
    UniqueViolation string
  | QueryReturnedNoRows
  | InvalidColumnType string

datatype bad_message =
    FolderSlugEmpty
  | FolderNameEmpty
  | FolderOwnParent
  | NoFolder string
  | FolderDescendant string
  | CreateNeedsProject
  | ParentElsewhere string string string
  | IssueExists string
  | CreateMetadataNotObject
  | PatchMetadataNotObject
  | NotClaimedBy string string
  | StillWaitsOn string string
  | StoreIdEmpty
  | StoreIdFrozen
  | InvalidCanonicalRef ref_error
  | RefNamesOther string string string
  | UnsafeCompany
  | PlanCycle string
  | EngineError string
  | LostRace string

datatype error =
    Sqlite sql_error
  | NotFound string
  | NoProject string
  | BadStatus string
  | AlreadyClaimed string string
  | CycleError string string
  | Bad bad_message
  | NoEvidence string
  | Panic string  \<comment> \<open>an \<open>expect\<close> that fails\<close>

section \<open>Rows\<close>

record project_row =
  pr_slug :: string
  pr_root :: string
  pr_prefix :: string
  pr_created_at :: time

record folder_row =
  fr_slug :: string
  fr_name :: string
  fr_parent :: "string option"
  fr_created_at :: time

record project_folder_row =
  pfr_project :: string
  pfr_folder :: string
  pfr_assigned_at :: time

record issue_row =
  ir_id :: string
  ir_project :: string
  ir_title :: string
  ir_description :: string
  ir_status :: string
  ir_issue_type :: string
  ir_priority :: int
  ir_parent :: "string option"
  ir_labels :: "string list"
  ir_assignee :: "string option"
  ir_actor_kind :: "string option"
  ir_claimed_at :: "time option"
  ir_expires_at :: "time option"
  ir_available_at :: "time option"
  ir_created_by :: string
  ir_created_at :: time
  ir_updated_at :: time
  ir_closed_at :: "time option"
  ir_close_reason :: "string option"
  ir_evidence :: "evidence list"
  ir_metadata :: json
  ir_external_ref :: "string option"

record history_row =
  hr_seq :: int
  hr_issue_id :: string
  hr_ts :: time
  hr_actor :: string
  hr_event :: string
  hr_detail :: string

record outbound_row =
  or_seq :: int
  or_store_id :: string
  or_issue_id :: string
  or_project :: string
  or_occurred_at :: time
  or_event :: string
  or_delivered_at :: "time option"
  or_attempts :: int
  or_next_attempt_at :: time
  or_last_error :: "string option"

text \<open>\<open>remote_dep\<close>: the owner with the stored reference; the primary key is the pair.\<close>

type_synonym remote_dep_row = "string \<times> remote_dependency"

record outbound_event =
  oe_seq :: int
  oe_store_id :: string
  oe_issue_id :: string
  oe_project :: string
  oe_occurred_at :: time
  oe_event :: string
  oe_attempts :: int

record db =
  db_projects :: "project_row list"
  db_folders :: "folder_row list"
  db_project_folders :: "project_folder_row list"
  db_issues :: "issue_row list"
  db_deps :: "(string \<times> string) list"
  db_remote_deps :: "remote_dep_row list"
  db_history :: "history_row list"
  db_history_seq :: int  \<comment> \<open>the AUTOINCREMENT counter of \<open>history\<close>\<close>
  db_outbound :: "outbound_row list"
  db_store_id :: string
  db_policy :: policy
  db_week :: work_week

definition empty_db :: "string \<Rightarrow> db" where
  "empty_db store_id =
     \<lparr>db_projects = [], db_folders = [], db_project_folders = [], db_issues = [], db_deps = [],
      db_remote_deps = [], db_history = [], db_history_seq = 0, db_outbound = [],
      db_store_id = store_id, db_policy = default_policy, db_week = default_week\<rparr>"

section \<open>Table access\<close>

definition find_issue :: "db \<Rightarrow> string \<Rightarrow> issue_row option" where
  "find_issue s i = find (\<lambda>r. ir_id r = i) (db_issues s)"

definition upd_issue :: "string \<Rightarrow> (issue_row \<Rightarrow> issue_row) \<Rightarrow> db \<Rightarrow> db" where
  "upd_issue i f s = s\<lparr>db_issues := map (\<lambda>r. if ir_id r = i then f r else r) (db_issues s)\<rparr>"

definition find_project :: "db \<Rightarrow> string \<Rightarrow> project_row option" where
  "find_project s slug = find (\<lambda>p. pr_slug p = slug) (db_projects s)"

definition find_folder :: "db \<Rightarrow> string \<Rightarrow> folder_row option" where
  "find_folder s slug = find (\<lambda>f. fr_slug f = slug) (db_folders s)"

definition project_for_issue :: "db \<Rightarrow> string \<Rightarrow> error + string" where
  "project_for_issue s i =
     (case find_issue s i of None \<Rightarrow> Inl (NotFound i) | Some r \<Rightarrow> Inr (ir_project r))"

definition prefix_for :: "db \<Rightarrow> string \<Rightarrow> error + string" where
  "prefix_for s project =
     (case find_project s project of None \<Rightarrow> Inl (NoProject project) | Some p \<Rightarrow> Inr (pr_prefix p))"

text \<open>
  \<open>log_event\<close>: append to the history under the next sequence number and, when the issue has a
  row, to the outbox under the same number.
\<close>

definition log_event :: "string \<Rightarrow> time \<Rightarrow> string \<Rightarrow> string \<Rightarrow> string \<Rightarrow> db \<Rightarrow> db" where
  "log_event i ts actor event detail s =
     (let seq = db_history_seq s + 1 in
      s\<lparr>db_history_seq := seq,
        db_history := db_history s @
          [\<lparr>hr_seq = seq, hr_issue_id = i, hr_ts = ts, hr_actor = actor, hr_event = event,
            hr_detail = detail\<rparr>],
        db_outbound := db_outbound s @
          map (\<lambda>r. \<lparr>or_seq = seq, or_store_id = db_store_id s, or_issue_id = ir_id r,
                or_project = ir_project r, or_occurred_at = ts, or_event = event,
                or_delivered_at = None, or_attempts = 0, or_next_attempt_at = ts,
                or_last_error = None\<rparr>)
            (filter (\<lambda>r. ir_id r = i) (db_issues s))\<rparr>)"

text \<open>\<open>row_to_issue\<close>: the row with its dependencies and the two open-edge counts.\<close>

definition open_issue :: "db \<Rightarrow> string \<Rightarrow> bool" where
  "open_issue s i \<longleftrightarrow> (\<exists>r \<in> set (db_issues s). ir_id r = i \<and> ir_status r \<noteq> ''closed'')"

definition blockers_of :: "db \<Rightarrow> string \<Rightarrow> string list" where
  "blockers_of s i = succs (db_deps s) i"

definition join_count :: "db \<Rightarrow> string list \<Rightarrow> int" where
  "join_count s ids =
     int (length (concat (map (\<lambda>i. filter (\<lambda>r. ir_id r = i \<and> ir_status r \<noteq> ''closed'') (db_issues s)) ids)))"

definition issue_of_row :: "db \<Rightarrow> issue_row \<Rightarrow> issue" where
  "issue_of_row s r =
     \<lparr>i_id = ir_id r, i_title = ir_title r, i_description = ir_description r,
      i_status = ir_status r, i_priority = ir_priority r, i_issue_type = ir_issue_type r,
      i_labels = ir_labels r, i_metadata = ir_metadata r, i_external_ref = ir_external_ref r,
      i_dependency_count = join_count s (blockers_of s (ir_id r)),
      i_dependent_count =
        join_count s (map fst (filter (\<lambda>d. snd d = ir_id r) (db_deps s))),
      i_dependencies = map (\<lambda>d. \<lparr>depends_on_id = Some d\<rparr>) (sort (blockers_of s (ir_id r))),
      i_evidence = ir_evidence r, i_parent = ir_parent r, i_assignee = ir_assignee r,
      i_actor_kind = ir_actor_kind r, i_expires_at = ir_expires_at r,
      i_available_at = ir_available_at r, i_closed_at = ir_closed_at r,
      i_created_at = ir_created_at r, i_updated_at = ir_updated_at r, i_project = ir_project r\<rparr>"

definition row_to_issue :: "db \<Rightarrow> string \<Rightarrow> issue option" where
  "row_to_issue s i = map_option (issue_of_row s) (find_issue s i)"

section \<open>How reads see writes\<close>

lemma find_issue_id: "find_issue s i = Some r \<Longrightarrow> ir_id r = i"
  unfolding find_issue_def by (drule find_Some_mem) simp

lemma find_issue_mem: "find_issue s i = Some r \<Longrightarrow> r \<in> set (db_issues s)"
  unfolding find_issue_def by (drule find_Some_mem) simp

lemma find_issue_None: "find_issue s i = None \<longleftrightarrow> i \<notin> ir_id ` set (db_issues s)"
  by (auto simp: find_issue_def find_None_iff_all)

lemma find_issue_upd [row_simps]:
  assumes "\<And>r. ir_id r = i \<Longrightarrow> ir_id (f r) = i"
  shows "find_issue (upd_issue i f s) j =
    (if j = i then map_option f (find_issue s i) else find_issue s j)"
proof -
  have "find (\<lambda>r. ir_id r = j) (map (\<lambda>r. if ir_id r = i then f r else r) rs) =
      map_option (\<lambda>r. if ir_id r = i then f r else r) (find (\<lambda>r. ir_id r = j) rs)" for rs
    by (rule find_map_key) (auto simp: assms)
  then have *: "find_issue (upd_issue i f s) j =
      map_option (\<lambda>r. if ir_id r = i then f r else r) (find_issue s j)"
    by (simp add: find_issue_def upd_issue_def)
  show ?thesis
  proof (cases "find_issue s j")
    case None
    with * show ?thesis by auto
  next
    case (Some r)
    with * find_issue_id [OF Some] show ?thesis by auto
  qed
qed

lemma find_issue_log [row_simps, simp]: "find_issue (log_event i ts a e d s) j = find_issue s j"
  by (simp add: find_issue_def log_event_def Let_def)

lemma db_issues_log [row_simps, simp]: "db_issues (log_event i ts a e d s) = db_issues s"
  by (simp add: log_event_def Let_def)

lemma log_event_frame [simp]:
  "db_projects (log_event i ts a e d s) = db_projects s"
  "db_folders (log_event i ts a e d s) = db_folders s"
  "db_project_folders (log_event i ts a e d s) = db_project_folders s"
  "db_deps (log_event i ts a e d s) = db_deps s"
  "db_remote_deps (log_event i ts a e d s) = db_remote_deps s"
  "db_store_id (log_event i ts a e d s) = db_store_id s"
  "db_policy (log_event i ts a e d s) = db_policy s"
  "db_week (log_event i ts a e d s) = db_week s"
  by (simp_all add: log_event_def Let_def)

lemma upd_issue_frame [simp]:
  "db_projects (upd_issue i f s) = db_projects s"
  "db_folders (upd_issue i f s) = db_folders s"
  "db_project_folders (upd_issue i f s) = db_project_folders s"
  "db_deps (upd_issue i f s) = db_deps s"
  "db_remote_deps (upd_issue i f s) = db_remote_deps s"
  "db_history (upd_issue i f s) = db_history s"
  "db_history_seq (upd_issue i f s) = db_history_seq s"
  "db_outbound (upd_issue i f s) = db_outbound s"
  "db_store_id (upd_issue i f s) = db_store_id s"
  "db_policy (upd_issue i f s) = db_policy s"
  "db_week (upd_issue i f s) = db_week s"
  by (simp_all add: upd_issue_def)

lemma ids_upd_issue [row_simps]:
  assumes "\<And>r. ir_id r = i \<Longrightarrow> ir_id (f r) = i"
  shows "map ir_id (db_issues (upd_issue i f s)) = map ir_id (db_issues s)"
  using assms by (auto simp: upd_issue_def)

lemma row_to_issue_None [simp]: "row_to_issue s i = None \<longleftrightarrow> find_issue s i = None"
  by (simp add: row_to_issue_def)

lemma find_issue_row:
  "distinct (map ir_id (db_issues s)) \<Longrightarrow> r \<in> set (db_issues s) \<Longrightarrow> find_issue s (ir_id r) = Some r"
  unfolding find_issue_def by (rule find_distinct_key)

lemma open_issue_iff:
  assumes "distinct (map ir_id (db_issues s))"
  shows "open_issue s i \<longleftrightarrow> (\<exists>r. find_issue s i = Some r \<and> ir_status r \<noteq> ''closed'')"
proof
  assume "open_issue s i"
  then obtain r where "r \<in> set (db_issues s)" "ir_id r = i" "ir_status r \<noteq> ''closed''"
    by (auto simp: open_issue_def)
  with find_issue_row [OF assms] show "\<exists>r. find_issue s i = Some r \<and> ir_status r \<noteq> ''closed''" by blast
next
  assume "\<exists>r. find_issue s i = Some r \<and> ir_status r \<noteq> ''closed''"
  then show "open_issue s i" using find_issue_id find_issue_mem unfolding open_issue_def by blast
qed

end
