(* ===== verification/DbIssues.thy ===== *)
theory DbIssues
  imports Store
begin

text \<open>
  Issues of \<open>src/src/db.rs\<close>: creation, reads, the ready queue, edits and labels. The random bytes
  of \<open>short_suffix\<close> are an input: \<open>create\<close> takes the draws its id loop would make, and
  \<open>None\<close> is the loop still looking for a free id when they run out.
\<close>

section \<open>Creation\<close>

type_synonym draw = "8 word \<times> 8 word \<times> 8 word \<times> 8 word"

definition ALPHA :: string where
  "ALPHA = ''abcdefghijkmnpqrstuvwxyz23456789''"

definition short_suffix :: "draw \<Rightarrow> string" where
  "short_suffix d =
     (case d of (a, b, c, e) \<Rightarrow> map (\<lambda>x. ALPHA ! (unat x mod length ALPHA)) [a, b, c, e])"

fun pick_id :: "string \<Rightarrow> db \<Rightarrow> draw list \<Rightarrow> string option" where
  "pick_id prefix s [] = None"
| "pick_id prefix s (d # ds) =
     (let candidate = prefix @ ''-'' @ short_suffix d
      in if find_issue s candidate = None then Some candidate else pick_id prefix s ds)"

definition parent_problem :: "db \<Rightarrow> string \<Rightarrow> string option \<Rightarrow> error option" where
  "parent_problem s project parent =
     (case parent of
        None \<Rightarrow> None
      | Some p \<Rightarrow>
          (case find_issue s p of
             None \<Rightarrow> Some (NotFound p)
           | Some r \<Rightarrow> if ir_project r \<noteq> project
                       then Some (Bad (ParentElsewhere p (ir_project r) project)) else None))"

text \<open>The stored metadata object, with the external reference mirrored into it.\<close>

definition create_metadata :: "new_issue \<Rightarrow> error + json" where
  "create_metadata spec =
     (case (case n_metadata spec of None \<Rightarrow> JObj [] | Some m \<Rightarrow> m) of
        JObj m \<Rightarrow> Inr (JObj (case n_external_ref spec of
          None \<Rightarrow> m | Some reference \<Rightarrow> bt_insert ''external_ref'' (JStr reference) m))
      | _ \<Rightarrow> Inl (Bad CreateMetadataNotObject))"

definition new_row :: "new_issue \<Rightarrow> string \<Rightarrow> string \<Rightarrow> json \<Rightarrow> time \<Rightarrow> time \<Rightarrow> issue_row" where
  "new_row spec i project metadata grace ts =
     \<lparr>ir_id = i, ir_project = project, ir_title = n_title spec,
      ir_description = n_description spec, ir_status = ''open'',
      ir_issue_type = n_issue_type spec,
      ir_priority = (if n_priority spec = 0 then 2 else n_priority spec),
      ir_parent = n_parent spec, ir_labels = n_labels spec, ir_assignee = None,
      ir_actor_kind = None, ir_claimed_at = None, ir_expires_at = None,
      ir_available_at = Some grace,
      ir_created_by = (case n_created_by spec of None \<Rightarrow> [] | Some a \<Rightarrow> a),
      ir_created_at = ts, ir_updated_at = ts, ir_closed_at = None, ir_close_reason = None,
      ir_evidence = [], ir_metadata = metadata, ir_external_ref = n_external_ref spec\<rparr>"

definition insert_issue :: "new_issue \<Rightarrow> string \<Rightarrow> string \<Rightarrow> time \<Rightarrow> db \<Rightarrow> error + (string \<times> db)" where
  "insert_issue spec project i ts s =
     (case create_metadata spec of
        Inl e \<Rightarrow> Inl e
      | Inr metadata \<Rightarrow>
          (let grace = (case n_available_at spec of
                          Some a \<Rightarrow> a | None \<Rightarrow> ts + creation_grace_seconds (db_policy s));
               s' = s\<lparr>db_issues := db_issues s @ [new_row spec i project metadata grace ts]\<rparr>
           in Inr (i, log_event i ts
                (case n_created_by spec of None \<Rightarrow> ''system'' | Some a \<Rightarrow> a)
                ''created'' (n_title spec) s')))"

definition create_body ::
  "new_issue \<Rightarrow> draw list \<Rightarrow> string \<Rightarrow> time \<Rightarrow> db \<Rightarrow> (error + (string \<times> db)) option" where
  "create_body spec draws project ts s =
     (case prefix_for s project of
        Inl e \<Rightarrow> Some (Inl e)
      | Inr prefix \<Rightarrow>
          (case parent_problem s project (n_parent spec) of
             Some e \<Rightarrow> Some (Inl e)
           | None \<Rightarrow>
               (case n_id spec of
                  Some i \<Rightarrow>
                    Some (if find_issue s i \<noteq> None then Inl (Bad (IssueExists i))
                          else insert_issue spec project i ts s)
                | None \<Rightarrow>
                    map_option (\<lambda>i. insert_issue spec project i ts s) (pick_id prefix s draws))))"

definition create :: "new_issue \<Rightarrow> draw list \<Rightarrow> time \<Rightarrow> db \<Rightarrow> ((error + string) \<times> db) option" where
  "create spec draws ts s =
     (case n_project spec of
        None \<Rightarrow> Some (Inl (Bad CreateNeedsProject), s)
      | Some project \<Rightarrow>
          map_option (\<lambda>r. tx (\<lambda>_. r) s) (create_body spec draws project ts s))"

section \<open>Reads\<close>

definition get_issue :: "string \<Rightarrow> db \<Rightarrow> error + issue" where
  "get_issue i s =
     (case row_to_issue s i of None \<Rightarrow> Inl (NotFound i) | Some v \<Rightarrow> Inr v)"

definition queue_order :: "issue_row \<Rightarrow> int \<times> int \<times> string" where
  "queue_order r = (ir_priority r, ir_created_at r, ir_id r)"

definition list_issues :: "string option \<Rightarrow> bool \<Rightarrow> string option \<Rightarrow> db \<Rightarrow> issue list" where
  "list_issues project all only_id s =
     map (issue_of_row s) (sort_key queue_order
       (filter (\<lambda>r. (all \<or> ir_status r \<noteq> ''closed'') \<and>
            (case project of None \<Rightarrow> True | Some p \<Rightarrow> ir_project r = p) \<and>
            (case only_id of None \<Rightarrow> True | Some i \<Rightarrow> ir_id r = i)) (db_issues s)))"

text \<open>The WHERE clause of \<open>ready\<close>.\<close>

definition blocked :: "db \<Rightarrow> string \<Rightarrow> bool" where
  "blocked s i \<longleftrightarrow> (\<exists>d \<in> set (blockers_of s i). open_issue s d)"

definition past :: "time option \<Rightarrow> time \<Rightarrow> bool" where
  "past t now \<longleftrightarrow> (case t of None \<Rightarrow> True | Some x \<Rightarrow> x \<le> now)"

definition claimable :: "issue_row \<Rightarrow> time \<Rightarrow> bool" where
  "claimable r now \<longleftrightarrow> ir_assignee r = None \<or>
     (case ir_expires_at r of None \<Rightarrow> False | Some e \<Rightarrow> e \<le> now)"

definition is_ready :: "db \<Rightarrow> string option \<Rightarrow> time \<Rightarrow> issue_row \<Rightarrow> bool" where
  "is_ready s project now r \<longleftrightarrow> ir_status r = ''open'' \<and> past (ir_available_at r) now \<and>
     (case project of None \<Rightarrow> True | Some p \<Rightarrow> ir_project r = p) \<and>
     \<not> blocked s (ir_id r) \<and> claimable r now"

definition ready :: "string option \<Rightarrow> time \<Rightarrow> db \<Rightarrow> issue list" where
  "ready project now s =
     map (issue_of_row s) (sort_key queue_order (filter (is_ready s project now) (db_issues s)))"

section \<open>Edits\<close>

text \<open>The shallow merge of RFC 7386: a null deletes its key.\<close>

definition merge_object :: "(string \<times> json) list \<Rightarrow> (string \<times> json) list \<Rightarrow> (string \<times> json) list" where
  "merge_object incoming m =
     fold (\<lambda>(k, v). if is_null v then bt_remove k else bt_insert k v) incoming m"

definition patch_metadata :: "json \<Rightarrow> issue_row \<Rightarrow> error + issue_row" where
  "patch_metadata merge cur =
     (let base = (case ir_metadata cur of JObj m \<Rightarrow> m | _ \<Rightarrow> []) in
      case merge of
        JObj incoming \<Rightarrow>
          (let meta = JObj (merge_object incoming base)
           in Inr (cur\<lparr>ir_metadata := meta,
                       ir_external_ref := Option.bind (json_get meta ''external_ref'') as_str\<rparr>))
      | _ \<Rightarrow> Inl (Bad PatchMetadataNotObject))"

definition append_notes :: "string option \<Rightarrow> string \<Rightarrow> string" where
  "append_notes notes description =
     (case notes of
        None \<Rightarrow> description
      | Some n \<Rightarrow> (if description = [] then n else description @ [CHR 0x0A] @ n))"

definition or_else :: "'a option \<Rightarrow> 'a \<Rightarrow> 'a" where
  "or_else v d = (case v of None \<Rightarrow> d | Some x \<Rightarrow> x)"

definition patch_text :: "issue_patch \<Rightarrow> issue_row \<Rightarrow> issue_row" where
  "patch_text patch r =
     r\<lparr>ir_title := or_else (p_title patch) (ir_title r),
       ir_description :=
         append_notes (p_append_notes patch) (or_else (p_description patch) (ir_description r)),
       ir_priority := or_else (p_priority patch) (ir_priority r),
       ir_evidence := or_else (p_evidence patch) (ir_evidence r)\<rparr>"

definition patch_status :: "issue_patch \<Rightarrow> time \<Rightarrow> issue_row \<Rightarrow> issue_row" where
  "patch_status patch ts r =
     (case p_status patch of
        None \<Rightarrow> r
      | Some st \<Rightarrow> r\<lparr>ir_status := st, ir_closed_at := (if st = ''closed'' then Some ts else None)\<rparr>)"

definition patch_row :: "policy \<Rightarrow> issue_patch \<Rightarrow> time \<Rightarrow> issue_row \<Rightarrow> error + issue_row" where
  "patch_row pol patch ts r =
     (case (case p_metadata patch of
              None \<Rightarrow> Inr (patch_text patch r)
            | Some merge \<Rightarrow> patch_metadata merge (patch_text patch r)) of
        Inl e \<Rightarrow> Inl e
      | Inr cur \<Rightarrow>
          Inr ((patch_status patch ts cur)
            \<lparr>ir_available_at := Some (case p_available_at patch of
                 Some a \<Rightarrow> a
               | None \<Rightarrow> max (ts + edit_deferral_seconds pol) (or_else (ir_available_at r) 0)),
             ir_updated_at := ts\<rparr>))"

text \<open>The detail of a status event: an arrow, a space, the status.\<close>

definition status_detail :: "string \<Rightarrow> string" where
  "status_detail st = [CHR 0xE2, CHR 0x86, CHR 0x92, CHR 0x20] @ st"

definition update_body ::
  "string \<Rightarrow> issue_patch \<Rightarrow> string \<Rightarrow> time \<Rightarrow> db \<Rightarrow> error + (unit \<times> db)" where
  "update_body i patch actor ts s =
     (case find_issue s i of
        None \<Rightarrow> Inl (NotFound i)
      | Some r \<Rightarrow>
          (case patch_row (db_policy s) patch ts r of
             Inl e \<Rightarrow> Inl e
           | Inr r' \<Rightarrow>
               (let changed = (case p_status patch of None \<Rightarrow> False | Some st \<Rightarrow> st \<noteq> ir_status r);
                    s1 = upd_issue i (\<lambda>_. r') s;
                    s2 = (if changed
                          then log_event i ts actor ''status'' (status_detail (ir_status r')) s1
                          else s1)
                in Inr ((), log_event i ts actor ''updated'' [] s2))))"

text \<open>A write that ends with \<open>self.get(id)\<close> on the committed state.\<close>

definition then_get :: "string \<Rightarrow> (error + unit) \<times> db \<Rightarrow> (error + issue) \<times> db" where
  "then_get i r = (case fst r of Inl e \<Rightarrow> (Inl e, snd r) | Inr _ \<Rightarrow> (get_issue i (snd r), snd r))"

definition update :: "string \<Rightarrow> issue_patch \<Rightarrow> string \<Rightarrow> time \<Rightarrow> db \<Rightarrow> (error + issue) \<times> db" where
  "update i patch actor ts s =
     (case p_status patch of
        Some st \<Rightarrow>
          if st \<notin> set STATUSES then (Inl (BadStatus st), s)
          else then_get i (tx (update_body i patch actor ts) s)
      | None \<Rightarrow> then_get i (tx (update_body i patch actor ts) s))"

section \<open>Labels\<close>

definition set_labels :: "string \<Rightarrow> string list \<Rightarrow> string \<Rightarrow> time \<Rightarrow> db \<Rightarrow> (error + unit) \<times> db" where
  "set_labels i labels actor ts = tx (\<lambda>s.
     case find_issue s i of
       None \<Rightarrow> Inl (NotFound i)
     | Some _ \<Rightarrow> Inr ((), log_event i ts actor ''labels'' (join_char CHR '','' labels)
                 (upd_issue i (\<lambda>r. r\<lparr>ir_labels := labels, ir_updated_at := ts\<rparr>) s)))"

text \<open>
  \<open>add_label\<close> and \<open>remove_label\<close> read in one critical section and write in another; the second
  argument of the write is what the read saw.
\<close>

definition add_label_write ::
  "string \<Rightarrow> string \<Rightarrow> string \<Rightarrow> time \<Rightarrow> string list \<Rightarrow> db \<Rightarrow> (error + unit) \<times> db" where
  "add_label_write i label actor ts seen s =
     (if label \<in> set seen then (Inr (), s)
      else set_labels i (sort (seen @ [label])) actor ts s)"

definition add_label :: "string \<Rightarrow> string \<Rightarrow> string \<Rightarrow> time \<Rightarrow> db \<Rightarrow> (error + unit) \<times> db" where
  "add_label i label actor ts s =
     (case get_issue i s of
        Inl e \<Rightarrow> (Inl e, s)
      | Inr v \<Rightarrow> add_label_write i label actor ts (i_labels v) s)"

definition remove_label :: "string \<Rightarrow> string \<Rightarrow> string \<Rightarrow> time \<Rightarrow> db \<Rightarrow> (error + unit) \<times> db" where
  "remove_label i label actor ts s =
     (case get_issue i s of
        Inl e \<Rightarrow> (Inl e, s)
      | Inr v \<Rightarrow> set_labels i (filter (\<lambda>l. l \<noteq> label) (i_labels v)) actor ts s)"

lemmas issue_ops [op_defs] =
  create_def update_def set_labels_def add_label_def add_label_write_def remove_label_def

end
