(* ===== verification/DbClaims.thy ===== *)
theory DbClaims
  imports DbIssues
begin

text \<open>
  Claims of \<open>src/src/db.rs\<close>: the atomic claim, the heartbeat, release and the sweeper. The
  calendar walk of a human deadline can panic, which is an error value here.
\<close>

section \<open>Operations\<close>

text \<open>
  \<open>i64::div_euclid\<close> by a positive divisor is HOL's \<open>div\<close>. The default of a human claim is an
  argument of \<open>unwrap_or\<close>, so it is computed even when the request names its own duration.
\<close>

definition claim_ttl :: "policy \<Rightarrow> work_week \<Rightarrow> claim_request \<Rightarrow> time \<Rightarrow> int option" where
  "claim_ttl pol w req ts =
     (case cr_actor_kind req of
        Agent \<Rightarrow> Some (min (or_else (cr_ttl_seconds req) (agent_ttl_seconds pol)) (max_ttl_seconds pol))
      | Human \<Rightarrow>
          Option.bind (human_expiry w ts pol) (\<lambda>fallback.
            map_option (\<lambda>expired. min (expired - ts) (max_ttl_seconds pol))
              (case cr_ttl_seconds req of
                 Some secs \<Rightarrow> deadline w ts (max (secs div 60) 1)
               | None \<Rightarrow> Some fallback)))"

definition held :: "issue_row \<Rightarrow> time \<Rightarrow> bool" where
  "held r ts \<longleftrightarrow> ir_assignee r \<noteq> None \<and>
     (case ir_expires_at r of None \<Rightarrow> False | Some e \<Rightarrow> ts < e)"

definition set_claim :: "claim_request \<Rightarrow> time \<Rightarrow> int \<Rightarrow> issue_row \<Rightarrow> issue_row" where
  "set_claim req ts ttl r =
     r\<lparr>ir_assignee := Some (cr_assignee req),
       ir_actor_kind := Some (actor_kind_str (cr_actor_kind req)),
       ir_claimed_at := Some ts, ir_expires_at := Some (ts + ttl), ir_updated_at := ts\<rparr>"

definition clear_claim :: "issue_row \<Rightarrow> issue_row" where
  "clear_claim r =
     r\<lparr>ir_assignee := None, ir_actor_kind := None, ir_claimed_at := None, ir_expires_at := None\<rparr>"

definition claim :: "claim_request \<Rightarrow> time \<Rightarrow> db \<Rightarrow> (error + claim_receipt) \<times> db" where
  "claim req ts s =
     (case claim_ttl (db_policy s) (db_week s) req ts of
        None \<Rightarrow> (Inl (Panic ''calendar overflow''), s)
      | Some ttl \<Rightarrow> tx (\<lambda>s.
          (case find_issue s (cr_id req) of
             None \<Rightarrow> Inl (NotFound (cr_id req))
           | Some r \<Rightarrow>
               if held r ts \<and> ir_assignee r \<noteq> Some (cr_assignee req)
               then Inl (AlreadyClaimed (cr_id req) (the (ir_assignee r)))
               else Inr (\<lparr>rc_id = cr_id req, rc_assignee = cr_assignee req,
                          rc_actor_kind = cr_actor_kind req, rc_expires_at = ts + ttl\<rparr>,
                      log_event (cr_id req) ts (cr_assignee req) ''claimed''
                        (actor_kind_str (cr_actor_kind req))
                        (upd_issue (cr_id req) (set_claim req ts ttl) s)))) s)"

definition touch_ttl :: "policy \<Rightarrow> work_week \<Rightarrow> issue_row \<Rightarrow> time \<Rightarrow> int option" where
  "touch_ttl pol w r ts =
     (case actor_kind_parse (or_else (ir_actor_kind r) ''agent'') of
        Some Human \<Rightarrow> map_option (\<lambda>e. e - ts) (human_expiry w ts pol)
      | _ \<Rightarrow> Some (agent_ttl_seconds pol))"

definition touch :: "string \<Rightarrow> string \<Rightarrow> time \<Rightarrow> db \<Rightarrow> (error + time) \<times> db" where
  "touch i assignee ts = tx (\<lambda>s.
     case find_issue s i of
       None \<Rightarrow> Inl (NotFound i)
     | Some r \<Rightarrow>
         if ir_assignee r \<noteq> Some assignee then Inl (Bad (NotClaimedBy i assignee))
         else (case touch_ttl (db_policy s) (db_week s) r ts of
           None \<Rightarrow> Inl (Panic ''calendar overflow'')
         | Some ttl \<Rightarrow> Inr (ts + ttl,
             log_event i ts assignee ''heartbeat'' []
               (upd_issue i (\<lambda>r. r\<lparr>ir_expires_at := Some (ts + ttl), ir_updated_at := ts\<rparr>) s))))"

definition release :: "string \<Rightarrow> string \<Rightarrow> time \<Rightarrow> db \<Rightarrow> (error + unit) \<times> db" where
  "release i actor ts = tx (\<lambda>s.
     Inr ((), log_event i ts actor ''released'' []
       (upd_issue i (\<lambda>r. (clear_claim r)\<lparr>ir_updated_at := ts\<rparr>) s)))"

record sweep_report =
  requeued :: "string list"
  escalated :: "string list"

definition lapsed :: "time \<Rightarrow> issue_row \<Rightarrow> bool" where
  "lapsed ts r \<longleftrightarrow> ir_assignee r \<noteq> None \<and>
     (case ir_expires_at r of None \<Rightarrow> False | Some e \<Rightarrow> e \<le> ts)"

definition sweep_row :: "time \<Rightarrow> string \<times> string \<times> string \<Rightarrow> sweep_report \<times> db \<Rightarrow> sweep_report \<times> db" where
  "sweep_row ts row st =
     (case row of (i, assignee, kind) \<Rightarrow> case st of (rep, s) \<Rightarrow>
        if kind = ''human''
        then (rep\<lparr>escalated := escalated rep @ [i @ '' ('' @ assignee @ '')'']\<rparr>,
              log_event i ts ''sweeper'' ''escalated'' assignee s)
        else (rep\<lparr>requeued := requeued rep @ [i]\<rparr>,
              log_event i ts ''sweeper'' ''claim_expired'' assignee (upd_issue i clear_claim s)))"

text \<open>Reading a NULL \<open>actor_kind\<close> as a \<open>String\<close> is the one way the scan can fail.\<close>

definition sweep :: "time \<Rightarrow> db \<Rightarrow> (error + sweep_report) \<times> db" where
  "sweep ts = tx (\<lambda>s.
     let rows = filter (lapsed ts) (db_issues s) in
     if \<exists>r \<in> set rows. ir_actor_kind r = None then Inl (Sqlite (InvalidColumnType ''actor_kind''))
     else Inr (fold (sweep_row ts)
            (map (\<lambda>r. (ir_id r, the (ir_assignee r), the (ir_actor_kind r))) rows)
            (\<lparr>requeued = [], escalated = []\<rparr>, s)))"

lemmas claim_ops [op_defs] = claim_def touch_def release_def sweep_def

section \<open>Who holds an issue\<close>

text \<open>The abstract view of a claim: the holder and the instant the lease lapses.\<close>

definition holder :: "db \<Rightarrow> string \<Rightarrow> (string \<times> time) option" where
  "holder s i = Option.bind (find_issue s i) (\<lambda>r.
     Option.bind (ir_assignee r) (\<lambda>a. map_option (\<lambda>e. (a, e)) (ir_expires_at r)))"

lemma set_claim_id [simp]: "ir_id (set_claim req ts ttl r) = ir_id r"
  by (simp add: set_claim_def)

lemma clear_claim_id [simp]: "ir_id (clear_claim r) = ir_id r"
  by (simp add: clear_claim_def)

lemma holder_log [simp]: "holder (log_event i ts a e d s) j = holder s j"
  by (simp add: holder_def)

lemma claim_Inr:
  assumes "claim req ts s = (Inr rc, s')"
  obtains ttl r where "claim_ttl (db_policy s) (db_week s) req ts = Some ttl"
    and "find_issue s (cr_id req) = Some r"
    and "\<not> (held r ts \<and> ir_assignee r \<noteq> Some (cr_assignee req))"
    and "rc = \<lparr>rc_id = cr_id req, rc_assignee = cr_assignee req, rc_actor_kind = cr_actor_kind req,
               rc_expires_at = ts + ttl\<rparr>"
    and "s' = log_event (cr_id req) ts (cr_assignee req) ''claimed''
               (actor_kind_str (cr_actor_kind req)) (upd_issue (cr_id req) (set_claim req ts ttl) s)"
  using assms by (auto simp: claim_def split: option.splits if_splits)

lemma claim_holder:
  assumes "claim req ts s = (Inr rc, s')"
  shows "holder s' j = (if j = cr_id req then Some (cr_assignee req, rc_expires_at rc) else holder s j)"
proof -
  obtain ttl r where f: "find_issue s (cr_id req) = Some r"
    and rc: "rc = \<lparr>rc_id = cr_id req, rc_assignee = cr_assignee req, rc_actor_kind = cr_actor_kind req,
               rc_expires_at = ts + ttl\<rparr>"
    and s': "s' = log_event (cr_id req) ts (cr_assignee req) ''claimed''
               (actor_kind_str (cr_actor_kind req)) (upd_issue (cr_id req) (set_claim req ts ttl) s)"
    using assms by (rule claim_Inr)
  show ?thesis using f by (simp add: s' rc holder_def find_issue_upd set_claim_def)
qed

lemma claim_refused:
  assumes "holder s (cr_id req) = Some (a, e)" and "ts < e" and "a \<noteq> cr_assignee req"
    and "claim_ttl (db_policy s) (db_week s) req ts \<noteq> None"
  shows "claim req ts s = (Inl (AlreadyClaimed (cr_id req) a), s)"
proof -
  from assms(1) obtain r where r: "find_issue s (cr_id req) = Some r" "ir_assignee r = Some a"
    "ir_expires_at r = Some e" by (auto simp: holder_def Option.bind_eq_Some_conv)
  with assms(2-4) show ?thesis by (auto simp: claim_def held_def tx_def)
qed

end
