(* ===== verification/DbDeps.thy ===== *)
theory DbDeps
  imports DbIssues
begin

text \<open>
  Dependency edges of \<open>src/src/db.rs\<close>: local edges with the cycle check, and edges to issues of
  other stores, which never touch the local tables of issues and edges.
\<close>

text \<open>The recursive query \<open>walk\<close>: is the target reachable over dependency edges?\<close>

definition reachable :: "db \<Rightarrow> string \<Rightarrow> string \<Rightarrow> bool" where
  "reachable s from_id target \<longleftrightarrow> cte_reach (db_deps s) from_id target"

definition touch_updated :: "string \<Rightarrow> time \<Rightarrow> db \<Rightarrow> db" where
  "touch_updated i ts = upd_issue i (\<lambda>r. r\<lparr>ir_updated_at := ts\<rparr>)"

text \<open>INSERT OR IGNORE.\<close>

definition insert_dep :: "string \<Rightarrow> string \<Rightarrow> db \<Rightarrow> db" where
  "insert_dep child parent s =
     (if (child, parent) \<in> set (db_deps s) then s
      else s\<lparr>db_deps := db_deps s @ [(child, parent)]\<rparr>)"

definition add_dep :: "string \<Rightarrow> string \<Rightarrow> string \<Rightarrow> time \<Rightarrow> db \<Rightarrow> (error + unit) \<times> db" where
  "add_dep child parent actor ts s =
     (if child = parent then (Inl (CycleError child parent), s)
      else tx (\<lambda>s.
        if find_issue s child = None then Inl (NotFound child)
        else if find_issue s parent = None then Inl (NotFound parent)
        else if reachable s parent child then Inl (CycleError child parent)
        else Inr ((), log_event child ts actor ''depends_on'' parent
               (touch_updated child ts (insert_dep child parent s)))) s)"

definition remove_dep :: "string \<Rightarrow> string \<Rightarrow> string \<Rightarrow> time \<Rightarrow> db \<Rightarrow> (error + unit) \<times> db" where
  "remove_dep child parent actor ts = tx (\<lambda>s.
     Inr ((), log_event child ts actor ''unblocked_from'' parent
       (s\<lparr>db_deps := filter (\<lambda>d. d \<noteq> (child, parent)) (db_deps s)\<rparr>)))"

section \<open>Edges to other stores\<close>

definition same_edge :: "string \<Rightarrow> string \<Rightarrow> remote_dep_row \<Rightarrow> bool" where
  "same_edge child ref row \<longleftrightarrow> fst row = child \<and> rd_canonical_ref (snd row) = ref"

text \<open>INSERT with ON CONFLICT DO UPDATE on the pair of child and reference.\<close>

definition upsert_remote :: "string \<Rightarrow> remote_dependency \<Rightarrow> db \<Rightarrow> db" where
  "upsert_remote child d s =
     (let row = (child, d\<lparr>rd_freshness := None\<rparr>) in
      if \<exists>r \<in> set (db_remote_deps s). same_edge child (rd_canonical_ref d) r
      then s\<lparr>db_remote_deps :=
             map (\<lambda>r. if same_edge child (rd_canonical_ref d) r then row else r) (db_remote_deps s)\<rparr>
      else s\<lparr>db_remote_deps := db_remote_deps s @ [row]\<rparr>)"

definition add_remote_dep ::
  "string \<Rightarrow> remote_dependency \<Rightarrow> string \<Rightarrow> time \<Rightarrow> db \<Rightarrow> (error + unit) \<times> db" where
  "add_remote_dep child d actor ts s =
     (case parse_ref (rd_canonical_ref d) of
        Inl e \<Rightarrow> (Inl (Bad (InvalidCanonicalRef e)), s)
      | Inr r \<Rightarrow>
          if \<not> ref_names r (rd_store_id d) (rd_remote_issue_id d)
          then (Inl (Bad (RefNamesOther (rd_canonical_ref d) (rd_store_id d) (rd_remote_issue_id d))), s)
          else tx (\<lambda>s.
            if find_issue s child = None then Inl (NotFound child)
            else Inr ((), log_event child ts actor ''depends_on_remote'' (rd_canonical_ref d)
                   (touch_updated child ts (upsert_remote child d s)))) s)"

definition remote_dependencies :: "string \<Rightarrow> db \<Rightarrow> remote_dependency list" where
  "remote_dependencies child s =
     sort_key rd_canonical_ref (map snd (filter (\<lambda>r. fst r = child) (db_remote_deps s)))"

definition ready_with_remote_edges ::
  "string option \<Rightarrow> time \<Rightarrow> db \<Rightarrow> (issue \<times> remote_dependency list) list" where
  "ready_with_remote_edges project now s =
     map (\<lambda>i. (i, remote_dependencies (i_id i) s)) (ready project now s)"

definition remove_remote_dep ::
  "string \<Rightarrow> string \<Rightarrow> string \<Rightarrow> time \<Rightarrow> db \<Rightarrow> (error + unit) \<times> db" where
  "remove_remote_dep child ref actor ts = tx (\<lambda>s.
     Inr ((), log_event child ts actor ''unblocked_from_remote'' ref
       (s\<lparr>db_remote_deps := filter (\<lambda>r. \<not> same_edge child ref r) (db_remote_deps s)\<rparr>)))"

lemmas dep_ops [op_defs] =
  add_dep_def remove_dep_def add_remote_dep_def remove_remote_dep_def

section \<open>The cycle check\<close>

lemma reachable_iff: "reachable s x y \<longleftrightarrow> (x, y) \<in> (set (db_deps s))\<^sup>*"
  by (simp add: reachable_def cte_reach_iff)

lemma db_deps_insert [simp]: "set (db_deps (insert_dep c p s)) = insert (c, p) (set (db_deps s))"
  by (auto simp: insert_dep_def)

lemma insert_dep_frame [simp]:
  "db_issues (insert_dep c p s) = db_issues s"
  "db_projects (insert_dep c p s) = db_projects s"
  "db_folders (insert_dep c p s) = db_folders s"
  "db_project_folders (insert_dep c p s) = db_project_folders s"
  "db_history (insert_dep c p s) = db_history s"
  "db_history_seq (insert_dep c p s) = db_history_seq s"
  "db_outbound (insert_dep c p s) = db_outbound s"
  by (simp_all add: insert_dep_def)

lemma touch_updated_frame [simp]:
  "db_deps (touch_updated i ts s) = db_deps s"
  "db_projects (touch_updated i ts s) = db_projects s"
  "db_folders (touch_updated i ts s) = db_folders s"
  "db_project_folders (touch_updated i ts s) = db_project_folders s"
  "db_history (touch_updated i ts s) = db_history s"
  "db_history_seq (touch_updated i ts s) = db_history_seq s"
  "db_outbound (touch_updated i ts s) = db_outbound s"
  by (simp_all add: touch_updated_def)

lemma upsert_remote_frame [simp]:
  "db_deps (upsert_remote c d s) = db_deps s"
  "db_issues (upsert_remote c d s) = db_issues s"
  "db_projects (upsert_remote c d s) = db_projects s"
  "db_folders (upsert_remote c d s) = db_folders s"
  "db_project_folders (upsert_remote c d s) = db_project_folders s"
  "db_history (upsert_remote c d s) = db_history s"
  "db_history_seq (upsert_remote c d s) = db_history_seq s"
  "db_outbound (upsert_remote c d s) = db_outbound s"
  by (simp_all add: upsert_remote_def Let_def)

lemma add_dep_deps:
  assumes "add_dep c p a ts s = (Inr (), s')"
  shows "set (db_deps s') = insert (c, p) (set (db_deps s))" and "c \<noteq> p"
    and "(p, c) \<notin> (set (db_deps s))\<^sup>*"
    and "find_issue s c \<noteq> None" and "find_issue s p \<noteq> None"
  using assms by (auto simp: add_dep_def reachable_iff split: if_splits)

lemma add_dep_acyclic:
  assumes "add_dep c p a ts s = (Inr (), s')" and "acyclic (set (db_deps s))"
  shows "acyclic (set (db_deps s'))"
  using add_dep_deps [OF assms(1)] assms(2) by (simp add: acyclic_insert_edge)

text \<open>The check refuses nothing else: an edge between known issues fails only for a cycle.\<close>

lemma add_dep_refuses_iff:
  assumes "find_issue s c \<noteq> None" and "find_issue s p \<noteq> None" and "acyclic (set (db_deps s))"
  shows "(\<exists>s'. add_dep c p a ts s = (Inr (), s')) \<longleftrightarrow> acyclic (insert (c, p) (set (db_deps s)))"
proof
  assume "\<exists>s'. add_dep c p a ts s = (Inr (), s')"
  then show "acyclic (insert (c, p) (set (db_deps s)))"
    using add_dep_deps assms(3) acyclic_insert_edge by blast
next
  assume "acyclic (insert (c, p) (set (db_deps s)))"
  then have "(p, c) \<notin> (set (db_deps s))\<^sup>*" by (simp add: acyclic_insert)
  moreover from this have "c \<noteq> p" by auto
  ultimately show "\<exists>s'. add_dep c p a ts s = (Inr (), s')"
    using assms by (auto simp: add_dep_def reachable_iff)
qed

end
