(* ===== verification/DbClose.thy ===== *)
theory DbClose
  imports DbClaims DbDeps
begin

text \<open>
  Terminal operations, history and statistics of \<open>src/src/db.rs\<close>. \<open>close\<close> reads the blockers
  in one critical section and writes in the next; \<open>supersede\<close> commits twice.
\<close>

section \<open>Close and supersede\<close>

text \<open>The first blocker in the order the rows are read that has a row and is not terminal.\<close>

definition open_blocker :: "db \<Rightarrow> string \<Rightarrow> string option" where
  "open_blocker s i =
     find (\<lambda>b. case find_issue s b of None \<Rightarrow> False | Some r \<Rightarrow> \<not> is_terminal (ir_status r))
       (blockers_of s i)"

definition check_blockers :: "db \<Rightarrow> string \<Rightarrow> error option" where
  "check_blockers s i = map_option (\<lambda>b. Bad (StillWaitsOn i b)) (open_blocker s i)"

definition merge_evidence :: "evidence list \<Rightarrow> evidence list \<Rightarrow> evidence list" where
  "merge_evidence existing new =
     fold (\<lambda>e merged. if e \<in> set merged then merged else merged @ [e]) new existing"

definition close_row :: "string option \<Rightarrow> evidence list \<Rightarrow> time \<Rightarrow> issue_row \<Rightarrow> issue_row" where
  "close_row reason merged ts r =
     (clear_claim r)\<lparr>ir_status := ''closed'', ir_closed_at := Some ts, ir_close_reason := reason,
       ir_evidence := merged, ir_updated_at := ts\<rparr>"

definition close_detail :: "string option \<Rightarrow> evidence list \<Rightarrow> string" where
  "close_detail reason ev =
     or_else reason [] @ '' | '' @ join_char CHR '' '' (map (\<lambda>e. ev_kind e @ '':'' @ ev_value e) ev)"

definition close_unchecked ::
  "string \<Rightarrow> string option \<Rightarrow> evidence list \<Rightarrow> string \<Rightarrow> time \<Rightarrow> db \<Rightarrow> (error + issue) \<times> db" where
  "close_unchecked i reason ev actor ts s = then_get i (tx (\<lambda>s.
     case find_issue s i of
       None \<Rightarrow> Inl (Sqlite QueryReturnedNoRows)
     | Some r \<Rightarrow> Inr ((), log_event i ts actor ''closed'' (close_detail reason ev)
         (upd_issue i (close_row reason (merge_evidence (ir_evidence r) ev) ts) s))) s)"

definition close ::
  "string \<Rightarrow> string option \<Rightarrow> evidence list \<Rightarrow> string \<Rightarrow> time \<Rightarrow> db \<Rightarrow> (error + issue) \<times> db" where
  "close i reason ev actor ts s =
     (if ev = [] then (Inl (NoEvidence i), s)
      else case check_blockers s i of
        Some e \<Rightarrow> (Inl e, s)
      | None \<Rightarrow> close_unchecked i reason ev actor ts s)"

definition supersede :: "string \<Rightarrow> string \<Rightarrow> string \<Rightarrow> time \<Rightarrow> db \<Rightarrow> (error + unit) \<times> db" where
  "supersede i replacement actor ts s =
     (if row_to_issue s replacement = None then (Inl (NotFound replacement), s)
      else let why = ''superseded by '' @ replacement in
        case close_unchecked i (Some why) [evidence_ack why] actor ts s of
          (Inl e, s') \<Rightarrow> (Inl e, s')
        | (Inr _, s') \<Rightarrow> add_label i (''supersedes:'' @ replacement) actor ts s')"

section \<open>History and statistics\<close>

definition history :: "string \<Rightarrow> db \<Rightarrow> history_event list" where
  "history i s =
     map (\<lambda>h. \<lparr>he_issue_id = hr_issue_id h, he_ts = hr_ts h, he_actor = hr_actor h,
               he_event = hr_event h, he_detail = hr_detail h\<rparr>)
       (sort_key hr_seq (filter (\<lambda>h. hr_issue_id h = i) (db_history s)))"

text \<open>\<open>SELECT project, status, COUNT( * ) GROUP BY 1, 2\<close> folded into nested ordered maps.\<close>

definition stats_counts :: "db \<Rightarrow> (string \<times> (string \<times> int) list) list" where
  "stats_counts s =
     map (\<lambda>p. (p, map (\<lambda>st. (st, int (length (filter (\<lambda>r. ir_project r = p \<and> ir_status r = st)
                                                   (db_issues s)))))
                (bs_collect (map ir_status (filter (\<lambda>r. ir_project r = p) (db_issues s))))))
       (bs_collect (map ir_project (db_issues s)))"

definition stats :: "db \<Rightarrow> json" where
  "stats s = JObj (map (\<lambda>(p, statuses). (p, JObj
     [(''by_status'', JObj (map (\<lambda>(st, n). (st, JInt n)) statuses)),
      (''total'', JInt (sum_list (map snd statuses)))])) (stats_counts s))"

lemmas close_ops [op_defs] = close_def close_unchecked_def supersede_def

section \<open>What closing leaves behind\<close>

lemma close_row_id [simp]: "ir_id (close_row reason ev ts r) = ir_id r"
  by (simp add: close_row_def)

lemma close_unchecked_Inr:
  assumes "close_unchecked i reason ev a ts s = (Inr v, s')"
  obtains r where "find_issue s i = Some r"
    and "s' = log_event i ts a ''closed'' (close_detail reason ev)
           (upd_issue i (close_row reason (merge_evidence (ir_evidence r) ev) ts) s)"
    and "get_issue i s' = Inr v"
  using assms by (auto simp: close_unchecked_def then_get_def tx_def split: option.splits)

lemma close_unchecked_total:
  assumes "find_issue s i = Some r"
  shows "\<exists>v. close_unchecked i reason ev a ts s = (Inr v, log_event i ts a ''closed''
     (close_detail reason ev) (upd_issue i (close_row reason (merge_evidence (ir_evidence r) ev) ts) s))"
  using assms
  by (simp add: close_unchecked_def then_get_def tx_def get_issue_def row_to_issue_def find_issue_upd)

lemma merge_evidence_set [simp]: "set (merge_evidence old new) = set old \<union> set new"
  unfolding merge_evidence_def by (induction new arbitrary: old) auto

lemma merge_evidence_prefix: "\<exists>zs. merge_evidence old new = old @ zs"
  unfolding merge_evidence_def
proof (induction new arbitrary: old)
  case (Cons e new)
  then obtain zs where "fold (\<lambda>e merged. if e \<in> set merged then merged else merged @ [e]) new (old @ [e])
      = (old @ [e]) @ zs" by blast
  with Cons show ?case by auto
qed simp

lemma merge_evidence_distinct: "distinct old \<Longrightarrow> distinct (merge_evidence old new)"
  unfolding merge_evidence_def by (induction new arbitrary: old) auto

lemma open_blocker_None:
  "open_blocker s i = None \<longleftrightarrow>
    (\<forall>b r. (i, b) \<in> set (db_deps s) \<longrightarrow> find_issue s b = Some r \<longrightarrow> ir_status r = ''closed'')"
  by (auto simp: open_blocker_def blockers_of_def find_None_iff_all is_terminal_def
      split: option.splits)

lemma close_Inr:
  assumes "close i reason ev a ts s = (Inr v, s')"
  shows "ev \<noteq> []" and "open_blocker s i = None"
    and "close_unchecked i reason ev a ts s = (Inr v, s')"
  using assms by (auto simp: close_def check_blockers_def split: if_splits option.splits)

end
