(* ===== verification/DbProjects.thy ===== *)
theory DbProjects
  imports Store
begin

text \<open>
  Projects, folders, the store identity and the outbox of \<open>src/src/db.rs\<close>: each method of
  \<open>Db\<close> as a state transformer, the two constraints SQLite enforces on these tables (UNIQUE
  roots, ON DELETE CASCADE) written out.
\<close>

section \<open>Projects\<close>

definition ensure_project :: "string \<Rightarrow> string \<Rightarrow> string \<Rightarrow> time \<Rightarrow> db \<Rightarrow> (error + unit) \<times> db" where
  "ensure_project slug root prefix ts = tx (\<lambda>s.
     if \<exists>p \<in> set (db_projects s). pr_root p = root \<and> pr_slug p \<noteq> slug
     then Inl (Sqlite (UniqueViolation ''project.root''))
     else if find_project s slug \<noteq> None
     then Inr ((), s\<lparr>db_projects :=
            map (\<lambda>p. if pr_slug p = slug then p\<lparr>pr_root := root\<rparr> else p) (db_projects s)\<rparr>)
     else Inr ((), s\<lparr>db_projects := db_projects s @
            [\<lparr>pr_slug = slug, pr_root = root, pr_prefix = prefix, pr_created_at = ts\<rparr>]\<rparr>))"

definition drop_project :: "string \<Rightarrow> db \<Rightarrow> (error + int) \<times> db" where
  "drop_project slug = tx (\<lambda>s.
     if find_project s slug = None then Inl (NoProject slug)
     else let mine = map ir_id (filter (\<lambda>r. ir_project r = slug) (db_issues s)) in
       Inr (int (length mine),
         s\<lparr>db_outbound := filter (\<lambda>e. or_issue_id e \<notin> set mine) (db_outbound s),
           db_history := filter (\<lambda>e. hr_issue_id e \<notin> set mine) (db_history s),
           db_deps := filter (\<lambda>d. fst d \<notin> set mine \<and> snd d \<notin> set mine) (db_deps s),
           db_remote_deps := filter (\<lambda>d. fst d \<notin> set mine) (db_remote_deps s),
           db_issues := filter (\<lambda>r. ir_project r \<noteq> slug) (db_issues s),
           db_projects := filter (\<lambda>p. pr_slug p \<noteq> slug) (db_projects s),
           db_project_folders :=
             filter (\<lambda>a. pfr_project a \<noteq> slug) (db_project_folders s)\<rparr>))"

definition projects :: "db \<Rightarrow> (string \<times> string \<times> string) list" where
  "projects s = map (\<lambda>p. (pr_slug p, pr_root p, pr_prefix p)) (sort_key pr_slug (db_projects s))"

section \<open>Folders\<close>

definition nonempty_trimmed :: "string option \<Rightarrow> string option" where
  "nonempty_trimmed v =
     (case v of None \<Rightarrow> None | Some p \<Rightarrow> if trim p = [] then None else Some (trim p))"

definition folder_edges :: "db \<Rightarrow> (string \<times> string) list" where
  "folder_edges s =
     List.map_filter (\<lambda>f. map_option (\<lambda>p. (fr_slug f, p)) (fr_parent f)) (db_folders s)"

definition folder_parent_problem :: "db \<Rightarrow> string \<Rightarrow> string option \<Rightarrow> error option" where
  "folder_parent_problem s slug parent =
     (case parent of
        None \<Rightarrow> None
      | Some p \<Rightarrow>
          if p = slug then Some (Bad FolderOwnParent)
          else if find_folder s p = None then Some (Bad (NoFolder p))
          else if cte_reach (folder_edges s) p slug then Some (Bad (FolderDescendant slug))
          else None)"

definition ensure_folder :: "folder \<Rightarrow> time \<Rightarrow> db \<Rightarrow> (error + unit) \<times> db" where
  "ensure_folder f ts s =
     (let slug = trim (fo_slug f); name = trim (fo_name f); parent = nonempty_trimmed (fo_parent f) in
      if slug = [] then (Inl (Bad FolderSlugEmpty), s)
      else if name = [] then (Inl (Bad FolderNameEmpty), s)
      else tx (\<lambda>s.
        case folder_parent_problem s slug parent of
          Some e \<Rightarrow> Inl e
        | None \<Rightarrow>
            if find_folder s slug \<noteq> None
            then Inr ((), s\<lparr>db_folders :=
                   map (\<lambda>r. if fr_slug r = slug then r\<lparr>fr_name := name, fr_parent := parent\<rparr> else r)
                     (db_folders s)\<rparr>)
            else Inr ((), s\<lparr>db_folders := db_folders s @
                   [\<lparr>fr_slug = slug, fr_name = name, fr_parent = parent, fr_created_at = ts\<rparr>]\<rparr>)) s)"

definition assign_folder :: "string \<Rightarrow> string \<Rightarrow> time \<Rightarrow> db \<Rightarrow> db" where
  "assign_folder project folder ts s =
     (if \<exists>a \<in> set (db_project_folders s). pfr_project a = project
      then s\<lparr>db_project_folders :=
             map (\<lambda>a. if pfr_project a = project
                     then a\<lparr>pfr_folder := folder, pfr_assigned_at := ts\<rparr> else a)
               (db_project_folders s)\<rparr>
      else s\<lparr>db_project_folders := db_project_folders s @
             [\<lparr>pfr_project = project, pfr_folder = folder, pfr_assigned_at = ts\<rparr>]\<rparr>)"

definition set_project_folder ::
  "string \<Rightarrow> string option \<Rightarrow> time \<Rightarrow> db \<Rightarrow> (error + unit) \<times> db" where
  "set_project_folder project folder ts = tx (\<lambda>s.
     if find_project s project = None then Inl (NoProject project)
     else case nonempty_trimmed folder of
       Some f \<Rightarrow>
         if find_folder s f = None then Inl (Bad (NoFolder f))
         else Inr ((), assign_folder project f ts s)
     | None \<Rightarrow>
         Inr ((), s\<lparr>db_project_folders :=
           filter (\<lambda>a. pfr_project a \<noteq> project) (db_project_folders s)\<rparr>))"

definition db_folder_view :: "db \<Rightarrow> folder_view" where
  "db_folder_view s =
     \<lparr>fv_folders =
        map (\<lambda>f. \<lparr>fo_slug = fr_slug f, fo_name = fr_name f, fo_parent = fr_parent f,
                  fo_created_at = fr_created_at f\<rparr>)
          (sort_key (\<lambda>f. (fr_name f, fr_slug f)) (db_folders s)),
      fv_projects =
        map (\<lambda>a. \<lparr>pf_project = pfr_project a, pf_folder = pfr_folder a\<rparr>)
          (sort_key pfr_project (db_project_folders s))\<rparr>"

section \<open>The store identity\<close>

definition set_store_id :: "string \<Rightarrow> db \<Rightarrow> (error + unit) \<times> db" where
  "set_store_id store_id s =
     (if store_id = [] then (Inl (Bad StoreIdEmpty), s)
      else if db_store_id s = store_id then (Inr (), s)
      else tx (\<lambda>s. if db_outbound s \<noteq> [] then Inl (Bad StoreIdFrozen)
                  else Inr ((), s\<lparr>db_store_id := store_id\<rparr>)) s)"

definition validate_company_id :: "string \<Rightarrow> error option" where
  "validate_company_id company_id =
     (if company_id = [] \<or> 128 < length company_id \<or>
         \<not> list_all (\<lambda>b. ascii_alnum b \<or> b = CHR ''-'' \<or> b = CHR ''_'') company_id
      then Some (Bad UnsafeCompany) else None)"

section \<open>The outbox\<close>

definition event_of_row :: "outbound_row \<Rightarrow> outbound_event" where
  "event_of_row r =
     \<lparr>oe_seq = or_seq r, oe_store_id = or_store_id r, oe_issue_id = or_issue_id r,
      oe_project = or_project r, oe_occurred_at = or_occurred_at r, oe_event = or_event r,
      oe_attempts = or_attempts r\<rparr>"

definition pending_events :: "time \<Rightarrow> nat \<Rightarrow> db \<Rightarrow> outbound_event list" where
  "pending_events ts limit s =
     map event_of_row (take limit (sort_key or_seq
       (filter (\<lambda>r. or_delivered_at r = None \<and> or_next_attempt_at r \<le> ts) (db_outbound s))))"

definition upd_outbound :: "int \<Rightarrow> (outbound_row \<Rightarrow> outbound_row) \<Rightarrow> db \<Rightarrow> db" where
  "upd_outbound seq f s = s\<lparr>db_outbound :=
     map (\<lambda>r. if or_seq r = seq \<and> or_delivered_at r = None then f r else r) (db_outbound s)\<rparr>"

definition mark_event_delivered :: "int \<Rightarrow> time \<Rightarrow> db \<Rightarrow> (error + unit) \<times> db" where
  "mark_event_delivered seq ts = tx (\<lambda>s. Inr ((), upd_outbound seq (\<lambda>r.
     r\<lparr>or_delivered_at := Some ts, or_attempts := or_attempts r + 1, or_last_error := None\<rparr>) s))"

definition mark_event_failed :: "int \<Rightarrow> time \<Rightarrow> string \<Rightarrow> db \<Rightarrow> (error + unit) \<times> db" where
  "mark_event_failed seq next_attempt_at err = tx (\<lambda>s. Inr ((), upd_outbound seq (\<lambda>r.
     r\<lparr>or_attempts := or_attempts r + 1, or_next_attempt_at := next_attempt_at,
       or_last_error := Some err\<rparr>) s))"

lemmas project_ops [op_defs] =
  ensure_project_def drop_project_def ensure_folder_def set_project_folder_def set_store_id_def
  mark_event_delivered_def mark_event_failed_def

end
