(* ===== verification/DbInv.thy ===== *)
theory DbInv
  imports DbClose DbProjects
begin

text \<open>
  The reachable states of the store and what holds in all of them. \<open>db_step\<close> has one rule per
  public mutation of \<open>Db\<close>; \<open>db_ok\<close> collects the invariants. Every operation is a composition
  of a few primitive writes, so each invariant is proved once per primitive.
\<close>

section \<open>Invariants\<close>

definition status_ok :: "string \<Rightarrow> time option \<Rightarrow> bool" where
  "status_ok st closed_at \<longleftrightarrow> st \<in> set STATUSES \<and> (st = ''closed'' \<longleftrightarrow> closed_at \<noteq> None)"

definition lease_ok :: "string option \<Rightarrow> string option \<Rightarrow> time option \<Rightarrow> bool" where
  "lease_ok assignee kind expires \<longleftrightarrow>
     (case assignee of
        None \<Rightarrow> kind = None \<and> expires = None
      | Some _ \<Rightarrow> expires \<noteq> None \<and> Option.bind kind actor_kind_parse \<noteq> None)"

definition is_object :: "json \<Rightarrow> bool" where
  "is_object v \<longleftrightarrow> (case v of JObj _ \<Rightarrow> True | _ \<Rightarrow> False)"

definition row_ok :: "issue_row \<Rightarrow> bool" where
  "row_ok r \<longleftrightarrow> status_ok (ir_status r) (ir_closed_at r) \<and>
     lease_ok (ir_assignee r) (ir_actor_kind r) (ir_expires_at r) \<and> is_object (ir_metadata r)"

lemma status_ok_simps [simp]:
  "status_ok ''open'' None" "status_ok ''closed'' (Some t)"
  by (simp_all add: status_ok_def STATUSES_def)

lemma lease_ok_simps [simp]:
  "lease_ok None None None" "lease_ok (Some a) (Some (actor_kind_str k)) (Some e)"
  by (simp_all add: lease_ok_def)

lemma is_object_JObj [simp]: "is_object (JObj m)"
  by (simp add: is_object_def)

definition issues_ok :: "db \<Rightarrow> bool" where
  "issues_ok s \<longleftrightarrow> distinct (map ir_id (db_issues s)) \<and>
     (\<forall>r \<in> set (db_issues s). row_ok r \<and> ir_project r \<in> pr_slug ` set (db_projects s))"

definition projects_ok :: "db \<Rightarrow> bool" where
  "projects_ok s \<longleftrightarrow> distinct (map pr_slug (db_projects s)) \<and> distinct (map pr_root (db_projects s)) \<and>
     distinct (map pfr_project (db_project_folders s)) \<and>
     (\<forall>a \<in> set (db_project_folders s). pfr_project a \<in> pr_slug ` set (db_projects s) \<and>
        pfr_folder a \<in> fr_slug ` set (db_folders s))"

definition folders_ok :: "db \<Rightarrow> bool" where
  "folders_ok s \<longleftrightarrow> distinct (map fr_slug (db_folders s)) \<and> acyclic (set (folder_edges s)) \<and>
     (\<forall>f \<in> set (db_folders s). \<forall>p. fr_parent f = Some p \<longrightarrow> p \<in> fr_slug ` set (db_folders s))"

definition deps_ok :: "db \<Rightarrow> bool" where
  "deps_ok s \<longleftrightarrow> distinct (db_deps s) \<and> acyclic (set (db_deps s)) \<and>
     (\<forall>d \<in> set (db_deps s). fst d \<in> ir_id ` set (db_issues s) \<and> snd d \<in> ir_id ` set (db_issues s))"

text \<open>
  Sequence numbers increase along both logs and stay below the counter; every outbox row is
  the event of the history row with its number.
\<close>

definition logs_ok :: "db \<Rightarrow> bool" where
  "logs_ok s \<longleftrightarrow> sorted_wrt (<) (map hr_seq (db_history s)) \<and>
     sorted_wrt (<) (map or_seq (db_outbound s)) \<and>
     (\<forall>h \<in> set (db_history s). hr_seq h \<le> db_history_seq s) \<and>
     (\<forall>e \<in> set (db_outbound s). \<exists>h \<in> set (db_history s). hr_seq h = or_seq e \<and>
        hr_issue_id h = or_issue_id e \<and> hr_event h = or_event e \<and> hr_ts h = or_occurred_at e)"

definition db_ok :: "db \<Rightarrow> bool" where
  "db_ok s \<longleftrightarrow> issues_ok s \<and> projects_ok s \<and> folders_ok s \<and> deps_ok s \<and> logs_ok s"

lemma db_ok_empty: "db_ok ((empty_db sid)\<lparr>db_policy := pol, db_week := w\<rparr>)"
  by (simp add: db_ok_def issues_ok_def projects_ok_def folders_ok_def deps_ok_def logs_ok_def
      empty_db_def folder_edges_def acyclic_def)

section \<open>The primitive writes\<close>

lemma folder_edges_frame [simp]:
  "folder_edges (log_event i ts a e d s) = folder_edges s"
  "folder_edges (upd_issue i f s) = folder_edges s"
  by (simp_all add: folder_edges_def)

lemma filter_key_single:
  assumes "distinct (map k xs)"
  shows "length (filter (\<lambda>x. k x = i) xs) \<le> 1"
  using assms
proof (induction xs)
  case (Cons x xs)
  show ?case
  proof (cases "k x = i")
    case True
    with Cons.prems have "i \<notin> k ` set xs" by simp
    then have "\<forall>y \<in> set xs. k y \<noteq> i" by (blast intro: imageI)
    with True show ?thesis by simp
  next
    case False
    with Cons show ?thesis by simp
  qed
qed simp

lemma logs_ok_log:
  assumes "logs_ok s" and "distinct (map ir_id (db_issues s))"
  shows "logs_ok (log_event i ts a e d s)"
proof -
  let ?rows = "filter (\<lambda>r. ir_id r = i) (db_issues s)"
  have below: "\<forall>x \<in> set (db_outbound s). or_seq x < db_history_seq s + 1"
    using assms(1) by (fastforce simp: logs_ok_def)
  have hist: "\<forall>x \<in> set (db_history s). hr_seq x < db_history_seq s + 1"
    using assms(1) by (fastforce simp: logs_ok_def)
  have "?rows = [] \<or> (\<exists>r. ?rows = [r] \<and> ir_id r = i)"
  proof (cases ?rows)
    case (Cons r rs)
    with filter_key_single [OF assms(2), of i] have "?rows = [r]" by simp
    moreover have "r \<in> set ?rows" using Cons by (metis list.set_intros(1))
    then have "ir_id r = i" unfolding set_filter by blast
    ultimately show ?thesis by blast
  qed simp
  then show ?thesis
    using assms(1) below hist
    by (auto simp: logs_ok_def log_event_def Let_def sorted_wrt_append; fastforce)
qed

lemma db_ok_log [inv_intros]:
  assumes "db_ok s"
  shows "db_ok (log_event i ts a e d s)"
proof -
  have "logs_ok (log_event i ts a e d s)"
    using assms by (intro logs_ok_log) (auto simp: db_ok_def issues_ok_def)
  with assms show ?thesis
    by (simp add: db_ok_def issues_ok_def projects_ok_def folders_ok_def deps_ok_def)
qed

lemma db_ok_upd [inv_intros]:
  assumes "db_ok s"
    and "\<And>r. find_issue s i = Some r \<Longrightarrow> row_ok r \<Longrightarrow>
      row_ok (f r) \<and> ir_id (f r) = i \<and> ir_project (f r) = ir_project r"
  shows "db_ok (upd_issue i f s)"
proof -
  have row: "row_ok (f r) \<and> ir_id (f r) = i \<and> ir_project (f r) = ir_project r"
    if "r \<in> set (db_issues s)" "ir_id r = i" for r
    using assms that find_issue_row [of s r] by (auto simp: db_ok_def issues_ok_def)
  have ids: "map ir_id (db_issues (upd_issue i f s)) = map ir_id (db_issues s)"
    using row by (auto simp: upd_issue_def)
  then have "ir_id ` set (db_issues (upd_issue i f s)) = ir_id ` set (db_issues s)"
    by (metis list.set_map)
  moreover have "\<forall>r \<in> set (db_issues (upd_issue i f s)). row_ok r \<and>
      ir_project r \<in> pr_slug ` set (db_projects s)"
    using assms(1) row by (auto simp: db_ok_def issues_ok_def upd_issue_def)
  ultimately show ?thesis
    using assms(1) ids
    by (simp add: db_ok_def issues_ok_def projects_ok_def folders_ok_def deps_ok_def logs_ok_def)
qed

lemma db_ok_deps:
  assumes "db_ok s" and "distinct ds" and "acyclic (set ds)"
    and "\<And>c p. (c, p) \<in> set ds \<Longrightarrow> find_issue s c \<noteq> None \<and> find_issue s p \<noteq> None"
  shows "db_ok (s\<lparr>db_deps := ds\<rparr>)"
proof -
  have "deps_ok (s\<lparr>db_deps := ds\<rparr>)"
    using assms(2-4) by (auto simp: deps_ok_def find_issue_None)
  with assms(1) show ?thesis
    by (simp add: db_ok_def issues_ok_def projects_ok_def folders_ok_def logs_ok_def
        folder_edges_def)
qed

lemma db_ok_remote [inv_intros]:
  "db_ok s \<Longrightarrow> db_ok (s\<lparr>db_remote_deps := rs\<rparr>)"
  by (simp add: db_ok_def issues_ok_def projects_ok_def folders_ok_def deps_ok_def logs_ok_def
      folder_edges_def)

lemma db_ok_store_id [inv_intros]:
  "db_ok s \<Longrightarrow> db_ok (s\<lparr>db_store_id := i\<rparr>)"
  by (simp add: db_ok_def issues_ok_def projects_ok_def folders_ok_def deps_ok_def logs_ok_def
      folder_edges_def)

lemma db_ok_rows: "db_ok s \<Longrightarrow> find_issue s i = Some r \<Longrightarrow> row_ok r"
  using find_issue_mem by (fastforce simp: db_ok_def issues_ok_def)

end
