(* ===== verification/DbSteps.thy ===== *)
theory DbSteps
  imports DbInv
begin

text \<open>
  Every public mutation of \<open>Db\<close> keeps \<open>db_ok\<close>, on every branch; the step relation of the store
  and its reachable states.
\<close>

section \<open>Issues, edges, claims and closing\<close>

lemma db_ok_tx:
  assumes "db_ok s" and "\<And>a s'. body s = Inr (a, s') \<Longrightarrow> db_ok s'"
  shows "db_ok (snd (tx body s))"
  using assms by (rule tx_keeps)

lemma snd_then_get [simp]: "snd (then_get i r) = snd r"
  by (simp add: then_get_def split: sum.splits)

lemma new_row_ok [simp]: "row_ok (new_row spec i p (JObj m) g ts)"
  by (simp add: row_ok_def new_row_def)

lemma insert_issue_ok:
  assumes "db_ok s" and "insert_issue spec project i ts s = Inr (j, s')"
    and "find_issue s i = None" and "find_project s project \<noteq> None"
  shows "db_ok s'"
proof -
  from assms(2) obtain m where m: "create_metadata spec = Inr (JObj m)"
    by (auto simp: insert_issue_def create_metadata_def split: sum.splits json.splits)
  let ?r = "\<lambda>g. new_row spec i project (JObj m) g ts"
  have p: "project \<in> pr_slug ` set (db_projects s)"
    using assms(4) by (auto simp: find_project_def dest!: find_Some_mem)
  have "db_ok (s\<lparr>db_issues := db_issues s @ [?r g]\<rparr>)" for g
  proof -
    have "ir_id (?r g) = i" and "ir_project (?r g) = project" by (simp_all add: new_row_def)
    moreover have "folder_edges (s\<lparr>db_issues := db_issues s @ [?r g]\<rparr>) = folder_edges s"
      by (simp add: folder_edges_def)
    ultimately show ?thesis
      using assms(1,3) p
      by (simp add: db_ok_def issues_ok_def projects_ok_def folders_ok_def deps_ok_def logs_ok_def
          find_issue_None)
  qed
  with assms(2) m show ?thesis
    by (auto simp: insert_issue_def Let_def intro!: db_ok_log split: option.splits)
qed

lemma pick_id_free: "pick_id prefix s ds = Some i \<Longrightarrow> find_issue s i = None"
  by (induction ds) (auto simp: Let_def split: if_splits)

lemma create_body_ok:
  assumes "db_ok s" and "create_body spec draws project ts s = Some (Inr (i, s'))"
  shows "db_ok s'"
proof -
  obtain pre where pre: "prefix_for s project = Inr pre"
    using assms(2) by (cases "prefix_for s project") (auto simp: create_body_def)
  then have "find_project s project \<noteq> None" by (auto simp: prefix_for_def split: option.splits)
  moreover obtain j where "insert_issue spec project j ts s = Inr (i, s')" "find_issue s j = None"
    using assms(2) pre
    by (auto simp: create_body_def split: option.splits if_splits dest: pick_id_free)
  ultimately show ?thesis using insert_issue_ok assms(1) by blast
qed

lemma create_ok:
  assumes "db_ok s" and "create spec draws ts s = Some (r, s')"
  shows "db_ok s'"
proof (cases "n_project spec")
  case (Some project)
  with assms(2) obtain b where b: "create_body spec draws project ts s = Some b"
    and r: "(r, s') = tx (\<lambda>_. b) s" by (auto simp: create_def)
  show ?thesis
  proof (cases b)
    case (Inr p)
    obtain j u where "p = (j, u)" by fastforce
    with Inr b r create_body_ok [OF assms(1), of spec draws project ts j u] show ?thesis
      by (simp add: tx_def)
  qed (use r assms(1) in \<open>simp add: tx_def\<close>)
qed (use assms in \<open>simp add: create_def\<close>)

lemma db_ok_upd_fun:
  assumes "db_ok s" and "\<And>r. row_ok r \<Longrightarrow> row_ok (f r)"
    and "\<And>r. ir_id (f r) = ir_id r" and "\<And>r. ir_project (f r) = ir_project r"
  shows "db_ok (upd_issue i f s)"
  using assms by (intro db_ok_upd) (auto dest: find_issue_id)

lemma patch_text_ok:
  "row_ok r \<Longrightarrow> row_ok (patch_text patch r)"
  "ir_id (patch_text patch r) = ir_id r" "ir_project (patch_text patch r) = ir_project r"
  by (simp_all add: row_ok_def patch_text_def)

lemma patch_metadata_ok:
  assumes "patch_metadata merge r = Inr r'"
  shows "row_ok r \<Longrightarrow> row_ok r'" and "ir_id r' = ir_id r" and "ir_project r' = ir_project r"
  using assms by (auto simp: patch_metadata_def row_ok_def Let_def split: json.splits)

lemma patch_status_ok:
  "row_ok r \<Longrightarrow> (\<And>st. p_status patch = Some st \<Longrightarrow> st \<in> set STATUSES) \<Longrightarrow> row_ok (patch_status patch ts r)"
  "ir_id (patch_status patch ts r) = ir_id r"
  "ir_project (patch_status patch ts r) = ir_project r"
  by (auto simp: row_ok_def patch_status_def status_ok_def split: option.splits)

lemma row_ok_times [simp]:
  "row_ok (r\<lparr>ir_available_at := a\<rparr>) = row_ok r"
  "row_ok (r\<lparr>ir_updated_at := u\<rparr>) = row_ok r"
  "row_ok (r\<lparr>ir_labels := l\<rparr>) = row_ok r"
  by (simp_all add: row_ok_def)

lemma patch_row_ok:
  assumes "patch_row pol patch ts r = Inr r'" and "row_ok r"
    and "\<And>st. p_status patch = Some st \<Longrightarrow> st \<in> set STATUSES"
  shows "row_ok r' \<and> ir_id r' = ir_id r \<and> ir_project r' = ir_project r"
proof -
  obtain cur where cur: "(case p_metadata patch of None \<Rightarrow> Inr (patch_text patch r)
      | Some merge \<Rightarrow> patch_metadata merge (patch_text patch r)) = (Inr cur :: error + issue_row)"
    and r': "\<exists>a. r' = (patch_status patch ts cur)\<lparr>ir_available_at := a, ir_updated_at := ts\<rparr>"
    using assms(1) by (auto simp: patch_row_def split: sum.splits)
  have "row_ok cur \<and> ir_id cur = ir_id r \<and> ir_project cur = ir_project r"
    using cur patch_text_ok assms(2) patch_metadata_ok [of _ "patch_text patch r" cur]
    by (auto split: option.splits)
  with r' patch_status_ok assms(3) show ?thesis by auto
qed

lemma update_body_ok:
  assumes "db_ok s" and "update_body i patch actor ts s = Inr (u, s')"
    and "\<And>st. p_status patch = Some st \<Longrightarrow> st \<in> set STATUSES"
  shows "db_ok s'"
proof -
  from assms(2) obtain r r' where r: "find_issue s i = Some r"
    and r': "patch_row (db_policy s) patch ts r = Inr r'"
    by (auto simp: update_body_def split: option.splits sum.splits)
  have "db_ok (upd_issue i (\<lambda>_. r') s)"
    using assms(1) r patch_row_ok [OF r' _ assms(3)] find_issue_id [OF r]
    by (intro db_ok_upd) auto
  with assms(2) r r' show ?thesis
    by (auto simp: update_body_def Let_def intro!: db_ok_log split: if_splits)
qed

lemma update_ok:
  assumes "db_ok s"
  shows "db_ok (snd (update i patch actor ts s))"
proof (cases "\<exists>st. p_status patch = Some st \<and> st \<notin> set STATUSES")
  case True
  with assms show ?thesis by (auto simp: update_def)
next
  case False
  have "db_ok (snd (tx (update_body i patch actor ts) s))"
    by (rule db_ok_tx [OF assms], rule update_body_ok [OF assms]) (use False in auto)
  with False show ?thesis by (auto simp: update_def split: option.splits)
qed

lemma set_labels_ok: "db_ok s \<Longrightarrow> db_ok (snd (set_labels i labels actor ts s))"
  unfolding set_labels_def
  by (rule db_ok_tx) (auto split: option.splits intro!: db_ok_log db_ok_upd_fun)

lemma add_label_write_ok: "db_ok s \<Longrightarrow> db_ok (snd (add_label_write i l actor ts seen s))"
  by (simp add: add_label_write_def set_labels_ok)

lemma add_label_ok: "db_ok s \<Longrightarrow> db_ok (snd (add_label i l actor ts s))"
  by (simp add: add_label_def add_label_write_ok split: sum.splits)

lemma remove_label_ok: "db_ok s \<Longrightarrow> db_ok (snd (remove_label i l actor ts s))"
  by (simp add: remove_label_def set_labels_ok split: sum.splits)

lemma touch_updated_ok [inv_intros]: "db_ok s \<Longrightarrow> db_ok (touch_updated i ts s)"
  unfolding touch_updated_def by (rule db_ok_upd_fun) auto

lemma insert_dep_ok:
  assumes "db_ok s" and "(p, c) \<notin> (set (db_deps s))\<^sup>*"
    and "find_issue s c \<noteq> None" and "find_issue s p \<noteq> None"
  shows "db_ok (insert_dep c p s)"
proof (cases "(c, p) \<in> set (db_deps s)")
  case False
  then have "insert_dep c p s = s\<lparr>db_deps := db_deps s @ [(c, p)]\<rparr>" by (simp add: insert_dep_def)
  moreover have "db_ok (s\<lparr>db_deps := db_deps s @ [(c, p)]\<rparr>)"
    by (rule db_ok_deps)
      (use assms False in \<open>auto simp: db_ok_def deps_ok_def acyclic_insert find_issue_None\<close>)
  ultimately show ?thesis by simp
qed (use assms in \<open>simp add: insert_dep_def\<close>)

lemma add_dep_ok: "db_ok s \<Longrightarrow> db_ok (snd (add_dep c p actor ts s))"
  unfolding add_dep_def
  by (auto simp: reachable_iff split: if_splits
      intro!: db_ok_tx db_ok_log touch_updated_ok insert_dep_ok)

lemma remove_dep_ok:
  assumes "db_ok s"
  shows "db_ok (snd (remove_dep c p actor ts s))"
proof -
  let ?ds = "filter (\<lambda>d. d \<noteq> (c, p)) (db_deps s)"
  have d: "deps_ok s" using assms by (simp add: db_ok_def)
  have "acyclic (set ?ds)"
    by (rule acyclic_subset [of "set (db_deps s)"]) (use d in \<open>auto simp: deps_ok_def\<close>)
  moreover have "distinct ?ds" using d by (simp add: deps_ok_def)
  moreover have "find_issue s a \<noteq> None \<and> find_issue s b \<noteq> None" if "(a, b) \<in> set ?ds" for a b
  proof -
    have "(a, b) \<in> set (db_deps s)" using that by simp
    with d have "a \<in> ir_id ` set (db_issues s) \<and> b \<in> ir_id ` set (db_issues s)"
      by (fastforce simp: deps_ok_def)
    then show ?thesis by (simp add: find_issue_None)
  qed
  ultimately have "db_ok (s\<lparr>db_deps := ?ds\<rparr>)" using assms by (intro db_ok_deps)
  then show ?thesis by (simp add: remove_dep_def tx_def db_ok_log)
qed

lemma add_remote_dep_ok: "db_ok s \<Longrightarrow> db_ok (snd (add_remote_dep c d actor ts s))"
  unfolding add_remote_dep_def
  by (auto simp: upsert_remote_def Let_def split: sum.splits if_splits
      intro!: db_ok_tx db_ok_log touch_updated_ok db_ok_remote)

lemma remove_remote_dep_ok: "db_ok s \<Longrightarrow> db_ok (snd (remove_remote_dep c ref actor ts s))"
  by (simp add: remove_remote_dep_def tx_def db_ok_log db_ok_remote)

lemma clear_claim_ok: "row_ok r \<Longrightarrow> row_ok (clear_claim r)"
  by (simp add: row_ok_def clear_claim_def)

lemma clear_claim_project [simp]: "ir_project (clear_claim r) = ir_project r"
  by (simp add: clear_claim_def)

lemma set_claim_ok: "row_ok r \<Longrightarrow> row_ok (set_claim req ts ttl r)"
  by (simp add: row_ok_def set_claim_def)

lemma set_claim_project [simp]: "ir_project (set_claim req ts ttl r) = ir_project r"
  by (simp add: set_claim_def)

lemma claim_ok:
  assumes "db_ok s"
  shows "db_ok (snd (claim req ts s))"
proof (cases "claim req ts s")
  case (Pair res s')
  show ?thesis
  proof (cases res)
    case (Inr rc)
    then obtain ttl where "s' = log_event (cr_id req) ts (cr_assignee req) ''claimed''
        (actor_kind_str (cr_actor_kind req)) (upd_issue (cr_id req) (set_claim req ts ttl) s)"
      using Pair by (auto elim!: claim_Inr)
    with Pair assms show ?thesis by (auto intro!: db_ok_log db_ok_upd_fun set_claim_ok)
  next
    case (Inl e)
    with Pair assms show ?thesis by (auto simp: claim_def split: option.splits if_splits)
  qed
qed

lemma touch_row_ok:
  "row_ok r \<Longrightarrow> ir_assignee r \<noteq> None \<Longrightarrow> row_ok (r\<lparr>ir_expires_at := Some e, ir_updated_at := ts\<rparr>)"
  by (auto simp: row_ok_def lease_ok_def)

lemma touch_ok:
  assumes "db_ok s"
  shows "db_ok (snd (touch i assignee ts s))"
  unfolding touch_def
proof (rule db_ok_tx [OF assms], goal_cases)
  case (1 e s')
  then obtain r where "find_issue s i = Some r" and "ir_assignee r = Some assignee"
    and s': "s' = log_event i ts assignee ''heartbeat'' []
      (upd_issue i (\<lambda>r. r\<lparr>ir_expires_at := Some e, ir_updated_at := ts\<rparr>) s)"
    by (auto split: option.splits if_splits)
  with assms show ?case
    by (auto intro!: db_ok_log db_ok_upd touch_row_ok dest: find_issue_id)
qed

lemma release_ok: "db_ok s \<Longrightarrow> db_ok (snd (release i actor ts s))"
  unfolding release_def
  by (rule db_ok_tx) (auto intro!: db_ok_log db_ok_upd_fun clear_claim_ok)

lemma sweep_rows_ok:
  "db_ok (snd st) \<Longrightarrow> db_ok (snd (fold (sweep_row ts) rows st))"
proof (induction rows arbitrary: st)
  case (Cons row rows)
  obtain rep s i a k where "st = (rep, s)" "row = (i, a, k)" by (metis prod_cases3 surj_pair)
  with Cons.prems have "db_ok (snd (sweep_row ts row st))"
    by (auto simp: sweep_row_def intro!: db_ok_log db_ok_upd_fun clear_claim_ok)
  with Cons.IH show ?case by simp
qed simp

lemma sweep_ok: "db_ok s \<Longrightarrow> db_ok (snd (sweep ts s))"
  unfolding sweep_def
proof (rule db_ok_tx, goal_cases)
  case (2 rep s')
  then have "s' = snd (fold (sweep_row ts) (map (\<lambda>r. (ir_id r, the (ir_assignee r), the (ir_actor_kind r)))
      (filter (lapsed ts) (db_issues s))) (\<lparr>requeued = [], escalated = []\<rparr>, s))"
    by (simp add: Let_def split: if_splits)
  then show ?case using 2(1) by (simp add: sweep_rows_ok)
qed

lemma close_row_ok: "row_ok r \<Longrightarrow> row_ok (close_row reason ev ts r)"
  by (simp add: row_ok_def close_row_def clear_claim_def)

lemma close_row_project [simp]: "ir_project (close_row reason ev ts r) = ir_project r"
  by (simp add: close_row_def)

lemma close_unchecked_ok: "db_ok s \<Longrightarrow> db_ok (snd (close_unchecked i reason ev actor ts s))"
  unfolding close_unchecked_def snd_then_get
  by (rule db_ok_tx) (auto split: option.splits intro!: db_ok_log db_ok_upd_fun close_row_ok)

lemma close_ok: "db_ok s \<Longrightarrow> db_ok (snd (close i reason ev actor ts s))"
  by (simp add: close_def close_unchecked_ok split: option.splits)

lemma supersede_ok:
  assumes "db_ok s"
  shows "db_ok (snd (supersede i replacement actor ts s))"
proof -
  have "db_ok (snd (close_unchecked i (Some why) ev actor ts s))" for why ev
    by (rule close_unchecked_ok [OF assms])
  then show ?thesis
    unfolding supersede_def Let_def
    by (auto split: prod.splits sum.splits simp: assms intro!: add_label_ok) (metis snd_conv)+
qed

section \<open>Projects, folders, the outbox\<close>

lemma db_ok_projects:
  assumes "db_ok s" and "distinct (map pr_slug ps)" and "distinct (map pr_root ps)"
    and sub: "pr_slug ` set (db_projects s) \<subseteq> pr_slug ` set ps"
  shows "db_ok (s\<lparr>db_projects := ps\<rparr>)"
proof -
  have "issues_ok (s\<lparr>db_projects := ps\<rparr>)"
    using assms(1) sub by (auto simp: db_ok_def issues_ok_def)
  moreover have "projects_ok (s\<lparr>db_projects := ps\<rparr>)"
    using assms by (auto simp: db_ok_def projects_ok_def)
  ultimately show ?thesis
    using assms(1) by (simp add: db_ok_def folders_ok_def deps_ok_def logs_ok_def folder_edges_def)
qed

lemma distinct_map_redirect:
  assumes "distinct (map k xs)" and "distinct (map g xs)"
    and "\<And>x. g (f x) = v" and "v \<notin> g ` {x \<in> set xs. k x \<noteq> i}"
  shows "distinct (map g (map (\<lambda>x. if k x = i then f x else x) xs))"
proof -
  have "inj_on (g \<circ> (\<lambda>x. if k x = i then f x else x)) (set xs)"
  proof (rule inj_onI)
    fix x y
    assume xy: "x \<in> set xs" "y \<in> set xs"
      and eq: "(g \<circ> (\<lambda>x. if k x = i then f x else x)) x = (g \<circ> (\<lambda>x. if k x = i then f x else x)) y"
    have inj: "k x = k y \<Longrightarrow> x = y" "g x = g y \<Longrightarrow> x = y"
      using assms(1,2) xy by (auto simp: distinct_map inj_on_def)
    have "g x \<noteq> v" if "k x \<noteq> i" using assms(4) xy(1) that by blast
    moreover have "g y \<noteq> v" if "k y \<noteq> i" using assms(4) xy(2) that by blast
    ultimately show "x = y" using eq inj assms(3) by (auto split: if_splits)
  qed
  then show ?thesis using assms(2) by (simp add: distinct_map)
qed

lemma ensure_project_ok:
  assumes "db_ok s"
  shows "db_ok (snd (ensure_project slug root prefix ts s))"
  unfolding ensure_project_def
proof (rule db_ok_tx [OF assms], goal_cases)
  case (1 u s')
  have fresh: "root \<notin> pr_root ` {p \<in> set (db_projects s). pr_slug p \<noteq> slug}"
    using 1 by (auto split: if_splits)
  have P: "distinct (map pr_slug (db_projects s))" "distinct (map pr_root (db_projects s))"
    using assms by (auto simp: db_ok_def projects_ok_def)
  show ?case
  proof (cases "find_project s slug")
    case None
    then have new: "\<forall>p \<in> set (db_projects s). pr_slug p \<noteq> slug"
      by (auto simp: find_project_def find_None_iff_all)
    then have "root \<notin> pr_root ` set (db_projects s)" using fresh by blast
    moreover have "s' = s\<lparr>db_projects := db_projects s @
        [\<lparr>pr_slug = slug, pr_root = root, pr_prefix = prefix, pr_created_at = ts\<rparr>]\<rparr>"
      using 1 None by (auto split: if_splits)
    ultimately show ?thesis
      using P new by (auto intro!: db_ok_projects [OF assms])
  next
    case (Some p)
    let ?f = "\<lambda>p. if pr_slug p = slug then p\<lparr>pr_root := root\<rparr> else p"
    have s': "s' = s\<lparr>db_projects := map ?f (db_projects s)\<rparr>" using 1 Some by (auto split: if_splits)
    have slugs: "map pr_slug (map ?f (db_projects s)) = map pr_slug (db_projects s)" by auto
    then have "pr_slug ` set (map ?f (db_projects s)) = pr_slug ` set (db_projects s)"
      by (metis list.set_map)
    moreover have "distinct (map pr_root (map ?f (db_projects s)))"
      by (rule distinct_map_redirect [OF P, where v = root]) (use fresh in auto)
    ultimately show ?thesis
      unfolding s' using slugs P(1) by (intro db_ok_projects [OF assms]) (simp_all only: order_refl)
  qed
qed

lemma drop_project_ok:
  assumes "db_ok s"
  shows "db_ok (snd (drop_project slug s))"
  unfolding drop_project_def
proof (rule db_ok_tx [OF assms], goal_cases)
  case (1 n s')
  let ?mine = "map ir_id (filter (\<lambda>r. ir_project r = slug) (db_issues s))"
  have ok: "issues_ok s" "projects_ok s" "folders_ok s" "deps_ok s" "logs_ok s"
    using assms by (auto simp: db_ok_def)
  have s': "s' = s\<lparr>db_outbound := filter (\<lambda>e. or_issue_id e \<notin> set ?mine) (db_outbound s),
      db_history := filter (\<lambda>e. hr_issue_id e \<notin> set ?mine) (db_history s),
      db_deps := filter (\<lambda>d. fst d \<notin> set ?mine \<and> snd d \<notin> set ?mine) (db_deps s),
      db_remote_deps := filter (\<lambda>d. fst d \<notin> set ?mine) (db_remote_deps s),
      db_issues := filter (\<lambda>r. ir_project r \<noteq> slug) (db_issues s),
      db_projects := filter (\<lambda>p. pr_slug p \<noteq> slug) (db_projects s),
      db_project_folders := filter (\<lambda>a. pfr_project a \<noteq> slug) (db_project_folders s)\<rparr>"
    using 1 by (auto simp: Let_def split: if_splits)
  have "issues_ok s'"
    using ok(1) by (auto simp: s' issues_ok_def distinct_map_filter)
  moreover have "projects_ok s'"
    using ok(2) by (auto simp: s' projects_ok_def distinct_map_filter)
  moreover have "folders_ok s'"
    using ok(3) by (simp add: s' folders_ok_def folder_edges_def)
  moreover have "deps_ok s'"
  proof -
    have "acyclic (set (db_deps s'))"
      by (rule acyclic_subset [of "set (db_deps s)"]) (use ok(4) in \<open>auto simp: s' deps_ok_def\<close>)
    moreover have "a \<in> ir_id ` set (db_issues s') \<and> b \<in> ir_id ` set (db_issues s')"
      if d: "(a, b) \<in> set (db_deps s')" for a b
    proof -
      have "a \<in> ir_id ` set (db_issues s)" "b \<in> ir_id ` set (db_issues s)"
        "a \<notin> set ?mine" "b \<notin> set ?mine"
        using d ok(4) by (auto simp: s' deps_ok_def)
      then show ?thesis by (auto simp: s')
    qed
    ultimately show ?thesis using ok(4) by (auto simp: deps_ok_def s')
  qed
  moreover have "logs_ok s'"
  proof -
    have "sorted_wrt (<) (map hr_seq (db_history s'))" "sorted_wrt (<) (map or_seq (db_outbound s'))"
      using ok(5) by (auto simp: s' logs_ok_def sorted_wrt_map intro: sorted_wrt_filter)
    moreover have "\<forall>h \<in> set (db_history s'). hr_seq h \<le> db_history_seq s'"
      using ok(5) by (simp add: s' logs_ok_def)
    moreover have "\<exists>h \<in> set (db_history s'). hr_seq h = or_seq e \<and> hr_issue_id h = or_issue_id e \<and>
        hr_event h = or_event e \<and> hr_ts h = or_occurred_at e" if e: "e \<in> set (db_outbound s')" for e
    proof -
      have "e \<in> set (db_outbound s)" and out: "or_issue_id e \<notin> set ?mine"
        using e by (auto simp: s')
      then obtain h where "h \<in> set (db_history s)" "hr_seq h = or_seq e"
        "hr_issue_id h = or_issue_id e" "hr_event h = or_event e" "hr_ts h = or_occurred_at e"
        using ok(5) unfolding logs_ok_def by blast
      then show ?thesis using out by (intro bexI [of _ h]) (simp_all add: s')
    qed
    ultimately show ?thesis unfolding logs_ok_def by blast
  qed
  ultimately show ?case by (simp add: db_ok_def)
qed

lemma folder_edges_mem:
  "(a, b) \<in> set (folder_edges s) \<longleftrightarrow> (\<exists>f \<in> set (db_folders s). fr_slug f = a \<and> fr_parent f = Some b)"
  by (auto simp: folder_edges_def set_map_filter_Some)

text \<open>Replacing the edge out of one folder keeps the tree acyclic when the new parent does not reach it.\<close>

lemma acyclic_redirect:
  assumes "acyclic R" and "(b, a) \<notin> R\<^sup>*" and "R' \<subseteq> insert (a, b) R"
  shows "acyclic R'"
  using assms by (meson acyclic_insert acyclic_subset)

lemma ensure_folder_ok:
  assumes "db_ok s"
  shows "db_ok (snd (ensure_folder f ts s))"
proof -
  define slug where "slug = trim (fo_slug f)"
  define name where "name = trim (fo_name f)"
  define parent where "parent = nonempty_trimmed (fo_parent f)"
  let ?upd = "\<lambda>r. if fr_slug r = slug then r\<lparr>fr_name := name, fr_parent := parent\<rparr> else r"
  define fs where "fs = (if find_folder s slug \<noteq> None then map ?upd (db_folders s)
     else db_folders s @ [\<lparr>fr_slug = slug, fr_name = name, fr_parent = parent, fr_created_at = ts\<rparr>])"
  have F: "folders_ok s" using assms by (simp add: db_ok_def)
  have "db_ok (s\<lparr>db_folders := fs\<rparr>)" if np: "folder_parent_problem s slug parent = None"
  proof -
    let ?s = "s\<lparr>db_folders := fs\<rparr>"
    have slugs: "insert slug (fr_slug ` set (db_folders s)) = fr_slug ` set fs"
    proof (cases "find_folder s slug")
      case (Some r)
      then have "slug \<in> fr_slug ` set (db_folders s)"
        by (auto simp: find_folder_def dest!: find_Some_mem)
      moreover have "fr_slug ` set (map ?upd (db_folders s)) = fr_slug ` set (db_folders s)"
        by (rule image_key_if) simp
      ultimately show ?thesis using Some by (simp only: fs_def if_True insert_absorb) simp
    qed (simp add: fs_def)
    have dist: "distinct (map fr_slug fs)"
    proof (cases "find_folder s slug")
      case None
      then show ?thesis using F by (auto simp: fs_def folders_ok_def find_folder_def find_None_iff_all)
    next
      case (Some r)
      have "map fr_slug (map ?upd (db_folders s)) = map fr_slug (db_folders s)" by auto
      moreover have "fs = map ?upd (db_folders s)" using Some by (simp add: fs_def)
      ultimately show ?thesis using F by (simp only: folders_ok_def)
    qed
    have new: "fr_parent g = parent" if g: "fr_slug g = slug" "g \<in> set fs" for g
    proof (cases "find_folder s slug")
      case None
      then have "\<forall>r \<in> set (db_folders s). fr_slug r \<noteq> slug"
        by (simp add: find_folder_def find_None_iff_all)
      moreover have "g \<in> set (db_folders s) \<or>
          g = \<lparr>fr_slug = slug, fr_name = name, fr_parent = parent, fr_created_at = ts\<rparr>"
        using that(2) None by (auto simp: fs_def)
      ultimately show ?thesis using that(1) by (elim disjE) (blast, erule ssubst, simp)
    next
      case (Some r)
      then have "fs = map ?upd (db_folders s)" by (simp add: fs_def)
      then obtain r0 where "g = ?upd r0" using g(2) by (simp only: set_map) blast
      with g(1) show ?thesis by (cases "fr_slug r0 = slug") simp_all
    qed
    have old: "g \<in> set (db_folders s)" if g: "fr_slug g \<noteq> slug" "g \<in> set fs" for g
    proof (cases "find_folder s slug")
      case None
      with that show ?thesis by (auto simp: fs_def)
    next
      case (Some r)
      then have "fs = map ?upd (db_folders s)" by (simp add: fs_def)
      then obtain r0 where "g = ?upd r0" "r0 \<in> set (db_folders s)"
        using g(2) by (simp only: set_map) blast
      with g(1) show ?thesis by (cases "fr_slug r0 = slug") simp_all
    qed
    have par: "p \<noteq> slug \<and> p \<in> fr_slug ` set (db_folders s) \<and> (p, slug) \<notin> (set (folder_edges s))\<^sup>*"
      if "parent = Some p" for p
      using np that
      by (auto simp: folder_parent_problem_def cte_reach_iff find_folder_def split: if_splits
          dest!: find_Some_mem)
    have acy: "acyclic (set (folder_edges ?s))"
    proof (cases parent)
      case None
      have "set (folder_edges ?s) \<subseteq> set (folder_edges s)"
        using new old None by (fastforce simp: folder_edges_mem)
      then show ?thesis using F by (auto simp: folders_ok_def intro: acyclic_subset)
    next
      case (Some p)
      have "set (folder_edges ?s) \<subseteq> insert (slug, p) (set (folder_edges s))"
        using new old Some by (fastforce simp: folder_edges_mem)
      then show ?thesis using F par [OF Some] by (auto simp: folders_ok_def intro: acyclic_redirect)
    qed
    have "\<exists>h \<in> set fs. fr_slug h = p" if "g \<in> set fs" "fr_parent g = Some p" for g p
    proof -
      have "p \<in> fr_slug ` set (db_folders s)"
        using that new [of g] old [of g] par F by (cases "fr_slug g = slug") (auto simp: folders_ok_def)
      then have "p \<in> fr_slug ` set fs" using slugs by blast
      then show ?thesis by blast
    qed
    then have "folders_ok ?s" using dist acy by (force simp: folders_ok_def)
    moreover have "projects_ok ?s"
      using assms slugs by (auto simp: db_ok_def projects_ok_def)
    ultimately show ?thesis
      using assms by (simp add: db_ok_def issues_ok_def deps_ok_def logs_ok_def)
  qed
  then show ?thesis
    unfolding ensure_folder_def slug_def [symmetric] name_def [symmetric] parent_def [symmetric] Let_def
    using assms by (auto simp: tx_def fs_def split: option.splits)
qed

lemma assign_folder_ok:
  assumes "db_ok s" and "find_project s project \<noteq> None" and "find_folder s f \<noteq> None"
  shows "db_ok (assign_folder project f ts s)"
proof -
  define as where "as = (if \<exists>a \<in> set (db_project_folders s). pfr_project a = project
      then map (\<lambda>a. if pfr_project a = project then a\<lparr>pfr_folder := f, pfr_assigned_at := ts\<rparr> else a)
        (db_project_folders s)
      else db_project_folders s @ [\<lparr>pfr_project = project, pfr_folder = f, pfr_assigned_at = ts\<rparr>])"
  have eq: "assign_folder project f ts s = s\<lparr>db_project_folders := as\<rparr>"
    by (simp add: assign_folder_def as_def)
  have mem: "project \<in> pr_slug ` set (db_projects s)" "f \<in> fr_slug ` set (db_folders s)"
    using assms(2,3) by (auto simp: find_project_def find_folder_def dest!: find_Some_mem)
  have P: "projects_ok s" using assms(1) by (simp add: db_ok_def)
  have "distinct (map pfr_project as)"
  proof (cases "\<exists>a \<in> set (db_project_folders s). pfr_project a = project")
    case True
    have "map pfr_project (map (\<lambda>a. if pfr_project a = project
        then a\<lparr>pfr_folder := f, pfr_assigned_at := ts\<rparr> else a) (db_project_folders s))
      = map pfr_project (db_project_folders s)" by (rule map_key_if) simp
    then show ?thesis using P True by (simp only: as_def projects_ok_def if_True)
  next
    case False
    then show ?thesis using P by (auto simp: as_def projects_ok_def)
  qed
  moreover have "\<forall>a \<in> set as. pfr_project a \<in> pr_slug ` set (db_projects s) \<and>
      pfr_folder a \<in> fr_slug ` set (db_folders s)"
    using P mem by (auto simp: as_def projects_ok_def)
  ultimately have "projects_ok (s\<lparr>db_project_folders := as\<rparr>)"
    using P by (simp add: projects_ok_def)
  with assms(1) show ?thesis
    unfolding eq by (simp add: db_ok_def issues_ok_def folders_ok_def deps_ok_def logs_ok_def
        folder_edges_def)
qed

lemma set_project_folder_ok:
  assumes "db_ok s"
  shows "db_ok (snd (set_project_folder project f ts s))"
  unfolding set_project_folder_def
proof (rule db_ok_tx [OF assms], goal_cases)
  case (1 u s')
  have "db_ok (s\<lparr>db_project_folders := filter (\<lambda>a. pfr_project a \<noteq> project) (db_project_folders s)\<rparr>)"
    using assms by (simp add: db_ok_def issues_ok_def projects_ok_def folders_ok_def deps_ok_def
        logs_ok_def folder_edges_def distinct_map_filter)
  with 1 assms show ?case
    by (auto split: if_splits option.splits intro: assign_folder_ok)
qed

lemma set_store_id_ok: "db_ok s \<Longrightarrow> db_ok (snd (set_store_id i s))"
  by (simp add: set_store_id_def tx_def db_ok_store_id)

lemma upd_outbound_ok:
  assumes "db_ok s"
    and "\<And>r. or_seq (f r) = or_seq r \<and> or_issue_id (f r) = or_issue_id r \<and> or_event (f r) = or_event r \<and>
      or_occurred_at (f r) = or_occurred_at r"
  shows "db_ok (upd_outbound seq f s)"
proof -
  have seqs: "map or_seq (db_outbound (upd_outbound seq f s)) = map or_seq (db_outbound s)"
    using assms(2) by (simp add: upd_outbound_def)
  have frame: "db_history (upd_outbound seq f s) = db_history s"
    "db_history_seq (upd_outbound seq f s) = db_history_seq s" by (simp_all add: upd_outbound_def)
  have "logs_ok s" using assms(1) by (simp add: db_ok_def)
  then have "logs_ok (upd_outbound seq f s)"
    unfolding logs_ok_def seqs frame using assms(2) by (auto simp: upd_outbound_def)
  with assms(1) show ?thesis
    by (simp add: db_ok_def issues_ok_def projects_ok_def folders_ok_def deps_ok_def
        folder_edges_def upd_outbound_def)
qed

lemma mark_event_delivered_ok: "db_ok s \<Longrightarrow> db_ok (snd (mark_event_delivered seq ts s))"
  by (simp add: mark_event_delivered_def tx_def upd_outbound_ok)

lemma mark_event_failed_ok: "db_ok s \<Longrightarrow> db_ok (snd (mark_event_failed seq ts e s))"
  by (simp add: mark_event_failed_def tx_def upd_outbound_ok)

section \<open>The step relation\<close>

inductive db_step :: "db \<Rightarrow> db \<Rightarrow> bool" where
  s_ensure_project: "db_step s (snd (ensure_project slug root prefix ts s))"
| s_drop_project: "db_step s (snd (drop_project slug s))"
| s_ensure_folder: "db_step s (snd (ensure_folder f ts s))"
| s_set_project_folder: "db_step s (snd (set_project_folder project folder ts s))"
| s_set_store_id: "db_step s (snd (set_store_id sid s))"
| s_delivered: "db_step s (snd (mark_event_delivered seq ts s))"
| s_failed: "db_step s (snd (mark_event_failed seq ts err s))"
| s_create: "create spec draws ts s = Some (r, s') \<Longrightarrow> db_step s s'"
| s_update: "db_step s (snd (update i patch actor ts s))"
| s_set_labels: "db_step s (snd (set_labels i labels actor ts s))"
| s_remove_label: "db_step s (snd (remove_label i label actor ts s))"
| s_add_label: "db_step s (snd (add_label i label actor ts s))"
| s_add_dep: "db_step s (snd (add_dep child parent actor ts s))"
| s_remove_dep: "db_step s (snd (remove_dep child parent actor ts s))"
| s_add_remote: "db_step s (snd (add_remote_dep child d actor ts s))"
| s_remove_remote: "db_step s (snd (remove_remote_dep child ref actor ts s))"
| s_claim: "db_step s (snd (claim req ts s))"
| s_touch: "db_step s (snd (touch i assignee ts s))"
| s_release: "db_step s (snd (release i actor ts s))"
| s_sweep: "db_step s (snd (sweep ts s))"
| s_close: "db_step s (snd (close i reason ev actor ts s))"
| s_close_unchecked: "db_step s (snd (close_unchecked i reason ev actor ts s))"
| s_supersede: "db_step s (snd (supersede i replacement actor ts s))"

inductive db_reachable :: "db \<Rightarrow> bool" where
  r_open: "db_reachable ((empty_db sid)\<lparr>db_policy := pol, db_week := w\<rparr>)"
| r_step: "db_reachable s \<Longrightarrow> db_step s s' \<Longrightarrow> db_reachable s'"

lemmas op_ok =
  ensure_project_ok drop_project_ok ensure_folder_ok set_project_folder_ok set_store_id_ok
  mark_event_delivered_ok mark_event_failed_ok create_ok update_ok set_labels_ok remove_label_ok
  add_label_ok add_dep_ok remove_dep_ok add_remote_dep_ok remove_remote_dep_ok claim_ok touch_ok
  release_ok sweep_ok close_ok close_unchecked_ok supersede_ok

lemma db_step_ok: "db_step s s' \<Longrightarrow> db_ok s \<Longrightarrow> db_ok s'"
  by (induction rule: db_step.induct) (auto intro: op_ok)

lemma db_reachable_ok: "db_reachable s \<Longrightarrow> db_ok s"
proof (induction rule: db_reachable.induct)
  case (r_open sid pol w)
  show ?case by (rule db_ok_empty)
next
  case (r_step s s')
  then show ?case by (blast intro: db_step_ok)
qed

end
