(* ===== verification/Leases.thy ===== *)
theory Leases
  imports DbSteps
begin

text \<open>
  What a claim is worth. The store's mutations as data (\<open>db_op\<close>) with an interpreter, the
  contract of an atomic claim as a locale, its consequences for a sequence of rival claims, and
  the interpretation on \<open>Db::claim\<close>.
\<close>

section \<open>Operations as data\<close>

datatype db_op =
    EnsureProject string string string
  | DropProject string
  | EnsureFolder folder
  | SetProjectFolder string "string option"
  | SetStoreId string
  | MarkDelivered int
  | MarkFailed int string
  | Create new_issue "draw list"
  | Update string issue_patch string
  | SetLabels string "string list" string
  | RemoveLabel string string string
  | AddLabel string string string
  | AddDep string string string
  | RemoveDep string string string
  | AddRemoteDep string remote_dependency string
  | RemoveRemoteDep string string string
  | Claim claim_request
  | Touch string string
  | Release string string
  | Sweep
  | Close string "string option" "evidence list" string
  | CloseUnchecked string "string option" "evidence list" string
  | Supersede string string string

text \<open>\<open>None\<close> is a creation whose id draws ran out.\<close>

fun exec :: "time \<Rightarrow> db_op \<Rightarrow> db \<Rightarrow> db option" where
  "exec ts (EnsureProject slug root prefix) s = Some (snd (ensure_project slug root prefix ts s))"
| "exec ts (DropProject slug) s = Some (snd (drop_project slug s))"
| "exec ts (EnsureFolder f) s = Some (snd (ensure_folder f ts s))"
| "exec ts (SetProjectFolder p f) s = Some (snd (set_project_folder p f ts s))"
| "exec ts (SetStoreId i) s = Some (snd (set_store_id i s))"
| "exec ts (MarkDelivered seq) s = Some (snd (mark_event_delivered seq ts s))"
| "exec ts (MarkFailed seq e) s = Some (snd (mark_event_failed seq ts e s))"
| "exec ts (Create spec draws) s = map_option snd (create spec draws ts s)"
| "exec ts (Update i patch actor) s = Some (snd (update i patch actor ts s))"
| "exec ts (SetLabels i ls actor) s = Some (snd (set_labels i ls actor ts s))"
| "exec ts (RemoveLabel i l actor) s = Some (snd (remove_label i l actor ts s))"
| "exec ts (AddLabel i l actor) s = Some (snd (add_label i l actor ts s))"
| "exec ts (AddDep c p actor) s = Some (snd (add_dep c p actor ts s))"
| "exec ts (RemoveDep c p actor) s = Some (snd (remove_dep c p actor ts s))"
| "exec ts (AddRemoteDep c d actor) s = Some (snd (add_remote_dep c d actor ts s))"
| "exec ts (RemoveRemoteDep c r actor) s = Some (snd (remove_remote_dep c r actor ts s))"
| "exec ts (Claim req) s = Some (snd (claim req ts s))"
| "exec ts (Touch i a) s = Some (snd (touch i a ts s))"
| "exec ts (Release i actor) s = Some (snd (release i actor ts s))"
| "exec ts Sweep s = Some (snd (sweep ts s))"
| "exec ts (Close i reason ev actor) s = Some (snd (close i reason ev actor ts s))"
| "exec ts (CloseUnchecked i reason ev actor) s = Some (snd (close_unchecked i reason ev actor ts s))"
| "exec ts (Supersede i r actor) s = Some (snd (supersede i r actor ts s))"

fun exec_all :: "(time \<times> db_op) list \<Rightarrow> db \<Rightarrow> db option" where
  "exec_all [] s = Some s"
| "exec_all ((ts, op) # ops) s = Option.bind (exec ts op s) (exec_all ops)"

lemma exec_step: "exec ts op s = Some s' \<Longrightarrow> db_step s s'"
  by (cases op) (fastforce intro: db_step.intros)+

lemma exec_reachable: "db_reachable s \<Longrightarrow> exec ts op s = Some s' \<Longrightarrow> db_reachable s'"
  using exec_step r_step by blast

lemma exec_all_reachable: "db_reachable s \<Longrightarrow> exec_all ops s = Some s' \<Longrightarrow> db_reachable s'"
  by (induction ops s rule: exec_all.induct)
    (auto simp: Option.bind_eq_Some_conv intro: exec_reachable)

section \<open>The contract of an atomic claim\<close>

text \<open>A sequence of timed requests, each served in turn; the answers and the last state.\<close>

fun serve :: "('req \<Rightarrow> time \<Rightarrow> 's \<Rightarrow> 'out \<times> 's) \<Rightarrow> ('req \<times> time) list \<Rightarrow> 's \<Rightarrow> 'out list \<times> 's" where
  "serve f [] s = ([], s)"
| "serve f ((req, t) # cs) s =
     (case f req t s of (out, s1) \<Rightarrow> case serve f cs s1 of (outs, s2) \<Rightarrow> (out # outs, s2))"

locale lease =
  fixes claim_op :: "'req \<Rightarrow> time \<Rightarrow> 's \<Rightarrow> ('e + 'rc) \<times> 's"
    and holds :: "'s \<Rightarrow> 'i \<Rightarrow> ('a \<times> time) option"
    and target :: "'req \<Rightarrow> 'i"
    and who :: "'req \<Rightarrow> 'a"
    and until :: "'rc \<Rightarrow> time"
  assumes claim_sets: "claim_op req t s = (Inr rc, s') \<Longrightarrow>
      holds s' i = (if i = target req then Some (who req, until rc) else holds s i)"
    and claim_fails: "claim_op req t s = (Inl err, s') \<Longrightarrow> s' = s"
    and claim_excl: "holds s (target req) = Some (a, e) \<Longrightarrow> t < e \<Longrightarrow> a \<noteq> who req \<Longrightarrow>
      \<exists>x. claim_op req t s = (Inl x, s)"
begin

text \<open>While a lease lives, rivals get nothing and change nothing about it.\<close>

lemma held_stays:
  assumes "holds s i = Some (a, e)"
    and "\<And>req t. (req, t) \<in> set cs \<Longrightarrow> t < e \<and> (target req = i \<longrightarrow> who req \<noteq> a)"
  shows "holds (snd (serve claim_op cs s)) i = Some (a, e) \<and>
    list_all2 (\<lambda>c out. target (fst c) = i \<longrightarrow> (\<exists>err. out = Inl err)) cs (fst (serve claim_op cs s))"
  using assms
proof (induction cs arbitrary: s)
  case (Cons c cs)
  obtain req t where c: "c = (req, t)" by (cases c)
  obtain out s1 where op: "claim_op req t s = (out, s1)" by (cases "claim_op req t s")
  have here: "t < e" "target req = i \<longrightarrow> who req \<noteq> a" using Cons.prems(2) [of req t] c by auto
  have "holds s1 i = Some (a, e) \<and> (target req = i \<longrightarrow> (\<exists>err. out = Inl err))"
  proof (cases "target req = i")
    case True
    with claim_excl [of s req a e t] Cons.prems(1) here op show ?thesis by auto
  next
    case False
    show ?thesis
    proof (cases out)
      case (Inl err)
      with op claim_fails Cons.prems(1) False show ?thesis by blast
    next
      case (Inr rc)
      with op claim_sets [of req t s rc s1 i] Cons.prems(1) False show ?thesis by simp
    qed
  qed
  moreover have "holds (snd (serve claim_op cs s1)) i = Some (a, e) \<and>
      list_all2 (\<lambda>c out. target (fst c) = i \<longrightarrow> (\<exists>err. out = Inl err)) cs (fst (serve claim_op cs s1))"
    using calculation Cons.prems(2) by (intro Cons.IH) auto
  ultimately show ?case by (cases "serve claim_op cs s1") (auto simp: c op)
qed simp

text \<open>Of the claims racing for one target by different claimants, the first to succeed is the only one.\<close>

lemma one_winner:
  assumes "claim_op req t s = (Inr rc, s1)"
    and "\<And>req' t'. (req', t') \<in> set cs \<Longrightarrow>
      t' < until rc \<and> (target req' = target req \<longrightarrow> who req' \<noteq> who req)"
  shows "holds (snd (serve claim_op cs s1)) (target req) = Some (who req, until rc)"
    and "list_all2 (\<lambda>c out. target (fst c) = target req \<longrightarrow> (\<exists>err. out = Inl err)) cs (fst (serve claim_op cs s1))"
  using held_stays [of s1 "target req" "who req" "until rc" cs] claim_sets [OF assms(1)] assms(2)
  by auto

end

interpretation db_lease: lease claim holder "cr_id :: claim_request \<Rightarrow> string"
  "cr_assignee :: claim_request \<Rightarrow> string" "rc_expires_at :: claim_receipt \<Rightarrow> time"
proof
  fix req :: claim_request and rc :: claim_receipt and t s s' i
  assume "claim req t s = (Inr rc, s')"
  then show "holder s' i = (if i = cr_id req then Some (cr_assignee req, rc_expires_at rc) else holder s i)"
    by (rule claim_holder)
next
  fix req t s e s'
  assume "claim req t s = (Inl e, s')"
  then show "s' = s" by (auto simp: claim_def tx_def split: option.splits if_splits)
next
  fix req :: claim_request and s a e t
  assume "holder s (cr_id req) = Some (a, e)" "t < e" "a \<noteq> cr_assignee req"
  then show "\<exists>x. claim req t s = (Inl x, s)"
    by (cases "claim_ttl (db_policy s) (db_week s) req t")
      (auto simp: claim_refused, simp add: claim_def)
qed

section \<open>Which operations can end a lease\<close>

text \<open>
  The operations that may move the lease of \<open>i\<close> held by \<open>a\<close> before it lapses: a renewal or a
  heartbeat of its holder, and the operations that close or requeue the issue, which check no
  holder.
\<close>

fun relinquishes :: "db \<Rightarrow> string \<Rightarrow> string \<Rightarrow> db_op \<Rightarrow> bool" where
  "relinquishes s i a (Claim req) \<longleftrightarrow> cr_id req = i \<and> cr_assignee req = a"
| "relinquishes s i a (Touch j b) \<longleftrightarrow> j = i \<and> b = a"
| "relinquishes s i a (Release j actor) \<longleftrightarrow> j = i"
| "relinquishes s i a (Close j reason ev actor) \<longleftrightarrow> j = i"
| "relinquishes s i a (CloseUnchecked j reason ev actor) \<longleftrightarrow> j = i"
| "relinquishes s i a (Supersede j r actor) \<longleftrightarrow> j = i"
| "relinquishes s i a (DropProject p) \<longleftrightarrow> map_option ir_project (find_issue s i) = Some p"
| "relinquishes s i a op \<longleftrightarrow> False"

lemma holder_frame: "db_issues s' = db_issues s \<Longrightarrow> holder s' i = holder s i"
  by (simp add: holder_def find_issue_def)

lemma holder_upd_other:
  assumes "i \<noteq> j" and "\<And>r. ir_id r = j \<Longrightarrow> ir_id (f r) = j"
  shows "holder (upd_issue j f s) i = holder s i"
  using assms by (simp add: holder_def find_issue_upd)

lemma holder_upd_same:
  assumes "\<And>r. ir_id r = j \<Longrightarrow> ir_id (f r) = j"
    and "\<And>r. find_issue s j = Some r \<Longrightarrow>
      ir_assignee (f r) = ir_assignee r \<and> ir_expires_at (f r) = ir_expires_at r"
  shows "holder (upd_issue j f s) i = holder s i"
  using assms by (cases "find_issue s j") (auto simp: holder_def find_issue_upd)

lemma holder_tx:
  assumes "\<And>v s'. f s = Inr (v, s') \<Longrightarrow> holder s' i = holder s i"
  shows "holder (snd (tx f s)) i = holder s i"
  using assms by (auto simp: tx_def split: sum.splits prod.splits)

lemma holder_update: "holder (snd (update j patch actor ts s)) i = holder s i"
proof -
  have "holder s' i = holder s i" if body: "update_body j patch actor ts s = Inr (v, s')" for v s'
  proof -
    from body obtain r r' where r: "find_issue s j = Some r"
      and r': "patch_row (db_policy s) patch ts r = Inr r'"
      by (auto simp: update_body_def split: option.splits sum.splits)
    from r' have "ir_id r' = ir_id r" "ir_assignee r' = ir_assignee r" "ir_expires_at r' = ir_expires_at r"
      by (auto simp: patch_row_def patch_metadata_def patch_text_def patch_status_def Let_def
          split: option.splits sum.splits json.splits)
    with r find_issue_id [OF r] have "holder (upd_issue j (\<lambda>_. r') s) i = holder s i"
      by (intro holder_upd_same) auto
    with body r r' show ?thesis by (auto simp: update_body_def Let_def split: if_splits)
  qed
  then have "holder (snd (tx (update_body j patch actor ts) s)) i = holder s i"
    by (intro holder_tx) blast
  then show ?thesis by (auto simp: update_def split: option.splits)
qed

lemma holder_set_labels: "holder (snd (set_labels j ls actor ts s)) i = holder s i"
  unfolding set_labels_def
  by (rule holder_tx) (auto split: option.splits intro!: holder_upd_same)

lemma holder_add_label: "holder (snd (add_label j l actor ts s)) i = holder s i"
  by (simp add: add_label_def add_label_write_def holder_set_labels split: sum.split)

lemma holder_remove_label: "holder (snd (remove_label j l actor ts s)) i = holder s i"
  by (simp add: remove_label_def holder_set_labels split: sum.split)

lemma holder_touch_updated: "holder (touch_updated j ts s) i = holder s i"
  unfolding touch_updated_def by (rule holder_upd_same) auto

lemma holder_dep_ops:
  "holder (snd (add_dep c p actor ts s)) i = holder s i"
  "holder (snd (remove_dep c p actor ts s)) i = holder s i"
  "holder (snd (add_remote_dep c d actor ts s)) i = holder s i"
  "holder (snd (remove_remote_dep c ref actor ts s)) i = holder s i"
proof -
  have ins: "holder (insert_dep c p s) i = holder s i" for c p s
    by (rule holder_frame) (simp add: insert_dep_def)
  have ups: "holder (upsert_remote c d s) i = holder s i" for c d s
    by (rule holder_frame) (simp add: upsert_remote_def Let_def)
  show "holder (snd (add_dep c p actor ts s)) i = holder s i"
    unfolding add_dep_def
    by (simp, intro impI holder_tx) (auto simp: holder_touch_updated ins split: if_splits)
  show "holder (snd (remove_dep c p actor ts s)) i = holder s i"
    unfolding remove_dep_def by (rule holder_tx) (auto intro: holder_frame)
  have body: "holder (snd (tx (\<lambda>s. if find_issue s c = None then Inl (NotFound c)
      else Inr ((), log_event c ts actor e1 e2 (touch_updated c ts (upsert_remote c d s)))) s)) i
    = holder s i" for e1 e2
    by (rule holder_tx) (auto simp: holder_touch_updated ups split: if_splits)
  show "holder (snd (add_remote_dep c d actor ts s)) i = holder s i"
    unfolding add_remote_dep_def by (auto simp: body split: sum.split)
  show "holder (snd (remove_remote_dep c ref actor ts s)) i = holder s i"
    unfolding remove_remote_dep_def by (rule holder_tx) (auto intro: holder_frame)
qed

lemma holder_folder_ops:
  "holder (snd (ensure_project slug root prefix ts s)) i = holder s i"
  "holder (snd (ensure_folder f ts s)) i = holder s i"
  "holder (snd (set_project_folder q g ts s)) i = holder s i"
  "holder (snd (set_store_id sid s)) i = holder s i"
  "holder (snd (mark_event_delivered seq ts s)) i = holder s i"
  "holder (snd (mark_event_failed seq ts e s)) i = holder s i"
  by (auto simp: ensure_project_def ensure_folder_def set_project_folder_def set_store_id_def
      mark_event_delivered_def mark_event_failed_def upd_outbound_def assign_folder_def Let_def tx_def
      split: if_splits option.splits intro!: holder_frame)

lemma find_append_Some: "find P xs = Some x \<Longrightarrow> find P (xs @ ys) = Some x"
  by (induction xs) (auto split: if_splits)

lemma holder_create:
  assumes "create spec draws ts s = Some (r, s')" and "holder s i = Some h"
  shows "holder s' i = Some h"
proof -
  have body: "holder s2 i = Some h" if "insert_issue spec p j ts s = Inr (v, s2)" for p j v s2
  proof -
    from that obtain row where iss: "db_issues s2 = db_issues s @ [row]"
      by (auto simp: insert_issue_def Let_def split: sum.splits)
    from assms(2) obtain r where r: "find_issue s i = Some r"
      by (auto simp: holder_def Option.bind_eq_Some_conv)
    with iss have "find_issue s2 i = Some r"
      by (simp add: find_issue_def find_append_Some)
    with r assms(2) show ?thesis by (simp add: holder_def)
  qed
  have "holder s' i = Some h" if cb: "create_body spec draws p ts s = Some out" "tx (\<lambda>_. out) s = (r, s')" for p out
  proof (cases out)
    case (Inl err)
    with cb assms(2) show ?thesis by (simp add: tx_def)
  next
    case (Inr vs)
    then obtain v where out: "out = Inr (v, s')" using cb(2) by (cases vs) (simp add: tx_def)
    then obtain j where "insert_issue spec p j ts s = Inr (v, s')"
      using cb(1) by (auto simp: create_body_def split: sum.splits option.splits if_splits)
    then show ?thesis by (rule body)
  qed
  with assms(1) show ?thesis
    using assms(2) by (auto simp: create_def split: option.splits)
qed

lemma holder_close_unchecked:
  assumes "i \<noteq> j"
  shows "holder (snd (close_unchecked j reason ev actor ts s)) i = holder s i"
  unfolding close_unchecked_def snd_then_get using assms
  by (intro holder_tx) (auto simp: holder_upd_other split: option.splits)

lemma holder_close:
  assumes "i \<noteq> j"
  shows "holder (snd (close j reason ev actor ts s)) i = holder s i"
  using assms by (simp add: close_def holder_close_unchecked split: option.split)

lemma holder_supersede:
  assumes "i \<noteq> j"
  shows "holder (snd (supersede j r actor ts s)) i = holder s i"
  using holder_close_unchecked [OF assms, of _ _ actor ts s]
  by (auto simp: supersede_def holder_add_label Let_def split: prod.split sum.split)
    (metis snd_conv holder_add_label)+

lemma holder_sweep_rows:
  assumes "i \<notin> fst ` set rows"
  shows "holder (snd (fold (sweep_row ts) rows st)) i = holder (snd st) i"
  using assms
proof (induction rows arbitrary: st)
  case (Cons row rows)
  have "holder (snd (sweep_row ts row st)) i = holder (snd st) i"
    using Cons.prems by (cases row; cases st) (auto simp: sweep_row_def holder_upd_other)
  with Cons show ?case by simp
qed simp

lemma holder_sweep:
  assumes "distinct (map ir_id (db_issues s))" and "holder s i = Some (a, e)" and "ts < e"
  shows "holder (snd (sweep ts s)) i = Some (a, e)"
proof -
  have "\<not> lapsed ts r" if "r \<in> set (db_issues s)" "ir_id r = i" for r
    using find_issue_row [OF assms(1) that(1)] that assms(2,3)
    by (auto simp: holder_def lapsed_def Option.bind_eq_Some_conv)
  then have "i \<notin> fst ` set (map (\<lambda>r. (ir_id r, the (ir_assignee r), the (ir_actor_kind r)))
      (filter (lapsed ts) (db_issues s)))" by auto
  from holder_sweep_rows [OF this] have fold: "holder (snd (fold (sweep_row ts)
      (map (\<lambda>r. (ir_id r, the (ir_assignee r), the (ir_actor_kind r))) (filter (lapsed ts) (db_issues s)))
      (\<lparr>requeued = [], escalated = []\<rparr>, s))) i = Some (a, e)" (is "holder (snd ?f) i = _")
    using assms(2) by simp
  show ?thesis
    unfolding sweep_def Let_def
  proof (rule tx_keeps)
    fix rep s'
    assume "(if \<exists>r \<in> set (filter (lapsed ts) (db_issues s)). ir_actor_kind r = None
        then Inl (Sqlite (InvalidColumnType ''actor_kind'')) else Inr ?f) = Inr (rep, s')"
    then have "?f = (rep, s')" by (simp split: if_split_asm)
    with fold show "holder s' i = Some (a, e)" by simp
  qed (rule assms(2))
qed

lemma holder_claim:
  assumes "holder s i = Some (a, e)" and "ts < e"
    and "\<not> (cr_id req = i \<and> cr_assignee req = a)"
  shows "holder (snd (claim req ts s)) i = Some (a, e)"
proof (cases "claim req ts s")
  case (Pair out s')
  show ?thesis
  proof (cases out)
    case (Inl err)
    with Pair db_lease.claim_fails assms(1) show ?thesis by fastforce
  next
    case (Inr rc)
    with db_lease.claim_excl [of s req a e ts] assms Pair have "cr_id req \<noteq> i" by auto
    with claim_holder [of req ts s rc s' i] Pair Inr assms(1) show ?thesis by simp
  qed
qed

lemma holder_touch:
  assumes "holder s i = Some (a, e)" and "\<not> (j = i \<and> b = a)"
  shows "holder (snd (touch j b ts s)) i = Some (a, e)"
proof -
  have "holder s' i = holder s i" if "snd (touch j b ts s) = s'" for s'
  proof (cases "j = i")
    case True
    with assms have "snd (touch j b ts s) = s"
      by (auto simp: touch_def tx_def holder_def Option.bind_eq_Some_conv)
    with that show ?thesis by simp
  next
    case False
    with that show ?thesis
      by (auto simp: touch_def tx_def holder_upd_other split: option.splits if_splits)
  qed
  with assms(1) show ?thesis by simp
qed

lemma holder_release:
  assumes "i \<noteq> j"
  shows "holder (snd (release j actor ts s)) i = holder s i"
  using assms by (simp add: release_def tx_def holder_upd_other)

lemma find_filter_agree:
  assumes "find P xs = Some x" and "Q x" and "\<And>y. y \<in> set xs \<Longrightarrow> P y \<Longrightarrow> y = x"
  shows "find P (filter Q xs) = Some x"
  using assms by (induction xs) (auto split: if_splits)

lemma holder_drop_project:
  assumes "distinct (map ir_id (db_issues s))" and "holder s i = Some h"
    and "map_option ir_project (find_issue s i) \<noteq> Some p"
  shows "holder (snd (drop_project p s)) i = Some h"
proof -
  from assms(2) obtain r where r: "find_issue s i = Some r"
    by (auto simp: holder_def Option.bind_eq_Some_conv)
  have "y = r" if "y \<in> set (db_issues s)" "ir_id y = i" for y
    using find_issue_row [OF assms(1) that(1)] that r by simp
  then have "find (\<lambda>r. ir_id r = i) (filter (\<lambda>r. ir_project r \<noteq> p) (db_issues s)) = Some r"
    using r assms(3) by (intro find_filter_agree) (auto simp: find_issue_def)
  then have "holder (s\<lparr>db_issues := filter (\<lambda>r. ir_project r \<noteq> p) (db_issues s)\<rparr>) i = Some h"
    using assms(2) r by (simp add: holder_def find_issue_def)
  then show ?thesis
    using assms(2) by (auto simp: drop_project_def tx_def Let_def holder_def find_issue_def)
qed

lemma exec_keeps_lease:
  assumes ok: "db_reachable s" and h: "holder s i = Some (a, e)" and "ts < e"
    and "\<not> relinquishes s i a op" and ex: "exec ts op s = Some s'"
  shows "holder s' i = Some (a, e)"
proof -
  have ids: "distinct (map ir_id (db_issues s))"
    using db_reachable_ok [OF ok] by (simp add: db_ok_def issues_ok_def)
  show ?thesis
  proof (cases op)
    case (Create spec draws)
    with ex h show ?thesis by (auto intro: holder_create)
  next
    case Sweep
    with ex holder_sweep [OF ids h \<open>ts < e\<close>] show ?thesis by auto
  next
    case (Claim req)
    with assms holder_claim [OF h \<open>ts < e\<close>] show ?thesis by auto
  next
    case (Touch j b)
    with assms holder_touch [OF h] show ?thesis by auto
  next
    case (DropProject p)
    with assms holder_drop_project [OF ids h] show ?thesis by auto
  qed (use assms in \<open>auto simp: holder_update holder_set_labels holder_add_label
      holder_remove_label holder_dep_ops holder_folder_ops holder_close holder_close_unchecked
      holder_supersede holder_release\<close>)
qed

text \<open>No operation of the sequence is one of the relinquishing ones in the state it meets.\<close>

fun undisturbed :: "string \<Rightarrow> string \<Rightarrow> time \<Rightarrow> (time \<times> db_op) list \<Rightarrow> db \<Rightarrow> bool" where
  "undisturbed i a e [] s \<longleftrightarrow> True"
| "undisturbed i a e ((ts, op) # ops) s \<longleftrightarrow>
     ts < e \<and> \<not> relinquishes s i a op \<and>
     (case exec ts op s of None \<Rightarrow> True | Some s' \<Rightarrow> undisturbed i a e ops s')"

lemma exec_all_keeps_lease:
  assumes "db_reachable s" "holder s i = Some (a, e)" "undisturbed i a e ops s"
    "exec_all ops s = Some s'"
  shows "holder s' i = Some (a, e)"
  using assms
proof (induction ops s rule: exec_all.induct)
  case (2 ts op ops s)
  then obtain s1 where s1: "exec ts op s = Some s1" "exec_all ops s1 = Some s'"
    by (auto simp: Option.bind_eq_Some_conv)
  have "holder s1 i = Some (a, e)"
    using 2 s1 by (intro exec_keeps_lease [of s i a e ts op s1]) auto
  with 2 s1 exec_reachable show ?case by auto
qed simp

end
