(* ===== verification/Queue.thy ===== *)
theory Queue
  imports Leases
begin

text \<open>
  The ready queue against the rest of the store: what it returns in terms of edges and leases,
  and how claims, closes and new edges move it.
\<close>

section \<open>Reading the invariants off a reachable state\<close>

lemma reach_ids: "db_reachable s \<Longrightarrow> distinct (map ir_id (db_issues s))"
  using db_reachable_ok by (simp add: db_ok_def issues_ok_def)

lemma reach_row: "db_reachable s \<Longrightarrow> find_issue s i = Some r \<Longrightarrow> row_ok r"
  using db_reachable_ok db_ok_rows by blast

lemma reach_dep:
  assumes "db_reachable s" and "(c, p) \<in> set (db_deps s)"
  shows "find_issue s c \<noteq> None" and "find_issue s p \<noteq> None"
proof -
  have "c \<in> ir_id ` set (db_issues s) \<and> p \<in> ir_id ` set (db_issues s)"
    using db_reachable_ok [OF assms(1)] assms(2) by (fastforce simp: db_ok_def deps_ok_def)
  then show "find_issue s c \<noteq> None" and "find_issue s p \<noteq> None"
    by (simp_all only: find_issue_None not_not)
qed

lemma row_holder_None:
  assumes "row_ok r" and "find_issue s i = Some r"
  shows "holder s i = None \<longleftrightarrow> ir_assignee r = None"
  using assms by (auto simp: holder_def row_ok_def lease_ok_def split: option.splits)

lemma row_holder_Some:
  assumes "find_issue s i = Some r"
  shows "holder s i = Some (a, e) \<longleftrightarrow> ir_assignee r = Some a \<and> ir_expires_at r = Some e"
  using assms by (auto simp: holder_def Option.bind_eq_Some_conv)

section \<open>The queue\<close>

definition all_blockers_closed :: "db \<Rightarrow> string \<Rightarrow> bool" where
  "all_blockers_closed s i \<longleftrightarrow>
     (\<forall>d \<in> set (db_deps s). fst d = i \<longrightarrow> map_option ir_status (find_issue s (snd d)) = Some ''closed'')"

definition lease_lapsed :: "db \<Rightarrow> string \<Rightarrow> time \<Rightarrow> bool" where
  "lease_lapsed s i now \<longleftrightarrow> (case holder s i of None \<Rightarrow> True | Some (a, e) \<Rightarrow> e \<le> now)"

lemma blocked_iff:
  assumes "db_reachable s"
  shows "blocked s i \<longleftrightarrow> \<not> all_blockers_closed s i"
proof -
  have "open_issue s b \<longleftrightarrow> map_option ir_status (find_issue s b) \<noteq> Some ''closed''"
    if "(i, b) \<in> set (db_deps s)" for b
    using reach_dep(2) [OF assms that] by (auto simp: open_issue_iff [OF reach_ids [OF assms]])
  then show ?thesis
    by (fastforce simp: blocked_def blockers_of_def succs_def all_blockers_closed_def)
qed

lemma claimable_iff:
  assumes "db_reachable s" and "find_issue s i = Some r"
  shows "claimable r now \<longleftrightarrow> lease_lapsed s i now"
proof (cases "holder s i")
  case None
  then show ?thesis
    using row_holder_None [OF reach_row [OF assms] assms(2)] by (simp add: claimable_def lease_lapsed_def)
next
  case (Some h)
  then obtain a e where "holder s i = Some (a, e)" by (cases h) simp
  moreover from this have "ir_assignee r = Some a" "ir_expires_at r = Some e"
    using row_holder_Some [OF assms(2)] by blast+
  ultimately show ?thesis by (simp add: claimable_def lease_lapsed_def)
qed

lemma in_ready_iff:
  assumes "db_reachable s"
  shows "v \<in> set (ready project now s) \<longleftrightarrow>
    (\<exists>r. find_issue s (i_id v) = Some r \<and> v = issue_of_row s r \<and> ir_status r = ''open'' \<and>
      past (ir_available_at r) now \<and> (project = None \<or> project = Some (ir_project r)) \<and>
      all_blockers_closed s (i_id v) \<and> lease_lapsed s (i_id v) now)"
    (is "?L \<longleftrightarrow> ?R")
proof
  assume ?L
  then obtain r where r: "r \<in> set (db_issues s)" "is_ready s project now r" "v = issue_of_row s r"
    by (auto simp: ready_def)
  have f: "find_issue s (ir_id r) = Some r" using find_issue_row [OF reach_ids [OF assms] r(1)] .
  have "i_id v = ir_id r" using r(3) by (simp add: issue_of_row_def)
  with r f blocked_iff [OF assms] claimable_iff [OF assms f] show ?R
    by (auto simp: is_ready_def split: option.splits)
next
  assume ?R
  then obtain r where r: "find_issue s (i_id v) = Some r" "v = issue_of_row s r" "ir_status r = ''open''"
    "past (ir_available_at r) now" "project = None \<or> project = Some (ir_project r)"
    "all_blockers_closed s (i_id v)" "lease_lapsed s (i_id v) now" by blast
  have "is_ready s project now r"
    using r(3-7) find_issue_id [OF r(1)] blocked_iff [OF assms] claimable_iff [OF assms r(1)]
    by (auto simp: is_ready_def split: option.splits)
  with find_issue_mem [OF r(1)] r(2) show ?L by (auto simp: ready_def)
qed

lemma ready_ids_iff:
  assumes "db_reachable s"
  shows "i \<in> i_id ` set (ready project now s) \<longleftrightarrow>
    (\<exists>r. find_issue s i = Some r \<and> ir_status r = ''open'' \<and> past (ir_available_at r) now \<and>
      (project = None \<or> project = Some (ir_project r)) \<and> all_blockers_closed s i \<and> lease_lapsed s i now)"
    (is "_ \<longleftrightarrow> ?R")
proof
  assume ?R
  then obtain r where r: "find_issue s i = Some r" "ir_status r = ''open''" "past (ir_available_at r) now"
    "project = None \<or> project = Some (ir_project r)" "all_blockers_closed s i" "lease_lapsed s i now" by blast
  have i: "i_id (issue_of_row s r) = i" using find_issue_id [OF r(1)] by (simp add: issue_of_row_def)
  have "issue_of_row s r \<in> set (ready project now s)"
    unfolding in_ready_iff [OF assms] i using r by blast
  with i show "i \<in> i_id ` set (ready project now s)" by force
next
  assume "i \<in> i_id ` set (ready project now s)"
  then obtain v where "v \<in> set (ready project now s)" "i = i_id v" by blast
  with in_ready_iff [OF assms] show ?R by blast
qed

definition issue_order :: "issue \<Rightarrow> int \<times> int \<times> string" where
  "issue_order v = (i_priority v, i_created_at v, i_id v)"

lemma ready_sorted: "sorted (map issue_order (ready project now s))"
proof -
  have "issue_order \<circ> issue_of_row s = queue_order"
    by (simp add: fun_eq_iff issue_order_def queue_order_def issue_of_row_def)
  then show ?thesis by (simp add: ready_def)
qed

lemma ready_distinct:
  assumes "distinct (map ir_id (db_issues s))"
  shows "distinct (map i_id (ready project now s))"
proof -
  let ?rows = "sort_key queue_order (filter (is_ready s project now) (db_issues s))"
  have "i_id \<circ> issue_of_row s = ir_id" by (simp add: fun_eq_iff issue_of_row_def)
  moreover have "distinct (map ir_id ?rows)"
    using assms by (simp add: distinct_map inj_on_def)
  ultimately show ?thesis by (simp add: ready_def)
qed

section \<open>Claims and the queue\<close>

lemma ready_claimable:
  assumes "db_reachable s" and "v \<in> set (ready project now s)" and "cr_id req = i_id v"
    and "claim_ttl (db_policy s) (db_week s) req now \<noteq> None"
  shows "\<exists>rc s'. claim req now s = (Inr rc, s')"
proof -
  from assms(2) in_ready_iff [OF assms(1)] obtain r where
    r: "find_issue s (i_id v) = Some r" "lease_lapsed s (i_id v) now" by blast
  have "claimable r now" using claimable_iff [OF assms(1) r(1)] r(2) by simp
  then have "\<not> held r now" by (auto simp: claimable_def held_def split: option.splits)
  with assms(3,4) r(1) show ?thesis by (auto simp: claim_def tx_def)
qed

lemma held_not_ready:
  assumes "db_reachable s" and "holder s i = Some (a, e)" and "now < e"
  shows "i \<notin> i_id ` set (ready project now s)"
  using in_ready_iff [OF assms(1)] assms(2,3) by (auto simp: lease_lapsed_def)

section \<open>Edges and the queue\<close>

lemma open_blocker_not_ready:
  assumes "db_reachable s" and "(i, b) \<in> set (db_deps s)" and "find_issue s b = Some r"
    and "ir_status r \<noteq> ''closed''"
  shows "i \<notin> i_id ` set (ready project now s)"
proof -
  have "\<not> all_blockers_closed s i" using assms(2-4) by (fastforce simp: all_blockers_closed_def)
  then show ?thesis using in_ready_iff [OF assms(1)] by blast
qed

lemma add_dep_find:
  assumes "add_dep c p a ts s = (Inr (), s')"
  shows "find_issue s' j =
    (if j = c then map_option (\<lambda>r. r\<lparr>ir_updated_at := ts\<rparr>) (find_issue s c) else find_issue s j)"
proof -
  have "find_issue (insert_dep c p s) j = find_issue s j" for j
    by (simp add: find_issue_def insert_dep_def)
  with assms show ?thesis
    by (auto simp: add_dep_def touch_updated_def find_issue_upd split: if_splits)
qed

text \<open>Closing an issue: the row it leaves, and every other row as it was.\<close>

lemma close_unchecked_find:
  assumes "close_unchecked i reason ev a ts s = (Inr v, s')"
  obtains r where "find_issue s i = Some r"
    and "find_issue s' i = Some (close_row reason (merge_evidence (ir_evidence r) ev) ts r)"
    and "\<And>j. j \<noteq> i \<Longrightarrow> find_issue s' j = find_issue s j"
    and "db_deps s' = db_deps s"
    and "v = issue_of_row s' (close_row reason (merge_evidence (ir_evidence r) ev) ts r)"
proof -
  obtain r where r: "find_issue s i = Some r"
    and s': "s' = log_event i ts a ''closed'' (close_detail reason ev)
           (upd_issue i (close_row reason (merge_evidence (ir_evidence r) ev) ts) s)"
    and v: "get_issue i s' = Inr v"
    using assms by (rule close_unchecked_Inr)
  have f: "find_issue s' j = (if j = i then map_option
      (close_row reason (merge_evidence (ir_evidence r) ev) ts) (find_issue s i) else find_issue s j)" for j
    by (simp add: s' find_issue_upd)
  show ?thesis
  proof (rule that [OF r])
    show "find_issue s' i = Some (close_row reason (merge_evidence (ir_evidence r) ev) ts r)"
      using f [of i] r by simp
    then show "v = issue_of_row s' (close_row reason (merge_evidence (ir_evidence r) ev) ts r)"
      using v by (simp add: get_issue_def row_to_issue_def)
  qed (use f s' in simp_all)
qed

lemma all_blockers_closed_close:
  assumes "close_unchecked i reason ev a ts s = (Inr v, s')"
  shows "all_blockers_closed s' j \<longleftrightarrow>
    (\<forall>b. (j, b) \<in> set (db_deps s) \<longrightarrow> b \<noteq> i \<longrightarrow> map_option ir_status (find_issue s b) = Some ''closed'')"
proof -
  obtain r where "find_issue s i = Some r"
    and f: "find_issue s' i = Some (close_row reason (merge_evidence (ir_evidence r) ev) ts r)"
    "\<And>j. j \<noteq> i \<Longrightarrow> find_issue s' j = find_issue s j" "db_deps s' = db_deps s"
    using assms by (rule close_unchecked_find) blast
  have "map_option ir_status (find_issue s' b) = Some ''closed'' \<longleftrightarrow>
      b = i \<or> map_option ir_status (find_issue s b) = Some ''closed''" for b
    using f(1) f(2) [of b] by (cases "b = i") (simp_all add: close_row_def)
  then show ?thesis using f(3) by (fastforce simp: all_blockers_closed_def)
qed

section \<open>The sweep\<close>

lemma clear_claim_idem [simp]: "clear_claim (clear_claim r) = clear_claim r"
  by (simp add: clear_claim_def)

lemma sweep_fold:
  "find_issue (snd (fold (sweep_row ts) rows st)) i =
     (if \<exists>(j, a, k) \<in> set rows. j = i \<and> k \<noteq> ''human''
      then map_option clear_claim (find_issue (snd st) i) else find_issue (snd st) i)"
  "requeued (fst (fold (sweep_row ts) rows st)) =
     requeued (fst st) @ map fst (filter (\<lambda>row. snd (snd row) \<noteq> ''human'') rows)"
proof (induction rows arbitrary: st)
  case (Cons row rows)
  obtain j a k where row: "row = (j, a, k)" by (cases row)
  have f: "find_issue (snd (sweep_row ts row st)) i =
      (if j = i \<and> k \<noteq> ''human'' then map_option clear_claim (find_issue (snd st) i)
       else find_issue (snd st) i)" for st
    by (cases st) (simp add: row sweep_row_def find_issue_upd)
  have q: "requeued (fst (sweep_row ts row st)) = requeued (fst st) @ (if k \<noteq> ''human'' then [j] else [])" for st
    by (cases st) (simp add: row sweep_row_def)
  have hit: "(\<exists>(j, a, k) \<in> set (row # rows). j = i \<and> k \<noteq> ''human'') \<longleftrightarrow>
      (j = i \<and> k \<noteq> ''human'') \<or> (\<exists>(j, a, k) \<in> set rows. j = i \<and> k \<noteq> ''human'')"
    by (simp add: row)
  { case 1
    show ?case
      unfolding hit using Cons.IH(1) [of "sweep_row ts row st"] f [of st]
      by (cases "j = i \<and> k \<noteq> ''human''") (auto simp: option.map_comp comp_def)
  next
    case 2
    have "filter (\<lambda>row. snd (snd row) \<noteq> ''human'') (row # rows) =
        (if k \<noteq> ''human'' then [row] else []) @ filter (\<lambda>row. snd (snd row) \<noteq> ''human'') rows"
      by (simp add: row)
    moreover have "fst row = j" by (simp add: row)
    ultimately show ?case using Cons.IH(2) [of "sweep_row ts row st"] q [of st] by simp
  }
qed simp_all

definition sweepable :: "time \<Rightarrow> issue_row \<Rightarrow> bool" where
  "sweepable ts r \<longleftrightarrow> lapsed ts r \<and> ir_actor_kind r \<noteq> Some ''human''"

lemma sweep_effect:
  assumes "db_reachable s"
  obtains rep s' where "sweep ts s = (Inr rep, s')"
    and "\<And>i. find_issue s' i =
      map_option (\<lambda>r. if sweepable ts r then clear_claim r else r) (find_issue s i)"
    and "requeued rep = map ir_id (filter (sweepable ts) (db_issues s))"
proof -
  define rows where "rows = map (\<lambda>r. (ir_id r, the (ir_assignee r), the (ir_actor_kind r)))
    (filter (lapsed ts) (db_issues s))"
  have kind: "\<exists>k. ir_actor_kind r = Some k" if "r \<in> set (db_issues s)" "lapsed ts r" for r
    using reach_row [OF assms find_issue_row [OF reach_ids [OF assms] that(1)]] that(2)
    by (auto simp: row_ok_def lease_ok_def lapsed_def Option.bind_eq_Some_conv)
  obtain rep s' where fold: "fold (sweep_row ts) rows (\<lparr>requeued = [], escalated = []\<rparr>, s) = (rep, s')"
    by fastforce
  have sw: "sweep ts s = (Inr rep, s')"
    using kind fold by (fastforce simp: sweep_def tx_def rows_def)
  have pick: "(\<exists>(j, a, k) \<in> set rows. j = i \<and> k \<noteq> ''human'') \<longleftrightarrow> sweepable ts r"
    if "find_issue s i = Some r" for i r
  proof -
    have "x = r" if "x \<in> set (db_issues s)" "ir_id x = i" for x
      using find_issue_row [OF reach_ids [OF assms] that(1)] that(2) \<open>find_issue s i = Some r\<close> by simp
    moreover have "r \<in> set (db_issues s)" "ir_id r = i"
      using that find_issue_mem find_issue_id by blast+
    ultimately show ?thesis using kind by (fastforce simp: rows_def sweepable_def)
  qed
  have "find_issue s' i = map_option (\<lambda>r. if sweepable ts r then clear_claim r else r) (find_issue s i)" for i
    using sweep_fold(1) [where rows = rows and st = "(\<lparr>requeued = [], escalated = []\<rparr>, s)" and ts = ts and i = i]
      fold pick [of i] by (cases "find_issue s i") (auto split: if_splits)
  moreover have "requeued rep = map ir_id (filter (sweepable ts) (db_issues s))"
  proof -
    have "requeued rep = map fst (filter (\<lambda>row. snd (snd row) \<noteq> ''human'') rows)"
      using sweep_fold(2) [where rows = rows and st = "(\<lparr>requeued = [], escalated = []\<rparr>, s)" and ts = ts]
        fold by simp
    also have "\<dots> = map ir_id (filter (\<lambda>r. the (ir_actor_kind r) \<noteq> ''human'') (filter (lapsed ts) (db_issues s)))"
      by (simp add: rows_def filter_map comp_def)
    also have "\<dots> = map ir_id (filter (sweepable ts) (db_issues s))"
      unfolding filter_filter
      by (rule arg_cong [where f = "map ir_id"], rule filter_cong [OF refl])
        (use kind in \<open>fastforce simp: sweepable_def\<close>)
    finally show ?thesis .
  qed
  ultimately show ?thesis using sw that by blast
qed

section \<open>Creation, edits, heartbeats, remote edges\<close>

lemma create_Inr:
  assumes "create spec draws ts s = Some (Inr i, s')"
  obtains p prefix meta g where "n_project spec = Some p" and "prefix_for s p = Inr prefix"
    and "parent_problem s p (n_parent spec) = None"
    and "find_issue s i = None"
    and "n_id spec = Some i \<or> n_id spec = None \<and> (\<exists>d \<in> set draws. i = prefix @ ''-'' @ short_suffix d)"
    and "g = or_else (n_available_at spec) (ts + creation_grace_seconds (db_policy s))"
    and "s' = log_event i ts (or_else (n_created_by spec) ''system'') ''created'' (n_title spec)
           (s\<lparr>db_issues := db_issues s @ [new_row spec i p meta g ts]\<rparr>)"
proof -
  have draw: "\<exists>d \<in> set ds. j = prefix @ ''-'' @ short_suffix d"
    if "pick_id prefix s ds = Some j" for prefix ds j
    using that by (induction prefix s ds rule: pick_id.induct) (auto simp: Let_def split: if_splits)
  from assms obtain p out where p: "n_project spec = Some p"
    and cb: "create_body spec draws p ts s = Some out" "tx (\<lambda>_. out) s = (Inr i, s')"
    by (auto simp: create_def split: option.splits)
  from cb(2) have out: "out = Inr (i, s')" by simp
  then obtain prefix j where pj: "prefix_for s p = Inr prefix" "parent_problem s p (n_parent spec) = None"
    "insert_issue spec p j ts s = Inr (i, s')" "find_issue s j = None"
    "n_id spec = Some j \<or> n_id spec = None \<and> pick_id prefix s draws = Some j"
    using cb(1) pick_id_free
    by (fastforce simp: create_body_def split: sum.splits option.splits if_splits)
  from pj(3) obtain meta where "j = i"
    "s' = log_event i ts (or_else (n_created_by spec) ''system'') ''created'' (n_title spec)
       (s\<lparr>db_issues := db_issues s @ [new_row spec i p meta
          (or_else (n_available_at spec) (ts + creation_grace_seconds (db_policy s))) ts]\<rparr>)"
    by (auto simp: insert_issue_def Let_def or_else_def split: sum.splits)
  with that [OF p pj(1,2)] pj(4,5) draw show ?thesis by metis
qed

lemma update_Inr:
  assumes "update i patch actor ts s = (Inr v, s')"
  obtains r r' where "find_issue s i = Some r" and "patch_row (db_policy s) patch ts r = Inr r'"
    and "ir_id r' = i" and "find_issue s' i = Some r'" and "\<forall>j. j \<noteq> i \<longrightarrow> find_issue s' j = find_issue s j"
    and "db_deps s' = db_deps s" and "\<forall>st. p_status patch = Some st \<longrightarrow> st \<in> set STATUSES"
proof -
  have st: "\<forall>st. p_status patch = Some st \<longrightarrow> st \<in> set STATUSES"
    and up: "then_get i (tx (update_body i patch actor ts) s) = (Inr v, s')"
    using assms by (auto simp: update_def split: option.splits if_splits)
  from up have "update_body i patch actor ts s = Inr ((), s')"
    by (auto simp: then_get_def tx_def split: sum.splits)
  then obtain r r' where r: "find_issue s i = Some r" "patch_row (db_policy s) patch ts r = Inr r'"
    and same: "\<And>j. find_issue s' j = find_issue (upd_issue i (\<lambda>_. r') s) j" and deps: "db_deps s' = db_deps s"
    by (auto simp: update_body_def Let_def split: option.splits sum.splits if_splits)
  have id: "ir_id r' = i"
    using r find_issue_id [OF r(1)]
    by (auto simp: patch_row_def patch_metadata_def patch_text_def patch_status_def Let_def
        split: option.splits sum.splits json.splits)
  then have "find_issue s' j = (if j = i then map_option (\<lambda>_. r') (find_issue s i) else find_issue s j)" for j
    unfolding same by (intro find_issue_upd) simp
  with that [OF r id _ _ deps st] r(1) show ?thesis by simp
qed

lemma patch_row_fields:
  assumes "patch_row pol patch ts r = Inr r'"
  shows "ir_title r' = or_else (p_title patch) (ir_title r)"
    and "ir_status r' = or_else (p_status patch) (ir_status r)"
    and "ir_available_at r' = Some (or_else (p_available_at patch)
           (max (ts + edit_deferral_seconds pol) (or_else (ir_available_at r) 0)))"
    and "ir_project r' = ir_project r" and "ir_updated_at r' = ts"
    and "ir_labels r' = ir_labels r" and "ir_parent r' = ir_parent r"
    and "ir_assignee r' = ir_assignee r" and "ir_expires_at r' = ir_expires_at r"
proof -
  have "\<exists>meta ref. r' = (patch_status patch ts ((patch_text patch r)\<lparr>ir_metadata := meta, ir_external_ref := ref\<rparr>))
      \<lparr>ir_available_at := Some (or_else (p_available_at patch)
           (max (ts + edit_deferral_seconds pol) (or_else (ir_available_at r) 0))), ir_updated_at := ts\<rparr>"
  proof (cases "p_metadata patch")
    case None
    have "ir_available_at (patch_text patch r) = ir_available_at r" by (simp add: patch_text_def)
    with assms None show ?thesis
      by (intro exI [of _ "ir_metadata (patch_text patch r)"] exI [of _ "ir_external_ref (patch_text patch r)"])
        (auto simp: patch_row_def or_else_def [of "p_available_at patch"] split: option.split)
  next
    case (Some m)
    with assms obtain cur where cur: "patch_metadata m (patch_text patch r) = Inr cur"
      by (auto simp: patch_row_def split: sum.splits)
    then obtain meta ref where "cur = (patch_text patch r)\<lparr>ir_metadata := meta, ir_external_ref := ref\<rparr>"
      by (auto simp: patch_metadata_def Let_def split: json.splits)
    moreover from this have "ir_available_at cur = ir_available_at r" by (simp add: patch_text_def)
    ultimately show ?thesis
      using assms Some cur
      by (intro exI [of _ meta] exI [of _ ref])
        (auto simp: patch_row_def or_else_def [of "p_available_at patch"] split: option.split)
  qed
  then obtain meta ref where r': "r' = (patch_status patch ts ((patch_text patch r)\<lparr>ir_metadata := meta, ir_external_ref := ref\<rparr>))
      \<lparr>ir_available_at := Some (or_else (p_available_at patch)
           (max (ts + edit_deferral_seconds pol) (or_else (ir_available_at r) 0))), ir_updated_at := ts\<rparr>" by blast
  show "ir_title r' = or_else (p_title patch) (ir_title r)"
    and "ir_status r' = or_else (p_status patch) (ir_status r)"
    and "ir_available_at r' = Some (or_else (p_available_at patch)
           (max (ts + edit_deferral_seconds pol) (or_else (ir_available_at r) 0)))"
    and "ir_project r' = ir_project r" and "ir_updated_at r' = ts"
    and "ir_labels r' = ir_labels r" and "ir_parent r' = ir_parent r"
    and "ir_assignee r' = ir_assignee r" and "ir_expires_at r' = ir_expires_at r"
    by (cases "p_status patch"; simp add: r' patch_status_def patch_text_def or_else_def)+
qed

lemma touch_Inr:
  assumes "touch i a ts s = (Inr e, s')"
  shows "\<exists>r. find_issue s i = Some r \<and> ir_assignee r = Some a" and "holder s' i = Some (a, e)"
    and "j \<noteq> i \<Longrightarrow> holder s' j = holder s j"
proof -
  obtain r where r: "find_issue s i = Some r" "ir_assignee r = Some a"
    and s': "s' = log_event i ts a ''heartbeat'' []
      (upd_issue i (\<lambda>r. r\<lparr>ir_expires_at := Some e, ir_updated_at := ts\<rparr>) s)"
    using assms by (auto simp: touch_def split: option.splits if_splits)
  then show "\<exists>r. find_issue s i = Some r \<and> ir_assignee r = Some a" by blast
  have "find_issue s' i = Some (r\<lparr>ir_expires_at := Some e, ir_updated_at := ts\<rparr>)"
    using r(1) by (simp add: s' find_issue_upd)
  with r(2) show "holder s' i = Some (a, e)" by (simp add: holder_def)
  show "j \<noteq> i \<Longrightarrow> holder s' j = holder s j" by (simp add: s' holder_upd_other)
qed

lemma add_remote_dep_Inr:
  assumes "add_remote_dep c d actor ts s = (Inr (), s')"
  obtains r where "parse_ref (rd_canonical_ref d) = Inr r"
    and "ref_names r (rd_store_id d) (rd_remote_issue_id d)" and "find_issue s c \<noteq> None"
    and "s' = log_event c ts actor ''depends_on_remote'' (rd_canonical_ref d)
               (touch_updated c ts (upsert_remote c d s))"
  using assms by (auto simp: add_remote_dep_def split: sum.splits if_splits)

lemma upsert_remote_visible:
  "d\<lparr>rd_freshness := None\<rparr> \<in> set (remote_dependencies c (upsert_remote c d s))"
proof -
  let ?row = "(c, d\<lparr>rd_freshness := None\<rparr>)" and ?same = "same_edge c (rd_canonical_ref d)"
  have "?row \<in> set (db_remote_deps (upsert_remote c d s))"
  proof (cases "\<exists>r \<in> set (db_remote_deps s). ?same r")
    case True
    then obtain r where r: "r \<in> set (db_remote_deps s)" "?same r" by blast
    then have "?row \<in> (\<lambda>r. if ?same r then ?row else r) ` set (db_remote_deps s)"
      by (intro rev_image_eqI [OF r(1)]) simp
    moreover have "db_remote_deps (upsert_remote c d s) =
        map (\<lambda>r. if ?same r then ?row else r) (db_remote_deps s)"
      using True unfolding upsert_remote_def Let_def by (simp only: if_True db.update_convs db.select_convs) simp
    ultimately show ?thesis by (simp only: set_map)
  next
    case False
    then have "db_remote_deps (upsert_remote c d s) = db_remote_deps s @ [?row]"
      unfolding upsert_remote_def Let_def by (simp only: if_False) simp
    then show ?thesis by simp
  qed
  then have "?row \<in> set (filter (\<lambda>r. fst r = c) (db_remote_deps (upsert_remote c d s)))" by simp
  from imageI [OF this, of snd] show ?thesis by (simp only: remote_dependencies_def set_sort set_map snd_conv)
qed

lemma ensure_folder_isl:
  assumes "trim (fo_slug f) \<noteq> []" and "trim (fo_name f) \<noteq> []"
  shows "isl (fst (ensure_folder f ts s)) \<longleftrightarrow>
    folder_parent_problem s (trim (fo_slug f)) (nonempty_trimmed (fo_parent f)) \<noteq> None"
  using assms by (auto simp: ensure_folder_def tx_def Let_def split: option.splits)

end
