(* ===== verification/Audit_Log.thy ===== *)
theory Audit_Log
  imports Queue
begin

text \<open>
  What the operations leave in the two logs of the store: a failed operation changes nothing, a
  successful one only appends, every event of a known issue reaches the outbox in the same
  commit, and a delivered event is never offered again.
\<close>

section \<open>Failed operations\<close>

fun fails :: "time \<Rightarrow> db_op \<Rightarrow> db \<Rightarrow> bool" where
  "fails ts (EnsureProject slug root prefix) s = isl (fst (ensure_project slug root prefix ts s))"
| "fails ts (DropProject slug) s = isl (fst (drop_project slug s))"
| "fails ts (EnsureFolder f) s = isl (fst (ensure_folder f ts s))"
| "fails ts (SetProjectFolder p f) s = isl (fst (set_project_folder p f ts s))"
| "fails ts (SetStoreId i) s = isl (fst (set_store_id i s))"
| "fails ts (MarkDelivered seq) s = isl (fst (mark_event_delivered seq ts s))"
| "fails ts (MarkFailed seq e) s = isl (fst (mark_event_failed seq ts e s))"
| "fails ts (Create spec draws) s = pred_option (\<lambda>r. isl (fst r)) (create spec draws ts s)"
| "fails ts (Update i patch actor) s = isl (fst (update i patch actor ts s))"
| "fails ts (SetLabels i ls actor) s = isl (fst (set_labels i ls actor ts s))"
| "fails ts (RemoveLabel i l actor) s = isl (fst (remove_label i l actor ts s))"
| "fails ts (AddLabel i l actor) s = isl (fst (add_label i l actor ts s))"
| "fails ts (AddDep c p actor) s = isl (fst (add_dep c p actor ts s))"
| "fails ts (RemoveDep c p actor) s = isl (fst (remove_dep c p actor ts s))"
| "fails ts (AddRemoteDep c d actor) s = isl (fst (add_remote_dep c d actor ts s))"
| "fails ts (RemoveRemoteDep c r actor) s = isl (fst (remove_remote_dep c r actor ts s))"
| "fails ts (Claim req) s = isl (fst (claim req ts s))"
| "fails ts (Touch i a) s = isl (fst (touch i a ts s))"
| "fails ts (Release i actor) s = isl (fst (release i actor ts s))"
| "fails ts Sweep s = isl (fst (sweep ts s))"
| "fails ts (Close i reason ev actor) s = isl (fst (close i reason ev actor ts s))"
| "fails ts (CloseUnchecked i reason ev actor) s = isl (fst (close_unchecked i reason ev actor ts s))"
| "fails ts (Supersede i r actor) s = isl (fst (supersede i r actor ts s))"

lemma tx_fails: "isl (fst (tx f s)) \<Longrightarrow> snd (tx f s) = s"
  by (auto simp: tx_def split: sum.splits prod.splits)

lemma tx_isl: "tx f s = (out, s') \<Longrightarrow> isl out \<Longrightarrow> s' = s"
  using tx_fails [of f s] by simp

lemma get_issue_isl: "isl (get_issue i s) \<longleftrightarrow> find_issue s i = None"
  by (simp add: get_issue_def row_to_issue_def split: option.split)

lemma set_labels_fails: "isl (fst (set_labels i ls actor ts s)) \<longleftrightarrow> find_issue s i = None"
  by (simp add: set_labels_def tx_def split: option.split)

lemma update_fails:
  assumes "isl (fst (update i patch actor ts s))"
  shows "snd (update i patch actor ts s) = s"
proof -
  have "snd (tx (update_body i patch actor ts) s) = s"
    if err: "isl (fst (then_get i (tx (update_body i patch actor ts) s)))"
  proof (cases "update_body i patch actor ts s")
    case (Inr vs)
    then obtain v s' where body: "update_body i patch actor ts s = Inr (v, s')" by (cases vs) simp
    then obtain r r' where "find_issue s i = Some r" "patch_row (db_policy s) patch ts r = Inr r'"
      and same: "find_issue s' j = find_issue (upd_issue i (\<lambda>_. r') s) j" for j
      by (auto simp: update_body_def Let_def split: option.splits sum.splits if_splits)
    moreover from this have "ir_id r' = i"
      using find_issue_id
      by (fastforce simp: patch_row_def patch_metadata_def patch_text_def patch_status_def Let_def
          split: option.splits sum.splits json.splits)
    ultimately have "find_issue s' i = Some r'" by (simp add: find_issue_upd)
    with err body show ?thesis by (simp add: then_get_def tx_def get_issue_isl)
  qed (simp add: tx_def)
  with assms show ?thesis by (auto simp: update_def split: option.splits if_splits)
qed

lemma close_unchecked_fails:
  assumes "isl (fst (close_unchecked i reason ev actor ts s))"
  shows "snd (close_unchecked i reason ev actor ts s) = s"
proof (cases "find_issue s i")
  case None
  then show ?thesis by (simp add: close_unchecked_def then_get_def tx_def)
next
  case (Some r)
  with close_unchecked_total [OF Some, of reason ev actor ts] assms show ?thesis by auto
qed

lemma add_label_fails: "isl (fst (add_label i l actor ts s)) \<Longrightarrow> snd (add_label i l actor ts s) = s"
  by (auto simp: add_label_def add_label_write_def set_labels_def tx_fails split: sum.splits if_splits)

text \<open>\<open>supersede\<close> commits twice, but its second commit cannot fail.\<close>

lemma supersede_fails:
  assumes "isl (fst (supersede i replacement actor ts s))"
  shows "snd (supersede i replacement actor ts s) = s"
proof -
  let ?why = "''superseded by '' @ replacement"
  obtain out s' where cl: "close_unchecked i (Some ?why) [evidence_ack ?why] actor ts s = (out, s')"
    by (cases "close_unchecked i (Some ?why) [evidence_ack ?why] actor ts s")
  show ?thesis
  proof (cases out)
    case (Inl err)
    with cl close_unchecked_fails [of i "Some ?why" "[evidence_ack ?why]" actor ts s]
    show ?thesis by (auto simp: supersede_def Let_def)
  next
    case (Inr v)
    with cl have "close_unchecked i (Some ?why) [evidence_ack ?why] actor ts s = (Inr v, s')" by simp
    then obtain r where "find_issue s' i = Some r" by (rule close_unchecked_find) blast
    then have "\<not> isl (fst (add_label i l actor ts s'))" for l
      by (simp add: add_label_def add_label_write_def get_issue_def row_to_issue_def set_labels_fails)
    with assms cl Inr show ?thesis by (auto simp: supersede_def Let_def split: if_splits)
  qed
qed

lemma failed_exec:
  assumes "fails ts op s" and "exec ts op s = Some s'"
  shows "s' = s"
  using assms
proof (cases op)
  case (Create spec draws)
  with assms show ?thesis
    by (auto simp: create_def dest: tx_isl split: option.splits)
next
  case (Claim req)
  with assms show ?thesis by (auto simp: claim_def tx_fails split: option.splits)
qed (auto simp: ensure_project_def drop_project_def ensure_folder_def set_project_folder_def
    set_store_id_def mark_event_delivered_def mark_event_failed_def set_labels_def remove_label_def
    add_dep_def remove_dep_def add_remote_dep_def remove_remote_dep_def touch_def release_def
    sweep_def close_def close_unchecked_fails supersede_fails add_label_fails update_fails tx_fails
    Let_def split: if_splits sum.splits option.splits)

section \<open>The logs only grow\<close>

text \<open>What an outbox row says of its event, and what a history row says of it.\<close>

definition out_key :: "outbound_row \<Rightarrow> int \<times> string \<times> string \<times> time" where
  "out_key e = (or_seq e, or_issue_id e, or_event e, or_occurred_at e)"

definition hist_key :: "history_row \<Rightarrow> int \<times> string \<times> string \<times> time" where
  "hist_key h = (hr_seq h, hr_issue_id h, hr_event h, hr_ts h)"

definition ids :: "db \<Rightarrow> string set" where
  "ids s = ir_id ` set (db_issues s)"

text \<open>
  From \<open>s\<close> to \<open>s'\<close> the history grew by new numbers, and the outbox by exactly the undelivered
  copies of those new events whose issue has a row.
\<close>

definition appends :: "db \<Rightarrow> db \<Rightarrow> bool" where
  "appends s s' \<longleftrightarrow> db_history_seq s \<le> db_history_seq s' \<and>
     (\<exists>hs es. db_history s' = db_history s @ hs \<and> db_outbound s' = db_outbound s @ es \<and>
        (\<forall>h \<in> set hs. db_history_seq s < hr_seq h) \<and>
        (\<forall>e \<in> set es. or_delivered_at e = None) \<and>
        map out_key es = map hist_key (filter (\<lambda>h. hr_issue_id h \<in> ids s') hs))"

definition audited :: "db \<Rightarrow> db \<Rightarrow> bool" where
  "audited s s' \<longleftrightarrow> map ir_id (db_issues s') = map ir_id (db_issues s) \<and> appends s s'"

lemma audited_ids: "audited s s' \<Longrightarrow> ids s' = ids s"
  unfolding audited_def ids_def by (metis list.set_map)

lemma appends_refl [simp]: "appends s s"
  by (simp add: appends_def)

lemma audited_refl [simp]: "audited s s"
  by (simp add: audited_def)

lemma audited_trans:
  assumes "audited s s1" and "audited s1 s2"
  shows "audited s s2"
proof -
  from assms(1) obtain hs es where 1: "db_history s1 = db_history s @ hs" "db_outbound s1 = db_outbound s @ es"
    "\<forall>h \<in> set hs. db_history_seq s < hr_seq h" "\<forall>e \<in> set es. or_delivered_at e = None"
    "map out_key es = map hist_key (filter (\<lambda>h. hr_issue_id h \<in> ids s1) hs)"
    "db_history_seq s \<le> db_history_seq s1" by (auto simp: audited_def appends_def)
  from assms(2) obtain hs' es' where 2: "db_history s2 = db_history s1 @ hs'" "db_outbound s2 = db_outbound s1 @ es'"
    "\<forall>h \<in> set hs'. db_history_seq s1 < hr_seq h" "\<forall>e \<in> set es'. or_delivered_at e = None"
    "map out_key es' = map hist_key (filter (\<lambda>h. hr_issue_id h \<in> ids s2) hs')"
    "db_history_seq s1 \<le> db_history_seq s2" by (auto simp: audited_def appends_def)
  have "appends s s2"
    unfolding appends_def
  proof (intro conjI exI)
    show "map out_key (es @ es') = map hist_key (filter (\<lambda>h. hr_issue_id h \<in> ids s2) (hs @ hs'))"
      using 1(5) 2(5) audited_ids [OF assms(2)] by simp
    show "\<forall>h \<in> set (hs @ hs'). db_history_seq s < hr_seq h"
      using 1(3,6) 2(3) by fastforce
  qed (use 1 2 in auto)
  with assms show ?thesis by (simp add: audited_def)
qed

lemma audited_same_logs:
  assumes "map ir_id (db_issues s') = map ir_id (db_issues s)"
    and "db_history s' = db_history s" "db_history_seq s' = db_history_seq s"
    "db_outbound s' = db_outbound s"
  shows "audited s s'"
  using assms by (simp add: audited_def appends_def)

lemma audited_upd:
  assumes "\<And>r. ir_id r = i \<Longrightarrow> ir_id (f r) = i"
  shows "audited s (upd_issue i f s)"
  by (rule audited_same_logs) (simp_all add: ids_upd_issue assms)

lemma single_row:
  assumes "distinct (map ir_id (db_issues s))"
  shows "map (\<lambda>r. out_key (g r)) (filter (\<lambda>r. ir_id r = i) (db_issues s)) =
    (case find_issue s i of None \<Rightarrow> [] | Some r \<Rightarrow> [out_key (g r)])"
  using assms unfolding find_issue_def
proof (induction "db_issues s" arbitrary: s)
  case (Cons r rs)
  show ?case
  proof (cases "ir_id r = i")
    case True
    with Cons.prems Cons.hyps(2) have "\<forall>x \<in> set rs. ir_id x \<noteq> i"
      by (metis distinct.simps(2) image_eqI list.set_map list.simps(9))
    with True show ?thesis by (simp flip: Cons.hyps(2))
  next
    case False
    have "rs = db_issues (s\<lparr>db_issues := rs\<rparr>)" by simp
    moreover have "distinct (map ir_id rs)" using Cons.prems by (simp flip: Cons.hyps(2))
    ultimately show ?thesis
      using Cons.hyps(1) [of "s\<lparr>db_issues := rs\<rparr>"] False by (simp flip: Cons.hyps(2))
  qed
qed simp

lemma audited_log:
  assumes "distinct (map ir_id (db_issues s))"
  shows "audited s (log_event i ts a e d s)"
proof -
  define h where "h = \<lparr>hr_seq = db_history_seq s + 1, hr_issue_id = i, hr_ts = ts, hr_actor = a,
    hr_event = e, hr_detail = d\<rparr>"
  define g where "g = (\<lambda>r :: issue_row. \<lparr>or_seq = db_history_seq s + 1, or_store_id = db_store_id s,
    or_issue_id = ir_id r, or_project = ir_project r, or_occurred_at = ts, or_event = e,
    or_delivered_at = None, or_attempts = 0, or_next_attempt_at = ts, or_last_error = None\<rparr>)"
  define rows where "rows = filter (\<lambda>r. ir_id r = i) (db_issues s)"
  have keys: "map out_key (map g rows) = map hist_key (filter (\<lambda>h. hr_issue_id h \<in> ids s) [h])"
  proof (cases "find_issue s i")
    case None
    then have "i \<notin> ids s" by (simp add: ids_def find_issue_None)
    then show ?thesis
      using single_row [OF assms, of g i] by (simp add: rows_def comp_def None h_def)
  next
    case (Some r)
    then have "i \<in> ids s" using find_issue_mem find_issue_id by (fastforce simp: ids_def)
    with Some find_issue_id [OF Some] show ?thesis
      using single_row [OF assms, of g i]
      by (simp add: rows_def comp_def h_def g_def out_key_def hist_key_def)
  qed
  have idsL: "ids (log_event i ts a e d s) = ids s" by (simp add: ids_def)
  have "appends s (log_event i ts a e d s)"
    unfolding appends_def idsL
  proof (intro conjI exI)
    show "db_history (log_event i ts a e d s) = db_history s @ [h]"
      by (simp add: log_event_def h_def Let_def)
    show "db_outbound (log_event i ts a e d s) = db_outbound s @ map g rows"
      by (simp add: log_event_def g_def rows_def Let_def)
  qed (use keys in \<open>auto simp: log_event_def h_def g_def Let_def\<close>)
  then show ?thesis by (simp add: audited_def)
qed

lemma audited_step:
  assumes "distinct (map ir_id (db_issues s))" and "audited s s1"
  shows "audited s (log_event i ts a e d s1)"
proof (rule audited_trans [OF assms(2)], rule audited_log)
  have "map ir_id (db_issues s1) = map ir_id (db_issues s)"
    using assms(2) unfolding audited_def by blast
  then show "distinct (map ir_id (db_issues s1))" using assms(1) by (simp only:)
qed

lemma audited_tx:
  assumes "\<And>v s'. f s = Inr (v, s') \<Longrightarrow> audited s s'"
  shows "audited s (snd (tx f s))"
  by (rule tx_keeps [where P = "audited s"], rule audited_refl, erule assms)

section \<open>Every operation\<close>

lemma audited_update:
  assumes "distinct (map ir_id (db_issues s))"
  shows "audited s (snd (update i patch actor ts s))"
proof -
  have "audited s s'" if "update_body i patch actor ts s = Inr (v, s')" for v s'
  proof -
    from that obtain r r' where r: "find_issue s i = Some r" "patch_row (db_policy s) patch ts r = Inr r'"
      by (auto simp: update_body_def split: option.splits sum.splits)
    then have "ir_id r' = i"
      using find_issue_id
      by (fastforce simp: patch_row_def patch_metadata_def patch_text_def patch_status_def Let_def
          split: option.splits sum.splits json.splits)
    then have "audited s (upd_issue i (\<lambda>_. r') s)" by (intro audited_upd) simp
    with that r assms show ?thesis
      by (auto simp: update_body_def Let_def split: if_splits intro!: audited_step)
  qed
  then show ?thesis by (auto simp: update_def intro!: audited_tx split: option.split)
qed

lemma audited_set_labels:
  assumes "distinct (map ir_id (db_issues s))"
  shows "audited s (snd (set_labels i ls actor ts s))"
  unfolding set_labels_def
  by (rule audited_tx) (auto split: option.splits intro!: audited_step assms audited_upd)

lemma audited_add_label:
  assumes "distinct (map ir_id (db_issues s))"
  shows "audited s (snd (add_label i l actor ts s))"
  by (simp add: add_label_def add_label_write_def audited_set_labels assms split: sum.split)

lemma audited_remove_label:
  assumes "distinct (map ir_id (db_issues s))"
  shows "audited s (snd (remove_label i l actor ts s))"
  by (simp add: remove_label_def audited_set_labels assms split: sum.split)

lemma audited_touch_updated:
  assumes "audited s s1"
  shows "audited s (touch_updated i ts s1)"
  unfolding touch_updated_def by (rule audited_trans [OF assms]) (rule audited_upd, simp)

lemma audited_add_dep:
  assumes "distinct (map ir_id (db_issues s))"
  shows "audited s (snd (add_dep c p actor ts s))"
proof -
  have "audited s (insert_dep c p s)"
    by (rule audited_same_logs) (simp_all add: insert_dep_def)
  then have "audited s (log_event c ts actor e d (touch_updated c ts (insert_dep c p s)))" for e d
    by (intro audited_step assms audited_touch_updated)
  then show ?thesis
    unfolding add_dep_def by (auto intro!: audited_tx split: if_splits)
qed

lemma audited_add_remote_dep:
  assumes "distinct (map ir_id (db_issues s))"
  shows "audited s (snd (add_remote_dep c d actor ts s))"
proof -
  have "audited s (upsert_remote c d s)"
    by (rule audited_same_logs) (simp_all add: upsert_remote_def Let_def)
  then have "audited s (log_event c ts actor e f (touch_updated c ts (upsert_remote c d s)))" for e f
    by (intro audited_step assms audited_touch_updated)
  then show ?thesis
    unfolding add_remote_dep_def by (auto intro!: audited_tx split: if_splits sum.split)
qed

lemma audited_remove_deps:
  assumes "distinct (map ir_id (db_issues s))"
  shows "audited s (snd (remove_dep c p actor ts s))"
    and "audited s (snd (remove_remote_dep c ref actor ts s))"
  unfolding remove_dep_def remove_remote_dep_def
  by (rule audited_tx; clarsimp; intro audited_step assms audited_same_logs; simp)+

lemma audited_folder_ops:
  "audited s (snd (ensure_project slug root prefix ts s))"
  "audited s (snd (ensure_folder f ts s))"
  "audited s (snd (set_project_folder q g ts s))"
  by (auto simp: ensure_project_def ensure_folder_def set_project_folder_def assign_folder_def
      Let_def tx_def split: if_splits option.splits intro!: audited_same_logs)

lemma audited_set_store_id: "audited s (snd (set_store_id sid s))"
  by (auto simp: set_store_id_def tx_def intro!: audited_same_logs)

lemma audited_claim:
  assumes "distinct (map ir_id (db_issues s))"
  shows "audited s (snd (claim req ts s))"
  unfolding claim_def
  by (auto split: option.split intro!: audited_tx)
    (auto split: option.splits if_splits intro!: audited_step assms audited_upd)

lemma audited_touch:
  assumes "distinct (map ir_id (db_issues s))"
  shows "audited s (snd (touch i a ts s))"
  unfolding touch_def
  by (rule audited_tx) (auto split: option.splits if_splits intro!: audited_step assms audited_upd)

lemma audited_release:
  assumes "distinct (map ir_id (db_issues s))"
  shows "audited s (snd (release i actor ts s))"
  unfolding release_def by (rule audited_tx) (auto intro!: audited_step assms audited_upd)

lemma audited_close_unchecked:
  assumes "distinct (map ir_id (db_issues s))"
  shows "audited s (snd (close_unchecked i reason ev actor ts s))"
  unfolding close_unchecked_def snd_then_get
  by (rule audited_tx) (auto split: option.splits intro!: audited_step assms audited_upd)

lemma audited_close:
  assumes "distinct (map ir_id (db_issues s))"
  shows "audited s (snd (close i reason ev actor ts s))"
  by (simp add: close_def audited_close_unchecked assms split: option.split)

lemma audited_supersede:
  assumes "distinct (map ir_id (db_issues s))"
  shows "audited s (snd (supersede i replacement actor ts s))"
proof -
  let ?why = "''superseded by '' @ replacement"
  obtain out s' where cl: "close_unchecked i (Some ?why) [evidence_ack ?why] actor ts s = (out, s')"
    by (cases "close_unchecked i (Some ?why) [evidence_ack ?why] actor ts s")
  then have 1: "audited s s'"
    using audited_close_unchecked [OF assms, of i "Some ?why" "[evidence_ack ?why]" actor ts] by simp
  moreover from 1 have "audited s (snd (add_label i l actor ts s'))" for l
    using assms by (intro audited_trans [OF 1] audited_add_label) (simp add: audited_def)
  ultimately show ?thesis using cl by (auto simp: supersede_def Let_def split: sum.split)
qed

lemma audited_sweep_rows:
  assumes "distinct (map ir_id (db_issues s))" and "audited s (snd st)"
  shows "audited s (snd (fold (sweep_row ts) rows st))"
  using assms(2)
proof (induction rows arbitrary: st)
  case (Cons row rows)
  obtain i a k where row: "row = (i, a, k)" by (cases row)
  obtain rep s1 where st: "st = (rep, s1)" by (cases st)
  have "audited s1 (upd_issue i clear_claim s1)" by (rule audited_upd) simp
  with Cons.prems st have "audited s (upd_issue i clear_claim s1)" by (auto intro: audited_trans)
  with Cons.prems st row have "audited s (snd (sweep_row ts row st))"
    by (auto simp: sweep_row_def intro!: audited_step assms(1))
  with Cons.IH show ?case by simp
qed simp

lemma audited_sweep:
  assumes "distinct (map ir_id (db_issues s))"
  shows "audited s (snd (sweep ts s))"
proof -
  have "audited s s'" if "fold (sweep_row ts) rows (rep0, s) = (rep, s')" for rows rep0 rep s'
    using audited_sweep_rows [OF assms, of "(rep0, s)" ts rows] that by simp
  then show ?thesis
    unfolding sweep_def Let_def by (intro audited_tx) (auto split: if_splits)
qed

lemma appends_create:
  assumes "distinct (map ir_id (db_issues s))" and "create spec draws ts s = Some (r, s')"
  shows "appends s s'"
proof -
  have body: "appends s s2" if ins: "insert_issue spec p j ts s = Inr (v, s2)"
    and free: "find_issue s j = None" for p j v s2
  proof -
    obtain a e d meta g where
      s2: "s2 = log_event j ts a e d (s\<lparr>db_issues := db_issues s @ [new_row spec j p meta g ts]\<rparr>)"
      using ins by (auto simp: insert_issue_def Let_def split: sum.splits)
    have row: "ir_id (new_row spec j p meta g ts) = j" by (simp add: new_row_def)
    have "j \<notin> ir_id ` set (db_issues s)"
      using free by (rule find_issue_None [THEN iffD1])
    then have "audited (s\<lparr>db_issues := db_issues s @ [new_row spec j p meta g ts]\<rparr>) s2"
      unfolding s2 using assms(1) row by (intro audited_log) auto
    then show ?thesis by (simp add: audited_def appends_def)
  qed
  have "appends s s'" if cb: "create_body spec draws p ts s = Some out" "tx (\<lambda>_. out) s = (r, s')" for p out
  proof (cases out)
    case (Inl err)
    with cb show ?thesis by (simp add: tx_def)
  next
    case (Inr vs)
    then obtain v where out: "out = Inr (v, s')" using cb(2) by (cases vs) (simp add: tx_def)
    then obtain j where "insert_issue spec p j ts s = Inr (v, s')" "find_issue s j = None"
      using cb(1) pick_id_free
      by (fastforce simp: create_body_def split: sum.splits option.splits if_splits)
    then show ?thesis by (rule body)
  qed
  with assms(2) show ?thesis by (auto simp: create_def split: option.splits)
qed

text \<open>The operations that do more to the logs than append: removing a project drops its rows, and
  the two delivery marks edit an outbox row in place.\<close>

fun edits_logs :: "db_op \<Rightarrow> bool" where
  "edits_logs (DropProject p) \<longleftrightarrow> True"
| "edits_logs (MarkDelivered seq) \<longleftrightarrow> True"
| "edits_logs (MarkFailed seq e) \<longleftrightarrow> True"
| "edits_logs op \<longleftrightarrow> False"

lemma audited_appends: "audited s s' \<Longrightarrow> appends s s'"
  by (simp add: audited_def)

lemma exec_appends:
  assumes ok: "db_reachable s" and ex: "exec ts op s = Some s'" and "\<not> edits_logs op"
  shows "appends s s'"
proof (cases op)
  case (Create spec draws)
  with ex show ?thesis by (auto intro: appends_create [OF reach_ids [OF ok]])
qed (use assms audited_add_dep audited_add_remote_dep audited_remove_deps audited_folder_ops
      audited_set_store_id audited_claim audited_touch audited_release audited_close_unchecked
      audited_close audited_supersede audited_sweep audited_update audited_set_labels
      audited_add_label audited_remove_label reach_ids [OF ok]
    in \<open>auto intro!: audited_appends\<close>)

section \<open>Delivery\<close>

text \<open>Number \<open>seq\<close> has been issued and no row with that number is still to be delivered.\<close>

definition settled :: "int \<Rightarrow> db \<Rightarrow> bool" where
  "settled seq s \<longleftrightarrow> seq \<le> db_history_seq s \<and>
     (\<forall>e \<in> set (db_outbound s). or_seq e = seq \<longrightarrow> or_delivered_at e \<noteq> None)"

lemma settled_appends:
  assumes "settled seq s" and "appends s s'"
  shows "settled seq s'"
proof -
  from assms(2) obtain hs es where
    g: "db_outbound s' = db_outbound s @ es" "\<forall>h \<in> set hs. db_history_seq s < hr_seq h"
      "map out_key es = map hist_key (filter (\<lambda>h. hr_issue_id h \<in> ids s') hs)"
      "db_history_seq s \<le> db_history_seq s'" by (auto simp: appends_def)
  have "db_history_seq s < or_seq e" if "e \<in> set es" for e
  proof -
    have "out_key e \<in> hist_key ` set hs"
      using arg_cong [OF g(3), of set] that by auto
    with g(2) show ?thesis by (auto simp: out_key_def hist_key_def)
  qed
  with assms(1) g(1,4) show ?thesis by (fastforce simp: settled_def)
qed

lemma settled_upd:
  assumes "settled seq s"
    and "\<And>r. or_seq (f r) = or_seq r"
  shows "settled seq (upd_outbound n f s)"
  using assms by (auto simp: settled_def upd_outbound_def)

lemma settled_exec:
  assumes "db_reachable s" and "settled seq s" and "exec ts op s = Some s'"
  shows "settled seq s'"
proof (cases op)
  case (DropProject p)
  with assms show ?thesis
    by (cases "find_project s p") (auto simp: drop_project_def tx_def Let_def settled_def)
next
  case (MarkDelivered n)
  with assms show ?thesis by (auto simp: mark_event_delivered_def tx_def intro!: settled_upd)
next
  case (MarkFailed n e)
  with assms show ?thesis by (auto simp: mark_event_failed_def tx_def intro!: settled_upd)
qed (use assms exec_appends [OF assms(1,3)] in \<open>auto intro: settled_appends\<close>)

lemma settled_exec_all:
  assumes "db_reachable s" and "settled seq s" and "exec_all ops s = Some s'"
  shows "settled seq s'"
  using assms
  by (induction ops s rule: exec_all.induct)
    (auto simp: Option.bind_eq_Some_conv intro: settled_exec exec_reachable)

lemma settled_not_pending: "settled seq s \<Longrightarrow> seq \<notin> oe_seq ` set (pending_events now limit s)"
  by (auto simp: settled_def pending_events_def event_of_row_def dest!: in_set_takeD)

lemma mark_settles:
  "seq \<le> db_history_seq s \<Longrightarrow> settled seq (snd (mark_event_delivered seq ts s))"
proof -
  assume le: "seq \<le> db_history_seq s"
  let ?f = "\<lambda>r. r\<lparr>or_delivered_at := Some ts, or_attempts := or_attempts r + 1, or_last_error := None\<rparr>"
  have "or_delivered_at e \<noteq> None" if "e \<in> set (db_outbound (upd_outbound seq ?f s))" "or_seq e = seq" for e
    using that by (simp add: upd_outbound_def) (elim disjE imageE, simp_all)
  moreover have "db_history_seq (upd_outbound seq ?f s) = db_history_seq s" by (simp add: upd_outbound_def)
  ultimately show ?thesis using le by (simp add: settled_def mark_event_delivered_def tx_def)
qed

lemma outbound_counted:
  assumes "db_reachable s" and "e \<in> set (db_outbound s)"
  shows "or_seq e \<le> db_history_seq s"
  using db_reachable_ok [OF assms(1)] assms(2) by (fastforce simp: db_ok_def logs_ok_def)

end
