(* ===== verification/Demo.thy ===== *)
theory Demo
  imports Audit_Log
begin

text \<open>
  One concrete run of the store, reached from the empty database by its own operations: two
  issues, the second waiting on the first, the first claimed by an agent. The properties are
  applied to it.
\<close>

definition demo_issue :: "string \<Rightarrow> new_issue" where
  "demo_issue i =
     \<lparr>n_title = i, n_description = [], n_issue_type = ''task'', n_priority = 1, n_labels = [],
      n_parent = None, n_id = Some i, n_project = Some ''p'', n_available_at = None,
      n_created_by = None, n_metadata = None, n_external_ref = None\<rparr>"

definition demo_claim :: "string \<Rightarrow> string \<Rightarrow> claim_request" where
  "demo_claim i who =
     \<lparr>cr_id = i, cr_assignee = who, cr_actor_kind = Agent, cr_ttl_seconds = Some 100\<rparr>"

definition demo_setup :: "(time \<times> db_op) list" where
  "demo_setup =
     [(0, EnsureProject ''p'' ''/p'' ''p''),
      (0, EnsureFolder \<lparr>fo_slug = ''f'', fo_name = ''F'', fo_parent = None, fo_created_at = 0\<rparr>),
      (0, EnsureFolder \<lparr>fo_slug = ''g'', fo_name = ''G'', fo_parent = Some ''f'', fo_created_at = 0\<rparr>),
      (0, Create (demo_issue ''a'') []),
      (0, Create (demo_issue ''b'') []),
      (5, AddDep ''b'' ''a'' ''me'')]"

definition demo_run :: "(time \<times> db_op) list" where
  "demo_run = demo_setup @ [(1000, Claim (demo_claim ''a'' ''w''))]"

definition demo0 :: db where
  "demo0 = the (exec_all demo_setup (empty_db ''s''))"

definition demo :: db where
  "demo = the (exec_all demo_run (empty_db ''s''))"

lemma empty_reachable: "db_reachable (empty_db sid)"
  using r_open [where sid = sid and pol = default_policy and w = default_week] by (simp add: empty_db_def)

lemma run_reachable:
  assumes "exec_all ops (empty_db sid) \<noteq> None"
  shows "db_reachable (the (exec_all ops (empty_db sid)))"
  using assms exec_all_reachable [OF empty_reachable] by force

lemma demo0_reachable: "db_reachable demo0"
  unfolding demo0_def by (rule run_reachable) code_simp

lemma demo_reachable: "db_reachable demo"
  unfolding demo_def by (rule run_reachable) code_simp

lemma demo_holder: "holder demo ''a'' = Some (''w'', 1100)"
  by code_simp

lemma demo0_ready: "map i_id (ready None 1000 demo0) = [''a'']"
  by code_simp

lemma demo_deps: "db_deps demo = [(''b'', ''a'')]"
  by code_simp

text \<open>For stating what an evaluated operation returned without writing out its state.\<close>

lemma pair_snd: "fst p = x \<Longrightarrow> p = (x, snd p)"
  by (cases p) simp

lemma not_isl: "\<not> isl (fst p) \<Longrightarrow> \<exists>v. p = (Inr v, snd p)"
  by (cases p; cases "fst p") auto

lemma some_the: "v \<noteq> None \<Longrightarrow> v = Some (the v)"
  by auto

end
