(* ===== verification/PlanSpec.thy ===== *)
theory PlanSpec
  imports Types
begin

text \<open>
  The authored half of \<open>src/src/plan.rs\<close>: the metadata block of a node, the plan spec, its
  validation with the depth-first cycle check, and the draft. Messages built by \<open>format!\<close> are
  constructors with their arguments.
\<close>

section \<open>Metadata\<close>

definition META_PLAN :: string where "META_PLAN = ''plan''"
definition META_KEY :: string where "META_KEY = ''plan_key''"
definition META_DONE :: string where "META_DONE = ''done_means''"
definition META_REPO :: string where "META_REPO = ''repo''"
definition META_GROUP :: string where "META_GROUP = ''conflict_group''"
definition META_ACCEPTANCE :: string where "META_ACCEPTANCE = ''acceptance''"
definition META_RISK :: string where "META_RISK = ''risk''"
definition META_ESTIMATE :: string where "META_ESTIMATE = ''estimate''"
definition DEFAULT_ESTIMATE_MINUTES :: int where "DEFAULT_ESTIMATE_MINUTES = 30"
definition RUNNING_STATUS :: string where "RUNNING_STATUS = ''in_progress''"

lemmas meta_keys = META_PLAN_def META_KEY_def META_DONE_def META_REPO_def META_GROUP_def
  META_ACCEPTANCE_def META_RISK_def META_ESTIMATE_def

definition meta_str :: "issue \<Rightarrow> string \<Rightarrow> string option" where
  "meta_str i key = Option.bind (json_get (i_metadata i) key) as_str"

definition meta_i64 :: "issue \<Rightarrow> string \<Rightarrow> int option" where
  "meta_i64 i key = Option.bind (json_get (i_metadata i) key)
     (\<lambda>v. case as_i64 v of
        Some n \<Rightarrow> Some n
      | None \<Rightarrow> Option.bind (as_str v) (\<lambda>s. parse_i64 (trim s)))"

definition plan_name_of :: "issue \<Rightarrow> string option" where
  "plan_name_of i = meta_str i META_PLAN"

definition metadata_estimate :: "issue \<Rightarrow> int option" where
  "metadata_estimate i =
     Option.bind (meta_i64 i META_ESTIMATE) (\<lambda>m. if 0 < m then Some m else None)"

definition estimate_of_with_default :: "issue \<Rightarrow> int \<Rightarrow> int \<times> string" where
  "estimate_of_with_default i dflt =
     (case metadata_estimate i of
        Some m \<Rightarrow> (m, ''metadata'')
      | None \<Rightarrow> (max dflt 1, ''default''))"

definition estimate_of :: "issue \<Rightarrow> int" where
  "estimate_of i = fst (estimate_of_with_default i DEFAULT_ESTIMATE_MINUTES)"

definition conflict_group :: "issue \<Rightarrow> string option" where
  "conflict_group i = Option.bind (meta_str i META_GROUP) (\<lambda>g. if g = [] then None else Some g)"

definition is_live_claim :: "issue \<Rightarrow> time \<Rightarrow> bool" where
  "is_live_claim i now \<longleftrightarrow> i_assignee i \<noteq> None \<and>
     (case i_expires_at i of None \<Rightarrow> False | Some e \<Rightarrow> now < e)"

definition is_running :: "issue \<Rightarrow> time \<Rightarrow> bool" where
  "is_running i now \<longleftrightarrow> i_status i = RUNNING_STATUS \<and> (i_assignee i = None \<or> is_live_claim i now)"

lemma estimate_pos: "0 < fst (estimate_of_with_default i dflt)"
  by (auto simp: estimate_of_with_default_def metadata_estimate_def Option.bind_eq_Some_conv
      split: option.split if_splits)

section \<open>Specs\<close>

record node_spec =
  ns_key :: string
  ns_title :: string
  ns_description :: string
  ns_project :: string
  ns_repo :: string
  ns_conflict_group :: string
  ns_risk :: string
  ns_estimate :: "int option"
  ns_done_means :: string
  ns_acceptance :: string
  ns_deps :: "string list"
  ns_priority :: "int option"
  ns_labels :: "string list"

record resolved_plan =
  rp_plan :: string
  rp_project :: string
  rp_nodes :: "node_spec list"

datatype plan_problem =
    PlanNameEmpty
  | ProjectEmpty
  | NoNodes
  | EmptyKey string
  | DuplicateKey string
  | EmptyTitle string
  | BadRisk string string
  | BadEstimate string
  | DependsOnItself string
  | DependsOnUnknown string string
  | CycleAt string

definition validate_risk :: "string \<Rightarrow> bool" where
  "validate_risk risk \<longleftrightarrow> risk \<in> set [[], ''low'', ''medium'', ''high'', ''critical'']"

definition blank :: "string \<Rightarrow> bool" where
  "blank s \<longleftrightarrow> trim s = []"

text \<open>The first loop: what is wrong with each node alone, and the set of keys.\<close>

definition check_node :: "node_spec \<Rightarrow> plan_problem list \<times> string list \<Rightarrow> plan_problem list \<times> string list" where
  "check_node node st =
     (case st of (problems, keys) \<Rightarrow>
        let fresh = \<not> blank (ns_key node) \<and> ns_key node \<notin> set keys;
            p1 = (if blank (ns_key node) then [EmptyKey (ns_title node)]
                  else if ns_key node \<in> set keys then [DuplicateKey (ns_key node)] else []);
            p2 = (if blank (ns_title node) then [EmptyTitle (ns_key node)] else []);
            p3 = (if validate_risk (ns_risk node) then [] else [BadRisk (ns_key node) (ns_risk node)]);
            p4 = (case ns_estimate node of
                    None \<Rightarrow> [] | Some e \<Rightarrow> if e \<le> 0 then [BadEstimate (ns_key node)] else [])
        in (problems @ p1 @ p2 @ p3 @ p4, if fresh then bs_insert (ns_key node) keys else keys))"

text \<open>The second: dependencies on itself and on unknown keys.\<close>

definition dep_problems :: "string list \<Rightarrow> node_spec \<Rightarrow> plan_problem list" where
  "dep_problems keys node = concat (map (\<lambda>d.
     if d = ns_key node then [DependsOnItself (ns_key node)]
     else if d \<notin> set keys then [DependsOnUnknown (ns_key node) d] else []) (ns_deps node))"

section \<open>The cycle check\<close>

text \<open>
  \<open>visit\<close> colours a key 1 while its dependencies are visited and 2 afterwards; meeting a key
  coloured 1 is a cycle. The first argument bounds the recursion depth; \<open>visit_total\<close> below
  shows that one more than the number of keys is always enough.
\<close>

type_synonym colouring = "(string \<rightharpoonup> nat) \<times> plan_problem list"

fun visit :: "nat \<Rightarrow> (string \<times> node_spec) list \<Rightarrow> string \<Rightarrow> colouring \<Rightarrow> colouring option"
and visit_deps :: "nat \<Rightarrow> (string \<times> node_spec) list \<Rightarrow> string list \<Rightarrow> colouring \<Rightarrow> colouring option" where
  "visit 0 by_key key st = None"
| "visit (Suc n) by_key key (color, problems) =
     (if color key = Some 1 then Some (color, problems @ [CycleAt key])
      else if color key = Some 2 then Some (color, problems)
      else map_option (\<lambda>(color, problems). (color(key \<mapsto> 2), problems))
        (visit_deps n by_key (case map_of by_key key of None \<Rightarrow> [] | Some node \<Rightarrow> ns_deps node)
          (color(key \<mapsto> 1), problems)))"
| "visit_deps n by_key [] st = Some st"
| "visit_deps n by_key (d # ds) st =
     (case (if map_of by_key d = None then Some st else visit n by_key d st) of
        None \<Rightarrow> None
      | Some st' \<Rightarrow> visit_deps n by_key ds st')"

fun visit_nodes :: "nat \<Rightarrow> (string \<times> node_spec) list \<Rightarrow> node_spec list \<Rightarrow> colouring \<Rightarrow> colouring option" where
  "visit_nodes n by_key [] st = Some st"
| "visit_nodes n by_key (node # nodes) st =
     Option.bind (visit n by_key (ns_key node) st) (visit_nodes n by_key nodes)"

definition by_key_of :: "resolved_plan \<Rightarrow> (string \<times> node_spec) list" where
  "by_key_of plan = bt_collect (map (\<lambda>n. (ns_key n, n)) (rp_nodes plan))"

definition structure_problems :: "resolved_plan \<Rightarrow> plan_problem list" where
  "structure_problems plan =
     (let p0 = (if blank (rp_plan plan) then [PlanNameEmpty] else []) @
            (if blank (rp_project plan) then [ProjectEmpty] else []) @
            (if rp_nodes plan = [] then [NoNodes] else []);
          (p1, keys) = fold check_node (rp_nodes plan) (p0, [])
      in p1 @ concat (map (dep_problems keys) (rp_nodes plan)))"

definition validate :: "resolved_plan \<Rightarrow> (plan_problem list + unit) option" where
  "validate plan =
     map_option (\<lambda>(color, problems). if problems = [] then Inr () else Inl problems)
       (visit_nodes (Suc (length (rp_nodes plan))) (by_key_of plan) (rp_nodes plan)
         (Map.empty, structure_problems plan))"

section \<open>The draft\<close>

definition metadata_for :: "resolved_plan \<Rightarrow> node_spec \<Rightarrow> json" where
  "metadata_for plan node =
     (let opt = (\<lambda>key v m. if v = [] then m else bt_insert key (JStr v) m)
      in JObj (bt_insert META_ESTIMATE
           (JInt (max (case ns_estimate node of None \<Rightarrow> DEFAULT_ESTIMATE_MINUTES | Some e \<Rightarrow> e) 1))
           (opt META_RISK (ns_risk node)
           (opt META_ACCEPTANCE (ns_acceptance node)
           (opt META_GROUP (ns_conflict_group node)
           (opt META_REPO (ns_repo node)
           (opt META_DONE (ns_done_means node)
           (bt_insert META_KEY (JStr (ns_key node))
           (bt_insert META_PLAN (JStr (rp_plan plan)) [])))))))))"

record created_node =
  cn_key :: string
  cn_id :: string
  cn_title :: string
  cn_project :: string
  cn_deps :: "string list"
  cn_metadata :: json

type_synonym edge = "string \<times> string"

record create_report =
  rep_plan :: string
  rep_project :: string
  rep_nodes :: "created_node list"
  rep_edges :: "edge list"

definition node_project :: "resolved_plan \<Rightarrow> node_spec \<Rightarrow> string" where
  "node_project plan node = (if ns_project node = [] then rp_project plan else ns_project node)"

definition created_of :: "resolved_plan \<Rightarrow> (string \<Rightarrow> string) \<Rightarrow> node_spec \<Rightarrow> created_node" where
  "created_of plan id_of node =
     \<lparr>cn_key = ns_key node, cn_id = id_of (ns_key node), cn_title = ns_title node,
      cn_project = node_project plan node, cn_deps = ns_deps node,
      cn_metadata = metadata_for plan node\<rparr>"

text \<open>\<open>ids[key]\<close> panics on a key without an id; after validation every key has one.\<close>

definition draft_ids :: "resolved_plan \<Rightarrow> (string \<times> string) list" where
  "draft_ids plan = bt_collect (map (\<lambda>n. (ns_key n, ''<new:'' @ ns_key n @ ''>'')) (rp_nodes plan))"

definition draft :: "resolved_plan \<Rightarrow> (plan_problem list + create_report) option" where
  "draft plan =
     (case validate plan of
        None \<Rightarrow> None
      | Some (Inl problems) \<Rightarrow> Some (Inl problems)
      | Some (Inr _) \<Rightarrow>
          (let ids = draft_ids plan in
           if \<exists>n \<in> set (rp_nodes plan). \<exists>d \<in> set (ns_key n # ns_deps n). map_of ids d = None
           then None
           else let id_of = (\<lambda>k. the (map_of ids k)) in
             Some (Inr \<lparr>rep_plan = rp_plan plan, rep_project = rp_project plan,
               rep_nodes = map (created_of plan id_of) (rp_nodes plan),
               rep_edges = concat (map (\<lambda>n. map (\<lambda>d. (id_of (ns_key n), id_of d)) (ns_deps n))
                 (rp_nodes plan))\<rparr>)))"

end
