(* ===== verification/PlanCheck.thy ===== *)
theory PlanCheck
  imports PlanSpec
begin

text \<open>
  The cycle check of \<open>PlanSpec\<close> is exact: it always finishes, and it reports nothing if and only
  if the dependency relation over the known keys is acyclic. The proof follows the colours: keys
  coloured 1 are the stack, keys coloured 2 are closed under dependencies and acyclic.
\<close>

definition spec_edges :: "(string \<times> node_spec) list \<Rightarrow> (string \<times> string) set" where
  "spec_edges by_key =
     {(k, d). (\<exists>node. map_of by_key k = Some node \<and> d \<in> set (ns_deps node)) \<and> map_of by_key d \<noteq> None}"

section \<open>What one visit does to the colours\<close>

text \<open>Grey keys are exactly the caller's, black keys stay black, problems are only added.\<close>

definition extends :: "colouring \<Rightarrow> colouring \<Rightarrow> bool" where
  "extends st st' \<longleftrightarrow>
     (\<forall>k. fst st' k = Some 1 \<longleftrightarrow> fst st k = Some 1) \<and>
     (\<forall>k. fst st k = Some 2 \<longrightarrow> fst st' k = Some 2) \<and>
     (\<exists>zs. snd st' = snd st @ zs)"

definition colours_ok :: "colouring \<Rightarrow> bool" where
  "colours_ok st \<longleftrightarrow> ran (fst st) \<subseteq> {1, 2}"

definition black :: "colouring \<Rightarrow> string set" where
  "black st = {k. fst st k = Some 2}"

definition black_done :: "(string \<times> string) set \<Rightarrow> colouring \<Rightarrow> bool" where
  "black_done E st \<longleftrightarrow> E `` black st \<subseteq> black st \<and> acyclic (E \<inter> black st \<times> UNIV)"

definition stack_reaches :: "(string \<times> string) set \<Rightarrow> colouring \<Rightarrow> string \<Rightarrow> bool" where
  "stack_reaches E st key \<longleftrightarrow> (\<forall>g. fst st g = Some 1 \<longrightarrow> (g, key) \<in> E\<^sup>+)"

lemma extends_refl [simp]: "extends st st"
  by (simp add: extends_def)

lemma extends_trans: "extends a b \<Longrightarrow> extends b c \<Longrightarrow> extends a c"
  by (auto simp: extends_def)

lemma extends_same: "extends a b \<Longrightarrow> extends b c \<Longrightarrow> snd c = snd a \<Longrightarrow> snd b = snd a \<and> snd c = snd b"
  unfolding extends_def by (metis append_assoc append_self_conv append_is_Nil_conv)

lemma extends_reaches: "extends a b \<Longrightarrow> stack_reaches E a key \<Longrightarrow> stack_reaches E b key"
  by (auto simp: extends_def stack_reaches_def)

text \<open>Everything a visit of \<open>key\<close> guarantees.\<close>

definition visit_post :: "(string \<times> string) set \<Rightarrow> string set \<Rightarrow> string \<Rightarrow> colouring \<Rightarrow> colouring \<Rightarrow> bool" where
  "visit_post E targets key st st' \<longleftrightarrow> extends st st' \<and> colours_ok st' \<and>
     (snd st' = snd st \<longrightarrow> black_done E st \<longrightarrow> targets \<subseteq> black st' \<and> black_done E st') \<and>
     (snd st' \<noteq> snd st \<longrightarrow> stack_reaches E st key \<longrightarrow> \<not> acyclic E)"

lemma acyclic_extend_black:
  assumes "E `` B \<subseteq> B" and "acyclic (E \<inter> B \<times> UNIV)" and "E `` {k} \<subseteq> B" and "k \<notin> B"
  shows "acyclic (E \<inter> insert k B \<times> UNIV)"
proof (rule ccontr)
  assume "\<not> acyclic (E \<inter> insert k B \<times> UNIV)"
  then obtain x where x: "(x, x) \<in> (E \<inter> insert k B \<times> UNIV)\<^sup>+" by (auto simp: acyclic_def)
  have step: "z \<in> B" if "(y, z) \<in> E \<inter> insert k B \<times> UNIV" for y z
    using that assms(1,3) by blast
  have inB: "z \<in> B" if "(y, z) \<in> (E \<inter> insert k B \<times> UNIV)\<^sup>+" for y z
    using that by (induction rule: trancl_induct) (rule step, assumption)+
  have "(y, z) \<in> (E \<inter> B \<times> UNIV)\<^sup>+" if "(y, z) \<in> (E \<inter> insert k B \<times> UNIV)\<^sup>+" "y \<in> B" for y z
    using that
  proof (induction rule: trancl_induct)
    case (base z)
    then show ?case by blast
  next
    case (step w z)
    have "w \<in> B" using inB [OF step.hyps(1)] .
    with step show ?case by (meson IntD1 IntI SigmaI UNIV_I trancl.trancl_into_trancl)
  qed
  from this [OF x inB [OF x]] assms(2) show False by (auto simp: acyclic_def)
qed

lemma visit_deps_post:
  assumes visit: "\<And>d st st'. map_of by_key d \<noteq> None \<Longrightarrow> visit n by_key d st = Some st' \<Longrightarrow>
      colours_ok st \<Longrightarrow> visit_post (spec_edges by_key) {d} d st st'"
    and "visit_deps n by_key ds st = Some st'" and "colours_ok st"
    and "\<And>d. d \<in> set ds \<Longrightarrow> map_of by_key d \<noteq> None \<Longrightarrow> stack_reaches (spec_edges by_key) st d \<or> \<not> P"
  shows "extends st st' \<and> colours_ok st' \<and>
    (snd st' = snd st \<longrightarrow> black_done (spec_edges by_key) st \<longrightarrow>
       {d \<in> set ds. map_of by_key d \<noteq> None} \<subseteq> black st' \<and> black_done (spec_edges by_key) st') \<and>
    (snd st' \<noteq> snd st \<longrightarrow> P \<longrightarrow> \<not> acyclic (spec_edges by_key))"
  using assms(2-4)
proof (induction ds arbitrary: st)
  case (Cons d ds)
  show ?case
  proof (cases "map_of by_key d")
    case None
    with Cons.prems have "visit_deps n by_key ds st = Some st'" by simp
    with Cons.IH [OF this] Cons.prems None show ?thesis by auto
  next
    case (Some node)
    with Cons.prems(1) obtain st1 where v: "visit n by_key d st = Some st1"
      and r: "visit_deps n by_key ds st1 = Some st'" by (auto split: option.splits)
    have p: "visit_post (spec_edges by_key) {d} d st st1" using visit v Some Cons.prems(2) by blast
    have ext: "extends st st1" "colours_ok st1" using p by (auto simp: visit_post_def)
    have ih: "extends st1 st' \<and> colours_ok st' \<and>
      (snd st' = snd st1 \<longrightarrow> black_done (spec_edges by_key) st1 \<longrightarrow>
         {d \<in> set ds. map_of by_key d \<noteq> None} \<subseteq> black st' \<and> black_done (spec_edges by_key) st') \<and>
      (snd st' \<noteq> snd st1 \<longrightarrow> P \<longrightarrow> \<not> acyclic (spec_edges by_key))"
    proof (rule Cons.IH [OF r ext(2)])
      fix d' assume "d' \<in> set ds" "map_of by_key d' \<noteq> None"
      then have "stack_reaches (spec_edges by_key) st d' \<or> \<not> P" using Cons.prems(3) by simp
      then show "stack_reaches (spec_edges by_key) st1 d' \<or> \<not> P" using ext(1) extends_reaches by blast
    qed
    show ?thesis
    proof (intro conjI impI)
      show "extends st st'" using ext ih extends_trans by blast
      show "colours_ok st'" using ih by blast
      assume same: "snd st' = snd st" and bd: "black_done (spec_edges by_key) st"
      have s1: "snd st1 = snd st" "snd st' = snd st1"
        using extends_same [OF ext(1) _ same] ih by auto
      then have "d \<in> black st1" "black_done (spec_edges by_key) st1"
        using p bd by (auto simp: visit_post_def)
      moreover have "black st1 \<subseteq> black st'" using ih by (auto simp: extends_def black_def)
      ultimately show "{d' \<in> set (d # ds). map_of by_key d' \<noteq> None} \<subseteq> black st'"
        and "black_done (spec_edges by_key) st'" using ih s1 by auto
    next
      assume diff: "snd st' \<noteq> snd st" and P
      have "stack_reaches (spec_edges by_key) st d" using Cons.prems(3) [of d] Some \<open>P\<close> by simp
      with p have "snd st1 \<noteq> snd st \<longrightarrow> \<not> acyclic (spec_edges by_key)" by (auto simp: visit_post_def)
      with ih diff \<open>P\<close> show "\<not> acyclic (spec_edges by_key)" by auto
    qed
  qed
qed (auto simp: black_def)

lemma visit_sound:
  assumes "map_of by_key key \<noteq> None" and "visit n by_key key st = Some st'" and "colours_ok st"
  shows "visit_post (spec_edges by_key) {key} key st st'"
  using assms
proof (induction n arbitrary: key st st')
  case (Suc n)
  let ?E = "spec_edges by_key"
  obtain color problems where st: "st = (color, problems)" by (cases st)
  obtain node where node: "map_of by_key key = Some node" using Suc.prems(1) by auto
  consider (grey) "color key = Some 1" | (black) "color key = Some 2" | (white) "color key = None"
    using Suc.prems(3) by (cases "color key") (auto simp: colours_ok_def st ran_def)
  then show ?case
  proof cases
    case grey
    with Suc.prems st have st': "st' = (color, problems @ [CycleAt key])" by simp
    have "\<not> acyclic ?E" if "stack_reaches ?E st key"
      using that grey by (auto simp: stack_reaches_def st acyclic_def)
    with st' st Suc.prems(3) show ?thesis
      by (auto simp: visit_post_def extends_def colours_ok_def)
  next
    case black
    with Suc.prems st have "st' = st" by simp
    with black Suc.prems(3) show ?thesis by (auto simp: visit_post_def black_def st)
  next
    case white
    define st0 where "st0 = (color(key \<mapsto> 1), problems)"
    from white Suc.prems(2) node obtain st1 where
      d: "visit_deps n by_key (ns_deps node) st0 = Some st1"
      and st': "st' = ((fst st1)(key \<mapsto> 2), snd st1)"
      by (auto simp: st st0_def split: prod.splits)
    have ok0: "colours_ok st0" using Suc.prems(3) by (auto simp: colours_ok_def st st0_def ran_def)
    let ?P = "stack_reaches ?E st key"
    have edge: "(key, d) \<in> ?E" if "d \<in> set (ns_deps node)" "map_of by_key d \<noteq> None" for d
      using that node by (auto simp: spec_edges_def)
    have post: "extends st0 st1 \<and> colours_ok st1 \<and>
      (snd st1 = snd st0 \<longrightarrow> black_done ?E st0 \<longrightarrow>
         {d \<in> set (ns_deps node). map_of by_key d \<noteq> None} \<subseteq> black st1 \<and> black_done ?E st1) \<and>
      (snd st1 \<noteq> snd st0 \<longrightarrow> ?P \<longrightarrow> \<not> acyclic ?E)"
    proof (rule visit_deps_post [OF Suc.IH d ok0])
      fix d assume "d \<in> set (ns_deps node)" "map_of by_key d \<noteq> None"
      with edge have "(key, d) \<in> ?E" by blast
      then have "(g, d) \<in> ?E\<^sup>+" if "?P" "fst st0 g = Some 1" for g
        using that by (cases "g = key")
          (auto simp: stack_reaches_def st st0_def intro: trancl_into_trancl)
      then show "stack_reaches ?E st0 d \<or> \<not> ?P" by (auto simp: stack_reaches_def)
    qed
    have g1: "fst st1 key = Some 1" using post by (auto simp: extends_def st0_def)
    have "extends st st'"
      using post white g1 by (auto simp: extends_def st st' st0_def)
    moreover have "colours_ok st'" using post by (auto simp: colours_ok_def st' ran_def)
    moreover have seen: "{key} \<subseteq> black st' \<and> black_done ?E st'"
      if same: "snd st' = snd st" and bd: "black_done ?E st"
    proof -
      have "black st0 = black st" using white by (auto simp: black_def st st0_def)
      then have "black_done ?E st0" using bd by (simp add: black_done_def)
      moreover have "snd st1 = snd st0" using same by (simp add: st' st0_def st)
      ultimately have b1: "{d \<in> set (ns_deps node). map_of by_key d \<noteq> None} \<subseteq> black st1" "black_done ?E st1"
        using post by auto
      have bl: "black st' = insert key (black st1)" by (auto simp: black_def st')
      have "?E `` {key} \<subseteq> black st1" using b1(1) node by (auto simp: spec_edges_def)
      moreover have "key \<notin> black st1" using g1 by (simp add: black_def)
      ultimately have "acyclic (?E \<inter> insert key (black st1) \<times> UNIV)"
        using b1(2) unfolding black_done_def by (elim conjE) (rule acyclic_extend_black)
      moreover have "?E `` insert key (black st1) \<subseteq> insert key (black st1)"
        using \<open>?E `` {key} \<subseteq> black st1\<close> b1(2) unfolding black_done_def by blast
      ultimately show ?thesis by (simp add: black_done_def bl)
    qed
    moreover have "snd st' \<noteq> snd st \<longrightarrow> ?P \<longrightarrow> \<not> acyclic ?E"
      using post by (simp add: st' st0_def st)
    ultimately show ?thesis unfolding visit_post_def by (intro conjI impI) (assumption | rule seen | simp)+
  qed
qed simp

section \<open>Enough fuel\<close>

text \<open>The keys still uncoloured bound the depth of the recursion.\<close>

definition tinted :: "colouring \<Rightarrow> string \<Rightarrow> bool" where
  "tinted st k \<longleftrightarrow> fst st k = Some 1 \<or> fst st k = Some 2"

definition uncoloured :: "(string \<times> node_spec) list \<Rightarrow> colouring \<Rightarrow> nat" where
  "uncoloured by_key st = card {k. map_of by_key k \<noteq> None \<and> \<not> tinted st k}"

lemma finite_keys: "finite {k. map_of by_key k \<noteq> None \<and> P k}"
  by (rule finite_subset [OF _ finite_dom_map_of [of by_key]]) auto

lemma uncoloured_mono:
  assumes "\<And>k. \<not> tinted st' k \<Longrightarrow> \<not> tinted st k"
  shows "uncoloured by_key st' \<le> uncoloured by_key st"
  unfolding uncoloured_def using assms by (intro card_mono finite_keys) blast

lemma uncoloured_step:
  assumes "map_of by_key key \<noteq> None" and "\<not> tinted (color, q) key"
  shows "uncoloured by_key (color(key \<mapsto> 1), p) < uncoloured by_key (color, q)"
  unfolding uncoloured_def using assms by (intro psubset_card_mono finite_keys) (auto simp: tinted_def)

lemma visit_keeps_coloured:
  "(visit n by_key key st = Some st' \<longrightarrow> \<not> tinted st' k \<longrightarrow> \<not> tinted st k) \<and>
   (visit_deps n by_key ds st = Some st' \<longrightarrow> \<not> tinted st' k \<longrightarrow> \<not> tinted st k)"
proof -
  have deps: "\<not> tinted st' k \<longrightarrow> \<not> tinted st k"
    if "\<And>d st st'. visit n by_key d st = Some st' \<Longrightarrow> \<not> tinted st' k \<longrightarrow> \<not> tinted st k"
      "visit_deps n by_key ds st = Some st'" for n ds st st'
    using that(2)
  proof (induction ds arbitrary: st)
    case (Cons d ds)
    then obtain st1 where "(if map_of by_key d = None then Some st else visit n by_key d st) = Some st1"
      "visit_deps n by_key ds st1 = Some st'" by (auto split: option.splits)
    with Cons.IH that(1) show ?case by (metis option.inject)
  qed simp
  have vis: "\<not> tinted st' k \<longrightarrow> \<not> tinted st k" if "visit n by_key key st = Some st'" for n key st st'
    using that
  proof (induction n arbitrary: key st st')
    case (Suc n)
    obtain color problems where st: "st = (color, problems)" by (cases st)
    show ?case
    proof (cases "color key = Some 1 \<or> color key = Some 2")
      case True
      with Suc.prems st show ?thesis by (auto simp: tinted_def split: if_splits)
    next
      case False
      with Suc.prems st obtain st1 where "visit_deps n by_key
          (case map_of by_key key of None \<Rightarrow> [] | Some node \<Rightarrow> ns_deps node)
          (color(key \<mapsto> 1), problems) = Some st1" "st' = ((fst st1)(key \<mapsto> 2), snd st1)"
        by (auto split: prod.splits)
      with deps [OF Suc.IH this(1)] show ?thesis by (auto simp: st tinted_def split: if_splits)
    qed
  qed simp
  show ?thesis using vis deps [of n] by blast
qed

lemma visit_total:
  assumes "map_of by_key key \<noteq> None" and "uncoloured by_key st < n"
  shows "visit n by_key key st \<noteq> None"
  using assms
proof (induction n arbitrary: key st)
  case (Suc n)
  obtain color problems where st: "st = (color, problems)" by (cases st)
  have deps: "visit_deps n by_key ds st1 \<noteq> None" if "uncoloured by_key st1 < n" for ds st1
    using that
  proof (induction ds arbitrary: st1)
    case (Cons d ds)
    show ?case
    proof (cases "map_of by_key d = None")
      case True
      with Cons show ?thesis by simp
    next
      case False
      with Suc.IH Cons.prems obtain st2 where v: "visit n by_key d st1 = Some st2" by fastforce
      then have "uncoloured by_key st2 \<le> uncoloured by_key st1"
        using visit_keeps_coloured by (intro uncoloured_mono) blast
      with Cons v False show ?thesis by auto
    qed
  qed simp
  show ?case
  proof (cases "color key = Some 1 \<or> color key = Some 2")
    case True
    then show ?thesis by (auto simp: st)
  next
    case False
    have "uncoloured by_key (color(key \<mapsto> 1), problems) < uncoloured by_key st"
      unfolding st by (rule uncoloured_step [OF Suc.prems(1)]) (use False in \<open>simp add: tinted_def\<close>)
    then have "uncoloured by_key (color(key \<mapsto> 1), problems) < n" using Suc.prems(2) by simp
    from deps [OF this] False show ?thesis by (auto simp: st)
  qed
qed simp

section \<open>The whole check\<close>

lemma visit_nodes_post:
  assumes "\<And>node. node \<in> set nodes \<Longrightarrow> map_of by_key (ns_key node) \<noteq> None"
    and "colours_ok st" and "\<And>k. fst st k \<noteq> Some 1" and "uncoloured by_key st < n"
  shows "\<exists>st'. visit_nodes n by_key nodes st = Some st' \<and> extends st st' \<and>
    (snd st' = snd st \<longrightarrow> black_done (spec_edges by_key) st \<longrightarrow>
       ns_key ` set nodes \<subseteq> black st' \<and> black_done (spec_edges by_key) st') \<and>
    (snd st' \<noteq> snd st \<longrightarrow> \<not> acyclic (spec_edges by_key))"
  using assms
proof (induction nodes arbitrary: st)
  case (Cons node nodes)
  let ?E = "spec_edges by_key"
  have key: "map_of by_key (ns_key node) \<noteq> None" using Cons.prems(1) by simp
  then obtain st1 where v: "visit n by_key (ns_key node) st = Some st1"
    using visit_total Cons.prems(4) by blast
  have p: "visit_post ?E {ns_key node} (ns_key node) st st1"
    using visit_sound [OF key v Cons.prems(2)] .
  then have e1: "extends st st1" and ok1: "colours_ok st1" by (auto simp: visit_post_def)
  have "uncoloured by_key st1 \<le> uncoloured by_key st"
    using v visit_keeps_coloured by (intro uncoloured_mono) blast
  then have "uncoloured by_key st1 < n" using Cons.prems(4) by simp
  moreover have "fst st1 k \<noteq> Some 1" for k using e1 Cons.prems(3) by (auto simp: extends_def)
  ultimately obtain st' where r: "visit_nodes n by_key nodes st1 = Some st'" and e2: "extends st1 st'"
    and b: "snd st' = snd st1 \<longrightarrow> black_done ?E st1 \<longrightarrow> ns_key ` set nodes \<subseteq> black st' \<and> black_done ?E st'"
    and c: "snd st' \<noteq> snd st1 \<longrightarrow> \<not> acyclic ?E"
    using Cons.IH [of st1] Cons.prems(1) ok1 by auto
  have "extends st st'" using e1 e2 extends_trans by blast
  moreover have "ns_key ` set (node # nodes) \<subseteq> black st' \<and> black_done ?E st'"
    if same: "snd st' = snd st" and bd: "black_done ?E st"
  proof -
    have s: "snd st1 = snd st" "snd st' = snd st1" using extends_same [OF e1 e2 same] by auto
    then have "ns_key node \<in> black st1" "black_done ?E st1" using p bd by (auto simp: visit_post_def)
    moreover have "black st1 \<subseteq> black st'" using e2 by (auto simp: extends_def black_def)
    ultimately show ?thesis using b s by auto
  qed
  moreover have "\<not> acyclic ?E" if diff: "snd st' \<noteq> snd st"
  proof (cases "snd st1 = snd st")
    case True
    with diff c show ?thesis by simp
  next
    case False
    have "stack_reaches ?E st (ns_key node)" using Cons.prems(3) by (simp add: stack_reaches_def)
    with p False show ?thesis by (simp add: visit_post_def)
  qed
  ultimately show ?case using v r by auto
qed (auto simp: black_def)

lemma map_of_by_key: "map_of (by_key_of plan) = map_of (rev (map (\<lambda>n. (ns_key n, n)) (rp_nodes plan)))"
  by (simp add: by_key_of_def)

lemma by_key_known: "map_of (by_key_of plan) k \<noteq> None \<longleftrightarrow> k \<in> ns_key ` set (rp_nodes plan)"
  by (simp add: map_of_by_key map_of_eq_None_iff image_image)

lemma cycle_check:
  obtains color zs where "visit_nodes (Suc (length (rp_nodes plan))) (by_key_of plan) (rp_nodes plan)
      (Map.empty, problems) = Some (color, problems @ zs)"
    and "zs = [] \<longleftrightarrow> acyclic (spec_edges (by_key_of plan))"
proof -
  let ?E = "spec_edges (by_key_of plan)" and ?st = "(Map.empty, problems) :: colouring"
  have "{k. map_of (by_key_of plan) k \<noteq> None \<and> \<not> tinted ?st k} = ns_key ` set (rp_nodes plan)"
    using by_key_known [of plan] by (auto simp: tinted_def)
  then have "uncoloured (by_key_of plan) ?st \<le> length (rp_nodes plan)"
    unfolding uncoloured_def by (metis card_image_le card_length finite_set le_trans)
  then have fuel: "uncoloured (by_key_of plan) ?st < Suc (length (rp_nodes plan))" by simp
  have nodes: "map_of (by_key_of plan) (ns_key node) \<noteq> None" if "node \<in> set (rp_nodes plan)" for node
    using that by (subst by_key_known) simp
  have ok: "colours_ok ?st" and grey: "\<And>k. fst ?st k \<noteq> Some 1" by (simp_all add: colours_ok_def)
  obtain st' where v: "visit_nodes (Suc (length (rp_nodes plan))) (by_key_of plan) (rp_nodes plan) ?st = Some st'"
    and e: "extends ?st st'"
    and b: "snd st' = snd ?st \<longrightarrow> black_done ?E ?st \<longrightarrow>
      ns_key ` set (rp_nodes plan) \<subseteq> black st' \<and> black_done ?E st'"
    and c: "snd st' \<noteq> snd ?st \<longrightarrow> \<not> acyclic ?E"
    using visit_nodes_post [OF nodes ok grey fuel] by blast
  obtain color p' where st': "st' = (color, p')" by (cases st')
  obtain zs where zs: "p' = problems @ zs" using e st' by (auto simp: extends_def)
  have start: "black_done ?E ?st" by (simp add: black_done_def black_def acyclic_def)
  have "acyclic ?E" if "zs = []"
  proof -
    have "ns_key ` set (rp_nodes plan) \<subseteq> black st'" "acyclic (?E \<inter> black st' \<times> UNIV)"
      using b start that zs st' by (auto simp: black_done_def)
    moreover have "fst e \<in> ns_key ` set (rp_nodes plan)" if "e \<in> ?E" for e
      using that by (auto simp: spec_edges_def simp flip: by_key_known)
    ultimately have "?E \<inter> black st' \<times> UNIV = ?E" by force
    with \<open>acyclic (?E \<inter> black st' \<times> UNIV)\<close> show ?thesis by simp
  qed
  moreover have "zs = []" if "acyclic ?E" using that c st' zs by auto
  ultimately show ?thesis using that v st' zs by blast
qed

section \<open>What a valid spec is\<close>

definition node_ok :: "node_spec \<Rightarrow> bool" where
  "node_ok n \<longleftrightarrow> \<not> blank (ns_key n) \<and> \<not> blank (ns_title n) \<and> validate_risk (ns_risk n) \<and>
     (\<forall>e. ns_estimate n = Some e \<longrightarrow> 0 < e)"

definition plan_edges :: "resolved_plan \<Rightarrow> (string \<times> string) set" where
  "plan_edges plan = {(ns_key n, d) | n d. n \<in> set (rp_nodes plan) \<and> d \<in> set (ns_deps n)}"

definition plan_ok :: "resolved_plan \<Rightarrow> bool" where
  "plan_ok plan \<longleftrightarrow> \<not> blank (rp_plan plan) \<and> \<not> blank (rp_project plan) \<and> rp_nodes plan \<noteq> [] \<and>
     (\<forall>n \<in> set (rp_nodes plan). node_ok n) \<and> distinct (map ns_key (rp_nodes plan)) \<and>
     snd ` plan_edges plan \<subseteq> ns_key ` set (rp_nodes plan) \<and> acyclic (plan_edges plan)"

lemma check_node_fold:
  assumes "fold check_node nodes (p, keys) = (p', keys')"
  shows "\<exists>zs. p' = p @ zs" and "set keys' = set keys \<union> {k \<in> ns_key ` set nodes. \<not> blank k}"
    and "p' = p \<longleftrightarrow> (\<forall>n \<in> set nodes. node_ok n) \<and> distinct (map ns_key nodes) \<and>
           set keys \<inter> ns_key ` set nodes = {}"
proof -
  have "(\<exists>zs. p' = p @ zs) \<and> set keys' = set keys \<union> {k \<in> ns_key ` set nodes. \<not> blank k} \<and>
    (p' = p \<longleftrightarrow> (\<forall>n \<in> set nodes. node_ok n) \<and> distinct (map ns_key nodes) \<and>
           set keys \<inter> ns_key ` set nodes = {})"
    using assms
  proof (induction nodes arbitrary: p keys)
    case (Cons n nodes)
    obtain q ks where q: "check_node n (p, keys) = (q, ks)" by fastforce
    then have ks: "set ks = set keys \<union> {k. k = ns_key n \<and> \<not> blank k}"
      and qp: "\<exists>zs. q = p @ zs" and same: "q = p \<longleftrightarrow> node_ok n \<and> ns_key n \<notin> set keys"
      by (auto simp: check_node_def node_ok_def Let_def split: if_splits option.splits)
    have ih: "(\<exists>zs. p' = q @ zs) \<and> set keys' = set ks \<union> {k \<in> ns_key ` set nodes. \<not> blank k} \<and>
      (p' = q \<longleftrightarrow> (\<forall>n \<in> set nodes. node_ok n) \<and> distinct (map ns_key nodes) \<and>
           set ks \<inter> ns_key ` set nodes = {})"
      using Cons.prems q by (intro Cons.IH) simp
    from qp ih have split: "p' = p \<longleftrightarrow> q = p \<and> p' = q" by auto
    show ?case
    proof (intro conjI)
      show "\<exists>zs. p' = p @ zs" using qp ih by auto
      show "set keys' = set keys \<union> {k \<in> ns_key ` set (n # nodes). \<not> blank k}" using ks ih by auto
      show "p' = p \<longleftrightarrow> (\<forall>n \<in> set (n # nodes). node_ok n) \<and> distinct (map ns_key (n # nodes)) \<and>
           set keys \<inter> ns_key ` set (n # nodes) = {}"
      proof (cases "node_ok n \<and> ns_key n \<notin> set keys")
        case True
        then have "set ks = insert (ns_key n) (set keys)" using ks by (auto simp: node_ok_def)
        with split same ih True show ?thesis by auto
      next
        case False
        with split same show ?thesis by auto
      qed
    qed
  qed simp
  then show "\<exists>zs. p' = p @ zs" and "set keys' = set keys \<union> {k \<in> ns_key ` set nodes. \<not> blank k}"
    and "p' = p \<longleftrightarrow> (\<forall>n \<in> set nodes. node_ok n) \<and> distinct (map ns_key nodes) \<and>
           set keys \<inter> ns_key ` set nodes = {}" by blast+
qed

lemma dep_problems_Nil:
  "dep_problems keys n = [] \<longleftrightarrow> set (ns_deps n) \<subseteq> set keys \<and> ns_key n \<notin> set (ns_deps n)"
  unfolding dep_problems_def concat_eq_Nil_conv set_map ball_simps by (auto split: if_splits)

lemma structure_problems_Nil:
  "structure_problems plan = [] \<longleftrightarrow> \<not> blank (rp_plan plan) \<and> \<not> blank (rp_project plan) \<and>
     rp_nodes plan \<noteq> [] \<and> (\<forall>n \<in> set (rp_nodes plan). node_ok n) \<and> distinct (map ns_key (rp_nodes plan)) \<and>
     (\<forall>n \<in> set (rp_nodes plan). set (ns_deps n) \<subseteq> ns_key ` set (rp_nodes plan) \<and> ns_key n \<notin> set (ns_deps n))"
proof -
  define p0 where "p0 = (if blank (rp_plan plan) then [PlanNameEmpty] else []) @
    (if blank (rp_project plan) then [ProjectEmpty] else []) @ (if rp_nodes plan = [] then [NoNodes] else [])"
  obtain p1 keys where f: "fold check_node (rp_nodes plan) (p0, []) = (p1, keys)" by fastforce
  note c = check_node_fold [OF f]
  have sp: "structure_problems plan = p1 @ concat (map (dep_problems keys) (rp_nodes plan))"
    using f by (simp add: structure_problems_def p0_def [symmetric] Let_def)
  have p0: "p0 = [] \<longleftrightarrow> \<not> blank (rp_plan plan) \<and> \<not> blank (rp_project plan) \<and> rp_nodes plan \<noteq> []"
    by (simp add: p0_def)
  have p1: "p1 = [] \<longleftrightarrow> p0 = [] \<and> (\<forall>n \<in> set (rp_nodes plan). node_ok n) \<and> distinct (map ns_key (rp_nodes plan))"
    using c(1,3) by auto
  have "set keys = ns_key ` set (rp_nodes plan)" if "\<forall>n \<in> set (rp_nodes plan). node_ok n"
    using c(2) that by (auto simp: node_ok_def)
  moreover have "concat (map (dep_problems keys) (rp_nodes plan)) = [] \<longleftrightarrow>
      (\<forall>n \<in> set (rp_nodes plan). set (ns_deps n) \<subseteq> set keys \<and> ns_key n \<notin> set (ns_deps n))"
    by (simp add: dep_problems_Nil)
  ultimately show ?thesis
    unfolding sp append_is_Nil_conv p1 p0
    by (cases "\<forall>n \<in> set (rp_nodes plan). node_ok n") (simp_all only: simp_thms, blast)
qed

lemma spec_edges_plan:
  assumes "distinct (map ns_key (rp_nodes plan))" and "snd ` plan_edges plan \<subseteq> ns_key ` set (rp_nodes plan)"
  shows "spec_edges (by_key_of plan) = plan_edges plan"
proof -
  have look: "map_of (by_key_of plan) (ns_key n) = Some n" if "n \<in> set (rp_nodes plan)" for n
  proof -
    have "distinct (map fst (rev (map (\<lambda>n. (ns_key n, n)) (rp_nodes plan))))"
      using assms(1) by (simp add: comp_def rev_map [symmetric])
    moreover have "(ns_key n, n) \<in> set (rev (map (\<lambda>n. (ns_key n, n)) (rp_nodes plan)))" using that by simp
    ultimately show ?thesis by (simp only: map_of_by_key map_of_is_SomeI)
  qed
  have node: "n \<in> set (rp_nodes plan) \<and> ns_key n = k" if "map_of (by_key_of plan) k = Some n" for k n
    using map_of_SomeD [OF that [unfolded map_of_by_key]] by auto
  show ?thesis
  proof (intro set_eqI iffI)
    fix e assume "e \<in> spec_edges (by_key_of plan)"
    with node show "e \<in> plan_edges plan" by (fastforce simp: spec_edges_def plan_edges_def)
  next
    fix e assume e: "e \<in> plan_edges plan"
    then obtain n d where "e = (ns_key n, d)" "n \<in> set (rp_nodes plan)" "d \<in> set (ns_deps n)"
      by (auto simp: plan_edges_def)
    moreover have "map_of (by_key_of plan) d \<noteq> None"
      unfolding by_key_known using assms(2) e \<open>e = (ns_key n, d)\<close> by (metis image_subset_iff snd_conv)
    ultimately show "e \<in> spec_edges (by_key_of plan)" using look by (auto simp: spec_edges_def)
  qed
qed

lemma validate_exact:
  "\<exists>r. validate plan = Some r \<and> (r = Inr () \<longleftrightarrow> plan_ok plan)"
proof -
  obtain color zs where v: "visit_nodes (Suc (length (rp_nodes plan))) (by_key_of plan) (rp_nodes plan)
      (Map.empty, structure_problems plan) = Some (color, structure_problems plan @ zs)"
    and z: "zs = [] \<longleftrightarrow> acyclic (spec_edges (by_key_of plan))"
    by (rule cycle_check)
  let ?r = "if structure_problems plan @ zs = [] then Inr () else Inl (structure_problems plan @ zs)"
  have "validate plan = Some ?r" using v by (simp add: validate_def)
  moreover have "?r = Inr () \<longleftrightarrow> plan_ok plan"
  proof (cases "structure_problems plan = []")
    case True
    note t = this [unfolded structure_problems_Nil]
    have s: "distinct (map ns_key (rp_nodes plan))"
      "snd ` plan_edges plan \<subseteq> ns_key ` set (rp_nodes plan)"
    proof (rule t [THEN conjunct2, THEN conjunct2, THEN conjunct2, THEN conjunct2, THEN conjunct1], rule subsetI)
      fix d assume "d \<in> snd ` plan_edges plan"
      then obtain n where "n \<in> set (rp_nodes plan)" "d \<in> set (ns_deps n)" by (auto simp: plan_edges_def)
      with t show "d \<in> ns_key ` set (rp_nodes plan)" by blast
    qed
    then have "zs = [] \<longleftrightarrow> acyclic (plan_edges plan)"
      unfolding z by (simp only: spec_edges_plan [OF s])
    moreover have "plan_ok plan \<longleftrightarrow> acyclic (plan_edges plan)"
      using t s(2) by (simp add: plan_ok_def)
    ultimately show ?thesis using True by simp
  next
    case False
    have "\<not> plan_ok plan"
    proof
      assume ok: "plan_ok plan"
      have sub: "snd ` plan_edges plan \<subseteq> ns_key ` set (rp_nodes plan)" and ac: "acyclic (plan_edges plan)"
        using ok unfolding plan_ok_def by blast+
      have edge: "(ns_key n, d) \<in> plan_edges plan" if "n \<in> set (rp_nodes plan)" "d \<in> set (ns_deps n)" for n d
        using that unfolding plan_edges_def by blast
      have "set (ns_deps n) \<subseteq> ns_key ` set (rp_nodes plan) \<and> ns_key n \<notin> set (ns_deps n)"
        if n: "n \<in> set (rp_nodes plan)" for n
      proof (intro conjI subsetI notI)
        fix d assume "d \<in> set (ns_deps n)"
        from sub imageI [OF edge [OF n this], of snd] show "d \<in> ns_key ` set (rp_nodes plan)" by auto
      next
        assume "ns_key n \<in> set (ns_deps n)"
        from r_into_trancl [OF edge [OF n this]] ac show False by (simp add: acyclic_def)
      qed
      with ok False show False unfolding structure_problems_Nil plan_ok_def by blast
    qed
    with False show ?thesis by simp
  qed
  ultimately show ?thesis by blast
qed

end
