(* ===== verification/PlanGraph.thy ===== *)
theory PlanGraph
  imports PlanSpec Store
begin

text \<open>
  The graph half of \<open>src/src/plan.rs\<close>: the loaded plan, its dependency edges by position, the
  topological order (\<open>topo\<close>, Kahn's algorithm with an ordered ready set) and the plan view. A
  \<open>usize\<close> that would go below zero or an index out of range panics, which is \<open>None\<close> here;
  \<open>topo_exact\<close> shows that neither happens.
\<close>

record plan_graph =
  pg_plan :: string
  pg_nodes :: "issue list"
  pg_status_of :: "string \<rightharpoonup> string"
  pg_default_estimate :: int

section \<open>Edges\<close>

text \<open>Collecting pairs into a \<open>HashMap\<close> keeps the last position of an id.\<close>

definition index_of :: "issue list \<Rightarrow> string \<Rightarrow> nat option" where
  "index_of nodes = map_of (rev (zip (map i_id nodes) [0..<length nodes]))"

definition dep_ids :: "issue \<Rightarrow> string list" where
  "dep_ids i = List.map_filter depends_on_id (i_dependencies i)"

definition internal_deps :: "plan_graph \<Rightarrow> issue \<Rightarrow> string list" where
  "internal_deps g i = filter (\<lambda>d. index_of (pg_nodes g) d \<noteq> None) (dep_ids i)"

definition external_deps :: "plan_graph \<Rightarrow> issue \<Rightarrow> string list" where
  "external_deps g i = filter (\<lambda>d. index_of (pg_nodes g) d = None) (dep_ids i)"

text \<open>The positions a node waits for, in the order of its dependencies.\<close>

definition preds :: "plan_graph \<Rightarrow> nat \<Rightarrow> nat list" where
  "preds g i = List.map_filter (index_of (pg_nodes g)) (dep_ids (pg_nodes g ! i))"

definition edge_list :: "plan_graph \<Rightarrow> (nat \<times> nat) list" where
  "edge_list g = concat (map (\<lambda>i. map (\<lambda>p. (p, i)) (preds g i)) [0..<length (pg_nodes g)])"

section \<open>The topological order\<close>

definition add_edge :: "nat \<times> nat \<Rightarrow> nat list \<times> nat list list \<Rightarrow> nat list \<times> nat list list" where
  "add_edge e st =
     (case e of (p, i) \<Rightarrow> case st of (indegree, dependents) \<Rightarrow>
        (indegree[i := indegree ! i + 1], dependents[p := dependents ! p @ [i]]))"

text \<open>One popped node: its dependents lose an edge each and may become ready.\<close>

fun release_deps :: "nat list \<Rightarrow> nat list \<Rightarrow> nat list \<Rightarrow> (nat list \<times> nat list) option" where
  "release_deps [] indegree rdy = Some (indegree, rdy)"
| "release_deps (c # cs) indegree rdy =
     (if length indegree \<le> c \<or> indegree ! c = 0 then None
      else let indegree' = indegree[c := indegree ! c - 1]
           in release_deps cs indegree' (if indegree' ! c = 0 then bs_insert c rdy else rdy))"

lemma sum_list_dec:
  "c < length xs \<Longrightarrow> xs ! c \<noteq> (0::nat) \<Longrightarrow> Suc (sum_list (xs[c := xs ! c - 1])) = sum_list xs"
proof (induction xs arbitrary: c)
  case (Cons x xs)
  then show ?case by (cases c) auto
qed simp

lemma length_bs_insert: "length (bs_insert c xs) \<le> Suc (length xs)"
  by (simp add: bs_insert_def insort_insert_key_def)

lemma release_deps_measure:
  "release_deps cs ind rdy = Some (ind', rdy') \<Longrightarrow>
    sum_list ind' + length rdy' \<le> sum_list ind + length rdy"
proof (induction cs ind rdy rule: release_deps.induct)
  case (2 c cs ind rdy)
  let ?ind = "ind[c := ind ! c - 1]" and ?rdy = "if ind[c := ind ! c - 1] ! c = 0 then bs_insert c rdy else rdy"
  have c: "c < length ind" "ind ! c \<noteq> 0" using 2(2) by (auto split: if_splits)
  have "sum_list ind' + length rdy' \<le> sum_list ?ind + length ?rdy"
    using 2 c by (auto simp: Let_def)
  moreover have "length ?rdy \<le> Suc (length rdy)" using length_bs_insert by auto
  ultimately show ?case using sum_list_dec [OF c] by linarith
qed simp

function kahn :: "nat list list \<Rightarrow> nat list \<Rightarrow> nat list \<Rightarrow> nat list option" where
  "kahn dependents indegree [] = Some []"
| "kahn dependents indegree (i # rdy) =
     (case release_deps (dependents ! i) indegree rdy of
        None \<Rightarrow> None
      | Some (indegree', rdy') \<Rightarrow> map_option ((#) i) (kahn dependents indegree' rdy'))"
  by pat_completeness auto
termination
  by (relation "measure (\<lambda>(dependents, indegree, rdy). sum_list indegree + length rdy)")
    (auto dest!: release_deps_measure)

definition topo :: "plan_graph \<Rightarrow> error + nat list" where
  "topo g =
     (let n = length (pg_nodes g);
          (indegree, dependents) = fold add_edge (edge_list g) (replicate n 0, replicate n []);
          rdy = filter (\<lambda>i. indegree ! i = 0) [0..<n]
      in case kahn dependents indegree rdy of
           None \<Rightarrow> Inl (Panic ''topo'')
         | Some order \<Rightarrow>
             if length order \<noteq> n then Inl (Bad (PlanCycle (pg_plan g))) else Inr order)"

definition scoped :: "string \<Rightarrow> issue list \<Rightarrow> (string \<rightharpoonup> string) \<Rightarrow> int \<Rightarrow> error + plan_graph" where
  "scoped name nodes status_of dflt =
     (let g = \<lparr>pg_plan = name, pg_nodes = nodes, pg_status_of = status_of,
               pg_default_estimate = max dflt 1\<rparr>
      in case topo g of Inl e \<Rightarrow> Inl e | Inr _ \<Rightarrow> Inr g)"

section \<open>The view\<close>

record node_view =
  nv_id :: string
  nv_key :: string
  nv_title :: string
  nv_status :: string
  nv_repo :: "string option"
  nv_conflict_group :: "string option"
  nv_risk :: "string option"
  nv_estimate :: int
  nv_done_means :: "string option"
  nv_acceptance :: "string option"
  nv_deps :: "string list"
  nv_external_deps :: "string list"
  nv_assignee :: "string option"
  nv_priority :: "int option"

definition plan_key :: "issue \<Rightarrow> string" where
  "plan_key i = (case meta_str i META_KEY of None \<Rightarrow> i_id i | Some k \<Rightarrow> k)"

definition node_view_of :: "plan_graph \<Rightarrow> issue \<Rightarrow> node_view" where
  "node_view_of g i =
     \<lparr>nv_id = i_id i, nv_key = plan_key i, nv_title = i_title i, nv_status = i_status i,
      nv_repo = meta_str i META_REPO, nv_conflict_group = conflict_group i,
      nv_risk = meta_str i META_RISK,
      nv_estimate = fst (estimate_of_with_default i (pg_default_estimate g)),
      nv_done_means = meta_str i META_DONE, nv_acceptance = meta_str i META_ACCEPTANCE,
      nv_deps = internal_deps g i, nv_external_deps = external_deps g i,
      nv_assignee = i_assignee i, nv_priority = Some (i_priority i)\<rparr>"

record plan_view =
  pv_plan :: string
  pv_nodes :: "node_view list"
  pv_edges :: "edge list"
  pv_repos :: "string list"
  pv_conflict_groups :: "string list"

definition plan_view_of :: "plan_graph \<Rightarrow> error + plan_view" where
  "plan_view_of g =
     (case topo g of
        Inl e \<Rightarrow> Inl e
      | Inr order \<Rightarrow>
          (let views = map (\<lambda>i. node_view_of g (pg_nodes g ! i)) order in
           Inr \<lparr>pv_plan = pg_plan g, pv_nodes = views,
             pv_edges = concat (map (\<lambda>v. map (\<lambda>p. (nv_id v, p)) (nv_deps v)) views),
             pv_repos = bs_collect (List.map_filter nv_repo views),
             pv_conflict_groups = bs_collect (List.map_filter nv_conflict_group views)\<rparr>))"

section \<open>Loading\<close>

definition plan_order :: "issue \<Rightarrow> int \<times> int \<times> string \<times> string" where
  "plan_order i = (i_priority i, i_created_at i, plan_key i, i_id i)"

definition statuses :: "issue list \<Rightarrow> string \<rightharpoonup> string" where
  "statuses all = map_of (rev (map (\<lambda>i. (i_id i, i_status i)) all))"

text \<open>\<open>load\<close> on what \<open>store.list(None, true, None)\<close> returned.\<close>

definition load_from :: "issue list \<Rightarrow> string \<Rightarrow> error + plan_graph" where
  "load_from all name =
     (let nodes = filter (\<lambda>i. plan_name_of i = Some name) all in
      if nodes = [] then Inl (NotFound (''plan '' @ name))
      else let g = \<lparr>pg_plan = name, pg_nodes = sort_key plan_order nodes,
                    pg_status_of = statuses all,
                    pg_default_estimate = DEFAULT_ESTIMATE_MINUTES\<rparr>
           in case topo g of Inl e \<Rightarrow> Inl e | Inr _ \<Rightarrow> Inr g)"

definition status_in :: "plan_graph \<Rightarrow> string \<Rightarrow> string" where
  "status_in g i = (case pg_status_of g i of None \<Rightarrow> ''open'' | Some s \<Rightarrow> s)"

section \<open>Kahn's algorithm is a topological sort\<close>

lemma fold_add_edge:
  assumes "\<forall>(p, i) \<in> set E. p < length dps \<and> i < length ind"
  shows "length (fst (fold add_edge E (ind, dps))) = length ind"
    and "length (snd (fold add_edge E (ind, dps))) = length dps"
    and "j < length ind \<Longrightarrow> fst (fold add_edge E (ind, dps)) ! j =
           ind ! j + length (filter (\<lambda>e. snd e = j) E)"
    and "q < length dps \<Longrightarrow> snd (fold add_edge E (ind, dps)) ! q =
           dps ! q @ map snd (filter (\<lambda>e. fst e = q) E)"
  using assms
  by (induction E arbitrary: ind dps) (auto simp: add_edge_def nth_list_update)

text \<open>How many edges into \<open>j\<close> come from outside \<open>D\<close>.\<close>

definition pending :: "(nat \<times> nat) list \<Rightarrow> nat set \<Rightarrow> nat \<Rightarrow> nat" where
  "pending E D j = length (filter (\<lambda>e. snd e = j \<and> fst e \<notin> D) E)"

lemma pending_insert:
  assumes "i \<notin> D"
  shows "pending E D j = pending E (insert i D) j + count_list (map snd (filter (\<lambda>e. fst e = i) E)) j"
  unfolding pending_def using assms by (induction E) auto

lemma pending_zero: "pending E D j = 0 \<longleftrightarrow> (\<forall>p. (p, j) \<in> set E \<longrightarrow> p \<in> D)"
  by (auto simp: pending_def filter_empty_conv)

lemma release_deps_total:
  assumes "\<And>c. c < length ind \<Longrightarrow> count_list cs c \<le> ind ! c" and "\<And>c. c \<in> set cs \<Longrightarrow> c < length ind"
    and "sorted rdy" "distinct rdy"
  shows "\<exists>ind' rdy'. release_deps cs ind rdy = Some (ind', rdy') \<and> length ind' = length ind \<and>
    (\<forall>c < length ind. ind' ! c = ind ! c - count_list cs c) \<and> sorted rdy' \<and> distinct rdy' \<and>
    set rdy' = set rdy \<union> {c \<in> set cs. ind ! c = count_list cs c}"
  using assms
proof (induction cs arbitrary: ind rdy)
  case (Cons c cs)
  define ind1 where "ind1 = ind[c := ind ! c - 1]"
  define rdy1 where "rdy1 = (if ind1 ! c = 0 then bs_insert c rdy else rdy)"
  have c: "c < length ind" "1 \<le> ind ! c" using Cons.prems(1) [of c] Cons.prems(2) [of c] by auto
  have ind1: "ind1 ! d = (if d = c then ind ! c - 1 else ind ! d)" if "d < length ind" for d
    using that c by (simp add: ind1_def)
  have "\<exists>ind' rdy'. release_deps cs ind1 rdy1 = Some (ind', rdy') \<and> length ind' = length ind1 \<and>
    (\<forall>d < length ind1. ind' ! d = ind1 ! d - count_list cs d) \<and> sorted rdy' \<and> distinct rdy' \<and>
    set rdy' = set rdy1 \<union> {d \<in> set cs. ind1 ! d = count_list cs d}"
  proof (rule Cons.IH)
    show "count_list cs d \<le> ind1 ! d" if "d < length ind1" for d
      using that Cons.prems(1) [of d] ind1 [of d] by (auto simp: ind1_def split: if_splits)
    show "d < length ind1" if "d \<in> set cs" for d using that Cons.prems(2) by (simp add: ind1_def)
    show "sorted rdy1" "distinct rdy1" using Cons.prems(3,4) by (simp_all add: rdy1_def)
  qed
  then obtain ind' rdy' where r: "release_deps cs ind1 rdy1 = Some (ind', rdy')" "length ind' = length ind1"
    "\<forall>d < length ind1. ind' ! d = ind1 ! d - count_list cs d" "sorted rdy'" "distinct rdy'"
    "set rdy' = set rdy1 \<union> {d \<in> set cs. ind1 ! d = count_list cs d}" by blast
  have "release_deps (c # cs) ind rdy = Some (ind', rdy')"
    using c r(1) by (simp add: ind1_def rdy1_def Let_def)
  moreover have "set rdy' = set rdy \<union> {d \<in> set (c # cs). ind ! d = count_list (c # cs) d}"
  proof -
    have e: "ind ! c = Suc (ind1 ! c)" using ind1 [of c] c by simp
    have "count_list cs c \<le> ind1 ! c" using Cons.prems(1) [of c] c(1) e by simp
    then have z: "c \<in> set rdy1 \<or> c \<in> set cs \<and> ind1 ! c = count_list cs c \<longleftrightarrow>
        c \<in> set rdy \<or> ind1 ! c = count_list cs c"
      by (cases "c \<in> set cs") (auto simp: rdy1_def count_list_0_iff)
    have "d \<in> set rdy1 \<or> d \<in> set cs \<and> ind1 ! d = count_list cs d \<longleftrightarrow>
        d \<in> set rdy \<or> d \<in> set (c # cs) \<and> ind ! d = count_list (c # cs) d" for d
    proof (cases "d = c")
      case True
      with z e show ?thesis by simp
    next
      case False
      then have "d \<in> set rdy1 \<longleftrightarrow> d \<in> set rdy" by (auto simp: rdy1_def)
      moreover have "d \<in> set cs \<Longrightarrow> ind1 ! d = ind ! d" using False ind1 [of d] Cons.prems(2) [of d] by simp
      ultimately show ?thesis using False by auto
    qed
    then show ?thesis unfolding r(6) by blast
  qed
  moreover have "length ind' = length ind" using r(2) by (simp add: ind1_def)
  moreover have "\<forall>d < length ind. ind' ! d = ind ! d - count_list (c # cs) d"
    using r(3) ind1 by (simp add: ind1_def)
  ultimately show ?case using r(4,5) by blast
qed auto

text \<open>Along the order every edge into the next node starts at a node already placed.\<close>

fun in_topo :: "(nat \<times> nat) set \<Rightarrow> nat set \<Rightarrow> nat list \<Rightarrow> bool" where
  "in_topo E D [] \<longleftrightarrow> True"
| "in_topo E D (i # order) \<longleftrightarrow> (\<forall>p. (p, i) \<in> E \<longrightarrow> p \<in> D) \<and> in_topo E (insert i D) order"

lemma in_topo_split:
  "in_topo E D (xs @ i # ys) \<Longrightarrow> (p, i) \<in> E \<Longrightarrow> p \<in> D \<union> set xs"
  by (induction xs arbitrary: D) auto

lemma pending_mono: "i \<notin> D \<Longrightarrow> pending E (insert i D) j \<le> pending E D j"
  using pending_insert [of i D E j] by simp

lemma kahn_step:
  assumes E: "\<forall>(p, j) \<in> set E. p < n \<and> j < n" and cs: "cs = map snd (filter (\<lambda>e. fst e = i) E)"
    and ind: "length ind = n" "\<And>j. j < n \<Longrightarrow> ind ! j = pending E D j"
    and rdy: "sorted (i # rdy)" "distinct (i # rdy)" "set (i # rdy) = {j. j < n \<and> j \<notin> D \<and> pending E D j = 0}"
    and D: "\<And>j. j \<in> D \<Longrightarrow> pending E D j = 0"
  obtains ind' rdy' where "release_deps cs ind rdy = Some (ind', rdy')" "length ind' = n"
    "\<forall>j < n. ind' ! j = pending E (insert i D) j" "sorted rdy'" "distinct rdy'"
    "set rdy' = {j. j < n \<and> j \<notin> insert i D \<and> pending E (insert i D) j = 0}"
    "\<forall>j \<in> insert i D. pending E (insert i D) j = 0"
proof -
  have i: "i < n" "i \<notin> D" "pending E D i = 0" using rdy(3) by auto
  have split: "pending E D j = pending E (insert i D) j + count_list cs j" for j
    using pending_insert [OF i(2)] cs by simp
  have "\<exists>ind' rdy'. release_deps cs ind rdy = Some (ind', rdy') \<and> length ind' = length ind \<and>
    (\<forall>c < length ind. ind' ! c = ind ! c - count_list cs c) \<and> sorted rdy' \<and> distinct rdy' \<and>
    set rdy' = set rdy \<union> {c \<in> set cs. ind ! c = count_list cs c}"
  proof (rule release_deps_total)
    show "count_list cs c \<le> ind ! c" if "c < length ind" for c using that split [of c] ind by simp
    show "c < length ind" if "c \<in> set cs" for c using that cs E ind(1) by auto
  qed (use rdy in simp_all)
  then obtain ind' rdy' where r: "release_deps cs ind rdy = Some (ind', rdy')" "length ind' = length ind"
    "\<forall>c < length ind. ind' ! c = ind ! c - count_list cs c" "sorted rdy'" "distinct rdy'"
    "set rdy' = set rdy \<union> {c \<in> set cs. ind ! c = count_list cs c}" by blast
  have zero: "pending E (insert i D) j = 0" if "j \<in> insert i D" for j
    using that D [of j] i(3) pending_mono [OF i(2), of E j] by auto
  have cs_n: "c < n" if "c \<in> set cs" for c using that cs E by auto
  have S: "set rdy' = {j. j < n \<and> j \<notin> insert i D \<and> pending E (insert i D) j = 0}"
  proof (intro set_eqI iffI)
    fix j assume "j \<in> set rdy'"
    then consider (old) "j \<in> set rdy" | (new) "j \<in> set cs" "ind ! j = count_list cs j" using r(6) by auto
    then show "j \<in> {j. j < n \<and> j \<notin> insert i D \<and> pending E (insert i D) j = 0}"
    proof cases
      case old
      then have "j < n" "j \<notin> D" "pending E D j = 0" "j \<noteq> i" using rdy(2,3) by auto
      with split [of j] show ?thesis by simp
    next
      case new
      then have c: "0 < count_list cs j" by (simp add: count_list_0_iff neq0_conv [symmetric])
      then have "pending E D j \<noteq> 0" using split [of j] by simp
      then have "j \<notin> insert i D" using D [of j] i(3) by auto
      with new cs_n split [of j] ind(2) show ?thesis by auto
    qed
  next
    fix j assume "j \<in> {j. j < n \<and> j \<notin> insert i D \<and> pending E (insert i D) j = 0}"
    then have j: "j < n" "j \<noteq> i" "j \<notin> D" "pending E D j = count_list cs j" using split [of j] by auto
    show "j \<in> set rdy'"
    proof (cases "count_list cs j = 0")
      case True
      with j have "j \<in> set (i # rdy)" unfolding rdy(3) by simp
      with j(2) show ?thesis using r(6) by simp
    next
      case False
      then have "j \<in> set cs" by (simp add: count_list_0_iff)
      with j ind(2) show ?thesis using r(6) by simp
    qed
  qed
  have N: "\<forall>j < n. ind' ! j = pending E (insert i D) j"
  proof (intro allI impI)
    fix j assume j: "j < n"
    then have "ind' ! j = ind ! j - count_list cs j" using r(3) ind(1) by blast
    also have "\<dots> = pending E (insert i D) j" using ind(2) [OF j] split [of j] by linarith
    finally show "ind' ! j = pending E (insert i D) j" .
  qed
  have Z: "\<forall>j \<in> insert i D. pending E (insert i D) j = 0" by (intro ballI zero)
  have L: "length ind' = n" using r(2) ind(1) by (rule trans)
  show ?thesis
  proof (rule that)
    show "release_deps cs ind rdy = Some (ind', rdy')" by (fact r(1))
  qed (fact L N r(4) r(5) S Z)+
qed

lemma kahn_correct:
  assumes "\<forall>(p, j) \<in> set E. p < n \<and> j < n"
    and "\<And>q. q < n \<Longrightarrow> dps ! q = map snd (filter (\<lambda>e. fst e = q) E)"
    and "length ind = n" and "\<And>j. j < n \<Longrightarrow> ind ! j = pending E D j"
    and "sorted rdy" "distinct rdy" and "set rdy = {j. j < n \<and> j \<notin> D \<and> pending E D j = 0}"
    and "\<And>j. j \<in> D \<Longrightarrow> pending E D j = 0"
  shows "\<exists>order. kahn dps ind rdy = Some order \<and> distinct order \<and> set order \<inter> D = {} \<and>
    set order \<subseteq> {..<n} \<and> in_topo (set E) D order \<and>
    (\<forall>j < n. j \<notin> D \<union> set order \<longrightarrow> pending E (D \<union> set order) j \<noteq> 0)"
  using assms
proof (induction dps ind rdy arbitrary: D rule: kahn.induct)
  case (1 dps ind)
  then show ?case by auto
next
  case (2 dps ind i rdy)
  have i: "i < n" "i \<notin> D" "pending E D i = 0" using "2.prems"(7) by auto
  obtain ind' rdy' where r: "release_deps (dps ! i) ind rdy = Some (ind', rdy')" "length ind' = n"
    "\<forall>j < n. ind' ! j = pending E (insert i D) j" "sorted rdy'" "distinct rdy'"
    "set rdy' = {j. j < n \<and> j \<notin> insert i D \<and> pending E (insert i D) j = 0}"
    "\<forall>j \<in> insert i D. pending E (insert i D) j = 0"
    by (rule kahn_step [OF "2.prems"(1) "2.prems"(2) [OF i(1)] "2.prems"(3-8)]) blast
  from "2.IH" [OF r(1) refl "2.prems"(1,2) r(2) r(3) [rule_format] r(4-6) r(7) [rule_format]] obtain order where
    o: "kahn dps ind' rdy' = Some order" "distinct order" "set order \<inter> insert i D = {}"
      "set order \<subseteq> {..<n}" "in_topo (set E) (insert i D) order"
      "\<forall>j < n. j \<notin> insert i D \<union> set order \<longrightarrow> pending E (insert i D \<union> set order) j \<noteq> 0" by blast
  have "insert i D \<union> set order = D \<union> set (i # order)" by auto
  with o i r(1) show ?case by (intro exI [of _ "i # order"]) (auto simp: pending_zero)
qed

lemma index_of_Some:
  assumes "index_of nodes d = Some p"
  shows "p < length nodes" and "i_id (nodes ! p) = d"
proof -
  have "(d, p) \<in> set (zip (map i_id nodes) [0..<length nodes])"
    using map_of_SomeD [OF assms [unfolded index_of_def]] by simp
  then show "p < length nodes" and "i_id (nodes ! p) = d" by (auto simp: in_set_zip)
qed

lemma index_of_None: "index_of nodes d = None \<longleftrightarrow> d \<notin> i_id ` set nodes"
  by (simp add: index_of_def map_of_eq_None_iff)
    (metis fst_conv image_iff in_set_conv_nth length_map map_fst_zip list.set_map length_upt minus_nat.diff_0 set_zip_leftD)

lemma index_of_nth:
  assumes "distinct (map i_id nodes)" and "p < length nodes"
  shows "index_of nodes (i_id (nodes ! p)) = Some p"
proof -
  have "distinct (map fst (rev (zip (map i_id nodes) [0..<length nodes])))"
    using assms(1) by (simp add: rev_map [symmetric])
  moreover have "(i_id (nodes ! p), p) \<in> set (rev (zip (map i_id nodes) [0..<length nodes]))"
    using assms(2) by (simp add: in_set_zip) (intro exI [of _ p], simp)
  ultimately show ?thesis by (simp only: index_of_def map_of_is_SomeI)
qed

lemma preds_bound: "p \<in> set (preds g i) \<Longrightarrow> p < length (pg_nodes g)"
  by (auto simp: preds_def set_map_filter_Some dest: index_of_Some)

lemma set_edge_list: "set (edge_list g) = {(p, i). i < length (pg_nodes g) \<and> p \<in> set (preds g i)}"
  by (auto simp: edge_list_def)

lemma edge_bound: "\<forall>(p, i) \<in> set (edge_list g). p < length (pg_nodes g) \<and> i < length (pg_nodes g)"
  using preds_bound by (fastforce simp: set_edge_list)

lemma topo_run:
  obtains order where "distinct order" and "set order \<subseteq> {..<length (pg_nodes g)}"
    and "in_topo (set (edge_list g)) {} order"
    and "\<forall>j < length (pg_nodes g). j \<notin> set order \<longrightarrow> pending (edge_list g) (set order) j \<noteq> 0"
    and "topo g = (if length order \<noteq> length (pg_nodes g) then Inl (Bad (PlanCycle (pg_plan g))) else Inr order)"
proof -
  let ?n = "length (pg_nodes g)" and ?E = "edge_list g"
  obtain ind dps where f: "fold add_edge ?E (replicate ?n 0, replicate ?n []) = (ind, dps)" by fastforce
  have b: "\<forall>(p, i) \<in> set ?E. p < length (replicate ?n ([] :: nat list)) \<and> i < length (replicate ?n (0 :: nat))"
    using edge_bound by simp
  have len: "length ind = ?n" and at: "\<And>j. j < ?n \<Longrightarrow> ind ! j = pending ?E {} j"
    and dp: "\<And>q. q < ?n \<Longrightarrow> dps ! q = map snd (filter (\<lambda>e. fst e = q) ?E)"
    using fold_add_edge [OF b] f by (simp_all add: pending_def)
  let ?rdy = "filter (\<lambda>i. ind ! i = 0) [0..<?n]"
  have rdy: "set ?rdy = {j. j < ?n \<and> j \<notin> {} \<and> pending ?E {} j = 0}" using at by auto
  obtain order where o: "kahn dps ind ?rdy = Some order" "distinct order" "set order \<subseteq> {..<?n}"
    "in_topo (set ?E) {} order" "\<forall>j < ?n. j \<notin> set order \<longrightarrow> pending ?E (set order) j \<noteq> 0"
    using kahn_correct [OF edge_bound dp len at _ _ rdy] by (auto simp: sorted_wrt_filter)
  have "topo g = (if length order \<noteq> ?n then Inl (Bad (PlanCycle (pg_plan g))) else Inr order)"
    using f o(1) by (simp add: topo_def Let_def)
  with o that show ?thesis by blast
qed

lemma in_topo_acyclic:
  assumes "in_topo E {} order" and "distinct order" and "snd ` E \<subseteq> set order"
  shows "acyclic E"
proof -
  define pos where "pos = (\<lambda>x. length (takeWhile (\<lambda>y. y \<noteq> x) order))"
  have "pos p < pos i" if "(p, i) \<in> E" for p i
  proof -
    have "i \<in> set order" using that assms(3) by force
    then obtain xs ys where o: "order = xs @ i # ys" by (meson split_list)
    then have "i \<notin> set xs" using assms(2) by simp
    then have "\<forall>x \<in> set xs. x \<noteq> i" by blast
    then have "takeWhile (\<lambda>y. y \<noteq> i) order = xs" by (simp add: o takeWhile_append2)
    then have "pos i = length xs" by (simp add: pos_def)
    moreover have "p \<in> set xs" using in_topo_split assms(1) that o by fastforce
    then have "pos p < length xs"
    proof -
      obtain as bs where "xs = as @ p # bs" "p \<notin> set as" using split_list_first [OF \<open>p \<in> set xs\<close>] by blast
      then have "\<forall>x \<in> set as. x \<noteq> p" by blast
      then have "takeWhile (\<lambda>y. y \<noteq> p) order = as"
        using \<open>xs = as @ p # bs\<close> by (simp add: o takeWhile_append2)
      with \<open>xs = as @ p # bs\<close> show ?thesis by (simp add: pos_def)
    qed
    ultimately show ?thesis by simp
  qed
  then have "E \<subseteq> inv_image less_than pos" by auto
  then have "wf E" by (meson wf_inv_image wf_less_than wf_subset)
  then show ?thesis by (rule wf_acyclic)
qed

lemma topo_cases:
  obtains (ordered) order where "topo g = Inr order" and "distinct order"
      and "set order = {..<length (pg_nodes g)}" and "in_topo (set (edge_list g)) {} order"
      and "acyclic (set (edge_list g))"
  | (cyclic) "topo g = Inl (Bad (PlanCycle (pg_plan g)))" and "\<not> acyclic (set (edge_list g))"
proof -
  let ?n = "length (pg_nodes g)" and ?E = "set (edge_list g)"
  obtain order where o: "distinct order" "set order \<subseteq> {..<?n}" "in_topo ?E {} order"
    "\<forall>j < ?n. j \<notin> set order \<longrightarrow> pending (edge_list g) (set order) j \<noteq> 0"
    and t: "topo g = (if length order \<noteq> ?n then Inl (Bad (PlanCycle (pg_plan g))) else Inr order)"
    by (rule topo_run)
  show ?thesis
  proof (cases "length order = ?n")
    case True
    then have "card (set order) = card {..<?n}" using distinct_card [OF o(1)] by simp
    then have all: "set order = {..<?n}" using o(2) by (simp add: card_subset_eq)
    have "snd ` ?E \<subseteq> set order" using edge_bound [of g] all by fastforce
    then have "acyclic ?E" using in_topo_acyclic o(1,3) by blast
    with ordered True t o all show ?thesis by simp
  next
    case False
    define R where "R = {j. j < ?n \<and> j \<notin> set order}"
    have "R \<noteq> {}"
    proof
      assume "R = {}"
      then have "set order = {..<?n}" using o(2) by (auto simp: R_def)
      then have "length order = ?n" using distinct_card [OF o(1)] by simp
      with False show False by simp
    qed
    have "\<not> acyclic ?E"
    proof
      assume "acyclic ?E"
      then have "wf ?E" by (simp add: finite_acyclic_wf)
      then obtain j where j: "j \<in> R" "\<And>p. (p, j) \<in> ?E \<Longrightarrow> p \<notin> R"
        using \<open>R \<noteq> {}\<close> by (metis wf_eq_minimal all_not_in_conv)
      then have "pending (edge_list g) (set order) j \<noteq> 0" using o(4) by (simp add: R_def)
      then obtain p where "(p, j) \<in> ?E" "p \<notin> set order" by (auto simp: pending_zero)
      moreover from this have "p < ?n" using edge_bound [of g] by fastforce
      ultimately show False using j(2) by (simp add: R_def)
    qed
    with cyclic False t show ?thesis by simp
  qed
qed

end
