(* ===== verification/PlanCreate.thy ===== *)
theory PlanCreate
  imports PlanCheck PlanGraph DbSteps Queue
begin

text \<open>
  \<open>create\<close> of \<open>src/src/plan.rs\<close> on the store: one issue per node, then the edges. The id draws of
  each node are an input, a list per node. \<open>create_succeeds\<close> shows that a valid plan over
  registered projects always goes through, and what it leaves in the store.
\<close>

datatype create_error =
    PlanProblems "plan_problem list"
  | PlanExists string nat
  | StoreError error

definition node_issue :: "resolved_plan \<Rightarrow> time \<Rightarrow> string \<Rightarrow> node_spec \<Rightarrow> new_issue" where
  "node_issue plan ts actor node =
     \<lparr>n_title = ns_title node, n_description = ns_description node, n_issue_type = ''task'',
      n_priority = (case ns_priority node of None \<Rightarrow> 2 | Some p \<Rightarrow> p), n_labels = ns_labels node,
      n_parent = None, n_id = None, n_project = Some (node_project plan node),
      n_available_at = Some ts, n_created_by = Some actor,
      n_metadata = Some (metadata_for plan node), n_external_ref = None\<rparr>"

type_synonym node_ids = "string \<rightharpoonup> string"

fun create_nodes ::
  "resolved_plan \<Rightarrow> time \<Rightarrow> string \<Rightarrow> node_spec list \<Rightarrow> draw list list \<Rightarrow> node_ids \<times> created_node list \<Rightarrow>
    db \<Rightarrow> ((error + (node_ids \<times> created_node list)) \<times> db) option" where
  "create_nodes plan ts actor [] draws acc s = Some (Inr acc, s)"
| "create_nodes plan ts actor (node # nodes) draws (ids, created) s =
     (case create (node_issue plan ts actor node) (concat (take 1 draws)) ts s of
        None \<Rightarrow> None
      | Some (Inl e, s') \<Rightarrow> Some (Inl e, s')
      | Some (Inr i, s') \<Rightarrow>
          create_nodes plan ts actor nodes (drop 1 draws)
            (ids(ns_key node \<mapsto> i), created @ [created_of plan (\<lambda>_. i) node]) s')"

text \<open>The edges in order; a key without an id would panic.\<close>

fun link_deps ::
  "time \<Rightarrow> string \<Rightarrow> node_ids \<Rightarrow> (string \<times> string) list \<Rightarrow> edge list \<Rightarrow> db \<Rightarrow> (error + edge list) \<times> db" where
  "link_deps ts actor ids [] edges s = (Inr edges, s)"
| "link_deps ts actor ids ((child, parent) # rest) edges s =
     (case (ids child, ids parent) of
        (Some c, Some p) \<Rightarrow>
          (case add_dep c p actor ts s of
             (Inl e, s') \<Rightarrow> (Inl e, s')
           | (Inr _, s') \<Rightarrow> link_deps ts actor ids rest (edges @ [(c, p)]) s')
      | _ \<Rightarrow> (Inl (Panic ''create''), s))"

definition dep_pairs :: "resolved_plan \<Rightarrow> (string \<times> string) list" where
  "dep_pairs plan = concat (map (\<lambda>n. map (\<lambda>d. (ns_key n, d)) (ns_deps n)) (rp_nodes plan))"

definition plan_members :: "resolved_plan \<Rightarrow> db \<Rightarrow> issue list" where
  "plan_members plan s = filter (\<lambda>i. plan_name_of i = Some (rp_plan plan)) (list_issues None True None s)"

definition plan_create ::
  "resolved_plan \<Rightarrow> draw list list \<Rightarrow> time \<Rightarrow> string \<Rightarrow> db \<Rightarrow> ((create_error + create_report) \<times> db) option" where
  "plan_create plan draws ts actor s =
     (case validate plan of
        None \<Rightarrow> None
      | Some (Inl problems) \<Rightarrow> Some (Inl (PlanProblems problems), s)
      | Some (Inr _) \<Rightarrow>
          if plan_members plan s \<noteq> []
          then Some (Inl (PlanExists (rp_plan plan) (length (plan_members plan s))), s)
          else (case create_nodes plan ts actor (rp_nodes plan) draws (Map.empty, []) s of
                  None \<Rightarrow> None
                | Some (Inl e, s') \<Rightarrow> Some (Inl (StoreError e), s')
                | Some (Inr (ids, created), s') \<Rightarrow>
                    (case link_deps ts actor ids (dep_pairs plan) [] s' of
                       (Inl e, s'') \<Rightarrow> Some (Inl (StoreError e), s'')
                     | (Inr edges, s'') \<Rightarrow>
                         Some (Inr \<lparr>rep_plan = rp_plan plan, rep_project = rp_project plan,
                                   rep_nodes = created, rep_edges = edges\<rparr>, s''))))"

section \<open>Creating the nodes\<close>

definition plan_name_free :: "resolved_plan \<Rightarrow> db \<Rightarrow> bool" where
  "plan_name_free plan s \<longleftrightarrow> plan_members plan s = []"

lemma metadata_for_object: "\<exists>m. metadata_for plan node = JObj m"
  by (simp add: metadata_for_def Let_def)

text \<open>On a known project a node's creation only fails to return when the draws run out.\<close>

lemma create_node_result:
  assumes "create (node_issue plan ts actor node) draws ts s = Some (r, s')"
    and "prefix_for s (node_project plan node) = Inr prefix"
  shows "\<exists>i. r = Inr i \<and> find_issue s i = None \<and>
    s' = log_event i ts actor ''created'' (ns_title node)
      (s\<lparr>db_issues := db_issues s @ [new_row (node_issue plan ts actor node) i (node_project plan node)
          (metadata_for plan node) ts ts]\<rparr>)"
proof -
  obtain m where m: "metadata_for plan node = JObj m" using metadata_for_object by blast
  have ins: "insert_issue (node_issue plan ts actor node) (node_project plan node) i ts s =
      Inr (i, log_event i ts actor ''created'' (ns_title node)
      (s\<lparr>db_issues := db_issues s @ [new_row (node_issue plan ts actor node) i (node_project plan node)
          (metadata_for plan node) ts ts]\<rparr>))" for i
    by (simp add: insert_issue_def create_metadata_def node_issue_def m Let_def)
  have n: "n_project (node_issue plan ts actor node) = Some (node_project plan node)"
    "n_parent (node_issue plan ts actor node) = None" "n_id (node_issue plan ts actor node) = None"
    by (simp_all add: node_issue_def)
  obtain i where i: "pick_id prefix s draws = Some i"
    and r: "tx (\<lambda>_. insert_issue (node_issue plan ts actor node) (node_project plan node) i ts s) s = (r, s')"
    using assms by (auto simp: create_def create_body_def n parent_problem_def)
  show ?thesis
    using r pick_id_free [OF i] unfolding ins by (intro exI [of _ i]) (simp add: tx_def)
qed

text \<open>What the loop over the nodes has done to the store.\<close>

definition nodes_made :: "resolved_plan \<Rightarrow> time \<Rightarrow> string \<Rightarrow> node_spec list \<Rightarrow> node_ids \<Rightarrow> db \<Rightarrow> db \<Rightarrow> bool" where
  "nodes_made plan ts actor nodes ids s s' \<longleftrightarrow>
     db_deps s' = db_deps s \<and> db_projects s' = db_projects s \<and>
     (\<forall>j. find_issue s j \<noteq> None \<longrightarrow> find_issue s' j = find_issue s j) \<and>
     (\<forall>n \<in> set nodes. \<exists>i. ids (ns_key n) = Some i \<and> find_issue s i = None \<and>
        find_issue s' i = Some (new_row (node_issue plan ts actor n) i (node_project plan n)
          (metadata_for plan n) ts ts)) \<and>
     (\<forall>j. find_issue s j = None \<longrightarrow> find_issue s' j \<noteq> None \<longrightarrow> (\<exists>n \<in> set nodes. ids (ns_key n) = Some j)) \<and>
     inj_on ids (ns_key ` set nodes)"

lemma find_issue_add:
  "find_issue (s\<lparr>db_issues := db_issues s @ [r]\<rparr>) j =
    (case find_issue s j of Some q \<Rightarrow> Some q | None \<Rightarrow> if ir_id r = j then Some r else None)"
  by (auto simp: find_issue_def find_append split: option.splits)

lemma prefix_for_frame: "db_projects s' = db_projects s \<Longrightarrow> prefix_for s' p = prefix_for s p"
  by (simp add: prefix_for_def find_project_def)

lemma create_nodes_made:
  assumes "create_nodes plan ts actor nodes draws (ids0, cr0) s = Some (r, s')"
    and "\<forall>n \<in> set nodes. \<exists>prefix. prefix_for s (node_project plan n) = Inr prefix"
    and "distinct (map ns_key nodes)"
  shows "\<exists>ids. r = Inr (ids, cr0 @ map (\<lambda>n. created_of plan (\<lambda>k. the (ids k)) n) nodes) \<and>
    (\<forall>k. k \<notin> ns_key ` set nodes \<longrightarrow> ids k = ids0 k) \<and> nodes_made plan ts actor nodes ids s s'"
  using assms
proof (induction nodes arbitrary: draws ids0 cr0 s)
  case Nil
  then show ?case by (auto simp: nodes_made_def)
next
  case (Cons n nodes)
  obtain r1 s1 where c: "create (node_issue plan ts actor n) (concat (take 1 draws)) ts s = Some (r1, s1)"
    using Cons.prems(1) by (auto split: option.splits)
  obtain prefix where "prefix_for s (node_project plan n) = Inr prefix" using Cons.prems(2) by auto
  from create_node_result [OF c this] obtain i where i: "r1 = Inr i" "find_issue s i = None"
    and s1: "s1 = log_event i ts actor ''created'' (ns_title n)
      (s\<lparr>db_issues := db_issues s @ [new_row (node_issue plan ts actor n) i (node_project plan n)
          (metadata_for plan n) ts ts]\<rparr>)" by blast
  let ?row = "new_row (node_issue plan ts actor n) i (node_project plan n) (metadata_for plan n) ts ts"
  have find1: "find_issue s1 j = (case find_issue s j of Some q \<Rightarrow> Some q | None \<Rightarrow> if i = j then Some ?row else None)" for j
    unfolding s1 find_issue_log find_issue_add by (simp add: new_row_def)
  have frame: "db_deps s1 = db_deps s" "db_projects s1 = db_projects s" by (simp_all add: s1)
  have rest: "create_nodes plan ts actor nodes (drop 1 draws)
      (ids0(ns_key n \<mapsto> i), cr0 @ [created_of plan (\<lambda>_. i) n]) s1 = Some (r, s')"
    using Cons.prems(1) c i(1) by simp
  have "\<forall>n \<in> set nodes. \<exists>prefix. prefix_for s1 (node_project plan n) = Inr prefix"
    using Cons.prems(2) prefix_for_frame [OF frame(2)] by simp
  from Cons.IH [OF rest this] Cons.prems(3) obtain ids where
    r: "r = Inr (ids, (cr0 @ [created_of plan (\<lambda>_. i) n]) @ map (\<lambda>n. created_of plan (\<lambda>k. the (ids k)) n) nodes)"
    and k: "\<forall>k. k \<notin> ns_key ` set nodes \<longrightarrow> ids k = (ids0(ns_key n \<mapsto> i)) k"
    and made: "nodes_made plan ts actor nodes ids s1 s'" by auto
  have kn: "ids (ns_key n) = Some i" using k Cons.prems(3) by auto
  have cr: "created_of plan (\<lambda>_. i) n = created_of plan (\<lambda>k. the (ids k)) n" by (simp add: created_of_def kn)
  have others: "\<forall>k. k \<notin> ns_key ` set (n # nodes) \<longrightarrow> ids k = ids0 k" using k by auto
  have new: "find_issue s j = None" if "find_issue s1 j = None" for j using that find1 [of j] by (auto split: option.splits)
  have "nodes_made plan ts actor (n # nodes) ids s s'"
    unfolding nodes_made_def
  proof (intro conjI)
    show "db_deps s' = db_deps s" "db_projects s' = db_projects s" using made frame by (simp_all add: nodes_made_def)
    show "\<forall>j. find_issue s j \<noteq> None \<longrightarrow> find_issue s' j = find_issue s j"
      using made find1 by (auto simp: nodes_made_def split: option.splits)
    have old1: "find_issue s1 i = Some ?row" using find1 [of i] i(2) by simp
    then have "find_issue s' i = Some ?row" using made by (simp add: nodes_made_def)
    then show "\<forall>m \<in> set (n # nodes). \<exists>i. ids (ns_key m) = Some i \<and> find_issue s i = None \<and>
        find_issue s' i = Some (new_row (node_issue plan ts actor m) i (node_project plan m) (metadata_for plan m) ts ts)"
      using made kn i(2) new unfolding nodes_made_def by (metis set_ConsD)
    show "\<forall>j. find_issue s j = None \<longrightarrow> find_issue s' j \<noteq> None \<longrightarrow> (\<exists>m \<in> set (n # nodes). ids (ns_key m) = Some j)"
    proof (intro allI impI)
      fix j assume j: "find_issue s j = None" "find_issue s' j \<noteq> None"
      show "\<exists>m \<in> set (n # nodes). ids (ns_key m) = Some j"
      proof (cases "j = i")
        case True
        then show ?thesis using kn by simp
      next
        case False
        then have "find_issue s1 j = None" using find1 [of j] j(1) by simp
        then show ?thesis using made j(2) unfolding nodes_made_def by auto
      qed
    qed
    have "ids (ns_key m) \<noteq> Some i" if "m \<in> set nodes" for m
      using made that old1 unfolding nodes_made_def by (metis option.distinct(1) option.inject)
    then have "ids (ns_key n) \<notin> ids ` ns_key ` set nodes" unfolding kn by (metis imageE)
    then show "inj_on ids (ns_key ` set (n # nodes))"
      using made by (auto simp: nodes_made_def inj_on_insert)
  qed
  then show ?case using r cr others by (intro exI [of _ ids]) simp
qed

section \<open>Linking them\<close>

lemma add_dep_Inr:
  assumes "c \<noteq> p" and "find_issue s c = Some rc" and "find_issue s p \<noteq> None" and "(p, c) \<notin> (set (db_deps s))\<^sup>*"
  shows "\<exists>s'. add_dep c p actor ts s = (Inr (), s') \<and> set (db_deps s') = insert (c, p) (set (db_deps s)) \<and>
    (\<forall>j. find_issue s' j = (if j = c then Some (rc\<lparr>ir_updated_at := ts\<rparr>) else find_issue s j))"
proof -
  let ?s = "log_event c ts actor ''depends_on'' p (touch_updated c ts (insert_dep c p s))"
  have "add_dep c p actor ts s = (Inr (), ?s)"
    using assms by (simp add: add_dep_def tx_def reachable_def cte_reach_iff)
  moreover from this have "find_issue ?s j = (if j = c then Some (rc\<lparr>ir_updated_at := ts\<rparr>) else find_issue s j)" for j
    using add_dep_find [of c p actor ts s ?s j] assms(2) by simp
  moreover have "set (db_deps ?s) = insert (c, p) (set (db_deps s))"
    by (auto simp: insert_dep_def touch_updated_def)
  ultimately show ?thesis by blast
qed

lemma reach_closed:
  assumes "(x, y) \<in> (E \<union> F)\<^sup>*" and "x \<in> N" and "\<forall>e \<in> E. fst e \<notin> N" and "F \<subseteq> N \<times> N"
  shows "(x, y) \<in> F\<^sup>* \<and> y \<in> N"
  using assms(1)
proof (induction rule: rtrancl_induct)
  case (step y z)
  then have "(y, z) \<in> F" using assms(3) by force
  with step assms(4) show ?case by (auto intro: rtrancl_into_rtrancl)
qed (use assms(2) in simp)

lemma link_deps_ok:
  assumes F: "acyclic F" "F \<subseteq> N \<times> N" and E: "\<forall>e \<in> E. fst e \<notin> N"
    and pairs: "\<forall>(k, d) \<in> set pairs. \<exists>c p. ids k = Some c \<and> ids d = Some p \<and> (c, p) \<in> F"
    and deps: "set (db_deps s) \<subseteq> E \<union> F"
    and rows: "\<forall>i \<in> N. \<exists>r. find_issue s i = Some r \<and> ir_updated_at r = ts"
  shows "\<exists>s'. link_deps ts actor ids pairs edges s =
      (Inr (edges @ map (\<lambda>(k, d). (the (ids k), the (ids d))) pairs), s') \<and>
    set (db_deps s') = set (db_deps s) \<union> (\<lambda>(k, d). (the (ids k), the (ids d))) ` set pairs \<and>
    (\<forall>j. find_issue s' j = find_issue s j)"
  using pairs deps rows
proof (induction pairs arbitrary: s edges)
  case (Cons x pairs)
  obtain k d where x: "x = (k, d)" by (cases x)
  obtain c p where cp: "ids k = Some c" "ids d = Some p" "(c, p) \<in> F" using Cons.prems(1) x by auto
  have N: "c \<in> N" "p \<in> N" using cp(3) F(2) by auto
  obtain rc where rc: "find_issue s c = Some rc" "ir_updated_at rc = ts" using Cons.prems(3) N(1) by blast
  have "find_issue s p \<noteq> None" using Cons.prems(3) N(2) by force
  moreover have "c \<noteq> p" using cp(3) F(1) by (auto simp: acyclic_def)
  moreover have "(p, c) \<notin> (set (db_deps s))\<^sup>*"
  proof
    assume "(p, c) \<in> (set (db_deps s))\<^sup>*"
    then have "(p, c) \<in> (E \<union> F)\<^sup>*" using rtrancl_mono [OF Cons.prems(2)] by blast
    then have "(p, c) \<in> F\<^sup>*" using reach_closed [OF _ N(2) E F(2)] by blast
    then have "(c, c) \<in> F\<^sup>+" using cp(3) by (rule rtrancl_into_trancl2 [rotated])
    then show False using F(1) by (simp add: acyclic_def)
  qed
  ultimately obtain s1 where s1: "add_dep c p actor ts s = (Inr (), s1)"
      "set (db_deps s1) = insert (c, p) (set (db_deps s))"
      "\<forall>j. find_issue s1 j = (if j = c then Some (rc\<lparr>ir_updated_at := ts\<rparr>) else find_issue s j)"
    using add_dep_Inr [OF _ rc(1)] by blast
  have same: "find_issue s1 j = find_issue s j" for j using s1(3) rc by simp
  have "\<forall>(k, d) \<in> set pairs. \<exists>c p. ids k = Some c \<and> ids d = Some p \<and> (c, p) \<in> F" using Cons.prems(1) by simp
  moreover have "set (db_deps s1) \<subseteq> E \<union> F" using s1(2) Cons.prems(2) cp(3) by simp
  moreover have "\<forall>i \<in> N. \<exists>r. find_issue s1 i = Some r \<and> ir_updated_at r = ts" using Cons.prems(3) same by simp
  ultimately obtain s' where s': "link_deps ts actor ids pairs (edges @ [(c, p)]) s1 =
      (Inr ((edges @ [(c, p)]) @ map (\<lambda>(k, d). (the (ids k), the (ids d))) pairs), s')"
    "set (db_deps s') = set (db_deps s1) \<union> (\<lambda>(k, d). (the (ids k), the (ids d))) ` set pairs"
    "\<forall>j. find_issue s' j = find_issue s1 j"
    using Cons.IH by blast
  then show ?case using cp s1 same by (intro exI [of _ s']) (simp add: x)
qed simp

lemma acyclic_image:
  assumes "acyclic E" and "inj_on f A" and "E \<subseteq> A \<times> A"
  shows "acyclic ((\<lambda>(x, y). (f x, f y)) ` E)"
proof -
  define g where "g = inv_into A f"
  have pull: "(g a, g b) \<in> E\<^sup>+" if "(a, b) \<in> ((\<lambda>(x, y). (f x, f y)) ` E)\<^sup>+" for a b
    using that
  proof (induction rule: trancl_induct)
    case (base b)
    then show ?case using assms(2,3) by (auto simp: g_def inv_into_f_f)
  next
    case (step b d)
    have "(g b, g d) \<in> E" using step.hyps(2) assms(2,3) by (auto simp: g_def inv_into_f_f)
    with step.IH show ?case by (rule trancl_into_trancl)
  qed
  show ?thesis unfolding acyclic_def using pull assms(1) by (auto simp: acyclic_def)
qed

lemma set_dep_pairs: "set (dep_pairs plan) = plan_edges plan"
  by (auto simp: dep_pairs_def plan_edges_def)

text \<open>A valid plan over registered projects goes through, whatever else the store holds.\<close>

lemma create_succeeds:
  assumes "deps_ok s" and "plan_ok plan" and "plan_members plan s = []"
    and "\<forall>n \<in> set (rp_nodes plan). \<exists>prefix. prefix_for s (node_project plan n) = Inr prefix"
    and "plan_create plan draws ts actor s = Some (r, s')"
  shows "\<exists>ids. r = Inr \<lparr>rep_plan = rp_plan plan, rep_project = rp_project plan,
        rep_nodes = map (\<lambda>n. created_of plan (\<lambda>k. the (ids k)) n) (rp_nodes plan),
        rep_edges = map (\<lambda>(k, d). (the (ids k), the (ids d))) (dep_pairs plan)\<rparr> \<and>
      (\<exists>s1. nodes_made plan ts actor (rp_nodes plan) ids s s1 \<and> (\<forall>j. find_issue s' j = find_issue s1 j)) \<and>
      set (db_deps s') = set (db_deps s) \<union> (\<lambda>(k, d). (the (ids k), the (ids d))) ` plan_edges plan"
proof -
  let ?keys = "ns_key ` set (rp_nodes plan)"
  have p: "distinct (map ns_key (rp_nodes plan))" "snd ` plan_edges plan \<subseteq> ?keys" "acyclic (plan_edges plan)"
    using assms(2) by (simp_all add: plan_ok_def)
  have "validate plan = Some (Inr ())" using validate_exact [of plan] assms(2) by auto
  then obtain r1 s1 where c: "create_nodes plan ts actor (rp_nodes plan) draws (Map.empty, []) s = Some (r1, s1)"
    using assms(3,5) by (auto simp: plan_create_def split: option.splits)
  from create_nodes_made [OF c assms(4) p(1)] obtain ids where
    r1: "r1 = Inr (ids, map (\<lambda>n. created_of plan (\<lambda>k. the (ids k)) n) (rp_nodes plan))"
    and made: "nodes_made plan ts actor (rp_nodes plan) ids s s1" by auto
  define N where "N = (\<lambda>k. the (ids k)) ` ?keys"
  define F where "F = (\<lambda>(k, d). (the (ids k), the (ids d))) ` plan_edges plan"
  have known: "\<exists>i. ids k = Some i \<and> find_issue s i = None \<and> (\<exists>row. find_issue s1 i = Some row \<and> ir_updated_at row = ts)"
    if "k \<in> ?keys" for k
    using that made unfolding nodes_made_def by (fastforce simp: new_row_def)
  have "fst ` plan_edges plan \<subseteq> ?keys" by (auto simp: plan_edges_def)
  then have sub: "plan_edges plan \<subseteq> ?keys \<times> ?keys" using p(2) by (auto simp: image_subset_iff)
  have inj: "inj_on (\<lambda>k. the (ids k)) ?keys"
    using made known unfolding nodes_made_def inj_on_def by (metis option.sel)
  have "F \<subseteq> N \<times> N" using sub by (auto simp: F_def N_def)
  moreover have "acyclic F" unfolding F_def using p(3) inj sub by (rule acyclic_image)
  moreover have "\<forall>e \<in> set (db_deps s). fst e \<notin> N"
    using assms(1) known by (fastforce simp: deps_ok_def N_def find_issue_None)
  moreover have "\<forall>(k, d) \<in> set (dep_pairs plan). \<exists>c p. ids k = Some c \<and> ids d = Some p \<and> (c, p) \<in> F"
  proof (intro ballI, clarify)
    fix k d assume kd: "(k, d) \<in> set (dep_pairs plan)"
    then have "k \<in> ?keys" "d \<in> ?keys" using sub by (auto simp: set_dep_pairs)
    then obtain c p where "ids k = Some c" "ids d = Some p" using known by blast
    moreover from this have "(c, p) \<in> F" using kd by (force simp: F_def set_dep_pairs)
    ultimately show "\<exists>c p. ids k = Some c \<and> ids d = Some p \<and> (c, p) \<in> F" by blast
  qed
  moreover have "set (db_deps s1) \<subseteq> set (db_deps s) \<union> F" using made by (simp add: nodes_made_def)
  moreover have "\<forall>i \<in> N. \<exists>r. find_issue s1 i = Some r \<and> ir_updated_at r = ts" using known by (force simp: N_def)
  ultimately obtain s2 where s2: "link_deps ts actor ids (dep_pairs plan) [] s1 =
      (Inr ([] @ map (\<lambda>(k, d). (the (ids k), the (ids d))) (dep_pairs plan)), s2)"
    "set (db_deps s2) = set (db_deps s1) \<union> (\<lambda>(k, d). (the (ids k), the (ids d))) ` set (dep_pairs plan)"
    "\<forall>j. find_issue s2 j = find_issue s1 j"
    using link_deps_ok [of F N "set (db_deps s)" "dep_pairs plan" ids s1 ts actor "[]"] by blast
  have "r = Inr \<lparr>rep_plan = rp_plan plan, rep_project = rp_project plan,
        rep_nodes = map (\<lambda>n. created_of plan (\<lambda>k. the (ids k)) n) (rp_nodes plan),
        rep_edges = map (\<lambda>(k, d). (the (ids k), the (ids d))) (dep_pairs plan)\<rparr> \<and> s' = s2"
    using assms(3,5) \<open>validate plan = Some (Inr ())\<close> c r1 s2(1) by (simp add: plan_create_def)
  moreover have "db_deps s1 = db_deps s" using made by (simp add: nodes_made_def)
  ultimately show ?thesis using made s2(2,3) by (intro exI [of _ ids]) (auto simp: set_dep_pairs)
qed

end
