(* ===== verification/PlanGantt.thy ===== *)
theory PlanGantt
  imports PlanGraph
begin

text \<open>
  The schedule of \<open>src/src/plan.rs\<close>: the forward pass for the earliest starts, the backward pass
  for the slack, the critical chain, and the peak number of overlapping nodes. Minutes are
  unbounded integers. \<open>forward_least\<close> and \<open>backward_bounds\<close> say what the passes compute,
  \<open>chain_exact\<close> that the chain is a longest one and \<open>peak_exact\<close> that the sweep over the
  interval ends counts what overlaps.
\<close>

section \<open>The passes\<close>

definition durations :: "plan_graph \<Rightarrow> int list" where
  "durations g = map (\<lambda>i. fst (estimate_of_with_default i (pg_default_estimate g))) (pg_nodes g)"

definition forward_step :: "plan_graph \<Rightarrow> nat \<Rightarrow> int list \<times> int list \<Rightarrow> int list \<times> int list" where
  "forward_step g i st =
     (case st of (start, finish) \<Rightarrow>
        let s = fold (\<lambda>p s. max s (finish ! p)) (preds g i) 0
        in (start[i := s], finish[i := s + durations g ! i]))"

definition forward :: "plan_graph \<Rightarrow> nat list \<Rightarrow> int list \<times> int list" where
  "forward g order =
     (let n = length (pg_nodes g) in fold (forward_step g) order (replicate n 0, replicate n 0))"

definition max_or :: "int \<Rightarrow> int list \<Rightarrow> int" where
  "max_or d xs = (case xs of [] \<Rightarrow> d | x # xs \<Rightarrow> fold max xs x)"

definition backward_step :: "plan_graph \<Rightarrow> nat \<Rightarrow> int list \<Rightarrow> int list" where
  "backward_step g i latest =
     (let latest_start = latest ! i - durations g ! i
      in fold (\<lambda>p latest. latest[p := min (latest ! p) latest_start]) (preds g i) latest)"

definition backward :: "plan_graph \<Rightarrow> nat list \<Rightarrow> int \<Rightarrow> int list" where
  "backward g order makespan =
     fold (backward_step g) (rev order) (replicate (length (pg_nodes g)) makespan)"

section \<open>The critical chain\<close>

text \<open>\<open>Iterator::max_by_key\<close>: the last of the greatest.\<close>

fun max_by_key :: "('a \<Rightarrow> int) \<Rightarrow> 'a list \<Rightarrow> 'a option" where
  "max_by_key f [] = None"
| "max_by_key f (x # xs) =
     (case max_by_key f xs of
        None \<Rightarrow> Some x
      | Some y \<Rightarrow> Some (if f x \<le> f y then y else x))"

text \<open>
  The loop that follows the zero-slack dependency with the latest finish, pushing each node in
  front of the chain. The first argument bounds the number of rounds.
\<close>

fun chase :: "nat \<Rightarrow> plan_graph \<Rightarrow> int list \<Rightarrow> int list \<Rightarrow> nat \<Rightarrow> nat list \<Rightarrow> nat list option" where
  "chase 0 g finish slack cursor chain = None"
| "chase (Suc k) g finish slack cursor chain =
     (case max_by_key ((!) finish) (filter (\<lambda>p. slack ! p = 0) (preds g cursor)) of
        None \<Rightarrow> Some chain
      | Some p \<Rightarrow> chase k g finish slack p (p # chain))"

definition critical_chain :: "plan_graph \<Rightarrow> int list \<Rightarrow> int list \<Rightarrow> nat list option" where
  "critical_chain g finish slack =
     (let n = length (pg_nodes g) in
      case max_by_key ((!) finish) (filter (\<lambda>i. slack ! i = 0) [0..<n]) of
        None \<Rightarrow> Some []
      | Some cursor \<Rightarrow> chase (Suc n) g finish slack cursor [cursor])"

section \<open>Peak concurrency\<close>

definition events :: "nat \<Rightarrow> int list \<Rightarrow> int list \<Rightarrow> (int \<times> int) list" where
  "events n start finish = sort (concat (map (\<lambda>i. [(start ! i, 1), (finish ! i, -1)]) [0..<n]))"

definition sweep_event :: "int \<times> int \<Rightarrow> int \<times> int \<Rightarrow> int \<times> int" where
  "sweep_event e st = (case st of (running, peak) \<Rightarrow> let r = running + snd e in (r, max peak r))"

definition peak_of :: "nat \<Rightarrow> int list \<Rightarrow> int list \<Rightarrow> int" where
  "peak_of n start finish = snd (fold sweep_event (events n start finish) (0, 0))"

section \<open>The chart\<close>

record gantt_node =
  gn_id :: string
  gn_key :: string
  gn_title :: string
  gn_status :: string
  gn_repo :: "string option"
  gn_conflict_group :: "string option"
  gn_estimate :: int
  gn_estimate_source :: string
  gn_start_min :: int
  gn_finish_min :: int
  gn_slack_min :: int
  gn_critical :: bool
  gn_start_at :: time
  gn_finish_at :: time

record gantt =
  gt_plan :: string
  gt_started_at :: time
  gt_nodes :: "gantt_node list"
  gt_critical_path :: "string list"
  gt_critical_path_minutes :: int
  gt_total_minutes :: int
  gt_current_concurrency :: nat
  gt_peak_concurrency :: nat

definition gantt_node_of ::
  "plan_graph \<Rightarrow> time \<Rightarrow> int list \<Rightarrow> int list \<Rightarrow> int list \<Rightarrow> nat \<Rightarrow> gantt_node" where
  "gantt_node_of g now start finish slack i =
     (let issue = pg_nodes g ! i in
      \<lparr>gn_id = i_id issue, gn_key = plan_key issue, gn_title = i_title issue,
       gn_status = i_status issue, gn_repo = meta_str issue META_REPO,
       gn_conflict_group = conflict_group issue, gn_estimate = durations g ! i,
       gn_estimate_source = snd (estimate_of_with_default issue (pg_default_estimate g)),
       gn_start_min = start ! i, gn_finish_min = finish ! i, gn_slack_min = slack ! i,
       gn_critical = (slack ! i = 0), gn_start_at = now + start ! i * 60,
       gn_finish_at = now + finish ! i * 60\<rparr>)"

text \<open>A chain that did not end within its rounds would be a hanging request, here a panic.\<close>

definition gantt_of :: "plan_graph \<Rightarrow> time \<Rightarrow> error + gantt" where
  "gantt_of g now =
     (case topo g of
        Inl e \<Rightarrow> Inl e
      | Inr order \<Rightarrow>
          (let n = length (pg_nodes g);
               (start, finish) = forward g order;
               makespan = max_or 0 finish;
               latest = backward g order makespan;
               slack = map (\<lambda>i. max (latest ! i - finish ! i) 0) [0..<n]
           in case critical_chain g finish slack of
                None \<Rightarrow> Inl (Panic ''gantt'')
              | Some chain \<Rightarrow>
                  (let path = map (\<lambda>i. i_id (pg_nodes g ! i)) chain in
                   Inr \<lparr>gt_plan = pg_plan g, gt_started_at = now,
                     gt_nodes = map (gantt_node_of g now start finish slack) [0..<n],
                     gt_critical_path = path,
                     gt_critical_path_minutes =
                       sum_list (map ((!) (durations g)) (List.map_filter (index_of (pg_nodes g)) path)),
                     gt_total_minutes = makespan,
                     gt_current_concurrency = length (filter (\<lambda>i. is_running i now) (pg_nodes g)),
                     gt_peak_concurrency = nat (peak_of n start finish)\<rparr>)))"

record gantt_scope =
  sc_project :: "string option"
  sc_folder :: "string option"
  sc_plan :: "string option"

record gantt_view =
  gv_gantt :: gantt
  gv_scope :: gantt_scope
  gv_default_estimate_min :: int

definition scope_name :: "gantt_scope \<Rightarrow> string" where
  "scope_name scope =
     (case sc_plan scope of Some p \<Rightarrow> p | None \<Rightarrow>
        (case sc_project scope of Some p \<Rightarrow> p | None \<Rightarrow>
           (case sc_folder scope of Some f \<Rightarrow> f | None \<Rightarrow> ''all'')))"

definition gantt_scoped ::
  "issue list \<Rightarrow> issue list \<Rightarrow> gantt_scope \<Rightarrow> bool \<Rightarrow> int \<Rightarrow> time \<Rightarrow> error + gantt_view" where
  "gantt_scoped all_issues selected scope include_closed default_estimate_min now =
     (let nodes = sort_key plan_order
            (filter (\<lambda>i. include_closed \<or> i_status i \<noteq> ''closed'')
              (filter (\<lambda>i. i_issue_type i \<noteq> ''goal'') selected))
      in case scoped (scope_name scope) nodes (statuses all_issues) default_estimate_min of
           Inl e \<Rightarrow> Inl e
         | Inr g \<Rightarrow> (case gantt_of g now of
             Inl e \<Rightarrow> Inl e
           | Inr gt \<Rightarrow> Inr \<lparr>gv_gantt = gt, gv_scope = scope,
               gv_default_estimate_min = max default_estimate_min 1\<rparr>))"

section \<open>The forward pass\<close>

text \<open>
  A schedule is valid when no node starts before minute 0 or before a node it waits for has
  finished.
\<close>

definition valid_schedule :: "plan_graph \<Rightarrow> (nat \<Rightarrow> int) \<Rightarrow> bool" where
  "valid_schedule g S \<longleftrightarrow> (\<forall>i < length (pg_nodes g).
     0 \<le> S i \<and> (\<forall>p \<in> set (preds g i). S p + durations g ! p \<le> S i))"

definition latest_pred :: "int list \<Rightarrow> nat list \<Rightarrow> int" where
  "latest_pred finish ps = fold (\<lambda>p s. max s (finish ! p)) ps 0"

lemma fold_max_le: "(fold (\<lambda>p s. max s (f p)) ps b \<le> (c::int)) \<longleftrightarrow> b \<le> c \<and> (\<forall>p \<in> set ps. f p \<le> c)"
  by (induction ps arbitrary: b) auto

lemma fold_max_in: "fold (\<lambda>p s. max s (f p)) ps (b::int) = b \<or> (\<exists>p \<in> set ps. fold (\<lambda>p s. max s (f p)) ps b = f p)"
proof (induction ps arbitrary: b)
  case (Cons q ps)
  show ?case using Cons [of "max b (f q)"] by (auto simp: max_def split: if_splits)
qed simp

lemma latest_pred_le: "latest_pred finish ps \<le> c \<longleftrightarrow> 0 \<le> c \<and> (\<forall>p \<in> set ps. finish ! p \<le> c)"
  by (simp add: latest_pred_def fold_max_le)

lemma latest_pred_in: "latest_pred finish ps = 0 \<or> (\<exists>p \<in> set ps. latest_pred finish ps = finish ! p)"
  unfolding latest_pred_def by (rule fold_max_in)

lemma latest_pred_cong:
  "(\<And>p. p \<in> set ps \<Longrightarrow> f ! p = f' ! p) \<Longrightarrow> latest_pred f ps = latest_pred f' ps"
  unfolding latest_pred_def by (rule fold_cong) simp_all

lemma length_durations [simp]: "length (durations g) = length (pg_nodes g)"
  by (simp add: durations_def)

lemma durations_pos: "i < length (pg_nodes g) \<Longrightarrow> 0 < durations g ! i"
  by (simp add: durations_def estimate_pos)

lemma forward_fold:
  assumes "in_topo (set (edge_list g)) D xs" and "distinct xs" and "set xs \<inter> D = {}"
    and "set xs \<subseteq> {..<length (pg_nodes g)}" and "length st = length (pg_nodes g)" "length fi = length (pg_nodes g)"
    and "\<forall>i \<in> D. set (preds g i) \<subseteq> D \<and> st ! i = latest_pred fi (preds g i) \<and> fi ! i = st ! i + durations g ! i"
    and "fold (forward_step g) xs (st, fi) = (st', fi')"
  shows "length st' = length (pg_nodes g) \<and> length fi' = length (pg_nodes g) \<and>
    (\<forall>i \<in> D \<union> set xs. st' ! i = latest_pred fi' (preds g i) \<and> fi' ! i = st' ! i + durations g ! i)"
  using assms
proof (induction xs arbitrary: D st fi)
  case (Cons i xs)
  let ?s = "latest_pred fi (preds g i)"
  let ?st = "st[i := ?s]" and ?fi = "fi[i := ?s + durations g ! i]"
  have i: "i < length (pg_nodes g)" "i \<notin> D" using Cons.prems(3,4) by auto
  have p: "set (preds g i) \<subseteq> D" using Cons.prems(1) i by (auto simp: set_edge_list)
  have same: "?fi ! q = fi ! q" "?st ! q = st ! q" if "q \<in> D" for q
    by (cases "q = i", use that i(2) in simp_all)+
  have "set (preds g j) \<subseteq> insert i D \<and> ?st ! j = latest_pred ?fi (preds g j) \<and> ?fi ! j = ?st ! j + durations g ! j"
    if "j \<in> insert i D" for j
  proof (cases "j = i")
    case True
    then show ?thesis
      using p i same Cons.prems(5,6) latest_pred_cong [of "preds g i" ?fi fi] by (auto simp: subset_iff)
  next
    case False
    then have j: "j \<in> D" using that by simp
    then have pj: "set (preds g j) \<subseteq> D" using Cons.prems(7) by blast
    then have "latest_pred ?fi (preds g j) = latest_pred fi (preds g j)"
      by (intro latest_pred_cong same(1)) blast
    then show ?thesis using j pj same [OF j] Cons.prems(7) by auto
  qed
  moreover have "fold (forward_step g) xs (?st, ?fi) = (st', fi')"
  proof -
    have "forward_step g i (st, fi) = (?st, ?fi)" by (simp add: forward_step_def latest_pred_def Let_def)
    then show ?thesis using Cons.prems(8) by simp
  qed
  moreover have "in_topo (set (edge_list g)) (insert i D) xs" "distinct xs" "set xs \<inter> insert i D = {}"
    "set xs \<subseteq> {..<length (pg_nodes g)}" using Cons.prems(1-4) by auto
  ultimately have "length st' = length (pg_nodes g) \<and> length fi' = length (pg_nodes g) \<and>
    (\<forall>j \<in> insert i D \<union> set xs. st' ! j = latest_pred fi' (preds g j) \<and> fi' ! j = st' ! j + durations g ! j)"
    using Cons.prems(5,6) by (intro Cons.IH) auto
  then show ?case by simp
qed auto

lemma wf_edges: "acyclic (set (edge_list g)) \<Longrightarrow> wf (set (edge_list g))"
  by (simp add: finite_acyclic_wf)

lemma forward_exact:
  assumes "in_topo (set (edge_list g)) {} order" and "distinct order"
    and "set order = {..<length (pg_nodes g)}" and "forward g order = (start, finish)"
  shows "length start = length (pg_nodes g)" and "length finish = length (pg_nodes g)"
    and "i < length (pg_nodes g) \<Longrightarrow> start ! i = latest_pred finish (preds g i)"
    and "i < length (pg_nodes g) \<Longrightarrow> finish ! i = start ! i + durations g ! i"
  using forward_fold [of g "{}" order "replicate (length (pg_nodes g)) 0" "replicate (length (pg_nodes g)) 0" start finish]
    assms by (simp_all add: forward_def Let_def)

lemma forward_valid:
  assumes "in_topo (set (edge_list g)) {} order" and "distinct order"
    and "set order = {..<length (pg_nodes g)}" and "forward g order = (start, finish)"
  shows "valid_schedule g ((!) start)"
  unfolding valid_schedule_def
proof (intro allI impI conjI ballI)
  fix i assume i: "i < length (pg_nodes g)"
  note s = forward_exact(3) [OF assms i]
  have le: "0 \<le> start ! i \<and> (\<forall>p \<in> set (preds g i). finish ! p \<le> start ! i)"
    using latest_pred_le [of finish "preds g i" "start ! i"] s by simp
  then show "0 \<le> start ! i" by simp
  show "start ! p + durations g ! p \<le> start ! i" if "p \<in> set (preds g i)" for p
    using le that forward_exact(4) [OF assms preds_bound [OF that]] by auto
qed

lemma forward_least:
  assumes "in_topo (set (edge_list g)) {} order" and "distinct order"
    and "set order = {..<length (pg_nodes g)}" and "forward g order = (start, finish)"
    and "acyclic (set (edge_list g))" and "valid_schedule g S" and "i < length (pg_nodes g)"
  shows "start ! i \<le> S i"
  using assms(7)
proof (induction i rule: wf_induct_rule [OF wf_edges [OF assms(5)]])
  case (1 i)
  note f = forward_exact [OF assms(1-4)]
  have "finish ! p \<le> S i" if p: "p \<in> set (preds g i)" for p
  proof -
    have "(p, i) \<in> set (edge_list g)" using 1 p by (simp add: set_edge_list)
    then have "start ! p \<le> S p" by (rule "1.IH") (rule preds_bound [OF p])
    moreover have "S p + durations g ! p \<le> S i" using assms(6) 1 p by (simp add: valid_schedule_def)
    ultimately show ?thesis using f(4) [OF preds_bound [OF p]] by simp
  qed
  moreover have "0 \<le> S i" using assms(6) 1 by (simp add: valid_schedule_def)
  ultimately show ?case using latest_pred_le f(3) [OF "1.prems"] by simp
qed

section \<open>The backward pass\<close>

lemma fold_min:
  assumes "set ps \<subseteq> {..<length lf}"
  shows "length (fold (\<lambda>p lf. lf[p := min (lf ! p) (b::int)]) ps lf) = length lf"
    and "j < length lf \<Longrightarrow> fold (\<lambda>p lf. lf[p := min (lf ! p) b]) ps lf ! j =
           (if j \<in> set ps then min (lf ! j) b else lf ! j)"
  using assms by (induction ps arbitrary: lf) (auto simp: nth_list_update)

lemma backward_step:
  assumes "length lf = length (pg_nodes g)"
  shows "length (backward_step g i lf) = length (pg_nodes g)"
    and "j < length (pg_nodes g) \<Longrightarrow> backward_step g i lf ! j =
      (if j \<in> set (preds g i) then min (lf ! j) (lf ! i - durations g ! i) else lf ! j)"
  using fold_min [of "preds g i" lf] assms preds_bound [of _ g i]
  by (simp_all add: backward_step_def Let_def subset_iff)

lemma backward_foldr:
  assumes "in_topo (set (edge_list g)) D xs" and "distinct xs" and "set xs \<inter> D = {}"
    and "set xs \<subseteq> {..<length (pg_nodes g)}" and "length lf0 = length (pg_nodes g)"
    and "lf = foldr (backward_step g) xs lf0"
  shows "length lf = length (pg_nodes g) \<and> (\<forall>j < length (pg_nodes g). lf ! j \<le> lf0 ! j) \<and>
    (\<forall>k \<in> set xs. \<forall>p \<in> set (preds g k). lf ! p \<le> lf ! k - durations g ! k)"
  using assms
proof (induction xs arbitrary: D lf)
  case (Cons i xs)
  define L where "L = foldr (backward_step g) xs lf0"
  have "in_topo (set (edge_list g)) (insert i D) xs" "distinct xs" "set xs \<inter> insert i D = {}"
    "set xs \<subseteq> {..<length (pg_nodes g)}" using Cons.prems(1-4) by auto
  then have L: "length L = length (pg_nodes g)" "\<forall>j < length (pg_nodes g). L ! j \<le> lf0 ! j"
    "\<forall>k \<in> set xs. \<forall>p \<in> set (preds g k). L ! p \<le> L ! k - durations g ! k"
    using Cons.IH [OF _ _ _ _ Cons.prems(5) L_def] by blast+
  note st = backward_step [OF L(1), where i = i]
  have lf: "lf = backward_step g i L" using Cons.prems(6) by (simp add: L_def)
  have i: "i < length (pg_nodes g)" using Cons.prems(4) by simp
  have pD: "set (preds g i) \<subseteq> D" using Cons.prems(1) i by (auto simp: set_edge_list)
  have below: "lf ! j \<le> L ! j" if "j < length (pg_nodes g)" for j using st(2) [OF that] lf by simp
  have keep: "lf ! k = L ! k" if "k \<in> set (i # xs)" for k
    using that pD Cons.prems(3,4) st(2) [of k] lf by (auto simp: subset_iff)
  have "lf ! p \<le> lf ! k - durations g ! k" if k: "k \<in> set (i # xs)" and p: "p \<in> set (preds g k)" for k p
  proof (cases "k = i")
    case True
    then show ?thesis using st(2) [OF preds_bound [OF p]] p keep [OF k] lf by simp
  next
    case False
    then have "L ! p \<le> L ! k - durations g ! k" using L(3) k p by simp
    then show ?thesis using below [OF preds_bound [OF p]] keep [OF k] by simp
  qed
  moreover have "\<forall>j < length (pg_nodes g). lf ! j \<le> lf0 ! j" using below L(2) by (meson order_trans)
  ultimately show ?case using st(1) lf by blast
qed simp

lemma backward_above:
  assumes "\<forall>j < length (pg_nodes g). v j \<le> lf ! j" and "length lf = length (pg_nodes g)"
    and "set xs \<subseteq> {..<length (pg_nodes g)}"
    and "\<forall>i < length (pg_nodes g). \<forall>p \<in> set (preds g i). v p \<le> v i - durations g ! i"
  shows "length (fold (backward_step g) xs lf) = length (pg_nodes g) \<and>
    (\<forall>j < length (pg_nodes g). v j \<le> fold (backward_step g) xs lf ! j)"
  using assms
proof (induction xs arbitrary: lf)
  case (Cons i xs)
  note st = backward_step [OF Cons.prems(2), where i = i]
  have i: "i < length (pg_nodes g)" using Cons.prems(3) by simp
  have "v j \<le> backward_step g i lf ! j" if j: "j < length (pg_nodes g)" for j
  proof (cases "j \<in> set (preds g i)")
    case True
    then have "v j \<le> v i - durations g ! i" using Cons.prems(4) i by blast
    also have "\<dots> \<le> lf ! i - durations g ! i" using Cons.prems(1) i by simp
    finally show ?thesis using st(2) [OF j] Cons.prems(1) j True by simp
  qed (use st(2) [OF j] Cons.prems(1) j in simp)
  then show ?case using Cons.IH [OF _ st(1)] Cons.prems(3,4) by simp
qed simp

lemma backward_bounds:
  assumes "in_topo (set (edge_list g)) {} order" and "distinct order"
    and "set order = {..<length (pg_nodes g)}" and "lf = backward g order b"
  shows "length lf = length (pg_nodes g)"
    and "j < length (pg_nodes g) \<Longrightarrow> lf ! j \<le> b"
    and "k < length (pg_nodes g) \<Longrightarrow> p \<in> set (preds g k) \<Longrightarrow> lf ! p \<le> lf ! k - durations g ! k"
proof -
  have "lf = foldr (backward_step g) order (replicate (length (pg_nodes g)) b)"
    using assms(4) by (simp add: backward_def foldr_conv_fold)
  then have "length lf = length (pg_nodes g) \<and> (\<forall>j < length (pg_nodes g). lf ! j \<le> replicate (length (pg_nodes g)) b ! j) \<and>
    (\<forall>k \<in> set order. \<forall>p \<in> set (preds g k). lf ! p \<le> lf ! k - durations g ! k)"
    using assms by (intro backward_foldr [of g "{}"]) simp_all
  then show "length lf = length (pg_nodes g)"
    and "j < length (pg_nodes g) \<Longrightarrow> lf ! j \<le> b"
    and "k < length (pg_nodes g) \<Longrightarrow> p \<in> set (preds g k) \<Longrightarrow> lf ! p \<le> lf ! k - durations g ! k"
    using assms(3) by auto
qed

lemma backward_greatest:
  assumes "set order = {..<length (pg_nodes g)}" and "valid_schedule g S"
    and "\<forall>j < length (pg_nodes g). S j + durations g ! j \<le> b" and "j < length (pg_nodes g)"
  shows "S j + durations g ! j \<le> backward g order b ! j"
proof -
  have "\<forall>i < length (pg_nodes g). \<forall>p \<in> set (preds g i).
      S p + durations g ! p \<le> (S i + durations g ! i) - durations g ! i"
    using assms(2) by (simp add: valid_schedule_def)
  then show ?thesis
    using backward_above [of g "\<lambda>j. S j + durations g ! j" "replicate (length (pg_nodes g)) b" "rev order"] assms
    by (simp add: backward_def)
qed

section \<open>The chain is a longest one\<close>

lemma max_by_key_None [simp]: "max_by_key f xs = None \<longleftrightarrow> xs = []"
  by (cases xs) (auto split: option.splits)

lemma max_by_key_Some: "max_by_key f xs = Some y \<Longrightarrow> y \<in> set xs \<and> (\<forall>x \<in> set xs. f x \<le> f y)"
proof (induction xs arbitrary: y)
  case (Cons x xs)
  show ?case
  proof (cases "max_by_key f xs")
    case None
    then show ?thesis using Cons.prems by simp
  next
    case (Some z)
    then show ?thesis using Cons.IH [OF Some] Cons.prems by (fastforce split: if_splits)
  qed
qed simp

text \<open>A dependency chain: every node waits for the one before it.\<close>

definition dep_chain :: "plan_graph \<Rightarrow> nat list \<Rightarrow> bool" where
  "dep_chain g xs \<longleftrightarrow> set xs \<subseteq> {..<length (pg_nodes g)} \<and> successively (\<lambda>p i. p \<in> set (preds g i)) xs"

definition chain_minutes :: "plan_graph \<Rightarrow> nat list \<Rightarrow> int" where
  "chain_minutes g xs = sum_list (map ((!) (durations g)) xs)"

lemma dep_chain_bound:
  assumes "valid_schedule g S" and "dep_chain g (xs @ [i])"
  shows "chain_minutes g xs \<le> S i"
  using assms(2)
proof (induction xs arbitrary: i rule: rev_induct)
  case Nil
  then show ?case using assms(1) by (simp add: dep_chain_def chain_minutes_def valid_schedule_def)
next
  case (snoc p xs)
  have c: "dep_chain g (xs @ [p])" and p: "p \<in> set (preds g i)" and i: "i < length (pg_nodes g)"
    using snoc.prems by (auto simp: dep_chain_def successively_append_iff)
  have "chain_minutes g xs \<le> S p" using c by (rule snoc.IH)
  moreover have "S p + durations g ! p \<le> S i" using assms(1) i p by (simp add: valid_schedule_def)
  ultimately show ?case by (simp add: chain_minutes_def)
qed

lemma chase_exact:
  assumes A: "\<forall>i < length (pg_nodes g). slack ! i = 0 \<and> 0 < start ! i \<longrightarrow>
      (\<exists>p \<in> set (preds g i). slack ! p = 0 \<and> finish ! p = start ! i)"
    and B: "\<forall>i < length (pg_nodes g). \<forall>p \<in> set (preds g i). finish ! p \<le> start ! i"
    and F: "\<forall>i < length (pg_nodes g). 0 \<le> start ! i \<and> finish ! i = start ! i + durations g ! i"
    and "cursor < length (pg_nodes g)" and "slack ! cursor = 0"
    and "length (pg_nodes g) + 2 \<le> k + length xs" and "distinct xs" and "set xs \<subseteq> {..<length (pg_nodes g)}"
    and "\<forall>x \<in> set xs. start ! cursor \<le> start ! x"
  shows "\<exists>ys. chase k g finish slack cursor xs = Some (ys @ xs) \<and> chain_minutes g ys = start ! cursor \<and>
    dep_chain g (ys @ [cursor]) \<and> (\<forall>y \<in> set ys. slack ! y = 0)"
  using assms(4-)
proof (induction k arbitrary: cursor xs)
  case 0
  have "length xs \<le> length (pg_nodes g)"
    using card_mono [of "{..<length (pg_nodes g)}" "set xs"] distinct_card [OF "0.prems"(4)] "0.prems"(5) by simp
  then show ?case using "0.prems"(3) by simp
next
  case (Suc k)
  let ?zero = "filter (\<lambda>p. slack ! p = 0) (preds g cursor)"
  note c = Suc.prems(1)
  show ?case
  proof (cases "max_by_key ((!) finish) ?zero")
    case None
    then have "start ! cursor = 0" using A F c Suc.prems(2) by (fastforce simp: filter_empty_conv)
    then show ?thesis using None c by (simp add: dep_chain_def chain_minutes_def)
  next
    case (Some p)
    note m = max_by_key_Some [OF Some]
    have p: "p \<in> set (preds g cursor)" "slack ! p = 0" "p < length (pg_nodes g)"
      using m preds_bound by auto
    have dur: "0 < durations g ! p" using p(3) by (rule durations_pos)
    have fp: "0 \<le> start ! p" "finish ! p = start ! p + durations g ! p" "finish ! p \<le> start ! cursor"
      using F B p c by blast+
    then have "0 < start ! cursor" using dur by linarith
    then obtain q where "q \<in> set (preds g cursor)" "slack ! q = 0" "finish ! q = start ! cursor"
      using A c Suc.prems(2) by blast
    then have "start ! cursor \<le> finish ! p" using m by fastforce
    then have eq: "finish ! p = start ! cursor" using fp by simp
    have lt: "start ! p < start ! cursor" using eq fp dur by linarith
    then have new: "p \<notin> set xs" "\<forall>x \<in> set (p # xs). start ! p \<le> start ! x" using Suc.prems(6) by fastforce+
    obtain ys where ys: "chase k g finish slack p (p # xs) = Some (ys @ p # xs)"
      "chain_minutes g ys = start ! p" "dep_chain g (ys @ [p])" "\<forall>y \<in> set ys. slack ! y = 0"
      using Suc.IH [OF p(3,2) _ _ _ new(2)] Suc.prems(3-5) p(3) new(1) by auto
    have "chase (Suc k) g finish slack cursor xs = Some ((ys @ [p]) @ xs)" using Some ys(1) by simp
    moreover have "chain_minutes g (ys @ [p]) = start ! cursor"
      using ys(2) eq fp by (simp add: chain_minutes_def)
    moreover have "dep_chain g ((ys @ [p]) @ [cursor])"
      using ys(3) p c by (simp add: dep_chain_def successively_append_iff)
    ultimately show ?thesis using ys(4) p(2) by (intro exI [of _ "ys @ [p]"]) simp
  qed
qed

section \<open>The peak is what overlaps\<close>

definition overlap :: "nat \<Rightarrow> int list \<Rightarrow> int list \<Rightarrow> int \<Rightarrow> nat" where
  "overlap n start finish t = length (filter (\<lambda>i. start ! i \<le> t \<and> t < finish ! i) [0..<n])"

definition run :: "(int \<times> int) list \<Rightarrow> int" where
  "run es = sum_list (map snd es)"

lemma sweep_pair: "sweep_event e (r, p) = (r + snd e, max p (r + snd e))"
  by (simp add: sweep_event_def Let_def)

lemma run_append: "run (xs @ ys) = run xs + run ys"
  by (simp add: run_def)

lemma sweep_run:
  defines "v r p es \<equiv> snd (fold sweep_event es (r, p))"
  shows "p \<le> v r p es" and "r + run ys \<le> max r (v r p (ys @ zs))"
    and "v r p es = p \<or> (\<exists>ys zs. es = ys @ zs \<and> v r p es = r + run ys)"
proof -
  have le: "p \<le> snd (fold sweep_event es (r, p))" for r p es
  proof (induction es arbitrary: r p)
    case (Cons e es)
    show ?case using Cons [of "max p (r + snd e)" "r + snd e"] by (simp add: sweep_pair)
  qed simp
  then show "p \<le> v r p es" by (simp add: v_def)
  have "r + run ys \<le> max r (snd (fold sweep_event (ys @ zs) (r, p)))"
  proof (induction ys arbitrary: r p)
    case (Cons e ys)
    have "r + snd e \<le> snd (fold sweep_event (ys @ zs) (r + snd e, max p (r + snd e)))"
      using le [of "max p (r + snd e)" "ys @ zs" "r + snd e"] by simp
    moreover have "r + snd e + run ys \<le> max (r + snd e) (snd (fold sweep_event (ys @ zs) (r + snd e, max p (r + snd e))))"
      by (rule Cons)
    ultimately show ?case by (simp add: sweep_pair run_def add.assoc max_def split: if_splits)
  qed (simp add: run_def)
  then show "r + run ys \<le> max r (v r p (ys @ zs))" by (simp add: v_def)
  show "v r p es = p \<or> (\<exists>ys zs. es = ys @ zs \<and> v r p es = r + run ys)" unfolding v_def
  proof (induction es arbitrary: r p)
    case (Cons e es)
    let ?w = "snd (fold sweep_event es (r + snd e, max p (r + snd e)))"
    consider "?w = max p (r + snd e)" | ys zs where "es = ys @ zs" "?w = r + snd e + run ys"
      using Cons [of "r + snd e" "max p (r + snd e)"] by blast
    then show ?case
    proof cases
      case 1
      then have "?w = p \<or> (e # es = [e] @ es \<and> ?w = r + run [e])" by (simp add: run_def max_def)
      then show ?thesis unfolding fold_simps sweep_pair by blast
    next
      case 2
      then have "e # es = (e # ys) @ zs \<and> ?w = r + run (e # ys)" by (simp add: run_def)
      then show ?thesis unfolding fold_simps sweep_pair by blast
    qed
  qed simp
qed

lemma run_perm: "mset xs = mset ys \<Longrightarrow> run xs = run ys"
  by (simp add: run_def sum_mset_sum_list [symmetric])

lemma run_filter_events:
  assumes "\<forall>i < n. start ! i < finish ! i"
  shows "run (filter (\<lambda>e. fst e \<le> t) (events n start finish)) = int (overlap n start finish t)"
proof -
  let ?es = "concat (map (\<lambda>i. [(start ! i, 1), (finish ! i, -1)]) [0..<n])"
  have "mset (filter (\<lambda>e. fst e \<le> t) (sort ?es)) = mset (filter (\<lambda>e. fst e \<le> t) ?es)"
    by (simp add: mset_filter)
  then have "run (filter (\<lambda>e. fst e \<le> t) (events n start finish)) = run (filter (\<lambda>e. fst e \<le> t) ?es)"
    unfolding events_def by (rule run_perm)
  also have "\<dots> = int (overlap n start finish t)"
    using assms
  proof (induction n)
    case (Suc n)
    have lt: "start ! n < finish ! n" using Suc.prems by simp
    have "run (filter (\<lambda>e. fst e \<le> t) [(start ! n, 1), (finish ! n, -1)]) =
        (if start ! n \<le> t \<and> t < finish ! n then 1 else 0)" using lt by (simp add: run_def)
    moreover have "run (filter (\<lambda>e. fst e \<le> t) (concat (map (\<lambda>i. [(start ! i, 1), (finish ! i, -1)]) [0..<n]))) =
        int (overlap n start finish t)" using Suc by simp
    ultimately show ?case
      by (simp only: upt_Suc_append [OF le0] map_append concat_append list.map concat.simps filter_append
          run_append append_Nil2 overlap_def) simp
  qed (simp add: run_def overlap_def)
  finally show ?thesis .
qed

lemma sorted_takeWhile_filter:
  "sorted es \<Longrightarrow> takeWhile (\<lambda>e. fst e \<le> t) es = filter (\<lambda>e. fst e \<le> t) (es :: (int \<times> int) list)"
proof (induction es)
  case (Cons e es)
  have "filter (\<lambda>e. fst e \<le> t) es = []" if "t < fst e"
    using Cons.prems that by (auto simp: filter_empty_conv less_eq_prod_def)
  with Cons show ?case by auto
qed simp

lemma fst_le: "x \<le> y \<Longrightarrow> fst x \<le> fst (y :: int \<times> int)"
  by (auto simp: less_eq_prod_def)

lemma prefix_run_bound:
  assumes "\<forall>i < n. start ! i < finish ! i" and "events n start finish = ys @ zs"
  shows "run ys \<le> 0 \<or> (\<exists>t. run ys \<le> int (overlap n start finish t))"
  using assms(2)
proof (induction ys arbitrary: zs rule: rev_induct)
  case (snoc e ys)
  have e: "e \<in> set (events n start finish)" using snoc.prems by simp
  then have d: "snd e = 1 \<or> snd e = -1" by (auto simp: events_def)
  show ?case
  proof (cases "snd e = 1")
    case True
    have "sorted (events n start finish)" by (simp add: events_def)
    then have so: "sorted (ys @ [e] @ zs)" using snoc.prems by simp
    have after: "x \<le> e" if "x \<in> set ys" for x using so that by (simp add: sorted_append)
    have before: "e \<le> x" if "x \<in> set zs" for x using so that by (simp add: sorted_append)
    have "\<forall>x \<in> set (ys @ [e]). fst x \<le> fst e" using fst_le [OF after] by auto
    then have 1: "filter (\<lambda>x. fst x \<le> fst e) (ys @ [e]) = ys @ [e]" by (simp only: filter_id_conv)
    have "\<forall>x \<in> set (filter (\<lambda>x. fst x \<le> fst e) zs). 0 \<le> snd x"
    proof
      fix x assume x: "x \<in> set (filter (\<lambda>x. fst x \<le> fst e) zs)"
      then have "e \<le> x" "fst x \<le> fst e" using before by auto
      then show "0 \<le> snd x" using True by (auto simp: less_eq_prod_def)
    qed
    then have "0 \<le> run (filter (\<lambda>x. fst x \<le> fst e) zs)" unfolding run_def by (intro sum_list_nonneg) auto
    then have "run (ys @ [e]) \<le> run (filter (\<lambda>x. fst x \<le> fst e) (events n start finish))"
      unfolding snoc.prems filter_append [of _ "ys @ [e]"] 1 by (simp add: run_def)
    then show ?thesis using run_filter_events [OF assms(1)] by metis
  next
    case False
    then have "run (ys @ [e]) \<le> run ys" using d by (simp add: run_def)
    moreover have "run ys \<le> 0 \<or> (\<exists>t. run ys \<le> int (overlap n start finish t))"
      using snoc.IH [of "e # zs"] snoc.prems by simp
    ultimately show ?thesis by (meson order_trans)
  qed
qed (simp add: run_def)

lemma peak_exact:
  assumes "\<forall>i < n. start ! i < finish ! i"
  shows "int (overlap n start finish t) \<le> peak_of n start finish"
    and "\<exists>t. int (overlap n start finish t) = peak_of n start finish"
proof -
  let ?P = "peak_of n start finish" and ?es = "events n start finish"
  have le: "int (overlap n start finish t) \<le> ?P" for t
  proof -
    have so: "sorted ?es" by (simp add: events_def)
    have "run (takeWhile (\<lambda>e. fst e \<le> t) ?es) \<le> max 0 ?P"
      using sweep_run(2) [where r = 0 and p = 0 and ys = "takeWhile (\<lambda>e. fst e \<le> t) ?es" and
          zs = "dropWhile (\<lambda>e. fst e \<le> t) ?es"]
      by (simp add: peak_of_def)
    moreover have "0 \<le> ?P" using sweep_run(1) [where r = 0 and p = 0 and es = ?es] by (simp add: peak_of_def)
    ultimately show ?thesis
      using run_filter_events [OF assms] sorted_takeWhile_filter [OF so] by (simp add: max_def)
  qed
  then show "int (overlap n start finish t) \<le> ?P" .
  have "?P = 0 \<or> (\<exists>ys zs. ?es = ys @ zs \<and> ?P = 0 + run ys)"
    unfolding peak_of_def by (rule sweep_run(3))
  then consider "?P = 0" | ys zs where "?es = ys @ zs" "?P = run ys" "?P \<noteq> 0" by force
  then show "\<exists>t. int (overlap n start finish t) = ?P"
  proof cases
    case 1
    then show ?thesis using le [of 0] by (intro exI [of _ 0]) simp
  next
    case 2
    have "0 \<le> ?P" using sweep_run(1) [where r = 0 and p = 0 and es = ?es] by (simp add: peak_of_def)
    then obtain t where "?P \<le> int (overlap n start finish t)"
      using prefix_run_bound [OF assms 2(1)] 2(2,3) by fastforce
    then show ?thesis using le [of t] by (intro exI [of _ t]) simp
  qed
qed

section \<open>The chart, put together\<close>

lemma max_or_Max: "xs \<noteq> [] \<Longrightarrow> max_or d xs = Max (set xs)"
  by (cases xs) (simp_all add: max_or_def Max.set_eq_fold [symmetric])

lemma max_or_ge: "x \<in> set xs \<Longrightarrow> x \<le> max_or d xs"
  by (cases "xs = []") (simp_all add: max_or_Max)

lemma max_or_in: "xs \<noteq> [] \<Longrightarrow> max_or d xs \<in> set xs"
  by (simp add: max_or_Max)

lemma critical_chain_exact:
  assumes s: "valid_schedule g ((!) start)" "length start = length (pg_nodes g)" "length finish = length (pg_nodes g)"
    and st: "\<forall>i < length (pg_nodes g). start ! i = latest_pred finish (preds g i) \<and> finish ! i = start ! i + durations g ! i"
    and lf: "\<forall>i < length (pg_nodes g). finish ! i \<le> latest ! i \<and> latest ! i \<le> max_or 0 finish"
      "\<forall>i < length (pg_nodes g). \<forall>p \<in> set (preds g i). latest ! p \<le> latest ! i - durations g ! i"
    and slack: "slack = map (\<lambda>i. max (latest ! i - finish ! i) 0) [0..<length (pg_nodes g)]"
  shows "\<exists>chain. critical_chain g finish slack = Some chain \<and> dep_chain g chain \<and>
    chain_minutes g chain = max_or 0 finish \<and> (\<forall>y \<in> set chain. slack ! y = 0) \<and>
    (chain = [] \<longleftrightarrow> pg_nodes g = [])"
proof (cases "pg_nodes g = []")
  case True
  then show ?thesis using s(3) by (simp add: critical_chain_def dep_chain_def chain_minutes_def max_or_def)
next
  case False
  let ?n = "length (pg_nodes g)"
  have sl: "slack ! i = latest ! i - finish ! i" if "i < ?n" for i using lf(1) that by (simp add: slack)
  have "finish \<noteq> []" using False s(3) by auto
  then have "max_or 0 finish \<in> set finish" by (rule max_or_in)
  then obtain m where m: "m < ?n" "finish ! m = max_or 0 finish" using s(3) by (metis in_set_conv_nth)
  then have "latest ! m = finish ! m" using lf(1) by force
  then have zero: "slack ! m = 0" using sl [OF m(1)] by simp
  have B: "\<forall>i < ?n. \<forall>p \<in> set (preds g i). finish ! p \<le> start ! i"
    using st latest_pred_le [of finish _ ] by (metis order_refl)
  have F: "\<forall>i < ?n. 0 \<le> start ! i \<and> finish ! i = start ! i + durations g ! i"
    using st s(1) by (simp add: valid_schedule_def)
  have A: "\<forall>i < ?n. slack ! i = 0 \<and> 0 < start ! i \<longrightarrow>
      (\<exists>p \<in> set (preds g i). slack ! p = 0 \<and> finish ! p = start ! i)"
  proof (intro allI impI)
    fix i assume i: "i < ?n" and z: "slack ! i = 0 \<and> 0 < start ! i"
    then obtain p where p: "p \<in> set (preds g i)" "finish ! p = start ! i"
      using latest_pred_in [of finish "preds g i"] st by force
    have pn: "p < ?n" using p(1) by (rule preds_bound)
    have "latest ! p \<le> latest ! i - durations g ! i" using lf(2) i p(1) by blast
    also have "\<dots> = start ! i" using z sl [OF i] F i by simp
    finally have "slack ! p = 0" using lf(1) sl [OF pn] p(2) pn by force
    with p show "\<exists>p \<in> set (preds g i). slack ! p = 0 \<and> finish ! p = start ! i" by blast
  qed
  let ?zero = "filter (\<lambda>i. slack ! i = 0) [0..<?n]"
  have "?zero \<noteq> []" using m(1) zero by (auto simp: filter_empty_conv)
  then obtain c where c: "max_by_key ((!) finish) ?zero = Some c" by (cases "max_by_key ((!) finish) ?zero") auto
  note mc = max_by_key_Some [OF c]
  have cn: "c < ?n" "slack ! c = 0" using mc by auto
  have "finish ! m \<le> finish ! c" using mc m(1) zero by simp
  moreover have "finish ! c \<le> max_or 0 finish" using cn(1) s(3) by (intro max_or_ge) simp
  ultimately have fc: "finish ! c = max_or 0 finish" using m(2) by simp
  obtain ys where ys: "chase (Suc ?n) g finish slack c [c] = Some (ys @ [c])"
    "chain_minutes g ys = start ! c" "dep_chain g (ys @ [c])" "\<forall>y \<in> set ys. slack ! y = 0"
    using chase_exact [OF A B F cn, of "Suc ?n" "[c]"] cn(1) by auto
  have "chain_minutes g (ys @ [c]) = max_or 0 finish"
    using ys(2) fc F cn(1) by (simp add: chain_minutes_def)
  moreover have "critical_chain g finish slack = Some (ys @ [c])"
    using c ys(1) by (simp add: critical_chain_def)
  ultimately show ?thesis using ys(3,4) cn(2) False by (intro exI [of _ "ys @ [c]"]) simp
qed

text \<open>What \<open>gantt\<close> returns, over a graph whose order exists.\<close>

lemma gantt_of_run:
  assumes "topo g = Inr order"
  obtains start finish latest slack chain where "forward g order = (start, finish)"
    and "valid_schedule g ((!) start)" and "length start = length (pg_nodes g)"
    and "\<forall>i < length (pg_nodes g). finish ! i = start ! i + durations g ! i"
    and "length finish = length (pg_nodes g)"
    and "latest = backward g order (max_or 0 finish)"
    and "\<forall>i < length (pg_nodes g). slack ! i = latest ! i - finish ! i \<and> 0 \<le> slack ! i \<and> latest ! i \<le> max_or 0 finish"
    and "\<forall>i < length (pg_nodes g). \<forall>p \<in> set (preds g i). latest ! p \<le> latest ! i - durations g ! i"
    and "dep_chain g chain" and "chain_minutes g chain = max_or 0 finish"
    and "\<forall>y \<in> set chain. slack ! y = 0" and "chain = [] \<longleftrightarrow> pg_nodes g = []"
    and "gantt_of g now = Inr \<lparr>gt_plan = pg_plan g, gt_started_at = now,
       gt_nodes = map (gantt_node_of g now start finish slack) [0..<length (pg_nodes g)],
       gt_critical_path = map (\<lambda>i. i_id (pg_nodes g ! i)) chain,
       gt_critical_path_minutes = sum_list (map ((!) (durations g))
         (List.map_filter (index_of (pg_nodes g)) (map (\<lambda>i. i_id (pg_nodes g ! i)) chain))),
       gt_total_minutes = max_or 0 finish,
       gt_current_concurrency = length (filter (\<lambda>i. is_running i now) (pg_nodes g)),
       gt_peak_concurrency = nat (peak_of (length (pg_nodes g)) start finish)\<rparr>"
proof -
  let ?n = "length (pg_nodes g)"
  obtain o1: "distinct order" and o2: "set order = {..<?n}" and o3: "in_topo (set (edge_list g)) {} order"
    using assms by (cases rule: topo_cases [of g]) auto
  obtain start finish where f: "forward g order = (start, finish)" by fastforce
  note fx = forward_exact [OF o3 o1 o2 f] and val = forward_valid [OF o3 o1 o2 f]
  define latest where "latest = backward g order (max_or 0 finish)"
  define slack where "slack = map (\<lambda>i. max (latest ! i - finish ! i) 0) [0..<?n]"
  note lb = backward_bounds [OF o3 o1 o2 latest_def]
  have fin: "start ! j + durations g ! j \<le> max_or 0 finish" if "j < ?n" for j
    using max_or_ge [OF nth_mem, of j finish 0] that fx(2) fx(4) [OF that] by simp
  have above: "finish ! j \<le> latest ! j" if "j < ?n" for j
    using backward_greatest [OF o2 val _ that, of "max_or 0 finish"] fin fx(4) [OF that] by (simp add: latest_def)
  have "\<exists>chain. critical_chain g finish slack = Some chain \<and> dep_chain g chain \<and>
      chain_minutes g chain = max_or 0 finish \<and> (\<forall>y \<in> set chain. slack ! y = 0) \<and>
      (chain = [] \<longleftrightarrow> pg_nodes g = [])"
    by (rule critical_chain_exact [OF val fx(1,2) _ _ _ slack_def]) (use fx(3,4) lb(2,3) above in auto)
  then obtain chain where c: "critical_chain g finish slack = Some chain" "dep_chain g chain"
      "chain_minutes g chain = max_or 0 finish" "\<forall>y \<in> set chain. slack ! y = 0"
      "chain = [] \<longleftrightarrow> pg_nodes g = []" by blast
  show ?thesis
  proof (rule that [OF f val fx(1) _ fx(2) latest_def _ _ c(2-5)])
    show "\<forall>i < ?n. finish ! i = start ! i + durations g ! i" using fx(4) by blast
    show "\<forall>i < ?n. slack ! i = latest ! i - finish ! i \<and> 0 \<le> slack ! i \<and> latest ! i \<le> max_or 0 finish"
      using above lb(2) by (simp add: slack_def)
    show "\<forall>i < ?n. \<forall>p \<in> set (preds g i). latest ! p \<le> latest ! i - durations g ! i" using lb(3) by blast
  qed (use assms f c(1) in \<open>simp add: gantt_of_def Let_def latest_def [symmetric] slack_def [symmetric]\<close>)
qed

text \<open>The same facts, read off the chart.\<close>

lemma gantt_of_Inr:
  assumes "gantt_of g now = Inr gt"
  obtains order start finish latest chain where "topo g = Inr order"
    and "forward g order = (start, finish)" and "valid_schedule g ((!) start)"
    and "length finish = length (pg_nodes g)"
    and "latest = backward g order (gt_total_minutes gt)" and "gt_total_minutes gt = max_or 0 finish"
    and "gt_peak_concurrency gt = nat (peak_of (length (pg_nodes g)) start finish)"
    and "\<forall>i < length (pg_nodes g). \<forall>p \<in> set (preds g i). latest ! p \<le> latest ! i - durations g ! i"
    and "dep_chain g chain" and "chain_minutes g chain = max_or 0 finish" and "chain = [] \<longleftrightarrow> pg_nodes g = []"
    and "gt_critical_path gt = map (\<lambda>i. i_id (pg_nodes g ! i)) chain"
    and "gt_critical_path_minutes gt = sum_list (map ((!) (durations g))
         (List.map_filter (index_of (pg_nodes g)) (gt_critical_path gt)))"
    and "\<forall>y \<in> set chain. gn_slack_min (gt_nodes gt ! y) = 0"
    and "length (gt_nodes gt) = length (pg_nodes g)"
    and "\<forall>i < length (pg_nodes g). gn_start_min (gt_nodes gt ! i) = start ! i \<and>
       finish ! i = start ! i + durations g ! i \<and> gn_finish_min (gt_nodes gt ! i) = finish ! i \<and>
       gn_slack_min (gt_nodes gt ! i) = latest ! i - finish ! i \<and> 0 \<le> gn_slack_min (gt_nodes gt ! i) \<and>
       latest ! i \<le> max_or 0 finish"
proof (cases "topo g")
  case (Inl e)
  then show ?thesis using assms by (simp add: gantt_of_def)
next
  case (Inr order)
  obtain start finish latest slack chain where r: "forward g order = (start, finish)"
    "valid_schedule g ((!) start)" "\<forall>i < length (pg_nodes g). finish ! i = start ! i + durations g ! i"
    "length finish = length (pg_nodes g)" "latest = backward g order (max_or 0 finish)"
    "\<forall>i < length (pg_nodes g). slack ! i = latest ! i - finish ! i \<and> 0 \<le> slack ! i \<and> latest ! i \<le> max_or 0 finish"
    "\<forall>i < length (pg_nodes g). \<forall>p \<in> set (preds g i). latest ! p \<le> latest ! i - durations g ! i"
    "dep_chain g chain" "chain_minutes g chain = max_or 0 finish" "\<forall>y \<in> set chain. slack ! y = 0"
    "chain = [] \<longleftrightarrow> pg_nodes g = []"
    and gt: "gantt_of g now = Inr \<lparr>gt_plan = pg_plan g, gt_started_at = now,
       gt_nodes = map (gantt_node_of g now start finish slack) [0..<length (pg_nodes g)],
       gt_critical_path = map (\<lambda>i. i_id (pg_nodes g ! i)) chain,
       gt_critical_path_minutes = sum_list (map ((!) (durations g))
         (List.map_filter (index_of (pg_nodes g)) (map (\<lambda>i. i_id (pg_nodes g ! i)) chain))),
       gt_total_minutes = max_or 0 finish,
       gt_current_concurrency = length (filter (\<lambda>i. is_running i now) (pg_nodes g)),
       gt_peak_concurrency = nat (peak_of (length (pg_nodes g)) start finish)\<rparr>"
    by (rule gantt_of_run [OF Inr, of now]) blast
  have node: "gt_nodes gt ! i = gantt_node_of g now start finish slack i" if "i < length (pg_nodes g)" for i
    using gt assms that by simp
  have slack0: "\<forall>y \<in> set chain. gn_slack_min (gt_nodes gt ! y) = 0"
    using r(8,10) node by (auto simp: dep_chain_def gantt_node_of_def Let_def subset_iff)
  have at: "\<forall>i < length (pg_nodes g). gn_start_min (gt_nodes gt ! i) = start ! i \<and>
       finish ! i = start ! i + durations g ! i \<and> gn_finish_min (gt_nodes gt ! i) = finish ! i \<and>
       gn_slack_min (gt_nodes gt ! i) = latest ! i - finish ! i \<and> 0 \<le> gn_slack_min (gt_nodes gt ! i) \<and>
       latest ! i \<le> max_or 0 finish"
  proof (intro allI impI)
    fix i assume i: "i < length (pg_nodes g)"
    have "gn_start_min (gt_nodes gt ! i) = start ! i" "gn_finish_min (gt_nodes gt ! i) = finish ! i"
      "gn_slack_min (gt_nodes gt ! i) = slack ! i" by (simp_all add: node [OF i] gantt_node_of_def Let_def)
    then show "gn_start_min (gt_nodes gt ! i) = start ! i \<and>
       finish ! i = start ! i + durations g ! i \<and> gn_finish_min (gt_nodes gt ! i) = finish ! i \<and>
       gn_slack_min (gt_nodes gt ! i) = latest ! i - finish ! i \<and> 0 \<le> gn_slack_min (gt_nodes gt ! i) \<and>
       latest ! i \<le> max_or 0 finish" using r(3,6) i by metis
  qed
  have f: "gt_total_minutes gt = max_or 0 finish" "length (gt_nodes gt) = length (pg_nodes g)"
    "gt_critical_path gt = map (\<lambda>i. i_id (pg_nodes g ! i)) chain"
    "gt_critical_path_minutes gt = sum_list (map ((!) (durations g))
         (List.map_filter (index_of (pg_nodes g)) (gt_critical_path gt)))"
    "gt_peak_concurrency gt = nat (peak_of (length (pg_nodes g)) start finish)"
    using gt assms by auto
  show ?thesis
    by (rule that [OF Inr r(1,2,4) _ f(1,5) r(7-9,11) f(3,4) slack0 f(2) at]) (simp add: r(5) f(1))
qed

lemma path_minutes:
  assumes "distinct (map i_id (pg_nodes g))" and "set chain \<subseteq> {..<length (pg_nodes g)}"
  shows "List.map_filter (index_of (pg_nodes g)) (map (\<lambda>i. i_id (pg_nodes g ! i)) chain) = chain"
  using assms by (induction chain) (simp_all add: List.map_filter_simps index_of_nth)

lemma gantt_of_Inl: "gantt_of g now = Inl e \<longleftrightarrow> topo g = Inl e"
proof (cases "topo g")
  case (Inr order)
  then show ?thesis by (rule gantt_of_run [of g order now]) (simp add: Inr)
qed (auto simp: gantt_of_def)

end
