(* ===== verification/PlanReady.thy ===== *)
theory PlanReady
  imports PlanGraph
begin

text \<open>
  The ready frontier of \<open>src/src/plan.rs\<close>: which nodes of a plan can be dispatched now, at most
  one of each conflict group, and why the others wait. The \<open>detail\<close> message of a waiting node is a
  constructor with the arguments of its \<open>format!\<close>.
\<close>

section \<open>The frontier\<close>

datatype block_detail =
    StatusIs string
  | ClaimedBy string
  | AvailableIn int
  | WaitsOn "string list"
  | BusyWith string string
  | InFrontier string

record blocked_node =
  bn_id :: string
  bn_key :: string
  bn_title :: string
  bn_reason :: string
  bn_detail :: block_detail

record ready_view =
  rv_plan :: string
  rv_ready :: "node_view list"
  rv_blocked :: "blocked_node list"
  rv_busy_groups :: "(string \<times> string) list"
  rv_total_nodes :: nat

definition blocked_of :: "node_view \<Rightarrow> string \<Rightarrow> block_detail \<Rightarrow> blocked_node" where
  "blocked_of node reason detail =
     \<lparr>bn_id = nv_id node, bn_key = nv_key node, bn_title = nv_title node,
      bn_reason = reason, bn_detail = detail\<rparr>"

definition mark_busy :: "node_view \<Rightarrow> (string \<times> string) list \<Rightarrow> (string \<times> string) list" where
  "mark_busy node busy =
     (case nv_conflict_group node of
        Some grp \<Rightarrow> if nv_status node = RUNNING_STATUS then bt_insert grp (nv_id node) busy else busy
      | None \<Rightarrow> busy)"

definition open_deps :: "plan_graph \<Rightarrow> node_view \<Rightarrow> string list" where
  "open_deps g node = filter (\<lambda>d. status_in g d \<noteq> ''closed'') (nv_deps node @ nv_external_deps node)"

text \<open>The first loop: why a node is not even eligible, if it is not.\<close>

definition gate :: "plan_graph \<Rightarrow> time \<Rightarrow> nat \<Rightarrow> blocked_node option" where
  "gate g now i =
     (let issue = pg_nodes g ! i; node = node_view_of g issue in
      if nv_status node \<noteq> ''open'' then Some (blocked_of node ''not_open'' (StatusIs (nv_status node)))
      else if is_live_claim issue now then
        Some (blocked_of node ''claim''
          (ClaimedBy (case nv_assignee node of None \<Rightarrow> ''?'' | Some a \<Rightarrow> a)))
      else if (case i_available_at issue of None \<Rightarrow> False | Some at \<Rightarrow> now < at) then
        Some (blocked_of node ''grace''
          (AvailableIn ((case i_available_at issue of None \<Rightarrow> now | Some at \<Rightarrow> at) - now)))
      else if open_deps g node \<noteq> [] then Some (blocked_of node ''deps'' (WaitsOn (open_deps g node)))
      else None)"

definition gate_step ::
  "plan_graph \<Rightarrow> time \<Rightarrow> nat \<Rightarrow> nat list \<times> blocked_node list \<Rightarrow> nat list \<times> blocked_node list" where
  "gate_step g now i st =
     (case st of (eligible, blocked) \<Rightarrow>
        (case gate g now i of
           Some b \<Rightarrow> (eligible, blocked @ [b])
         | None \<Rightarrow> (eligible @ [i], blocked)))"

text \<open>The second: at most one node of a conflict group, and none of a busy one.\<close>

type_synonym pick_state = "string list \<times> nat list \<times> blocked_node list"

definition pick_step :: "plan_graph \<Rightarrow> (string \<times> string) list \<Rightarrow> nat \<Rightarrow> pick_state \<Rightarrow> pick_state" where
  "pick_step g busy i st =
     (case st of (chosen, rdy, blocked) \<Rightarrow>
        (let node = node_view_of g (pg_nodes g ! i) in
         case nv_conflict_group node of
           None \<Rightarrow> (chosen, rdy @ [i], blocked)
         | Some grp \<Rightarrow>
             (case map_of busy grp of
                Some running \<Rightarrow> (chosen, rdy, blocked @ [blocked_of node ''conflict_group'' (BusyWith grp running)])
              | None \<Rightarrow>
                  if grp \<in> set chosen
                  then (chosen, rdy, blocked @ [blocked_of node ''conflict_group'' (InFrontier grp)])
                  else (bs_insert grp chosen, rdy @ [i], blocked))))"

definition busy_groups :: "plan_graph \<Rightarrow> (string \<times> string) list" where
  "busy_groups g = fold mark_busy (map (node_view_of g) (pg_nodes g)) []"

definition ready_nodes :: "plan_graph \<Rightarrow> time \<Rightarrow> nat list \<Rightarrow> nat list \<times> blocked_node list" where
  "ready_nodes g now order =
     (let (eligible, blocked) = fold (gate_step g now) order ([], []);
          (chosen, rdy, blocked') = fold (pick_step g (busy_groups g))
            (sort_key (\<lambda>i. plan_order (pg_nodes g ! i)) eligible) ([], [], blocked)
      in (rdy, blocked'))"

definition plan_ready :: "plan_graph \<Rightarrow> time \<Rightarrow> error + ready_view" where
  "plan_ready g now =
     (case topo g of
        Inl e \<Rightarrow> Inl e
      | Inr order \<Rightarrow>
          (let (rdy, blocked) = ready_nodes g now order in
           Inr \<lparr>rv_plan = pg_plan g, rv_ready = map (\<lambda>i. node_view_of g (pg_nodes g ! i)) rdy,
             rv_blocked = blocked, rv_busy_groups = busy_groups g,
             rv_total_nodes = length (pg_nodes g)\<rparr>))"

section \<open>What the frontier offers\<close>

definition group_at :: "plan_graph \<Rightarrow> nat \<Rightarrow> string option" where
  "group_at g i = conflict_group (pg_nodes g ! i)"

text \<open>A node that waits for nothing of its own: open, unclaimed, out of its grace, deps closed.\<close>

definition eligible :: "plan_graph \<Rightarrow> time \<Rightarrow> nat \<Rightarrow> bool" where
  "eligible g now i \<longleftrightarrow> i_status (pg_nodes g ! i) = ''open'' \<and> \<not> is_live_claim (pg_nodes g ! i) now \<and>
     (\<forall>at. i_available_at (pg_nodes g ! i) = Some at \<longrightarrow> at \<le> now) \<and>
     (\<forall>d \<in> set (dep_ids (pg_nodes g ! i)). status_in g d = ''closed'')"

definition busy :: "plan_graph \<Rightarrow> string \<Rightarrow> bool" where
  "busy g grp \<longleftrightarrow> (\<exists>issue \<in> set (pg_nodes g).
     i_status issue = ''in_progress'' \<and> conflict_group issue = Some grp)"

lemma open_deps_nil:
  "open_deps g (node_view_of g issue) = [] \<longleftrightarrow> (\<forall>d \<in> set (dep_ids issue). status_in g d = ''closed'')"
proof -
  have "(\<forall>d \<in> set (internal_deps g issue) \<union> set (external_deps g issue). P d) \<longleftrightarrow> (\<forall>d \<in> set (dep_ids issue). P d)"
    for P :: "string \<Rightarrow> bool" unfolding internal_deps_def external_deps_def set_filter by blast
  from this [of "\<lambda>d. status_in g d = ''closed''"] show ?thesis
    by (simp add: open_deps_def node_view_of_def filter_empty_conv ball_Un)
qed

lemma gate_None: "gate g now i = None \<longleftrightarrow> eligible g now i"
proof -
  have "nv_status (node_view_of g (pg_nodes g ! i)) = i_status (pg_nodes g ! i)"
    by (simp add: node_view_of_def)
  then show ?thesis
    by (auto simp: gate_def eligible_def open_deps_nil Let_def not_less split: option.splits if_splits)
qed

lemma gate_id: "gate g now i = Some b \<Longrightarrow> bn_id b = i_id (pg_nodes g ! i)"
  by (auto simp: gate_def Let_def blocked_of_def node_view_of_def split: if_splits)

lemma map_of_busy:
  "map_of (fold mark_busy (map (node_view_of g) issues) b) grp \<noteq> None \<longleftrightarrow>
    map_of b grp \<noteq> None \<or>
    (\<exists>issue \<in> set issues. i_status issue = ''in_progress'' \<and> conflict_group issue = Some grp)"
proof (induction issues arbitrary: b)
  case (Cons issue issues)
  have "map_of (mark_busy (node_view_of g issue) b) grp \<noteq> None \<longleftrightarrow>
      map_of b grp \<noteq> None \<or> i_status issue = ''in_progress'' \<and> conflict_group issue = Some grp"
    by (auto simp: mark_busy_def node_view_of_def RUNNING_STATUS_def split: option.splits)
  with Cons show ?case by simp
qed simp

lemma busy_groups_iff: "map_of (busy_groups g) grp \<noteq> None \<longleftrightarrow> busy g grp"
  using map_of_busy [of g "pg_nodes g" "[]" grp] by (simp add: busy_groups_def busy_def)

lemma fold_gate:
  "fold (gate_step g now) order (el, bl) =
    (el @ filter (eligible g now) order, bl @ List.map_filter (gate g now) order)"
proof (induction order arbitrary: el bl)
  case (Cons i order)
  show ?case
  proof (cases "gate g now i")
    case None
    then show ?thesis using Cons gate_None [of g now i] by (simp add: gate_step_def List.map_filter_simps)
  next
    case (Some b)
    then have "\<not> eligible g now i" using gate_None [of g now i] by simp
    then show ?thesis using Cons Some by (simp add: gate_step_def List.map_filter_simps)
  qed
qed (simp add: List.map_filter_simps)

text \<open>The invariant of the second loop, over the nodes it has seen.\<close>

definition picked_ok :: "plan_graph \<Rightarrow> nat list \<Rightarrow> pick_state \<Rightarrow> bool" where
  "picked_ok g seen st \<longleftrightarrow> (case st of (chosen, rdy, blocked) \<Rightarrow>
     set rdy \<subseteq> set seen \<and> sorted_wrt (\<lambda>i j. group_at g i = None \<or> group_at g i \<noteq> group_at g j) rdy \<and>
     set chosen = {grp. Some grp \<in> group_at g ` set rdy} \<and>
     (\<forall>i \<in> set rdy. \<forall>grp. group_at g i = Some grp \<longrightarrow> \<not> busy g grp) \<and>
     (\<forall>i \<in> set seen - set rdy. \<exists>grp. group_at g i = Some grp \<and> (busy g grp \<or> grp \<in> set chosen)))"

lemma picked_ok_step:
  assumes "picked_ok g seen st"
  shows "picked_ok g (seen @ [i]) (pick_step g (busy_groups g) i st)"
proof -
  obtain chosen rdy blocked where st: "st = (chosen, rdy, blocked)" by (cases st)
  have grp: "nv_conflict_group (node_view_of g (pg_nodes g ! i)) = group_at g i"
    by (simp add: node_view_of_def group_at_def)
  show ?thesis
  proof (cases "group_at g i")
    case None
    then show ?thesis
      using assms by (auto simp: st picked_ok_def pick_step_def Let_def grp sorted_wrt_append)
  next
    case (Some c)
    show ?thesis
    proof (cases "map_of (busy_groups g) c")
      case None
      then have "\<not> busy g c" using busy_groups_iff [of g c] by simp
      then show ?thesis
        using assms Some None
        by (auto simp: st picked_ok_def pick_step_def Let_def grp sorted_wrt_append image_iff)
    next
      case b: (Some running)
      then have "busy g c" using busy_groups_iff [of g c] by simp
      then show ?thesis
        using assms Some b by (auto simp: st picked_ok_def pick_step_def Let_def grp)
    qed
  qed
qed

lemma picked_ok_fold:
  "picked_ok g seen st \<Longrightarrow> picked_ok g (seen @ xs) (fold (pick_step g (busy_groups g)) xs st)"
proof (induction xs arbitrary: seen st)
  case (Cons i xs)
  show ?case using Cons.IH [OF picked_ok_step [OF Cons.prems, of i]] by simp
qed simp

lemma pick_ids:
  "fold (pick_step g b) xs (ch, rdy, bl) = (ch', rdy', bl') \<Longrightarrow>
    mset (map (\<lambda>i. i_id (pg_nodes g ! i)) rdy') + mset (map bn_id bl') =
    mset (map (\<lambda>i. i_id (pg_nodes g ! i)) (rdy @ xs)) + mset (map bn_id bl)"
proof (induction xs arbitrary: ch rdy bl)
  case (Cons i xs)
  obtain ch1 rdy1 bl1 where s: "pick_step g b i (ch, rdy, bl) = (ch1, rdy1, bl1)" by (cases "pick_step g b i (ch, rdy, bl)")
  have "mset (map (\<lambda>i. i_id (pg_nodes g ! i)) rdy1) + mset (map bn_id bl1) =
      mset (map (\<lambda>i. i_id (pg_nodes g ! i)) (rdy @ [i])) + mset (map bn_id bl)"
    using s by (auto simp: pick_step_def Let_def blocked_of_def node_view_of_def split: option.splits if_splits)
  moreover have "fold (pick_step g b) xs (ch1, rdy1, bl1) = (ch', rdy', bl')" using Cons.prems s by simp
  ultimately show ?case using Cons.IH [of ch1 rdy1 bl1] by (simp add: ac_simps)
qed simp

lemma gate_ids:
  "mset (map (\<lambda>i. i_id (pg_nodes g ! i)) (filter (eligible g now) order)) +
    mset (map bn_id (List.map_filter (gate g now) order)) = mset (map (\<lambda>i. i_id (pg_nodes g ! i)) order)"
proof (induction order)
  case (Cons i order)
  then show ?case
    using gate_None [of g now i] gate_id [of g now i]
    by (cases "gate g now i") (auto simp: List.map_filter_simps)
qed (simp add: List.map_filter_simps)

lemma ready_nodes_exact:
  assumes "ready_nodes g now order = (rdy, blocked)"
  shows "set rdy \<subseteq> {i \<in> set order. eligible g now i}"
    and "sorted_wrt (\<lambda>i j. group_at g i = None \<or> group_at g i \<noteq> group_at g j) rdy"
    and "i \<in> set rdy \<Longrightarrow> group_at g i = Some grp \<Longrightarrow> \<not> busy g grp"
    and "i \<in> set order \<Longrightarrow> eligible g now i \<Longrightarrow> i \<notin> set rdy \<Longrightarrow>
      \<exists>grp. group_at g i = Some grp \<and> (busy g grp \<or> (\<exists>j \<in> set rdy. group_at g j = Some grp))"
    and "mset (map (\<lambda>i. i_id (pg_nodes g ! i)) rdy) + mset (map bn_id blocked) =
      mset (map (\<lambda>i. i_id (pg_nodes g ! i)) order)"
proof -
  let ?key = "\<lambda>i. plan_order (pg_nodes g ! i)"
  let ?el = "sort_key ?key (filter (eligible g now) order)"
  obtain chosen where p: "fold (pick_step g (busy_groups g)) ?el
      ([], [], List.map_filter (gate g now) order) = (chosen, rdy, blocked)"
    using assms by (auto simp: ready_nodes_def fold_gate Let_def split: prod.splits)
  have "picked_ok g [] ([], [], List.map_filter (gate g now) order)" by (simp add: picked_ok_def)
  from picked_ok_fold [OF this, of ?el] have ok: "picked_ok g ?el (chosen, rdy, blocked)" by (simp add: p)
  show "set rdy \<subseteq> {i \<in> set order. eligible g now i}"
    "sorted_wrt (\<lambda>i j. group_at g i = None \<or> group_at g i \<noteq> group_at g j) rdy"
    "i \<in> set rdy \<Longrightarrow> group_at g i = Some grp \<Longrightarrow> \<not> busy g grp"
    "i \<in> set order \<Longrightarrow> eligible g now i \<Longrightarrow> i \<notin> set rdy \<Longrightarrow>
      \<exists>grp. group_at g i = Some grp \<and> (busy g grp \<or> (\<exists>j \<in> set rdy. group_at g j = Some grp))"
    using ok unfolding picked_ok_def by (auto, force)
  show "mset (map (\<lambda>i. i_id (pg_nodes g ! i)) rdy) + mset (map bn_id blocked) =
      mset (map (\<lambda>i. i_id (pg_nodes g ! i)) order)"
    using pick_ids [OF p] gate_ids [of g now order] by (simp add: mset_map)
qed

end
