(* ===== verification/PlanLoad.thy ===== *)
theory PlanLoad
  imports PlanCreate PlanGantt PlanReady Demo
begin

text \<open>
  Plans over the store: \<open>load\<close> of \<open>src/src/plan.rs\<close> composed with the store's operations. The
  store never holds a dependency cycle, so a loaded plan always has its order; what \<open>create\<close>
  wrote is what \<open>load\<close> finds; and the demonstration plan the properties are applied to.
\<close>

definition load :: "db \<Rightarrow> string \<Rightarrow> error + plan_graph" where
  "load s name = load_from (list_issues None True None s) name"

section \<open>A loaded plan is acyclic\<close>

lemma acyclic_hom:
  assumes "acyclic R" and "\<And>x y. (x, y) \<in> E \<Longrightarrow> (f x, f y) \<in> R"
  shows "acyclic E"
proof -
  have "(f x, f y) \<in> R\<^sup>+" if "(x, y) \<in> E\<^sup>+" for x y
    using that
  proof (induction rule: trancl_induct)
    case (base y)
    then show ?case using assms(2) by blast
  next
    case (step y z)
    show ?case using step.IH assms(2) [OF step.hyps(2)] by (rule trancl_into_trancl)
  qed
  then show ?thesis using assms(1) unfolding acyclic_def by blast
qed

lemma list_issue_deps:
  assumes "i \<in> set (list_issues project al only_id s)" and "d \<in> set (dep_ids i)"
  shows "(i_id i, d) \<in> set (db_deps s)"
  using assms by (auto simp: list_issues_def issue_of_row_def dep_ids_def blockers_of_def succs_def
      set_map_filter_Some)

lemma store_edges_acyclic:
  assumes "acyclic (set (db_deps s))" and "set (pg_nodes g) \<subseteq> set (list_issues project al only_id s)"
  shows "acyclic (set (edge_list g))"
proof (rule acyclic_hom [of "(set (db_deps s))\<inverse>" _ "\<lambda>p. i_id (pg_nodes g ! p)"])
  show "acyclic ((set (db_deps s))\<inverse>)" using assms(1) by simp
  fix p i assume "(p, i) \<in> set (edge_list g)"
  then have i: "i < length (pg_nodes g)" "p \<in> set (preds g i)" by (auto simp: set_edge_list)
  then obtain d where d: "d \<in> set (dep_ids (pg_nodes g ! i))" "index_of (pg_nodes g) d = Some p"
    by (auto simp: preds_def set_map_filter_Some)
  have "pg_nodes g ! i \<in> set (list_issues project al only_id s)" using assms(2) i(1) by force
  from list_issue_deps [OF this d(1)] show "(i_id (pg_nodes g ! p), i_id (pg_nodes g ! i)) \<in> (set (db_deps s))\<inverse>"
    using index_of_Some(2) [OF d(2)] by simp
qed

lemma load_cases:
  fixes name :: string
  assumes "acyclic (set (db_deps s))"
  defines "nodes \<equiv> filter (\<lambda>i. plan_name_of i = Some name) (list_issues None True None s)"
  shows "load s name = (if nodes = [] then Inl (NotFound (''plan '' @ name))
    else Inr \<lparr>pg_plan = name, pg_nodes = sort_key plan_order nodes,
      pg_status_of = statuses (list_issues None True None s), pg_default_estimate = DEFAULT_ESTIMATE_MINUTES\<rparr>)"
proof -
  let ?g = "\<lparr>pg_plan = name, pg_nodes = sort_key plan_order nodes,
      pg_status_of = statuses (list_issues None True None s), pg_default_estimate = DEFAULT_ESTIMATE_MINUTES\<rparr>"
  have "acyclic (set (edge_list ?g))"
    using assms(1) by (rule store_edges_acyclic [of s _ None True None]) (auto simp: nodes_def)
  then obtain order where "topo ?g = Inr order" by (cases rule: topo_cases [of ?g]) auto
  then show ?thesis by (auto simp: load_def load_from_def nodes_def Let_def)
qed

lemma load_ids_distinct:
  assumes "db_reachable s" and "load s name = Inr g"
  shows "distinct (map i_id (pg_nodes g))"
proof -
  have ac: "acyclic (set (db_deps s))" using db_reachable_ok [OF assms(1)] by (simp add: db_ok_def deps_ok_def)
  have "map i_id (list_issues None True None s) = map ir_id (sort_key queue_order (db_issues s))"
    by (simp add: list_issues_def issue_of_row_def comp_def)
  then have "distinct (map i_id (list_issues None True None s))"
    using reach_ids [OF assms(1)] by (simp add: distinct_map)
  then have "distinct (map i_id (filter P (list_issues None True None s)))" for P by (rule distinct_map_filter)
  then show ?thesis using assms(2) load_cases [OF ac, of name] by (auto simp: distinct_map split: if_splits)
qed

section \<open>What was created is what is loaded\<close>

lemma create_nodes_reachable:
  "db_reachable s \<Longrightarrow> create_nodes plan ts actor nodes draws acc s = Some (r, s') \<Longrightarrow> db_reachable s'"
proof (induction nodes arbitrary: draws acc s)
  case (Cons n nodes)
  obtain km cr where acc: "acc = (km, cr)" by (cases acc)
  obtain r1 s1 where c: "create (node_issue plan ts actor n) (concat (take 1 draws)) ts s = Some (r1, s1)"
    using Cons.prems(2) by (auto simp: acc split: option.splits)
  then have "db_reachable s1" using Cons.prems(1) r_step s_create by blast
  then show ?case using Cons c by (auto simp: acc split: sum.splits)
qed auto

lemma link_deps_reachable:
  "db_reachable s \<Longrightarrow> db_reachable (snd (link_deps ts actor km pairs edges s))"
proof (induction pairs arbitrary: edges s)
  case (Cons x pairs)
  obtain k d where x: "x = (k, d)" by (cases x)
  have "db_reachable (snd (add_dep c p actor ts s))" for c p
    using Cons.prems r_step s_add_dep by blast
  then show ?case using Cons.IH Cons.prems
    by (auto simp: x split: option.splits sum.splits prod.splits) (metis snd_conv)+
qed simp

lemma plan_create_reachable:
  assumes "db_reachable s" and "plan_create plan draws ts actor s = Some (r, s')"
  shows "db_reachable s'"
proof -
  have "db_reachable s2" if "create_nodes plan ts actor nodes draws acc s = Some (r1, s1)"
      "link_deps ts actor km pairs edges s1 = (r2, s2)" for nodes acc r1 s1 km pairs edges r2 s2
    using link_deps_reachable [OF create_nodes_reachable [OF assms(1) that(1)], of ts actor km pairs edges] that(2)
    by simp
  moreover have "db_reachable s1" if "create_nodes plan ts actor nodes draws acc s = Some (r1, s1)" for nodes acc r1 s1
    using create_nodes_reachable [OF assms(1) that] .
  ultimately show ?thesis
    using assms by (auto simp: plan_create_def split: option.splits sum.splits if_splits prod.splits)
qed

lemma plan_name_of_row:
  "plan_name_of (issue_of_row s (new_row (node_issue plan ts actor n) i p (metadata_for plan n) g t)) = Some (rp_plan plan)"
  by (simp add: plan_name_of_def meta_str_def issue_of_row_def new_row_def metadata_for_def meta_keys Let_def)

lemma list_issues_all:
  "set (list_issues None True None s) = issue_of_row s ` set (db_issues s)"
  by (auto simp: list_issues_def)

lemma plan_name_of_metadata: "plan_name_of (issue_of_row s r) = plan_name_of (issue_of_row s' r)"
  by (simp add: plan_name_of_def meta_str_def issue_of_row_def)

text \<open>The plan's members after its creation are the created nodes, and only they.\<close>

lemma created_members:
  assumes "db_reachable s'" and "plan_members plan s = []" and "db_reachable s"
    and "nodes_made plan ts actor (rp_nodes plan) km s s1" and "\<forall>j. find_issue s' j = find_issue s1 j"
  shows "i_id ` set (plan_members plan s') = (\<lambda>n. the (km (ns_key n))) ` set (rp_nodes plan)"
proof (intro set_eqI iffI)
  fix j assume "j \<in> i_id ` set (plan_members plan s')"
  then obtain r where r: "r \<in> set (db_issues s')" "j = ir_id r" "plan_name_of (issue_of_row s' r) = Some (rp_plan plan)"
    by (auto simp: plan_members_def list_issues_all issue_of_row_def)
  then have f: "find_issue s' j = Some r" using find_issue_row [OF reach_ids [OF assms(1)]] by simp
  have "find_issue s j = None"
  proof (rule ccontr)
    assume old: "find_issue s j \<noteq> None"
    then have "find_issue s j = Some r" using assms(4,5) f by (auto simp: nodes_made_def)
    then have "r \<in> set (db_issues s)" by (rule find_issue_mem)
    then have "issue_of_row s r \<in> set (plan_members plan s)"
      using r(3) plan_name_of_metadata [of s r s'] by (simp add: plan_members_def list_issues_all)
    then show False using assms(2) by simp
  qed
  then obtain n where "n \<in> set (rp_nodes plan)" "km (ns_key n) = Some j"
    using assms(4,5) f unfolding nodes_made_def by (metis option.distinct(1))
  then show "j \<in> (\<lambda>n. the (km (ns_key n))) ` set (rp_nodes plan)" by force
next
  fix j assume "j \<in> (\<lambda>n. the (km (ns_key n))) ` set (rp_nodes plan)"
  then obtain n where n: "n \<in> set (rp_nodes plan)" "j = the (km (ns_key n))" by blast
  define row where "row = new_row (node_issue plan ts actor n) j (node_project plan n) (metadata_for plan n) ts ts"
  have f: "find_issue s' j = Some row" using assms(4,5) n unfolding nodes_made_def row_def by fastforce
  then have "row \<in> set (db_issues s')" by (rule find_issue_mem)
  then have "issue_of_row s' row \<in> set (plan_members plan s')"
    by (simp add: plan_members_def list_issues_all row_def plan_name_of_row)
  moreover have "i_id (issue_of_row s' row) = j" by (simp add: issue_of_row_def row_def new_row_def)
  ultimately show "j \<in> i_id ` set (plan_members plan s')" by force
qed

section \<open>A demonstration plan\<close>

definition demo_node :: "string \<Rightarrow> string list \<Rightarrow> int \<Rightarrow> node_spec" where
  "demo_node key deps est =
     \<lparr>ns_key = key, ns_title = key, ns_description = [], ns_project = [], ns_repo = [],
      ns_conflict_group = ''g'', ns_risk = ''low'', ns_estimate = Some est, ns_done_means = [],
      ns_acceptance = [], ns_deps = deps, ns_priority = None, ns_labels = []\<rparr>"

definition demo_plan :: resolved_plan where
  "demo_plan = \<lparr>rp_plan = ''pl'', rp_project = ''p'',
     rp_nodes = [demo_node ''x'' [] 10, demo_node ''y'' [] 20, demo_node ''z'' [''x'', ''y''] 5]\<rparr>"

definition demo_draws :: "draw list list" where
  "demo_draws = [[(0, 0, 0, 0)], [(1, 1, 1, 1)], [(2, 2, 2, 2)]]"

definition demo_created :: "(create_error + create_report) \<times> db" where
  "demo_created = the (plan_create demo_plan demo_draws 2000 ''me'' demo0)"

definition demo_graph :: plan_graph where
  "demo_graph = projr (load (snd demo_created) ''pl'')"

definition demo_gantt :: gantt where
  "demo_gantt = projr (gantt_of demo_graph 0)"

lemma demo_created_run: "plan_create demo_plan demo_draws 2000 ''me'' demo0 = Some demo_created"
  unfolding demo_created_def by (rule some_the) code_simp

lemma demo_planned_reachable: "db_reachable (snd demo_created)"
  by (rule plan_create_reachable [OF demo0_reachable, of demo_plan demo_draws 2000 "''me''" "fst demo_created"])
    (simp add: demo_created_run)

lemma demo_load: "load (snd demo_created) ''pl'' = Inr demo_graph"
proof -
  have "\<not> isl (load (snd demo_created) ''pl'')" by code_simp
  then show ?thesis unfolding demo_graph_def by (cases "load (snd demo_created) ''pl''") simp_all
qed

lemma demo_chart: "gantt_of demo_graph 0 = Inr demo_gantt"
proof -
  have "\<not> isl (gantt_of demo_graph 0)" by code_simp
  then show ?thesis unfolding demo_gantt_def by (cases "gantt_of demo_graph 0") simp_all
qed

lemma demo_nodes: "length (pg_nodes demo_graph) = 3"
  by code_simp

end
