(* ===== verification/PlanProps.thy ===== *)
theory PlanProps
  imports PlanLoad
begin

text \<open>
  The properties of the planner (\<open>src/src/plan.rs\<close>), each over the definitions of \<open>PlanSpec\<close>,
  \<open>PlanGraph\<close>, \<open>PlanGantt\<close>, \<open>PlanReady\<close>, \<open>PlanCreate\<close> and \<open>PlanLoad\<close>, applied to the
  demonstration plan.
\<close>

section \<open>Plans as written\<close>

text \<open>
  C15. Validation of a plan always ends, and accepts a plan exactly when it is well formed: a name, a
  project and a node; every node with a key, a title, a known risk and a positive estimate; keys
  distinct; dependencies on keys of the plan only; and no dependency cycle. In particular the
  depth-first search with colours finds a cycle exactly when there is one.
\<close>

theorem validation_exact:
  "\<exists>r. validate plan = Some r \<and> (r = Inr () \<longleftrightarrow> plan_ok plan)"
  by (rule validate_exact)

text \<open>
  C16. Creating a valid plan whose name is free, over registered projects, cannot fail once its id
  draws suffice: every node becomes an issue that did not exist before, open, carrying the node's
  metadata and available at once; the report lists the nodes and edges of the plan under the new
  ids; and the dependency edges of the store are the old ones and exactly the plan's.
\<close>

theorem create_plan_complete:
  assumes "db_reachable s" and "plan_ok plan" and "plan_members plan s = []"
    and "\<forall>n \<in> set (rp_nodes plan). \<exists>prefix. prefix_for s (node_project plan n) = Inr prefix"
    and "plan_create plan draws ts actor s = Some (r, s')"
  shows "\<exists>id_of. r = Inr \<lparr>rep_plan = rp_plan plan, rep_project = rp_project plan,
        rep_nodes = map (created_of plan id_of) (rp_nodes plan),
        rep_edges = map (\<lambda>(k, d). (id_of k, id_of d)) (dep_pairs plan)\<rparr> \<and>
      inj_on id_of (ns_key ` set (rp_nodes plan)) \<and>
      (\<forall>n \<in> set (rp_nodes plan). find_issue s (id_of (ns_key n)) = None \<and>
         (\<exists>row. find_issue s' (id_of (ns_key n)) = Some row \<and> ir_status row = ''open'' \<and>
            ir_metadata row = metadata_for plan n \<and> ir_available_at row = Some ts)) \<and>
      set (db_deps s') = set (db_deps s) \<union> (\<lambda>(k, d). (id_of k, id_of d)) ` plan_edges plan"
proof -
  have "deps_ok s" using db_reachable_ok [OF assms(1)] by (simp add: db_ok_def)
  from create_succeeds [OF this assms(2-5)] obtain km s1 where
    r: "r = Inr \<lparr>rep_plan = rp_plan plan, rep_project = rp_project plan,
        rep_nodes = map (\<lambda>n. created_of plan (\<lambda>k. the (km k)) n) (rp_nodes plan),
        rep_edges = map (\<lambda>(k, d). (the (km k), the (km d))) (dep_pairs plan)\<rparr>"
    and made: "nodes_made plan ts actor (rp_nodes plan) km s s1" "\<forall>j. find_issue s' j = find_issue s1 j"
    and deps: "set (db_deps s') = set (db_deps s) \<union> (\<lambda>(k, d). (the (km k), the (km d))) ` plan_edges plan"
    by blast
  have row: "km (ns_key n) = Some (the (km (ns_key n))) \<and> find_issue s (the (km (ns_key n))) = None \<and>
      find_issue s' (the (km (ns_key n))) = Some (new_row (node_issue plan ts actor n) (the (km (ns_key n)))
        (node_project plan n) (metadata_for plan n) ts ts)" if "n \<in> set (rp_nodes plan)" for n
    using made that unfolding nodes_made_def by force
  then have "inj_on (\<lambda>k. the (km k)) (ns_key ` set (rp_nodes plan))"
    using made(1) unfolding nodes_made_def inj_on_def by (metis (no_types, lifting) image_iff)
  then show ?thesis using r deps row by (intro exI [of _ "\<lambda>k. the (km k)"]) (simp add: new_row_def)
qed

theorem create_plan_complete_witness:
  "plan_ok demo_plan \<and> (\<exists>id_of. fst demo_created = Inr \<lparr>rep_plan = ''pl'', rep_project = ''p'',
        rep_nodes = map (created_of demo_plan id_of) (rp_nodes demo_plan),
        rep_edges = map (\<lambda>(k, d). (id_of k, id_of d)) (dep_pairs demo_plan)\<rparr>) \<and>
    db_deps (snd demo_created) =
      [(''b'', ''a''), (''p-cccc'', ''p-aaaa''), (''p-cccc'', ''p-bbbb'')]"
proof -
  have "validate demo_plan = Some (Inr ())" by code_simp
  then have ok: "plan_ok demo_plan" using validate_exact [of demo_plan] by simp
  have free: "plan_members demo_plan demo0 = []" by code_simp
  have "\<forall>n \<in> set (rp_nodes demo_plan). prefix_for demo0 (node_project demo_plan n) = Inr ''p''" by code_simp
  then have known: "\<forall>n \<in> set (rp_nodes demo_plan). \<exists>prefix. prefix_for demo0 (node_project demo_plan n) = Inr prefix"
    by blast
  have "plan_create demo_plan demo_draws 2000 ''me'' demo0 = Some (fst demo_created, snd demo_created)"
    using demo_created_run by simp
  from create_plan_complete [OF demo0_reachable ok free known this] obtain id_of where
    "fst demo_created = Inr \<lparr>rep_plan = rp_plan demo_plan, rep_project = rp_project demo_plan,
        rep_nodes = map (created_of demo_plan id_of) (rp_nodes demo_plan),
        rep_edges = map (\<lambda>(k, d). (id_of k, id_of d)) (dep_pairs demo_plan)\<rparr>" by blast
  moreover have "rp_plan demo_plan = ''pl''" "rp_project demo_plan = ''p''" by (simp_all add: demo_plan_def)
  moreover have "db_deps (snd demo_created) =
      [(''b'', ''a''), (''p-cccc'', ''p-aaaa''), (''p-cccc'', ''p-bbbb'')]" by code_simp
  ultimately show ?thesis using ok by metis
qed

text \<open>
  C17. What \<open>create\<close> wrote is what \<open>load\<close> finds: a plan just created loads, its nodes are exactly the
  issues the creation reported, and, the store holding no dependency cycle, its topological order
  and its chart exist.
\<close>

theorem created_plan_loads:
  assumes "db_reachable s" and "plan_ok plan" and "plan_members plan s = []"
    and "\<forall>n \<in> set (rp_nodes plan). \<exists>prefix. prefix_for s (node_project plan n) = Inr prefix"
    and "plan_create plan draws ts actor s = Some (r, s')"
  shows "\<exists>g report order gt. load s' (rp_plan plan) = Inr g \<and> r = Inr report \<and>
    i_id ` set (pg_nodes g) = cn_id ` set (rep_nodes report) \<and>
    topo g = Inr order \<and> gantt_of g now = Inr gt"
proof -
  have reach: "db_reachable s'" using plan_create_reachable [OF assms(1,5)] .
  have "deps_ok s" using db_reachable_ok [OF assms(1)] by (simp add: db_ok_def)
  from create_succeeds [OF this assms(2-5)] obtain km s1 where
    r: "r = Inr \<lparr>rep_plan = rp_plan plan, rep_project = rp_project plan,
        rep_nodes = map (\<lambda>n. created_of plan (\<lambda>k. the (km k)) n) (rp_nodes plan),
        rep_edges = map (\<lambda>(k, d). (the (km k), the (km d))) (dep_pairs plan)\<rparr>"
    and made: "nodes_made plan ts actor (rp_nodes plan) km s s1" "\<forall>j. find_issue s' j = find_issue s1 j"
    by blast
  have members: "i_id ` set (plan_members plan s') = (\<lambda>n. the (km (ns_key n))) ` set (rp_nodes plan)"
    by (rule created_members [OF reach assms(3,1) made])
  moreover have "rp_nodes plan \<noteq> []" using assms(2) by (simp add: plan_ok_def)
  ultimately have ne: "plan_members plan s' \<noteq> []" by auto
  have ac: "acyclic (set (db_deps s'))" using db_reachable_ok [OF reach] by (simp add: db_ok_def deps_ok_def)
  obtain g where g: "load s' (rp_plan plan) = Inr g" "pg_nodes g = sort_key plan_order (plan_members plan s')"
    using load_cases [OF ac, of "rp_plan plan"] ne by (simp add: plan_members_def)
  obtain order where o: "topo g = Inr order"
    using g(1) by (auto simp: load_def load_from_def Let_def split: if_splits sum.splits)
  then obtain gt where "gantt_of g now = Inr gt" using gantt_of_Inl [of g now] by (cases "gantt_of g now") auto
  moreover have "i_id ` set (pg_nodes g) = cn_id ` set (map (\<lambda>n. created_of plan (\<lambda>k. the (km k)) n) (rp_nodes plan))"
    using members by (simp add: g(2) image_image created_of_def)
  ultimately show ?thesis using g(1) o r by (intro exI conjI) (assumption | simp)+
qed

theorem created_plan_loads_witness:
  "\<exists>report. fst demo_created = Inr report \<and>
    i_id ` set (pg_nodes demo_graph) = cn_id ` set (rep_nodes report) \<and>
    map i_id (pg_nodes demo_graph) = [''p-aaaa'', ''p-bbbb'', ''p-cccc'']"
proof -
  have "validate demo_plan = Some (Inr ())" by code_simp
  then have ok: "plan_ok demo_plan" using validate_exact [of demo_plan] by simp
  have free: "plan_members demo_plan demo0 = []" by code_simp
  have "\<forall>n \<in> set (rp_nodes demo_plan). prefix_for demo0 (node_project demo_plan n) = Inr ''p''" by code_simp
  then have known: "\<forall>n \<in> set (rp_nodes demo_plan). \<exists>prefix. prefix_for demo0 (node_project demo_plan n) = Inr prefix"
    by blast
  have "plan_create demo_plan demo_draws 2000 ''me'' demo0 = Some (fst demo_created, snd demo_created)"
    using demo_created_run by simp
  from created_plan_loads [OF demo0_reachable ok free known this, of 0] demo_load
  obtain report where "fst demo_created = Inr report"
    "i_id ` set (pg_nodes demo_graph) = cn_id ` set (rep_nodes report)" by (auto simp: demo_plan_def)
  moreover have "map i_id (pg_nodes demo_graph) = [''p-aaaa'', ''p-bbbb'', ''p-cccc'']" by code_simp
  ultimately show ?thesis by (intro exI [of _ report] conjI)
qed

section \<open>The order and the schedule\<close>

text \<open>
  C18. The topological order is one, and exists exactly when the plan has no cycle: then it lists every
  node position once and each node after everything it waits for; otherwise \<open>topo\<close> reports the
  cycle. It never panics: no in-degree goes below zero and no index is out of range.
\<close>

theorem topo_exact:
  "(topo g = Inl (Bad (PlanCycle (pg_plan g))) \<and> \<not> acyclic (set (edge_list g))) \<or>
   (\<exists>order. topo g = Inr order \<and> acyclic (set (edge_list g)) \<and>
      mset order = mset [0..<length (pg_nodes g)] \<and>
      (\<forall>k < length order. set (preds g (order ! k)) \<subseteq> set (take k order)))"
proof (cases rule: topo_cases [of g])
  case (ordered order)
  have "set order = set [0..<length (pg_nodes g)]" using ordered(3) by (simp add: atLeast0LessThan)
  then have "mset order = mset [0..<length (pg_nodes g)]"
    using set_eq_iff_mset_eq_distinct [OF ordered(2) distinct_upt] by blast
  moreover have "set (preds g (order ! k)) \<subseteq> set (take k order)" if k: "k < length order" for k
  proof
    fix p assume p: "p \<in> set (preds g (order ! k))"
    have "order ! k < length (pg_nodes g)" using ordered(3) nth_mem [OF k] by auto
    then have "(p, order ! k) \<in> set (edge_list g)" using p by (simp add: set_edge_list)
    then have "p \<in> {} \<union> set (take k order)"
      using in_topo_split [of _ "{}" "take k order" "order ! k" "drop (Suc k) order"] ordered(4) k
      by (simp add: id_take_nth_drop [symmetric])
    then show "p \<in> set (take k order)" by simp
  qed
  ultimately show ?thesis using ordered(1,5) by blast
qed blast

theorem topo_exact_witness:
  "topo demo_graph = Inr [0, 1, 2] \<and> preds demo_graph 2 = [0, 1] \<and> acyclic (set (edge_list demo_graph))"
proof -
  have "topo demo_graph = Inr [0, 1, 2]" "preds demo_graph 2 = [0, 1]" by code_simp+
  with topo_exact [of demo_graph] show ?thesis by auto
qed



text \<open>
  Slack is exactly the room to slip. Starting every node at its start plus its slack is still a
  valid schedule within the same makespan, and in every valid schedule within it no node starts
  later than that; slack is never negative.
\<close>

theorem gantt_slack_exact:
  assumes "gantt_of g now = Inr gt"
  defines "late \<equiv> \<lambda>i. gn_start_min (gt_nodes gt ! i) + gn_slack_min (gt_nodes gt ! i)"
  shows "valid_schedule g late \<and>
    (\<forall>i < length (pg_nodes g). 0 \<le> gn_slack_min (gt_nodes gt ! i) \<and>
       late i + durations g ! i \<le> gt_total_minutes gt) \<and>
    (\<forall>S i. valid_schedule g S \<longrightarrow>
       (\<forall>j < length (pg_nodes g). S j + durations g ! j \<le> gt_total_minutes gt) \<longrightarrow>
       i < length (pg_nodes g) \<longrightarrow> S i \<le> late i)"
proof (rule gantt_of_Inr [OF assms(1)], goal_cases)
  case (1 order start finish latest chain)
  obtain o: "set order = {..<length (pg_nodes g)}" using 1(1) by (cases rule: topo_cases [of g]) auto
  have late: "late i = latest ! i - durations g ! i" if "i < length (pg_nodes g)" for i
    using 1(16) that unfolding late_def by (metis add_diff_cancel_left' add_diff_eq diff_diff_eq)
  have "valid_schedule g late" unfolding valid_schedule_def
  proof (intro allI impI conjI ballI)
    fix i assume i: "i < length (pg_nodes g)"
    have "0 \<le> gn_start_min (gt_nodes gt ! i)" using 1(3,16) i by (simp add: valid_schedule_def)
    moreover have "0 \<le> gn_slack_min (gt_nodes gt ! i)" using 1(16) i by blast
    ultimately show "0 \<le> late i" unfolding late_def by (rule add_nonneg_nonneg)
    fix p assume p: "p \<in> set (preds g i)"
    have "latest ! p \<le> latest ! i - durations g ! i" using 1(8) i p by blast
    then show "late p + durations g ! p \<le> late i" using late [OF i] late [OF preds_bound [OF p]] by simp
  qed
  moreover have "late i + durations g ! i \<le> gt_total_minutes gt" if "i < length (pg_nodes g)" for i
    using late [OF that] 1(6,16) that by simp
  moreover have "S i \<le> late i" if "valid_schedule g S"
      "\<forall>j < length (pg_nodes g). S j + durations g ! j \<le> gt_total_minutes gt" "i < length (pg_nodes g)" for S i
    using backward_greatest [OF o that] late [OF that(3)] 1(5) by simp
  ultimately show ?thesis using 1(16) by blast
qed

theorem gantt_slack_exact_witness:
  "map gn_slack_min (gt_nodes demo_gantt) = [10, 0, 0] \<and>
   valid_schedule demo_graph (\<lambda>i. gn_start_min (gt_nodes demo_gantt ! i) + gn_slack_min (gt_nodes demo_gantt ! i))"
proof -
  have "map gn_slack_min (gt_nodes demo_gantt) = [10, 0, 0]" by code_simp
  with gantt_slack_exact [OF demo_chart] show ?thesis by blast
qed



text \<open>
  The peak concurrency of a chart is what it says: the number of scheduled intervals that contain
  one minute never exceeds it, and some minute reaches it.
\<close>

theorem peak_concurrency_exact:
  assumes "gantt_of g now = Inr gt"
  defines "at \<equiv> \<lambda>t. length (filter (\<lambda>nd. gn_start_min nd \<le> t \<and> t < gn_finish_min nd) (gt_nodes gt))"
  shows "(\<forall>t. at t \<le> gt_peak_concurrency gt) \<and> (\<exists>t. at t = gt_peak_concurrency gt)"
proof (rule gantt_of_Inr [OF assms(1)], goal_cases)
  case (1 order start finish latest chain)
  have lt: "\<forall>i < length (pg_nodes g). start ! i < finish ! i" using 1(16) durations_pos [of _ g] by auto
  have "at t = overlap (length (pg_nodes g)) start finish t" for t
  proof -
    have "gt_nodes gt = map ((!) (gt_nodes gt)) [0..<length (pg_nodes g)]" using 1(15) by (metis map_nth)
    then have "at t = length (filter (\<lambda>i. gn_start_min (gt_nodes gt ! i) \<le> t \<and> t < gn_finish_min (gt_nodes gt ! i))
        [0..<length (pg_nodes g)])"
      unfolding at_def by (metis (no_types, lifting) comp_def filter_cong filter_map length_map)
    also have "\<dots> = overlap (length (pg_nodes g)) start finish t"
      unfolding overlap_def using 1(16) by (intro arg_cong [where f = length] filter_cong) auto
    finally show ?thesis .
  qed
  moreover obtain t where "int (overlap (length (pg_nodes g)) start finish t) = peak_of (length (pg_nodes g)) start finish"
    using peak_exact(2) [OF lt] by blast
  moreover have "int (overlap (length (pg_nodes g)) start finish t) \<le> peak_of (length (pg_nodes g)) start finish" for t
    by (rule peak_exact(1) [OF lt])
  ultimately show ?thesis using 1(7) by (metis nat_int nat_mono)
qed

theorem peak_concurrency_exact_witness:
  "gt_peak_concurrency demo_gantt = 2 \<and>
   (\<exists>t. length (filter (\<lambda>nd. gn_start_min nd \<le> t \<and> t < gn_finish_min nd) (gt_nodes demo_gantt)) = 2)"
proof -
  have "gt_peak_concurrency demo_gantt = 2" by code_simp
  with peak_concurrency_exact [OF demo_chart] show ?thesis by simp
qed

section \<open>The frontier\<close>

text \<open>
  C21. The ready frontier. Every node of the plan is reported exactly once, ready or blocked. A ready
  node is open, without a live claim, past its grace, with every dependency closed, and its conflict
  group has no node in progress; two different ready nodes never share a group; and a node that
  waits for nothing of its own is left out only because its group is busy or has a node in the
  frontier already.
\<close>

theorem frontier_exact:
  assumes "plan_ready g now = Inr v"
  shows "\<exists>rdy. rv_ready v = map (\<lambda>i. node_view_of g (pg_nodes g ! i)) rdy \<and>
    mset (map nv_id (rv_ready v) @ map bn_id (rv_blocked v)) = mset (map i_id (pg_nodes g)) \<and>
    (\<forall>i \<in> set rdy. i < length (pg_nodes g) \<and> eligible g now i \<and>
       (\<forall>grp. group_at g i = Some grp \<longrightarrow> \<not> busy g grp)) \<and>
    (\<forall>j < length rdy. \<forall>i < j. group_at g (rdy ! i) \<noteq> None \<longrightarrow> group_at g (rdy ! i) \<noteq> group_at g (rdy ! j)) \<and>
    (\<forall>i < length (pg_nodes g). eligible g now i \<longrightarrow> i \<notin> set rdy \<longrightarrow>
       (\<exists>grp. group_at g i = Some grp \<and> (busy g grp \<or> (\<exists>j \<in> set rdy. group_at g j = Some grp))))"
proof -
  obtain order where o: "topo g = Inr order" using assms by (cases "topo g") (auto simp: plan_ready_def)
  obtain rdy blocked where r: "ready_nodes g now order = (rdy, blocked)" by fastforce
  have v: "rv_ready v = map (\<lambda>i. node_view_of g (pg_nodes g ! i)) rdy" "rv_blocked v = blocked"
    using assms by (auto simp: plan_ready_def o r)
  obtain so: "distinct order" "set order = {..<length (pg_nodes g)}" using o by (cases rule: topo_cases [of g]) auto
  note x = ready_nodes_exact [OF r]
  have "set order = set [0..<length (pg_nodes g)]" using so(2) by (simp add: atLeast0LessThan)
  then have "mset order = mset [0..<length (pg_nodes g)]"
    using set_eq_iff_mset_eq_distinct [OF so(1) distinct_upt] by blast
  then have "mset (map (\<lambda>i. i_id (pg_nodes g ! i)) order) = mset (map (\<lambda>i. i_id (pg_nodes g ! i)) [0..<length (pg_nodes g)])"
    unfolding mset_map by simp
  also have "map (\<lambda>i. i_id (pg_nodes g ! i)) [0..<length (pg_nodes g)] = map i_id (pg_nodes g)"
    by (rule nth_equalityI) simp_all
  finally have "mset (map nv_id (rv_ready v) @ map bn_id (rv_blocked v)) = mset (map i_id (pg_nodes g))"
    using x(5) by (simp add: v node_view_of_def comp_def)
  moreover have "\<forall>j < length rdy. \<forall>i < j. group_at g (rdy ! i) \<noteq> None \<longrightarrow> group_at g (rdy ! i) \<noteq> group_at g (rdy ! j)"
  proof (intro allI impI)
    fix j i assume "j < length rdy" "i < j" and some: "group_at g (rdy ! i) \<noteq> None"
    from sorted_wrt_nth_less [OF x(2) this(2, 1)] some
    show "group_at g (rdy ! i) \<noteq> group_at g (rdy ! j)" by blast
  qed
  moreover have "\<forall>i \<in> set rdy. i < length (pg_nodes g) \<and> eligible g now i \<and>
       (\<forall>grp. group_at g i = Some grp \<longrightarrow> \<not> busy g grp)"
    using x(1,3) so(2) by blast
  moreover have "\<forall>i < length (pg_nodes g). eligible g now i \<longrightarrow> i \<notin> set rdy \<longrightarrow>
       (\<exists>grp. group_at g i = Some grp \<and> (busy g grp \<or> (\<exists>j \<in> set rdy. group_at g j = Some grp)))"
    using x(4) so(2) by blast
  ultimately show ?thesis using v(1) by (intro exI [of _ rdy]) blast
qed

theorem frontier_exact_witness:
  "\<exists>v. plan_ready demo_graph 2000 = Inr v \<and> map nv_id (rv_ready v) = [''p-aaaa''] \<and>
    mset (map nv_id (rv_ready v) @ map bn_id (rv_blocked v)) = {#''p-aaaa'', ''p-bbbb'', ''p-cccc''#}"
proof -
  have "\<not> isl (plan_ready demo_graph 2000)" by code_simp
  then obtain v where v: "plan_ready demo_graph 2000 = Inr v" by (cases "plan_ready demo_graph 2000") auto
  have "map nv_id (rv_ready (projr (plan_ready demo_graph 2000))) = [''p-aaaa'']"
    "map i_id (pg_nodes demo_graph) = [''p-aaaa'', ''p-bbbb'', ''p-cccc'']" by code_simp+
  with frontier_exact [OF v] v show ?thesis by (intro exI [of _ v]) auto
qed

text \<open>
  What the frontier promises one dispatcher does not survive its claim. In the demonstration store
  the frontier offers \<open>p-aaaa\<close> alone, of the two nodes of group \<open>g\<close> that wait for nothing; an
  agent claims it and holds a live lease on it; the frontier then offers \<open>p-bbbb\<close>, of the same
  group, because a claim leaves the status at \<open>open\<close> and only a node in progress makes its group
  busy.
\<close>

theorem claimed_group_still_offered:
  "let s = snd demo_created;
       claimed = snd (claim \<lparr>cr_id = ''p-aaaa'', cr_assignee = ''w'', cr_actor_kind = Agent, cr_ttl_seconds = Some 600\<rparr> 2000 s);
       offers = (\<lambda>s. map (\<lambda>v. (nv_id v, nv_conflict_group v)) (rv_ready (projr (plan_ready (projr (load s ''pl'')) 2001))))
   in offers s = [(''p-aaaa'', Some ''g'')] \<and> holder claimed ''p-aaaa'' = Some (''w'', 2600) \<and>
      offers claimed = [(''p-bbbb'', Some ''g'')]"
  by code_simp

end
