(* ===== verification/Identity.thy ===== *)
theory Identity
  imports Json
begin

text \<open>
  \<open>src/src/identity.rs\<close>, first half: a store's named Ed25519 keys, its signed descriptor, the pin a
  verifier keeps of it, and key rotation with an overlap window. OpenSSL, base64, the JSON and TOML
  serializers and the random source are parameters. The locale \<open>key_ring\<close> is the contract of a
  rotation; the store's identity provides it here and a verifier's pin in \<open>Registry\<close>.
\<close>

section \<open>What the code takes from its libraries\<close>

text \<open>
  \<open>json_vec\<close> is \<open>serde_json::to_vec\<close> on a value whose fields are in the declared order of the
  struct; \<open>b64\<close> is the unpadded URL-safe alphabet; \<open>public_ok\<close> tells whether
  \<open>public_key_from_raw_bytes\<close> accepts the bytes; \<open>ed_sign\<close> takes a private key as the identity
  file stores it.
\<close>

record codec =
  json_vec :: "json \<Rightarrow> string"
  b64_encode :: "string \<Rightarrow> string"
  b64_decode :: "string \<Rightarrow> string option"
  public_ok :: "string \<Rightarrow> bool"
  ed_verify :: "string \<Rightarrow> string \<Rightarrow> string \<Rightarrow> bool"
  ed_sign :: "string \<Rightarrow> string \<Rightarrow> string option"

definition sat_add :: "int \<Rightarrow> int \<Rightarrow> int" where
  "sat_add a b = max i64_min (min i64_max (a + b))"

datatype sig_problem = SigMissing | SigMalformed | SigCrypto | SigBad

text \<open>The tail of every verification: decode, build the key, check the bytes.\<close>

definition check_signature :: "codec \<Rightarrow> string option \<Rightarrow> string \<Rightarrow> string \<Rightarrow> sig_problem option" where
  "check_signature c signature public_key bytes =
     (case signature of
        None \<Rightarrow> Some SigMissing
      | Some text \<Rightarrow>
          (case b64_decode c text of
             None \<Rightarrow> Some SigMalformed
           | Some raw \<Rightarrow>
               (case b64_decode c public_key of
                  None \<Rightarrow> Some SigMalformed
                | Some pub \<Rightarrow>
                    if \<not> public_ok c pub then Some SigCrypto
                    else if ed_verify c pub raw bytes then None else Some SigBad)))"

definition good_signature :: "codec \<Rightarrow> string option \<Rightarrow> string \<Rightarrow> string \<Rightarrow> bool" where
  "good_signature c signature public_key bytes \<longleftrightarrow> check_signature c signature public_key bytes = None"

lemma good_signature_iff:
  "good_signature c signature public_key bytes \<longleftrightarrow>
    (\<exists>text raw pub. signature = Some text \<and> b64_decode c text = Some raw \<and>
       b64_decode c public_key = Some pub \<and> public_ok c pub \<and> ed_verify c pub raw bytes)"
  by (auto simp: good_signature_def check_signature_def split: option.splits)

section \<open>Keys, identities, descriptors\<close>

record identity_key =
  ik_key_id :: string
  ik_public_key :: string
  ik_private_key :: string
  ik_created_at :: time
  ik_retired_at :: "time option"

record rotation_record =
  ro_old_key_id :: string
  ro_new_key_id :: string
  ro_rotated_at :: time
  ro_overlap_until :: time

record store_identity =
  si_version :: int
  si_store_id :: string
  si_display_name :: string
  si_endpoint :: "string option"
  si_capabilities :: "string list"
  si_issued_at :: time
  si_active_key_id :: string
  si_keys :: "identity_key list"
  si_rotations :: "rotation_record list"

record store_descriptor =
  sd_schema :: string
  sd_store_id :: string
  sd_display_name :: string
  sd_endpoint :: "string option"
  sd_key_id :: string
  sd_public_key :: string
  sd_capabilities :: "string list"
  sd_issued_at :: time
  sd_signature :: "string option"

record pinned_key =
  pk_store_id :: string
  pk_key_id :: string
  pk_public_key :: string
  pk_valid_until :: "time option"

record init_options =
  io_display_name :: string
  io_endpoint :: "string option"
  io_capabilities :: "string list"

datatype identity_error =
    IdNotFound
  | IdRead
  | IdWrite
  | IdParse
  | IdUnknownKey string
  | IdEmptyStoreId
  | IdWrongSchema string
  | IdStoreMismatch string string
  | IdKeyMismatch string string
  | IdPublicKeyMismatch string
  | IdKeyRetired string time
  | IdUnsignedDescriptor
  | IdMalformedSignature
  | IdBadSignature string
  | IdCrypto
  | IdJson

definition DESCRIPTOR_SCHEMA :: string where "DESCRIPTOR_SCHEMA = ''marbles.store/1''"
definition IDENTITY_FILE_VERSION :: int where "IDENTITY_FILE_VERSION = 1"
definition DEFAULT_OVERLAP_SECONDS :: int where "DEFAULT_OVERLAP_SECONDS = 24 * 60 * 60"
definition DEFAULT_CAPABILITIES :: "string list" where
  "DEFAULT_CAPABILITIES = [''issues'', ''claims'', ''plans'']"

definition init_options_new :: "string \<Rightarrow> init_options" where
  "init_options_new name =
     \<lparr>io_display_name = name, io_endpoint = None, io_capabilities = DEFAULT_CAPABILITIES\<rparr>"

definition optional_field :: "string \<Rightarrow> string option \<Rightarrow> (string \<times> json) list" where
  "optional_field name v = (case v of None \<Rightarrow> [] | Some s \<Rightarrow> [(name, JStr s)])"

definition descriptor_fields :: "store_descriptor \<Rightarrow> json" where
  "descriptor_fields d = JObj
     ([(''schema'', JStr (sd_schema d)), (''store_id'', JStr (sd_store_id d)),
       (''display_name'', JStr (sd_display_name d))] @ optional_field ''endpoint'' (sd_endpoint d) @
      [(''key_id'', JStr (sd_key_id d)), (''public_key'', JStr (sd_public_key d)),
       (''capabilities'', JArr (map JStr (sd_capabilities d))), (''issued_at'', JInt (sd_issued_at d))] @
      optional_field ''signature'' (sd_signature d))"

definition descriptor_signing_bytes :: "codec \<Rightarrow> store_descriptor \<Rightarrow> string" where
  "descriptor_signing_bytes c d = json_vec c (descriptor_fields (d\<lparr>sd_signature := None\<rparr>))"

section \<open>Creating, loading, signing\<close>

definition key_name :: "string \<Rightarrow> nat \<Rightarrow> string" where
  "key_name store_id ordinal = store_id @ ''/key-'' @ show_nat ordinal"

text \<open>\<open>IdentityKey::generate\<close>; the fresh key pair, encoded, is an input.\<close>

definition generate_key :: "string \<times> string \<Rightarrow> string \<Rightarrow> nat \<Rightarrow> time \<Rightarrow> identity_key" where
  "generate_key pair store_id ordinal now =
     \<lparr>ik_key_id = key_name store_id ordinal, ik_public_key = fst pair, ik_private_key = snd pair,
      ik_created_at = now, ik_retired_at = None\<rparr>"

definition hex_byte :: "8 word \<Rightarrow> string" where
  "hex_byte b = map (\<lambda>n. ''0123456789abcdef'' ! n) [unat b div 16, unat b mod 16]"

definition new_store_id :: "8 word list \<Rightarrow> string" where
  "new_store_id bytes = ''store_'' @ concat (map hex_byte bytes)"

definition create_identity :: "8 word list \<Rightarrow> string \<times> string \<Rightarrow> init_options \<Rightarrow> time \<Rightarrow> store_identity" where
  "create_identity bytes pair opts now =
     (let store_id = new_store_id bytes; key = generate_key pair store_id 1 now in
      \<lparr>si_version = IDENTITY_FILE_VERSION, si_store_id = store_id,
       si_display_name = io_display_name opts, si_endpoint = io_endpoint opts,
       si_capabilities = io_capabilities opts, si_issued_at = now,
       si_active_key_id = ik_key_id key, si_keys = [key], si_rotations = []\<rparr>)"

text \<open>A file as \<open>read_to_string\<close> sees it.\<close>

datatype file_text = NoFile | BadFile | Text string

definition load_identity :: "(string \<Rightarrow> store_identity option) \<Rightarrow> file_text \<Rightarrow> identity_error + store_identity" where
  "load_identity parse file =
     (case file of
        NoFile \<Rightarrow> Inl IdNotFound
      | BadFile \<Rightarrow> Inl IdRead
      | Text text \<Rightarrow>
          (case parse text of
             None \<Rightarrow> Inl IdParse
           | Some identity \<Rightarrow>
               if trim (si_store_id identity) = [] then Inl IdEmptyStoreId else Inr identity))"

text \<open>\<open>fresh\<close> is the identity that \<open>create\<close> would make; \<open>writable\<close> whether \<open>save\<close> succeeds.\<close>

definition load_or_init ::
  "(string \<Rightarrow> store_identity option) \<Rightarrow> (store_identity \<Rightarrow> string) \<Rightarrow> bool \<Rightarrow> store_identity \<Rightarrow>
    file_text \<Rightarrow> (identity_error + store_identity) \<times> file_text" where
  "load_or_init parse render writable fresh file =
     (case load_identity parse file of
        Inr identity \<Rightarrow> (Inr identity, file)
      | Inl e \<Rightarrow>
          if e = IdNotFound then
            (if writable then (Inr fresh, Text (render fresh)) else (Inl IdWrite, file))
          else (Inl e, file))"

definition find_key :: "store_identity \<Rightarrow> string \<Rightarrow> identity_key option" where
  "find_key si key_id = find (\<lambda>k. ik_key_id k = key_id) (si_keys si)"

definition active_key :: "store_identity \<Rightarrow> identity_error + identity_key" where
  "active_key si =
     (case find_key si (si_active_key_id si) of
        None \<Rightarrow> Inl (IdUnknownKey (si_active_key_id si))
      | Some k \<Rightarrow> Inr k)"

definition unsigned_descriptor :: "store_identity \<Rightarrow> identity_key \<Rightarrow> time \<Rightarrow> store_descriptor" where
  "unsigned_descriptor si key now =
     \<lparr>sd_schema = DESCRIPTOR_SCHEMA, sd_store_id = si_store_id si,
      sd_display_name = si_display_name si, sd_endpoint = si_endpoint si,
      sd_key_id = ik_key_id key, sd_public_key = ik_public_key key,
      sd_capabilities = si_capabilities si, sd_issued_at = now, sd_signature = None\<rparr>"

definition descriptor :: "codec \<Rightarrow> store_identity \<Rightarrow> time \<Rightarrow> identity_error + store_descriptor" where
  "descriptor c si now =
     (case active_key si of
        Inl e \<Rightarrow> Inl e
      | Inr key \<Rightarrow>
          (let d = unsigned_descriptor si key now in
           case ed_sign c (ik_private_key key) (descriptor_signing_bytes c d) of
             None \<Rightarrow> Inl IdCrypto
           | Some s \<Rightarrow> Inr (d\<lparr>sd_signature := Some (b64_encode c s)\<rparr>)))"

definition pin_of :: "store_identity \<Rightarrow> string \<Rightarrow> identity_error + pinned_key" where
  "pin_of si key_id =
     (case find_key si key_id of
        None \<Rightarrow> Inl (IdUnknownKey key_id)
      | Some k \<Rightarrow> Inr \<lparr>pk_store_id = si_store_id si, pk_key_id = ik_key_id k,
                     pk_public_key = ik_public_key k, pk_valid_until = ik_retired_at k\<rparr>)"

definition active_pin :: "store_identity \<Rightarrow> identity_error + pinned_key" where
  "active_pin si = pin_of si (si_active_key_id si)"

definition retired :: "time option \<Rightarrow> time \<Rightarrow> bool" where
  "retired valid_until now \<longleftrightarrow> (case valid_until of None \<Rightarrow> False | Some e \<Rightarrow> e \<le> now)"

definition verify_descriptor ::
  "codec \<Rightarrow> store_descriptor \<Rightarrow> pinned_key \<Rightarrow> time \<Rightarrow> identity_error + store_descriptor" where
  "verify_descriptor c d pin now =
     (if sd_schema d \<noteq> DESCRIPTOR_SCHEMA then Inl (IdWrongSchema (sd_schema d))
      else if pk_store_id pin = [] \<or> sd_store_id d \<noteq> pk_store_id pin then
        Inl (IdStoreMismatch (pk_store_id pin) (sd_store_id d))
      else if sd_key_id d \<noteq> pk_key_id pin then Inl (IdKeyMismatch (pk_key_id pin) (sd_key_id d))
      else if sd_public_key d \<noteq> pk_public_key pin then Inl (IdPublicKeyMismatch (pk_key_id pin))
      else if retired (pk_valid_until pin) now then
        Inl (IdKeyRetired (pk_key_id pin) (case pk_valid_until pin of None \<Rightarrow> 0 | Some e \<Rightarrow> e))
      else (case check_signature c (sd_signature d) (sd_public_key d) (descriptor_signing_bytes c d) of
              None \<Rightarrow> Inr d
            | Some SigMissing \<Rightarrow> Inl IdUnsignedDescriptor
            | Some SigMalformed \<Rightarrow> Inl IdMalformedSignature
            | Some SigCrypto \<Rightarrow> Inl IdCrypto
            | Some SigBad \<Rightarrow> Inl (IdBadSignature (sd_key_id d))))"

text \<open>The store's own check of descriptor text.\<close>

definition verify_own ::
  "codec \<Rightarrow> (string \<Rightarrow> store_descriptor option) \<Rightarrow> store_identity \<Rightarrow> string \<Rightarrow> time \<Rightarrow>
    identity_error + store_descriptor" where
  "verify_own c from_json si text now =
     (case from_json text of
        None \<Rightarrow> Inl IdJson
      | Some d \<Rightarrow>
          (case pin_of si (sd_key_id d) of
             Inl e \<Rightarrow> Inl e
           | Inr pin \<Rightarrow> verify_descriptor c d pin now))"

section \<open>Rotation\<close>

definition retire_key :: "string \<Rightarrow> time \<Rightarrow> identity_key \<Rightarrow> identity_key" where
  "retire_key key_id overlap_until k =
     (if ik_key_id k = key_id
      then k\<lparr>ik_retired_at := Some (case ik_retired_at k of
              Some existing \<Rightarrow> min existing overlap_until | None \<Rightarrow> overlap_until)\<rparr>
      else k)"

definition rotate_identity ::
  "string \<times> string \<Rightarrow> time \<Rightarrow> int \<Rightarrow> store_identity \<Rightarrow> (identity_error + rotation_record) \<times> store_identity" where
  "rotate_identity pair now overlap_seconds si =
     (case active_key si of
        Inl e \<Rightarrow> (Inl e, si)
      | Inr old_key \<Rightarrow>
          (let overlap_until = sat_add now (max overlap_seconds 0);
               new_key = generate_key pair (si_store_id si) (length (si_keys si) + 1) now;
               rec = \<lparr>ro_old_key_id = ik_key_id old_key, ro_new_key_id = ik_key_id new_key,
                      ro_rotated_at = now, ro_overlap_until = overlap_until\<rparr>
           in (Inr rec,
               si\<lparr>si_issued_at := now, si_active_key_id := ik_key_id new_key,
                  si_keys := map (retire_key (ik_key_id old_key) overlap_until) (si_keys si) @ [new_key],
                  si_rotations := si_rotations si @ [rec]\<rparr>)))"

definition trusted_keys_at :: "store_identity \<Rightarrow> time \<Rightarrow> identity_key list" where
  "trusted_keys_at si now = filter (\<lambda>k. \<not> retired (ik_retired_at k) now) (si_keys si)"

section \<open>The contract of a key ring\<close>

type_synonym ring = "string \<rightharpoonup> string \<times> time option"

text \<open>
  A ring maps the ids of the keys it knows to their public half and the instant they stop being
  trusted. The specification of one rotation: the active key gets a deadline, the new one has none.
\<close>

definition ring_rotate :: "string \<Rightarrow> string \<Rightarrow> time \<Rightarrow> int \<Rightarrow> string \<times> ring \<Rightarrow> string \<times> ring" where
  "ring_rotate k pub now overlap st =
     (case st of (act, m) \<Rightarrow>
        (k, m(act \<mapsto> (fst (the (m act)), Some (sat_add now (max overlap 0))), k \<mapsto> (pub, None))))"

definition trusted :: "ring \<Rightarrow> string \<Rightarrow> time \<Rightarrow> bool" where
  "trusted m k now \<longleftrightarrow> (\<exists>pub e. m k = Some (pub, e) \<and> \<not> retired e now)"

locale key_ring =
  fixes ring_ok :: "'r \<Rightarrow> bool"
    and look :: "'r \<Rightarrow> ring"
    and active :: "'r \<Rightarrow> string"
    and new_id :: "'m \<Rightarrow> 'r \<Rightarrow> string"
    and new_pub :: "'m \<Rightarrow> string"
    and rotate_op :: "'m \<Rightarrow> time \<Rightarrow> int \<Rightarrow> 'r \<Rightarrow> 'r"
  assumes rotate_ok: "ring_ok r \<Longrightarrow> look r (new_id m r) = None \<Longrightarrow> ring_ok (rotate_op m now ov r)"
    and no_deadline: "ring_ok r \<Longrightarrow> (\<exists>pub. look r k = Some (pub, None)) \<longleftrightarrow> k = active r"
    and rotate_look: "ring_ok r \<Longrightarrow> look r (new_id m r) = None \<Longrightarrow>
      (active (rotate_op m now ov r), look (rotate_op m now ov r)) =
        ring_rotate (new_id m r) (new_pub m) now ov (active r, look r)"
begin

text \<open>A sequence of rotations, each to a key the ring does not know yet.\<close>

fun fresh_all :: "('m \<times> time \<times> int) list \<Rightarrow> 'r \<Rightarrow> bool" where
  "fresh_all [] r \<longleftrightarrow> True"
| "fresh_all ((m, now, ov) # ms) r \<longleftrightarrow> look r (new_id m r) = None \<and> fresh_all ms (rotate_op m now ov r)"

definition rotates :: "('m \<times> time \<times> int) list \<Rightarrow> 'r \<Rightarrow> 'r" where
  "rotates ms r = fold (\<lambda>(m, now, ov). rotate_op m now ov) ms r"

lemma rotates_simps [simp]:
  "rotates [] r = r" "rotates ((m, now, ov) # ms) r = rotates ms (rotate_op m now ov r)"
  by (simp_all add: rotates_def)

lemma deadline_fixed:
  assumes "ring_ok r" and "fresh_all ms r" and "look r k = Some (pub, Some e)"
  shows "look (rotates ms r) k = Some (pub, Some e)"
  using assms
proof (induction ms arbitrary: r)
  case (Cons x ms)
  obtain m now ov where x: "x = (m, now, ov)" by (cases x)
  let ?r = "rotate_op m now ov r"
  have fr: "look r (new_id m r) = None" using Cons.prems(2) x by simp
  have "k \<noteq> active r" using no_deadline [OF Cons.prems(1), of k] Cons.prems(3) by force
  moreover have "k \<noteq> new_id m r" using fr Cons.prems(3) by auto
  ultimately have "look ?r k = Some (pub, Some e)"
    using rotate_look [OF Cons.prems(1) fr, of now ov] Cons.prems(3) by (simp add: ring_rotate_def)
  then show ?case using Cons.IH [OF rotate_ok [OF Cons.prems(1) fr]] Cons.prems(2) x by simp
qed simp

text \<open>A key once out of its window is never trusted again.\<close>

lemma never_resurrected:
  assumes "ring_ok r" and "fresh_all ms r" and "look r k \<noteq> None" and "\<not> trusted (look r) k t" and "t \<le> t'"
  shows "\<not> trusted (look (rotates ms r)) k t'"
proof -
  obtain pub e where l: "look r k = Some (pub, e)" using assms(3) by force
  then obtain d where d: "e = Some d" "d \<le> t"
    using assms(4) by (auto simp: trusted_def retired_def split: option.splits)
  have "look (rotates ms r) k = Some (pub, Some d)"
    using deadline_fixed [OF assms(1,2)] l d(1) by simp
  then show ?thesis using d(2) assms(5) by (simp add: trusted_def retired_def)
qed

lemma rotates_ok: "ring_ok r \<Longrightarrow> fresh_all ms r \<Longrightarrow> ring_ok (rotates ms r)"
proof (induction ms arbitrary: r)
  case (Cons x ms)
  then show ?case by (cases x) (simp add: rotate_ok)
qed simp

text \<open>Between \<open>now\<close> and the deadline both the old key and the new one are trusted.\<close>

lemma overlap_window:
  assumes "ring_ok r" and "look r (new_id m r) = None"
  shows "trusted (look (rotate_op m now ov r)) (active r) t \<longleftrightarrow> t < sat_add now (max ov 0)"
    and "trusted (look (rotate_op m now ov r)) (new_id m r) t"
proof -
  obtain pub where a: "look r (active r) = Some (pub, None)" using no_deadline [OF assms(1)] by blast
  then have "active r \<noteq> new_id m r" using assms(2) by auto
  then show "trusted (look (rotate_op m now ov r)) (active r) t \<longleftrightarrow> t < sat_add now (max ov 0)"
    and "trusted (look (rotate_op m now ov r)) (new_id m r) t"
    using rotate_look [OF assms, of now ov] a by (auto simp: ring_rotate_def trusted_def retired_def)
qed

end

section \<open>The store's identity is a key ring\<close>

definition identity_ok :: "store_identity \<Rightarrow> bool" where
  "identity_ok si \<longleftrightarrow>
     (\<forall>n < length (si_keys si). ik_key_id (si_keys si ! n) = key_name (si_store_id si) (Suc n)) \<and>
     si_keys si \<noteq> [] \<and> si_active_key_id si = ik_key_id (last (si_keys si)) \<and>
     ik_retired_at (last (si_keys si)) = None \<and>
     (\<forall>k \<in> set (butlast (si_keys si)). ik_retired_at k \<noteq> None)"

definition identity_look :: "store_identity \<Rightarrow> ring" where
  "identity_look si k = map_option (\<lambda>k. (ik_public_key k, ik_retired_at k)) (find_key si k)"

definition identity_rotate :: "string \<times> string \<Rightarrow> time \<Rightarrow> int \<Rightarrow> store_identity \<Rightarrow> store_identity" where
  "identity_rotate pair now overlap si = snd (rotate_identity pair now overlap si)"

definition next_key_id :: "store_identity \<Rightarrow> string" where
  "next_key_id si = key_name (si_store_id si) (length (si_keys si) + 1)"

lemma key_name_inj [simp]: "key_name s m = key_name s n \<longleftrightarrow> m = n"
  by (auto simp: key_name_def dest: show_nat_inj)

lemma retire_key_id [simp]: "ik_key_id (retire_key a t k) = ik_key_id k"
  by (simp add: retire_key_def)

lemma find_key_nth:
  assumes "identity_ok si" and "n < length (si_keys si)"
  shows "find_key si (key_name (si_store_id si) (Suc n)) = Some (si_keys si ! n)"
  unfolding find_key_def find_Some_iff
  using assms by (intro exI [of _ n]) (auto simp: identity_ok_def)

lemma find_key_Some:
  assumes "identity_ok si" and "find_key si k = Some key"
  shows "\<exists>n < length (si_keys si). key = si_keys si ! n \<and> k = key_name (si_store_id si) (Suc n)"
  using assms unfolding find_key_def find_Some_iff identity_ok_def by metis

lemma next_key_new: "identity_ok si \<Longrightarrow> find_key si (next_key_id si) = None"
  using find_key_Some [of si "next_key_id si"] by (cases "find_key si (next_key_id si)") (auto simp: next_key_id_def)

lemma identity_look_new: "identity_ok si \<Longrightarrow> identity_look si (next_key_id si) = None"
  by (simp add: identity_look_def next_key_new)

lemma identity_active:
  assumes "identity_ok si"
  shows "find_key si (si_active_key_id si) = Some (last (si_keys si))"
    and "active_key si = Inr (last (si_keys si))"
proof -
  have "find_key si (key_name (si_store_id si) (Suc (length (si_keys si) - 1))) = Some (last (si_keys si))"
    using find_key_nth [OF assms, of "length (si_keys si) - 1"] assms
    by (simp add: identity_ok_def last_conv_nth)
  moreover have "si_active_key_id si = key_name (si_store_id si) (Suc (length (si_keys si) - 1))"
    using assms by (simp add: identity_ok_def last_conv_nth)
  ultimately show "find_key si (si_active_key_id si) = Some (last (si_keys si))" by simp
  then show "active_key si = Inr (last (si_keys si))" by (simp add: active_key_def)
qed

lemma identity_deadline:
  assumes "identity_ok si"
  shows "(\<exists>pub. identity_look si k = Some (pub, None)) \<longleftrightarrow> k = si_active_key_id si"
proof
  assume "\<exists>pub. identity_look si k = Some (pub, None)"
  then obtain key where f: "find_key si k = Some key" "ik_retired_at key = None"
    by (auto simp: identity_look_def)
  then obtain n where n: "n < length (si_keys si)" "key = si_keys si ! n" "k = key_name (si_store_id si) (Suc n)"
    using find_key_Some [OF assms] by blast
  have "\<not> n < length (si_keys si) - 1"
  proof
    assume "n < length (si_keys si) - 1"
    then have "key \<in> set (butlast (si_keys si))" using n by (simp add: nth_butlast [symmetric])
    then show False using assms f(2) by (auto simp: identity_ok_def)
  qed
  then have "n = length (si_keys si) - 1" using n(1) by simp
  then have "key = last (si_keys si)" using n assms by (simp add: last_conv_nth identity_ok_def)
  moreover have "ik_key_id key = k" using n assms by (simp add: identity_ok_def)
  ultimately show "k = si_active_key_id si" using assms by (simp add: identity_ok_def)
next
  assume "k = si_active_key_id si"
  then show "\<exists>pub. identity_look si k = Some (pub, None)"
    using identity_active [OF assms] assms by (simp add: identity_look_def identity_ok_def)
qed

lemma identity_rotate_eq:
  assumes "identity_ok si"
  shows "identity_rotate pair now ov si =
    si\<lparr>si_issued_at := now, si_active_key_id := next_key_id si,
       si_keys := map (retire_key (si_active_key_id si) (sat_add now (max ov 0))) (si_keys si) @
         [generate_key pair (si_store_id si) (length (si_keys si) + 1) now],
       si_rotations := si_rotations si @ [\<lparr>ro_old_key_id = si_active_key_id si, ro_new_key_id = next_key_id si,
         ro_rotated_at = now, ro_overlap_until = sat_add now (max ov 0)\<rparr>]\<rparr>"
  using identity_active [OF assms] assms
  by (simp add: identity_rotate_def rotate_identity_def Let_def generate_key_def next_key_id_def identity_ok_def)

lemma identity_rotate_find:
  assumes "identity_ok si"
  shows "find_key (identity_rotate pair now ov si) k =
    (if k = next_key_id si then Some (generate_key pair (si_store_id si) (length (si_keys si) + 1) now)
     else map_option (retire_key (si_active_key_id si) (sat_add now (max ov 0))) (find_key si k))"
proof -
  have "find_key (identity_rotate pair now ov si) k =
      (case map_option (retire_key (si_active_key_id si) (sat_add now (max ov 0))) (find_key si k) of
         None \<Rightarrow> if next_key_id si = k then Some (generate_key pair (si_store_id si) (length (si_keys si) + 1) now) else None
       | Some x \<Rightarrow> Some x)"
    by (auto simp: identity_rotate_eq [OF assms] find_key_def find_append find_map generate_key_def
        next_key_id_def split: option.splits)
  then show ?thesis using next_key_new [OF assms] by (auto split: option.splits)
qed

lemma identity_rotate_ok:
  assumes "identity_ok si"
  shows "identity_ok (identity_rotate pair now ov si)"
proof -
  let ?r = "retire_key (si_active_key_id si) (sat_add now (max ov 0))"
  have "ik_retired_at (?r k) \<noteq> None" if k: "k \<in> set (si_keys si)" for k
  proof (cases "k \<in> set (butlast (si_keys si))")
    case True
    then show ?thesis using assms by (auto simp: identity_ok_def retire_key_def)
  next
    case False
    then have "k = last (si_keys si)"
      using k assms by (metis append_butlast_last_id identity_ok_def rotate1.simps(2) set_ConsD set_rotate1)
    then show ?thesis using assms by (simp add: identity_ok_def retire_key_def)
  qed
  then show ?thesis
    using assms unfolding identity_rotate_eq [OF assms]
    by (auto simp: identity_ok_def nth_append generate_key_def next_key_id_def)
qed

lemma identity_rotate_look:
  assumes "identity_ok si"
  shows "(si_active_key_id (identity_rotate pair now ov si), identity_look (identity_rotate pair now ov si)) =
    ring_rotate (next_key_id si) (fst pair) now ov (si_active_key_id si, identity_look si)"
proof -
  note a = identity_active [OF assms]
  have "ik_retired_at (last (si_keys si)) = None" using assms by (simp add: identity_ok_def)
  moreover have "si_active_key_id si \<noteq> next_key_id si" using a(1) next_key_new [OF assms] by auto
  moreover have "ik_key_id key = k" if "find_key si k = Some key" for k key
    using that by (auto simp: find_key_def find_Some_iff)
  ultimately have "identity_look (identity_rotate pair now ov si) k =
      snd (ring_rotate (next_key_id si) (fst pair) now ov (si_active_key_id si, identity_look si)) k" for k
    using a(1) identity_rotate_find [OF assms, of pair now ov k] assms
    by (cases "find_key si k")
      (auto simp: identity_look_def ring_rotate_def generate_key_def retire_key_def identity_ok_def)
  then show ?thesis by (auto simp: identity_rotate_eq [OF assms] ring_rotate_def)
qed

interpretation store_ring: key_ring identity_ok identity_look si_active_key_id
    "\<lambda>m si. next_key_id si" fst identity_rotate
proof
  fix r m now ov k
  assume "identity_ok r"
  then show "identity_ok (identity_rotate m now ov r)" by (rule identity_rotate_ok)
  show "(\<exists>pub. identity_look r k = Some (pub, None)) = (k = si_active_key_id r)"
    using \<open>identity_ok r\<close> by (rule identity_deadline)
  show "(si_active_key_id (identity_rotate m now ov r), identity_look (identity_rotate m now ov r)) =
      ring_rotate (next_key_id r) (fst m) now ov (si_active_key_id r, identity_look r)"
    using \<open>identity_ok r\<close> by (rule identity_rotate_look)
qed

lemma identity_fresh: "identity_ok si \<Longrightarrow> store_ring.fresh_all ms si"
proof (induction ms arbitrary: si)
  case (Cons x ms)
  then show ?case
    by (cases x) (simp add: identity_rotate_ok identity_look_new)
qed simp

lemma create_identity_ok: "identity_ok (create_identity bytes pair opts now)"
  by (simp add: identity_ok_def create_identity_def Let_def generate_key_def)

section \<open>Signing and verifying\<close>

definition pin_matches :: "store_descriptor \<Rightarrow> pinned_key \<Rightarrow> time \<Rightarrow> bool" where
  "pin_matches d pin now \<longleftrightarrow> sd_schema d = DESCRIPTOR_SCHEMA \<and> pk_store_id pin \<noteq> [] \<and>
     sd_store_id d = pk_store_id pin \<and> sd_key_id d = pk_key_id pin \<and>
     sd_public_key d = pk_public_key pin \<and> \<not> retired (pk_valid_until pin) now"

lemma verify_descriptor_Inr:
  "verify_descriptor c d pin now = Inr d' \<longleftrightarrow> d' = d \<and> pin_matches d pin now \<and>
    good_signature c (sd_signature d) (pk_public_key pin) (descriptor_signing_bytes c d)"
  by (auto simp: verify_descriptor_def pin_matches_def good_signature_def split: option.splits sig_problem.splits)

text \<open>What the libraries promise about a key pair and the two encodings.\<close>

definition key_pair :: "codec \<Rightarrow> string \<Rightarrow> string \<Rightarrow> bool" where
  "key_pair c public_key private_key \<longleftrightarrow>
     (\<exists>pub. b64_decode c public_key = Some pub \<and> public_ok c pub \<and>
       (\<forall>msg. \<exists>s. ed_sign c private_key msg = Some s \<and> ed_verify c pub s msg \<and>
          b64_decode c (b64_encode c s) = Some s))"

lemma descriptor_verifies:
  assumes "identity_ok si" and "si_store_id si \<noteq> []"
    and "key_pair c (ik_public_key (last (si_keys si))) (ik_private_key (last (si_keys si)))"
  shows "\<exists>d. descriptor c si now = Inr d \<and> sd_store_id d = si_store_id si \<and>
    sd_key_id d = si_active_key_id si \<and> (\<exists>pin. active_pin si = Inr pin \<and> verify_descriptor c d pin now' = Inr d)"
proof -
  let ?k = "last (si_keys si)"
  let ?d = "unsigned_descriptor si ?k now"
  note a = identity_active [OF assms(1)]
  obtain pub s where p: "b64_decode c (ik_public_key ?k) = Some pub" "public_ok c pub"
      "ed_sign c (ik_private_key ?k) (descriptor_signing_bytes c ?d) = Some s"
      "ed_verify c pub s (descriptor_signing_bytes c ?d)" "b64_decode c (b64_encode c s) = Some s"
    using assms(3) unfolding key_pair_def by metis
  let ?s = "?d\<lparr>sd_signature := Some (b64_encode c s)\<rparr>"
  have "descriptor_signing_bytes c ?s = descriptor_signing_bytes c ?d"
    by (simp add: descriptor_signing_bytes_def unsigned_descriptor_def)
  moreover have act: "si_active_key_id si = ik_key_id ?k" "ik_retired_at ?k = None"
    using assms(1) by (simp_all add: identity_ok_def)
  ultimately have "descriptor c si now = Inr ?s" "active_pin si = Inr \<lparr>pk_store_id = si_store_id si,
      pk_key_id = ik_key_id ?k, pk_public_key = ik_public_key ?k, pk_valid_until = None\<rparr>"
    and "verify_descriptor c ?s \<lparr>pk_store_id = si_store_id si,
      pk_key_id = ik_key_id ?k, pk_public_key = ik_public_key ?k, pk_valid_until = None\<rparr> now' = Inr ?s"
    using a p assms(2)
    by (auto simp: descriptor_def Let_def active_pin_def pin_of_def verify_descriptor_Inr pin_matches_def
        unsigned_descriptor_def retired_def good_signature_iff)
  then show ?thesis using act by (simp add: unsigned_descriptor_def)
qed

end
