(* ===== verification/Registry.thy ===== *)
theory Registry
  imports Identity
begin

text \<open>
  \<open>src/src/identity.rs\<close>, second half: the registry of pinned remotes. A pin is a store id, a key id
  and a public key; a rotation keeps the old key until its overlap ends. The record of one remote
  provides the \<open>key_ring\<close> contract, so a pin that follows a store's rotations agrees with the
  store's own identity.
\<close>

section \<open>Records\<close>

record overlap_key =
  ok_key_id :: string
  ok_public_key :: string
  ok_valid_until :: "time option"

record remote_record =
  rr_name :: string
  rr_endpoint :: string
  rr_store_id :: string
  rr_display_name :: string
  rr_key_id :: string
  rr_public_key :: string
  rr_valid_until :: "time option"
  rr_capabilities :: "string list"
  rr_added_at :: time
  rr_updated_at :: time
  rr_overlap_keys :: "overlap_key list"

record remote_registry =
  rg_version :: int
  rg_remotes :: "remote_record list"

definition REMOTE_REGISTRY_VERSION :: int where "REMOTE_REGISTRY_VERSION = 1"

definition default_registry :: remote_registry where
  "default_registry = \<lparr>rg_version = REMOTE_REGISTRY_VERSION, rg_remotes = []\<rparr>"

datatype registry_error =
    RgInvalidName string
  | RgInvalidEndpoint string
  | RgNotFound string
  | RgExists string
  | RgRead
  | RgWrite
  | RgParse
  | RgUnsupportedVersion int int
  | RgEmptyStoreId
  | RgEmptyKeyId
  | RgBadPublicKey string
  | RgJson
  | RgIdentity identity_error

definition record_active_pin :: "remote_record \<Rightarrow> pinned_key" where
  "record_active_pin r =
     \<lparr>pk_store_id = rr_store_id r, pk_key_id = rr_key_id r, pk_public_key = rr_public_key r,
      pk_valid_until = rr_valid_until r\<rparr>"

definition pins :: "remote_record \<Rightarrow> pinned_key list" where
  "pins r = record_active_pin r # map (\<lambda>k.
     \<lparr>pk_store_id = rr_store_id r, pk_key_id = ok_key_id k, pk_public_key = ok_public_key k,
      pk_valid_until = ok_valid_until k\<rparr>) (rr_overlap_keys r)"

definition find_pin :: "remote_record \<Rightarrow> string \<Rightarrow> pinned_key option" where
  "find_pin r key_id = find (\<lambda>p. pk_key_id p = key_id) (pins r)"

definition record_verify ::
  "codec \<Rightarrow> (string \<Rightarrow> store_descriptor option) \<Rightarrow> remote_record \<Rightarrow> string \<Rightarrow> time \<Rightarrow>
    registry_error + store_descriptor" where
  "record_verify c from_json r text now =
     (case from_json text of
        None \<Rightarrow> Inl RgJson
      | Some d \<Rightarrow>
          if sd_store_id d \<noteq> rr_store_id r
          then Inl (RgIdentity (IdStoreMismatch (rr_store_id r) (sd_store_id d)))
          else (case find_pin r (sd_key_id d) of
                  None \<Rightarrow> Inl (RgIdentity (IdKeyMismatch (rr_key_id r) (sd_key_id d)))
                | Some pin \<Rightarrow>
                    (case verify_descriptor c d pin now of
                       Inl e \<Rightarrow> Inl (RgIdentity e) | Inr d' \<Rightarrow> Inr d')))"

section \<open>The registry\<close>

definition load_registry :: "(string \<Rightarrow> remote_registry option) \<Rightarrow> file_text \<Rightarrow> registry_error + remote_registry" where
  "load_registry parse file =
     (case file of
        NoFile \<Rightarrow> Inr default_registry
      | BadFile \<Rightarrow> Inl RgRead
      | Text text \<Rightarrow>
          (case parse text of
             None \<Rightarrow> Inl RgParse
           | Some g \<Rightarrow> if REMOTE_REGISTRY_VERSION < rg_version g
                       then Inl (RgUnsupportedVersion (rg_version g) REMOTE_REGISTRY_VERSION)
                       else Inr g))"

definition get_remote :: "remote_registry \<Rightarrow> string \<Rightarrow> remote_record option" where
  "get_remote g name = find (\<lambda>r. rr_name r = name) (rg_remotes g)"

text \<open>The lookup of the readers: the first record of a store.\<close>

definition record_for :: "remote_registry \<Rightarrow> string \<Rightarrow> remote_record option" where
  "record_for g store_id = find (\<lambda>r. rr_store_id r = store_id) (rg_remotes g)"

definition validate_remote_name :: "string \<Rightarrow> registry_error + string" where
  "validate_remote_name name =
     (let n = trim name in
      if n = [] \<or> has_space n \<or> CHR ''/'' \<in> set n then Inl (RgInvalidName n) else Inr n)"

definition validate_endpoint :: "string \<Rightarrow> registry_error + string" where
  "validate_endpoint endpoint =
     (let e = trim endpoint in if e = [] then Inl (RgInvalidEndpoint e) else Inr e)"

definition validate_public_key :: "codec \<Rightarrow> string \<Rightarrow> string \<Rightarrow> registry_error option" where
  "validate_public_key c key_id encoded =
     (case b64_decode c encoded of
        None \<Rightarrow> Some (RgBadPublicKey key_id)
      | Some raw \<Rightarrow>
          if length raw \<noteq> 32 \<or> \<not> public_ok c raw then Some (RgBadPublicKey key_id) else None)"

definition self_pin :: "store_descriptor \<Rightarrow> pinned_key" where
  "self_pin d = \<lparr>pk_store_id = sd_store_id d, pk_key_id = sd_key_id d,
     pk_public_key = sd_public_key d, pk_valid_until = None\<rparr>"

definition verify_self_signed ::
  "codec \<Rightarrow> (string \<Rightarrow> store_descriptor option) \<Rightarrow> string \<Rightarrow> time \<Rightarrow> registry_error + store_descriptor" where
  "verify_self_signed c from_json text now =
     (case from_json text of
        None \<Rightarrow> Inl RgJson
      | Some d \<Rightarrow>
          if trim (sd_store_id d) = [] then Inl RgEmptyStoreId
          else if trim (sd_key_id d) = [] then Inl RgEmptyKeyId
          else (case validate_public_key c (sd_key_id d) (sd_public_key d) of
                  Some e \<Rightarrow> Inl e
                | None \<Rightarrow>
                    (case verify_descriptor c d (self_pin d) now of
                       Inl e \<Rightarrow> Inl (RgIdentity e) | Inr d' \<Rightarrow> Inr d')))"

definition new_record :: "string \<Rightarrow> string \<Rightarrow> store_descriptor \<Rightarrow> time \<Rightarrow> remote_record" where
  "new_record name endpoint d now =
     \<lparr>rr_name = name, rr_endpoint = endpoint, rr_store_id = sd_store_id d,
      rr_display_name = sd_display_name d, rr_key_id = sd_key_id d,
      rr_public_key = sd_public_key d, rr_valid_until = None,
      rr_capabilities = sd_capabilities d, rr_added_at = now, rr_updated_at = now,
      rr_overlap_keys = []\<rparr>"

definition registry_add ::
  "codec \<Rightarrow> (string \<Rightarrow> store_descriptor option) \<Rightarrow> string \<Rightarrow> string \<Rightarrow> string \<Rightarrow> time \<Rightarrow>
    remote_registry \<Rightarrow> (registry_error + remote_record) \<times> remote_registry" where
  "registry_add c from_json name endpoint text now g =
     (case validate_remote_name name of
        Inl e \<Rightarrow> (Inl e, g)
      | Inr n \<Rightarrow>
          (case validate_endpoint endpoint of
             Inl e \<Rightarrow> (Inl e, g)
           | Inr ep \<Rightarrow>
               if get_remote g n \<noteq> None then (Inl (RgExists n), g)
               else (case verify_self_signed c from_json text now of
                       Inl e \<Rightarrow> (Inl e, g)
                     | Inr d \<Rightarrow>
                         (let r = new_record n ep d now in
                          (Inr r, g\<lparr>rg_remotes := rg_remotes g @ [r]\<rparr>)))))"

definition registry_remove ::
  "string \<Rightarrow> remote_registry \<Rightarrow> (registry_error + remote_record) \<times> remote_registry" where
  "registry_remove name g =
     (case get_remote g name of
        None \<Rightarrow> (Inl (RgNotFound name), g)
      | Some r \<Rightarrow> (Inr r, g\<lparr>rg_remotes := remove1 r (rg_remotes g)\<rparr>))"

section \<open>Rotating a pin\<close>

text \<open>Replacing the first match, which is what writing through its index does.\<close>

fun map_first :: "('a \<Rightarrow> bool) \<Rightarrow> 'a \<Rightarrow> 'a list \<Rightarrow> 'a list" where
  "map_first P y [] = []"
| "map_first P y (x # xs) = (if P x then y # xs else x # map_first P y xs)"

definition reissue :: "store_descriptor \<Rightarrow> time \<Rightarrow> remote_record \<Rightarrow> remote_record" where
  "reissue d now r =
     r\<lparr>rr_display_name := sd_display_name d, rr_capabilities := sd_capabilities d, rr_updated_at := now\<rparr>"

definition move_pin :: "store_descriptor \<Rightarrow> time \<Rightarrow> int \<Rightarrow> remote_record \<Rightarrow> remote_record" where
  "move_pin d now overlap_seconds r =
     (let overlap_until = sat_add now (max overlap_seconds 0);
          old_valid_until = Some (case rr_valid_until r of
            Some existing \<Rightarrow> min existing overlap_until | None \<Rightarrow> overlap_until)
      in r\<lparr>rr_overlap_keys := rr_overlap_keys r @
             [\<lparr>ok_key_id = rr_key_id r, ok_public_key = rr_public_key r, ok_valid_until = old_valid_until\<rparr>],
           rr_display_name := sd_display_name d, rr_key_id := sd_key_id d,
           rr_public_key := sd_public_key d, rr_valid_until := None,
           rr_capabilities := sd_capabilities d, rr_updated_at := now\<rparr>)"

definition or_now :: "time option \<Rightarrow> time \<Rightarrow> time" where
  "or_now v now = (case v of None \<Rightarrow> now | Some t \<Rightarrow> t)"

text \<open>What a verified descriptor does to one record.\<close>

definition rotate_record ::
  "store_descriptor \<Rightarrow> string option \<Rightarrow> int \<Rightarrow> time \<Rightarrow> remote_record \<Rightarrow>
    registry_error + (rotation_record \<times> remote_record)" where
  "rotate_record d expected_public_key overlap_seconds now r =
     (if (case expected_public_key of None \<Rightarrow> False | Some k \<Rightarrow> k \<noteq> sd_public_key d)
      then Inl (RgIdentity (IdPublicKeyMismatch (sd_key_id d)))
      else if sd_store_id d \<noteq> rr_store_id r
      then Inl (RgIdentity (IdStoreMismatch (rr_store_id r) (sd_store_id d)))
      else if sd_key_id d = rr_key_id r
      then Inr (\<lparr>ro_old_key_id = rr_key_id r, ro_new_key_id = rr_key_id r, ro_rotated_at = now,
                 ro_overlap_until = or_now (rr_valid_until r) now\<rparr>, reissue d now r)
      else if \<exists>k \<in> set (rr_overlap_keys r). ok_key_id k = sd_key_id d
      then Inl (RgIdentity (IdKeyRetired (sd_key_id d) (or_now (rr_valid_until r) now)))
      else Inr (\<lparr>ro_old_key_id = rr_key_id r, ro_new_key_id = sd_key_id d, ro_rotated_at = now,
                 ro_overlap_until = sat_add now (max overlap_seconds 0)\<rparr>, move_pin d now overlap_seconds r))"

definition registry_rotate ::
  "codec \<Rightarrow> (string \<Rightarrow> store_descriptor option) \<Rightarrow> string \<Rightarrow> string \<Rightarrow> string option \<Rightarrow> int \<Rightarrow> time \<Rightarrow>
    remote_registry \<Rightarrow> (registry_error + rotation_record) \<times> remote_registry" where
  "registry_rotate c from_json name text expected_public_key overlap_seconds now g =
     (case get_remote g name of
        None \<Rightarrow> (Inl (RgNotFound name), g)
      | Some r \<Rightarrow>
          (case verify_self_signed c from_json text now of
             Inl e \<Rightarrow> (Inl e, g)
           | Inr d \<Rightarrow>
               (case rotate_record d expected_public_key overlap_seconds now r of
                  Inl e \<Rightarrow> (Inl e, g)
                | Inr (rec, r') \<Rightarrow>
                    (Inr rec, g\<lparr>rg_remotes := map_first (\<lambda>x. rr_name x = name) r' (rg_remotes g)\<rparr>))))"

definition registry_verify ::
  "codec \<Rightarrow> (string \<Rightarrow> store_descriptor option) \<Rightarrow> string \<Rightarrow> string \<Rightarrow> time \<Rightarrow> remote_registry \<Rightarrow>
    registry_error + store_descriptor" where
  "registry_verify c from_json name text now g =
     (case get_remote g name of
        None \<Rightarrow> Inl (RgNotFound name)
      | Some r \<Rightarrow> record_verify c from_json r text now)"

definition pinned_key_for :: "remote_registry \<Rightarrow> string \<Rightarrow> pinned_key option" where
  "pinned_key_for g store_id = map_option record_active_pin (record_for g store_id)"

section \<open>Names stay unique, pins stay rings\<close>

definition record_ok :: "remote_record \<Rightarrow> bool" where
  "record_ok r \<longleftrightarrow> distinct (rr_key_id r # map ok_key_id (rr_overlap_keys r)) \<and> rr_valid_until r = None \<and>
     (\<forall>k \<in> set (rr_overlap_keys r). ok_valid_until k \<noteq> None)"

definition registry_ok :: "remote_registry \<Rightarrow> bool" where
  "registry_ok g \<longleftrightarrow> distinct (map rr_name (rg_remotes g)) \<and> (\<forall>r \<in> set (rg_remotes g). record_ok r)"

definition record_look :: "remote_record \<Rightarrow> ring" where
  "record_look r k = map_option (\<lambda>p. (pk_public_key p, pk_valid_until p)) (find_pin r k)"

definition record_move :: "store_descriptor \<Rightarrow> time \<Rightarrow> int \<Rightarrow> remote_record \<Rightarrow> remote_record" where
  "record_move d now ov r = move_pin d now ov r"

lemma record_look_eq:
  "record_look r k =
    (if k = rr_key_id r then Some (rr_public_key r, rr_valid_until r)
     else map_option (\<lambda>v. (ok_public_key v, ok_valid_until v)) (find (\<lambda>v. ok_key_id v = k) (rr_overlap_keys r)))"
  by (auto simp: record_look_def find_pin_def pins_def record_active_pin_def find_map option.map_comp comp_def)

lemma record_look_None: "record_look r k = None \<longleftrightarrow> k \<noteq> rr_key_id r \<and> (\<forall>v \<in> set (rr_overlap_keys r). ok_key_id v \<noteq> k)"
  by (auto simp: record_look_eq find_None_iff)

lemma record_deadline:
  assumes "record_ok r"
  shows "(\<exists>pub. record_look r k = Some (pub, None)) \<longleftrightarrow> k = rr_key_id r"
proof (cases "k = rr_key_id r")
  case True
  then show ?thesis using assms by (simp add: record_look_eq record_ok_def)
next
  case False
  have "ok_valid_until v \<noteq> None" if "find (\<lambda>v. ok_key_id v = k) (rr_overlap_keys r) = Some v" for v
    using find_SomeD [OF that] assms by (simp add: record_ok_def)
  then show ?thesis using False by (auto simp: record_look_eq)
qed

lemma record_move_ok: "record_ok r \<Longrightarrow> record_look r (sd_key_id d) = None \<Longrightarrow> record_ok (record_move d now ov r)"
  by (auto simp: record_ok_def record_move_def move_pin_def record_look_None Let_def)

lemma record_move_look:
  assumes "record_ok r" and "record_look r (sd_key_id d) = None"
  shows "(rr_key_id (record_move d now ov r), record_look (record_move d now ov r)) =
    ring_rotate (sd_key_id d) (sd_public_key d) now ov (rr_key_id r, record_look r)"
proof -
  have "find (\<lambda>v. ok_key_id v = rr_key_id r) (rr_overlap_keys r) = None"
    using assms(1) unfolding find_None_iff record_ok_def by (metis distinct.simps(2) image_eqI list.set_map)
  then have "record_look (record_move d now ov r) k =
      snd (ring_rotate (sd_key_id d) (sd_public_key d) now ov (rr_key_id r, record_look r)) k" for k
    using assms unfolding record_look_None
    by (auto simp: record_look_eq record_move_def move_pin_def Let_def ring_rotate_def record_ok_def
        find_append split: option.splits)
  then show ?thesis by (auto simp: record_move_def move_pin_def Let_def ring_rotate_def)
qed

interpretation pin_ring: key_ring record_ok record_look rr_key_id
    "\<lambda>(d :: store_descriptor) r. sd_key_id d" "sd_public_key :: store_descriptor \<Rightarrow> string" record_move
proof
  fix r k now ov and m :: store_descriptor
  assume ok: "record_ok r"
  then show "(\<exists>pub. record_look r k = Some (pub, None)) = (k = rr_key_id r)" by (rule record_deadline)
  assume new: "record_look r (sd_key_id m) = None"
  show "record_ok (record_move m now ov r)" using ok new by (rule record_move_ok)
  show "(rr_key_id (record_move m now ov r), record_look (record_move m now ov r)) =
      ring_rotate (sd_key_id m) (sd_public_key m) now ov (rr_key_id r, record_look r)"
    using ok new by (rule record_move_look)
qed

lemma set_map_first: "y' \<in> set (map_first P y xs) \<Longrightarrow> y' = y \<or> y' \<in> set xs"
  by (induction xs) (auto split: if_splits)

lemma map_first_names: "f y = f x \<Longrightarrow> find P xs = Some x \<Longrightarrow> map f (map_first P y xs) = map f xs"
  by (induction xs) (auto split: if_splits)

lemma get_remote_in: "get_remote g name = Some r \<Longrightarrow> r \<in> set (rg_remotes g) \<and> rr_name r = name"
  by (auto simp: get_remote_def find_Some_iff)

lemma rotate_record_Inr:
  assumes "rotate_record d exp ov now r = Inr (rec, r')"
  shows "sd_store_id d = rr_store_id r \<and> (\<forall>k. exp = Some k \<longrightarrow> k = sd_public_key d) \<and>
    (if sd_key_id d = rr_key_id r then r' = reissue d now r
     else r' = record_move d now ov r \<and> record_look r (sd_key_id d) = None)"
  using assms by (auto simp: rotate_record_def record_move_def record_look_None split: if_splits option.splits)

lemma rotate_record_ok:
  assumes "record_ok r" and "rotate_record d exp ov now r = Inr (rec, r')"
  shows "record_ok r' \<and> rr_name r' = rr_name r \<and> rr_store_id r' = rr_store_id r \<and> rr_endpoint r' = rr_endpoint r"
proof (cases "sd_key_id d = rr_key_id r")
  case True
  then have "r' = reissue d now r" using rotate_record_Inr [OF assms(2)] by simp
  then show ?thesis using assms(1) by (simp add: reissue_def record_ok_def)
next
  case False
  then have r': "r' = record_move d now ov r" "record_look r (sd_key_id d) = None"
    using rotate_record_Inr [OF assms(2)] by simp_all
  have "rr_name r' = rr_name r \<and> rr_store_id r' = rr_store_id r \<and> rr_endpoint r' = rr_endpoint r"
    by (simp add: r'(1) record_move_def move_pin_def Let_def)
  then show ?thesis using record_move_ok [OF assms(1) r'(2)] r'(1) by simp
qed

lemma registry_add_ok:
  assumes "registry_ok g"
  shows "registry_ok (snd (registry_add c from_json name endpoint text now g))"
proof -
  have "record_ok (new_record n ep d now)" for n ep d by (simp add: record_ok_def new_record_def)
  moreover have "n \<notin> rr_name ` set (rg_remotes g)" if "get_remote g n = None" for n
    using that by (auto simp: get_remote_def find_None_iff)
  ultimately show ?thesis
    using assms by (auto simp: registry_add_def registry_ok_def Let_def new_record_def split: sum.splits)
qed

lemma registry_remove_ok: "registry_ok g \<Longrightarrow> registry_ok (snd (registry_remove name g))"
  by (auto simp: registry_remove_def registry_ok_def distinct_map_filter distinct_remove1 distinct_map
      dest: in_set_remove1 notin_set_remove1 inj_on_subset [OF _ set_remove1_subset] split: option.splits)

lemma registry_rotate_ok:
  assumes "registry_ok g"
  shows "registry_ok (snd (registry_rotate c from_json name text exp ov now g))"
proof (cases "\<exists>r d rec r'. get_remote g name = Some r \<and> verify_self_signed c from_json text now = Inr d \<and>
    rotate_record d exp ov now r = Inr (rec, r')")
  case True
  then obtain r d rec r' where e: "get_remote g name = Some r" "verify_self_signed c from_json text now = Inr d"
      "rotate_record d exp ov now r = Inr (rec, r')" by blast
  have r: "r \<in> set (rg_remotes g)" "rr_name r = name" using get_remote_in [OF e(1)] by simp_all
  then have ok: "record_ok r'" "rr_name r' = rr_name r"
    using rotate_record_ok [OF _ e(3)] assms by (auto simp: registry_ok_def)
  have "map rr_name (map_first (\<lambda>x. rr_name x = name) r' (rg_remotes g)) = map rr_name (rg_remotes g)"
    using ok(2) e(1) by (intro map_first_names) (simp_all add: get_remote_def)
  then show ?thesis
    using assms ok(1) e by (auto simp: registry_rotate_def registry_ok_def dest: set_map_first)
next
  case False
  then have "snd (registry_rotate c from_json name text exp ov now g) = g"
    by (auto simp: registry_rotate_def split: option.splits sum.splits)
  then show ?thesis using assms by simp
qed

text \<open>A pin that repeats the store's rotations, at the same instants, holds the store's own ring.\<close>

definition descriptor_of_key :: "store_identity \<Rightarrow> string \<times> string \<Rightarrow> store_descriptor" where
  "descriptor_of_key si pair =
     unsigned_descriptor si (generate_key pair (si_store_id si) (length (si_keys si) + 1) 0) 0"

fun follow :: "((string \<times> string) \<times> time \<times> int) list \<Rightarrow> store_identity \<Rightarrow> (store_descriptor \<times> time \<times> int) list" where
  "follow [] si = []"
| "follow ((pair, now, ov) # ms) si =
     (descriptor_of_key si pair, now, ov) # follow ms (identity_rotate pair now ov si)"

lemma follow_agrees:
  assumes "identity_ok si" and "record_ok r" and "record_look r = identity_look si" and "rr_key_id r = si_active_key_id si"
  shows "record_look (pin_ring.rotates (follow ms si) r) = identity_look (store_ring.rotates ms si) \<and>
    rr_key_id (pin_ring.rotates (follow ms si) r) = si_active_key_id (store_ring.rotates ms si) \<and>
    pin_ring.fresh_all (follow ms si) r"
  using assms
proof (induction ms arbitrary: si r)
  case (Cons x ms)
  obtain pair now ov where x: "x = (pair, now, ov)" by (cases x)
  let ?d = "descriptor_of_key si pair"
  have d: "sd_key_id ?d = next_key_id si" "sd_public_key ?d = fst pair"
    by (simp_all add: descriptor_of_key_def unsigned_descriptor_def generate_key_def next_key_id_def)
  have new: "record_look r (sd_key_id ?d) = None"
    using identity_look_new [OF Cons.prems(1)] Cons.prems(3) d by simp
  have "(rr_key_id (record_move ?d now ov r), record_look (record_move ?d now ov r)) =
      (si_active_key_id (identity_rotate pair now ov si), identity_look (identity_rotate pair now ov si))"
    using record_move_look [OF Cons.prems(2) new, of now ov] identity_rotate_look [OF Cons.prems(1), of pair now ov]
      Cons.prems(3,4) d by simp
  then show ?case
    using Cons.IH [OF identity_rotate_ok [OF Cons.prems(1)] record_move_ok [OF Cons.prems(2) new]] new x by simp
qed simp

section \<open>Sequences of rotations on a registry\<close>

lemma find_map_first:
  assumes "find (\<lambda>x. f x = k) xs = Some x" and "f y = k"
  shows "find (\<lambda>x. f x = k') (map_first (\<lambda>x. f x = k) y xs) =
    (if k' = k then Some y else find (\<lambda>x. f x = k') xs)"
  using assms by (induction xs) (auto split: if_splits)

lemma registry_rotate_cases:
  obtains (refused) e where "registry_rotate c from_json name text exp ov now g = (Inl e, g)"
  | (moved) r d rec r' g' where "get_remote g name = Some r" and "verify_self_signed c from_json text now = Inr d"
      and "rotate_record d exp ov now r = Inr (rec, r')"
      and "registry_rotate c from_json name text exp ov now g = (Inr rec, g')"
      and "g' = g\<lparr>rg_remotes := map_first (\<lambda>x. rr_name x = name) r' (rg_remotes g)\<rparr>"
proof (cases "fst (registry_rotate c from_json name text exp ov now g)")
  case (Inl e)
  then have "registry_rotate c from_json name text exp ov now g = (Inl e, g)"
    by (auto simp: registry_rotate_def split: option.splits sum.splits)
  then show ?thesis by (rule refused)
next
  case (Inr rec)
  then show ?thesis
    by (auto simp: registry_rotate_def split: option.splits sum.splits intro: moved)
qed

lemma get_remote_moved:
  assumes "get_remote g name = Some r" and "rr_name r' = rr_name r"
  shows "get_remote (g\<lparr>rg_remotes := map_first (\<lambda>x. rr_name x = name) r' (rg_remotes g)\<rparr>) other =
    (if other = name then Some r' else get_remote g other)"
  using find_map_first [of rr_name name "rg_remotes g" r r' other] assms get_remote_in [OF assms(1)]
  by (simp add: get_remote_def)

lemma rotate_record_keeps_deadline:
  assumes "record_ok r" and "rotate_record d exp ov now r = Inr (rec, r')"
    and "record_look r k = Some (pub, Some e)"
  shows "record_look r' k = Some (pub, Some e)"
proof (cases "sd_key_id d = rr_key_id r")
  case True
  then have "r' = reissue d now r" using rotate_record_Inr [OF assms(2)] by simp
  then show ?thesis using assms(3) by (auto simp: record_look_eq reissue_def split: if_splits)
next
  case False
  then have "r' = record_move d now ov r" "record_look r (sd_key_id d) = None"
    using rotate_record_Inr [OF assms(2)] by simp_all
  then show ?thesis
    using pin_ring.deadline_fixed [OF assms(1), of "[(d, now, ov)]"] assms(3) by simp
qed

type_synonym rotate_call = "string \<times> string \<times> string option \<times> int \<times> time"

definition rotate_step ::
  "codec \<Rightarrow> (string \<Rightarrow> store_descriptor option) \<Rightarrow> rotate_call \<Rightarrow> remote_registry \<Rightarrow> remote_registry" where
  "rotate_step c from_json call g =
     (case call of (name, text, exp, ov, now) \<Rightarrow> snd (registry_rotate c from_json name text exp ov now g))"

lemma rotate_step_keeps_deadline:
  assumes "registry_ok g" and "get_remote g name = Some r" and "record_look r k = Some (pub, Some e)"
  shows "\<exists>r'. get_remote (rotate_step c from_json call g) name = Some r' \<and> record_look r' k = Some (pub, Some e)"
proof -
  obtain n body exp ov now where call: "call = (n, body, exp, ov, now)" by (cases call)
  show ?thesis
  proof (cases rule: registry_rotate_cases [of c from_json n body exp ov now g])
    case (refused x)
    then show ?thesis using assms by (simp add: rotate_step_def call)
  next
    case (moved q d rec q' g')
    have ok: "record_ok q" using get_remote_in [OF moved(1)] assms(1) by (simp add: registry_ok_def)
    note get = get_remote_moved [OF moved(1), of q' name] 
    have "rr_name q' = rr_name q" using rotate_record_ok [OF ok moved(3)] by simp
    then have step: "get_remote (rotate_step c from_json call g) name = (if name = n then Some q' else Some r)"
      using get moved(4,5) assms(2) by (simp add: rotate_step_def call)
    show ?thesis
    proof (cases "name = n")
      case True
      then have "q = r" using moved(1) assms(2) by simp
      then show ?thesis using step True rotate_record_keeps_deadline [OF ok moved(3)] assms(3) by simp
    next
      case False
      then show ?thesis using step assms(3) by simp
    qed
  qed
qed

lemma rotate_step_ok: "registry_ok g \<Longrightarrow> registry_ok (rotate_step c from_json call g)"
  by (cases call) (simp add: rotate_step_def registry_rotate_ok)

lemma rotate_steps_keep_deadline:
  assumes "registry_ok g" and "get_remote g name = Some r" and "record_look r k = Some (pub, Some e)"
  shows "\<exists>r'. get_remote (fold (rotate_step c from_json) calls g) name = Some r' \<and>
    record_look r' k = Some (pub, Some e)"
  using assms
proof (induction calls arbitrary: g r)
  case (Cons call calls)
  from rotate_step_keeps_deadline [OF Cons.prems, of c from_json call]
  obtain q where q: "get_remote (rotate_step c from_json call g) name = Some q" "record_look q k = Some (pub, Some e)"
    by blast
  from Cons.IH [OF rotate_step_ok [OF Cons.prems(1)] q] show ?case by simp
qed simp

section \<open>A pin follows its store\<close>

lemma verify_self_signed_Inr:
  "verify_self_signed c from_json text now = Inr d \<longleftrightarrow> from_json text = Some d \<and>
    trim (sd_store_id d) \<noteq> [] \<and> trim (sd_key_id d) \<noteq> [] \<and>
    validate_public_key c (sd_key_id d) (sd_public_key d) = None \<and>
    verify_descriptor c d (self_pin d) now = Inr d"
proof (cases "from_json text")
  case (Some d')
  have "d'' = d'" if "verify_descriptor c d' (self_pin d') now = Inr d''" for d''
    using that by (simp add: verify_descriptor_Inr)
  then show ?thesis
    unfolding verify_self_signed_def Some by (auto split: option.splits sum.splits)
qed (simp add: verify_self_signed_def)

lemma descriptor_Inr:
  assumes "identity_ok si" and "descriptor c si t = Inr d"
  defines "k \<equiv> last (si_keys si)"
  shows "sd_schema d = DESCRIPTOR_SCHEMA \<and> sd_store_id d = si_store_id si \<and> sd_key_id d = si_active_key_id si \<and>
    sd_public_key d = ik_public_key k \<and>
    (\<exists>s. ed_sign c (ik_private_key k) (descriptor_signing_bytes c d) = Some s \<and> sd_signature d = Some (b64_encode c s))"
proof -
  let ?d = "unsigned_descriptor si k t"
  obtain s where s: "ed_sign c (ik_private_key k) (descriptor_signing_bytes c ?d) = Some s"
      "d = ?d\<lparr>sd_signature := Some (b64_encode c s)\<rparr>"
    using assms(2) identity_active(2) [OF assms(1)]
    by (auto simp: descriptor_def Let_def k_def split: option.splits)
  have "descriptor_signing_bytes c d = descriptor_signing_bytes c ?d"
    by (simp add: s(2) descriptor_signing_bytes_def unsigned_descriptor_def)
  then show ?thesis
    using s assms(1) by (simp add: unsigned_descriptor_def identity_ok_def k_def)
qed

lemma key_name_nonblank: "trim (key_name s n) \<noteq> []"
proof -
  have "CHR ''/'' \<in> set (trim (key_name s n))"
    by (rule trim_keeps) (simp_all add: key_name_def utf8_spaces_def)
  then show ?thesis by auto
qed

lemma descriptor_self_verifies:
  assumes "identity_ok si" and "descriptor c si t = Inr d" and "trim (si_store_id si) \<noteq> []"
    and "key_pair c (ik_public_key (last (si_keys si))) (ik_private_key (last (si_keys si)))"
    and "validate_public_key c (si_active_key_id si) (ik_public_key (last (si_keys si))) = None"
    and "from_json text = Some d"
  shows "verify_self_signed c from_json text now = Inr d"
proof -
  note d = descriptor_Inr [OF assms(1,2)]
  have id: "si_active_key_id si = key_name (si_store_id si) (Suc (length (si_keys si) - 1))"
    using assms(1) by (simp add: identity_ok_def last_conv_nth)
  have "trim (si_active_key_id si) \<noteq> []" unfolding id by (rule key_name_nonblank)
  moreover have "si_store_id si \<noteq> []" using assms(3) by (cases "si_store_id si") simp_all
  moreover have "good_signature c (sd_signature d) (sd_public_key d) (descriptor_signing_bytes c d)"
  proof -
    obtain pub where pub: "b64_decode c (ik_public_key (last (si_keys si))) = Some pub" "public_ok c pub"
      and signs: "\<And>msg. \<exists>s. ed_sign c (ik_private_key (last (si_keys si))) msg = Some s \<and> ed_verify c pub s msg \<and>
        b64_decode c (b64_encode c s) = Some s"
      using assms(4) unfolding key_pair_def by blast
    obtain s where "ed_sign c (ik_private_key (last (si_keys si))) (descriptor_signing_bytes c d) = Some s"
      "ed_verify c pub s (descriptor_signing_bytes c d)" "b64_decode c (b64_encode c s) = Some s"
      using signs by blast
    then show ?thesis using d pub by (simp add: good_signature_iff)
  qed
  ultimately show ?thesis
    using d assms(3,5,6)
    by (simp add: verify_self_signed_Inr verify_descriptor_Inr pin_matches_def self_pin_def retired_def)
qed

lemma pin_follows:
  assumes "identity_ok si" and "trim (si_store_id si) \<noteq> []" and "key_pair c (fst pair) (snd pair)"
    and "validate_public_key c (next_key_id si) (fst pair) = None"
    and "registry_ok g" and "get_remote g name = Some r"
    and "rr_store_id r = si_store_id si" and "record_look r = identity_look si"
    and "rotate_identity pair now ov si = (Inr rec, si')"
    and "descriptor c si' t = Inr d" and "from_json raw = Some d"
  obtains g' r' where "registry_rotate c from_json name raw (Some (fst pair)) ov now g = (Inr rec, g')"
    and "get_remote g' name = Some r'" and "\<And>other. other \<noteq> name \<Longrightarrow> get_remote g' other = get_remote g other"
    and "registry_ok g'" and "identity_ok si'"
    and "rr_store_id r' = si_store_id si'" and "record_look r' = identity_look si'"
proof -
  have si': "si' = identity_rotate pair now ov si" by (simp add: identity_rotate_def assms(9))
  have rec: "rec = \<lparr>ro_old_key_id = si_active_key_id si, ro_new_key_id = next_key_id si,
      ro_rotated_at = now, ro_overlap_until = sat_add now (max ov 0)\<rparr>"
    using assms(9) identity_active(2) [OF assms(1)] assms(1)
    by (auto simp: rotate_identity_def Let_def generate_key_def next_key_id_def identity_ok_def)
  have ok': "identity_ok si'" unfolding si' by (rule identity_rotate_ok [OF assms(1)])
  have eq: "si_store_id si' = si_store_id si" "si_active_key_id si' = next_key_id si"
    "ik_public_key (last (si_keys si')) = fst pair" "ik_private_key (last (si_keys si')) = snd pair"
    by (simp_all add: si' identity_rotate_eq [OF assms(1)] generate_key_def)
  have d: "sd_store_id d = si_store_id si" "sd_key_id d = next_key_id si" "sd_public_key d = fst pair"
    using descriptor_Inr [OF ok' assms(10)] by (simp_all add: eq)
  have self: "verify_self_signed c from_json raw now = Inr d"
    by (rule descriptor_self_verifies [OF ok' assms(10)]) (use assms(2-4,11) eq in simp_all)
  have rok: "record_ok r" using get_remote_in [OF assms(6)] assms(5) by (simp add: registry_ok_def)
  have key: "rr_key_id r = si_active_key_id si"
    using record_deadline [OF rok, of "rr_key_id r"] identity_deadline [OF assms(1), of "rr_key_id r"] assms(8) by simp
  have new: "record_look r (sd_key_id d) = None" by (simp add: assms(8) d(2) identity_look_new [OF assms(1)])
  have rot: "rotate_record d (Some (fst pair)) ov now r = Inr (rec, record_move d now ov r)"
    using new d key assms(7) by (auto simp: rotate_record_def record_look_None rec record_move_def)
  let ?r' = "record_move d now ov r"
  let ?g' = "g\<lparr>rg_remotes := map_first (\<lambda>x. rr_name x = name) ?r' (rg_remotes g)\<rparr>"
  have run: "registry_rotate c from_json name raw (Some (fst pair)) ov now g = (Inr rec, ?g')"
    by (simp add: registry_rotate_def assms(6) self rot)
  have same: "rr_name ?r' = rr_name r" "rr_store_id ?r' = si_store_id si'"
    using rotate_record_ok [OF rok rot] assms(7) eq(1) by simp_all
  note get = get_remote_moved [OF assms(6) same(1)]
  have "record_look ?r' = identity_look si'"
    using record_move_look [OF rok new, of now ov] identity_rotate_look [OF assms(1), of pair now ov]
      d(2,3) key assms(8) by (metis prod.inject si')
  moreover have "registry_ok ?g'" using registry_rotate_ok [OF assms(5)] run by (metis snd_conv)
  ultimately show ?thesis
    using that [OF run _ _ _ ok' same(2)] get by simp
qed

end
