(* ===== verification/Webhook.thy ===== *)
theory Webhook
  imports Registry DbProjects DbInv "HOL-Library.Sublist"
begin

text \<open>
  \<open>src/src/webhook.rs\<close>: event identities, signed federation assertions, the receiver's replay
  guard, one round of outbox delivery with its retry backoff, and the HMAC header. The HTTP call,
  the clock and HMAC-SHA256 are inputs.
\<close>

definition EVENT_SCHEMA :: string where "EVENT_SCHEMA = ''marbles.event/1''"
definition ASSERTION_SCHEMA :: string where "ASSERTION_SCHEMA = ''marbles.assertion/1''"

definition event_id :: "string \<Rightarrow> int \<Rightarrow> string" where
  "event_id store_id seq = store_id @ '':'' @ show_int seq"

record event_envelope =
  ee_schema :: string
  ee_id :: string
  ee_store_id :: string
  ee_company :: string
  ee_project :: string
  ee_issue_id :: string
  ee_event :: string
  ee_occurred_at :: time

definition envelope_of :: "string \<Rightarrow> outbound_event \<Rightarrow> event_envelope" where
  "envelope_of company e =
     \<lparr>ee_schema = EVENT_SCHEMA, ee_id = event_id (oe_store_id e) (oe_seq e),
      ee_store_id = oe_store_id e, ee_company = company, ee_project = oe_project e,
      ee_issue_id = oe_issue_id e, ee_event = oe_event e, ee_occurred_at = oe_occurred_at e\<rparr>"

section \<open>Federation assertions\<close>

record federation_assertion =
  fa_schema :: string
  fa_store_id :: string
  fa_seq :: int
  fa_id :: string
  fa_company :: string
  fa_project :: string
  fa_issue_id :: string
  fa_event :: string
  fa_occurred_at :: time
  fa_key_id :: string
  fa_signature :: "string option"

datatype replay_error =
    InvalidSequence string int
  | Replayed string int int

datatype federation_error =
    FedUnsupportedSchema string
  | FedWrongStore string string
  | FedWrongKeyId string string
  | FedKeyRetired string time
  | FedUnsigned
  | FedMalformedSignature
  | FedBadSignature
  | FedCrypto
  | FedReplay replay_error

definition federation_of :: "string \<Rightarrow> outbound_event \<Rightarrow> federation_assertion" where
  "federation_of company e =
     \<lparr>fa_schema = ASSERTION_SCHEMA, fa_store_id = oe_store_id e, fa_seq = oe_seq e,
      fa_id = event_id (oe_store_id e) (oe_seq e), fa_company = company, fa_project = oe_project e,
      fa_issue_id = oe_issue_id e, fa_event = oe_event e, fa_occurred_at = oe_occurred_at e,
      fa_key_id = [], fa_signature = None\<rparr>"

definition federation_fields :: "federation_assertion \<Rightarrow> json" where
  "federation_fields a = JObj
     ([(''schema'', JStr (fa_schema a)), (''store_id'', JStr (fa_store_id a)), (''seq'', JInt (fa_seq a)),
       (''id'', JStr (fa_id a)), (''company'', JStr (fa_company a)), (''project'', JStr (fa_project a)),
       (''issue_id'', JStr (fa_issue_id a)), (''event'', JStr (fa_event a)),
       (''occurred_at'', JInt (fa_occurred_at a)), (''key_id'', JStr (fa_key_id a))] @
      optional_field ''signature'' (fa_signature a))"

definition federation_signing_bytes :: "codec \<Rightarrow> federation_assertion \<Rightarrow> string" where
  "federation_signing_bytes c a = json_vec c (federation_fields (a\<lparr>fa_signature := None\<rparr>))"

definition sign_federation_assertion ::
  "codec \<Rightarrow> string \<Rightarrow> (string \<Rightarrow> string option) \<Rightarrow> federation_assertion \<Rightarrow> federation_error + federation_assertion" where
  "sign_federation_assertion c signer_key_id sign a =
     (if fa_schema a \<noteq> ASSERTION_SCHEMA then Inl (FedUnsupportedSchema (fa_schema a))
      else let b = a\<lparr>fa_key_id := signer_key_id, fa_signature := None\<rparr> in
           (case sign (federation_signing_bytes c b) of
              None \<Rightarrow> Inl FedCrypto
            | Some s \<Rightarrow> Inr (b\<lparr>fa_signature := Some (b64_encode c s)\<rparr>)))"

definition verify_federation_assertion ::
  "codec \<Rightarrow> federation_assertion \<Rightarrow> pinned_key \<Rightarrow> time \<Rightarrow> federation_error option" where
  "verify_federation_assertion c a pin now =
     (if fa_schema a \<noteq> ASSERTION_SCHEMA then Some (FedUnsupportedSchema (fa_schema a))
      else if pk_store_id pin = [] \<or> fa_store_id a \<noteq> pk_store_id pin then
        Some (FedWrongStore (fa_store_id a) (pk_store_id pin))
      else if fa_key_id a \<noteq> pk_key_id pin then Some (FedWrongKeyId (fa_key_id a) (pk_key_id pin))
      else if retired (pk_valid_until pin) now then
        Some (FedKeyRetired (pk_key_id pin) (case pk_valid_until pin of None \<Rightarrow> 0 | Some e \<Rightarrow> e))
      else (case check_signature c (fa_signature a) (pk_public_key pin) (federation_signing_bytes c a) of
              None \<Rightarrow> None
            | Some SigMissing \<Rightarrow> Some FedUnsigned
            | Some SigMalformed \<Rightarrow> Some FedMalformedSignature
            | Some SigCrypto \<Rightarrow> Some FedCrypto
            | Some SigBad \<Rightarrow> Some FedBadSignature))"

section \<open>The replay guard\<close>

type_synonym replay_guard = "(string \<times> int) list"

definition last_seq :: "replay_guard \<Rightarrow> string \<Rightarrow> int option" where
  "last_seq guard store_id = map_of guard store_id"

definition accept :: "string \<Rightarrow> int \<Rightarrow> replay_guard \<Rightarrow> (replay_error + unit) \<times> replay_guard" where
  "accept store_id seq guard =
     (if seq \<le> 0 then (Inl (InvalidSequence store_id seq), guard)
      else (case last_seq guard store_id of
        Some prev \<Rightarrow>
          if seq \<le> prev then (Inl (Replayed store_id seq prev), guard)
          else (Inr (), bt_insert store_id seq guard)
      | None \<Rightarrow> (Inr (), bt_insert store_id seq guard)))"

record federation_verifier =
  vf_pin :: pinned_key
  vf_replay :: replay_guard

definition verifier_new :: "pinned_key \<Rightarrow> federation_verifier" where
  "verifier_new pin = \<lparr>vf_pin = pin, vf_replay = []\<rparr>"

definition verifier_last_seq :: "federation_verifier \<Rightarrow> int option" where
  "verifier_last_seq v = last_seq (vf_replay v) (pk_store_id (vf_pin v))"

definition verifier_verify ::
  "codec \<Rightarrow> federation_assertion \<Rightarrow> time \<Rightarrow> federation_verifier \<Rightarrow> (federation_error + unit) \<times> federation_verifier" where
  "verifier_verify c a now v =
     (case verify_federation_assertion c a (vf_pin v) now of
        Some e \<Rightarrow> (Inl e, v)
      | None \<Rightarrow>
          (case accept (fa_store_id a) (fa_seq a) (vf_replay v) of
             (Inl e, _) \<Rightarrow> (Inl (FedReplay e), v)
           | (Inr _, guard) \<Rightarrow> (Inr (), v\<lparr>vf_replay := guard\<rparr>)))"

section \<open>Delivery\<close>

definition backoff :: "int \<Rightarrow> int" where
  "backoff attempts = 2 ^ nat (max 0 (min attempts 8))"

text \<open>
  One event: \<open>outcome\<close> is what the receiver answered, \<open>now\<close> the clock when the result is written.
\<close>

definition settle_event :: "outbound_event \<Rightarrow> string option \<Rightarrow> time \<Rightarrow> db \<Rightarrow> (error + unit) \<times> db" where
  "settle_event e outcome now =
     (case outcome of
        None \<Rightarrow> mark_event_delivered (oe_seq e) now
      | Some err \<Rightarrow> mark_event_failed (oe_seq e) (now + backoff (oe_attempts e)) err)"

fun settle_all :: "(outbound_event \<times> string option \<times> time) list \<Rightarrow> db \<Rightarrow> (error + unit) \<times> db" where
  "settle_all [] s = (Inr (), s)"
| "settle_all ((e, outcome, now) # es) s =
     (case settle_event e outcome now s of
        (Inl err, s') \<Rightarrow> (Inl err, s')
      | (Inr _, s') \<Rightarrow> settle_all es s')"

text \<open>One store's share of a round; the receiver and the clock answer by sequence number.\<close>

definition deliver_store ::
  "time \<Rightarrow> (outbound_event \<Rightarrow> string option \<times> time) \<Rightarrow> db \<Rightarrow> (error + unit) \<times> db" where
  "deliver_store now receiver s =
     settle_all (map (\<lambda>e. (e, receiver e)) (pending_events now 64 s)) s"

text \<open>A round visits the open stores in turn and stops at the first storage failure.\<close>

fun deliver_once ::
  "time \<Rightarrow> (string \<Rightarrow> outbound_event \<Rightarrow> string option \<times> time) \<Rightarrow> (string \<times> db) list \<Rightarrow>
    (error + unit) \<times> (string \<times> db) list" where
  "deliver_once now receiver [] = (Inr (), [])"
| "deliver_once now receiver ((company, s) # stores) =
     (case deliver_store now (receiver company) s of
        (Inl e, s') \<Rightarrow> (Inl e, (company, s') # stores)
      | (Inr _, s') \<Rightarrow>
          (case deliver_once now receiver stores of (r, stores') \<Rightarrow> (r, (company, s') # stores')))"

section \<open>The HMAC header\<close>

definition hmac_hex :: "(string \<Rightarrow> string \<Rightarrow> 8 word list option) \<Rightarrow> string \<Rightarrow> string \<Rightarrow> string option" where
  "hmac_hex hmac secret body = map_option (\<lambda>bs. concat (map hex_byte bs)) (hmac secret body)"

definition byte_of :: "char \<Rightarrow> 8 word" where
  "byte_of ch = word_of_nat (of_char ch)"

definition constant_time_eq :: "string \<Rightarrow> string \<Rightarrow> bool" where
  "constant_time_eq left right =
     (if length left \<noteq> length right then False
      else fold (\<lambda>(a, b) acc. or acc (xor (byte_of a) (byte_of b))) (zip left right) 0 = (0 :: 8 word))"

definition verify_hmac_signature ::
  "(string \<Rightarrow> string \<Rightarrow> 8 word list option) \<Rightarrow> string \<Rightarrow> string \<Rightarrow> string \<Rightarrow> bool" where
  "verify_hmac_signature hmac secret body header =
     (if take 7 header = ''sha256=''
      then (case hmac_hex hmac secret body of
              None \<Rightarrow> False | Some actual \<Rightarrow> constant_time_eq actual (drop 7 header))
      else False)"

section \<open>Event identities\<close>

lemma show_int_no_colon: "CHR '':'' \<notin> set (show_int i)"
  using show_nat_digits [of "CHR '':''"] by (auto simp: show_int_def)

lemma append_sep_inj:
  "c \<notin> set u \<Longrightarrow> c \<notin> set v \<Longrightarrow> xs @ c # u = ys @ c # v \<Longrightarrow> xs = ys \<and> u = v"
proof (induction xs arbitrary: ys)
  case Nil
  then show ?case by (cases ys) auto
next
  case (Cons x xs)
  then show ?case by (cases ys) auto
qed

lemma event_id_inj: "event_id s i = event_id t j \<longleftrightarrow> s = t \<and> i = j"
  using append_sep_inj [OF show_int_no_colon [of i] show_int_no_colon [of j], of s t]
  by (auto simp: event_id_def show_int_inj)

section \<open>Sequences only go forward\<close>

lemma accept_cases:
  obtains (yes) "0 < seq" and "\<forall>l. last_seq guard s = Some l \<longrightarrow> l < seq"
      and "accept s seq guard = (Inr (), bt_insert s seq guard)"
  | (no) e where "seq \<le> 0 \<or> (\<exists>l. last_seq guard s = Some l \<and> seq \<le> l)" and "accept s seq guard = (Inl e, guard)"
proof (cases "seq \<le> 0 \<or> (\<exists>l. last_seq guard s = Some l \<and> seq \<le> l)")
  case True
  then have "\<exists>e. accept s seq guard = (Inl e, guard)" by (auto simp: accept_def)
  with True no show ?thesis by blast
next
  case False
  then have "accept s seq guard = (Inr (), bt_insert s seq guard)"
    by (auto simp: accept_def split: option.splits)
  with False yes show ?thesis by (meson not_le)
qed

lemma last_seq_insert: "last_seq (bt_insert s seq guard) t = (if t = s then Some seq else last_seq guard t)"
  by (simp add: last_seq_def)

fun accept_all :: "(string \<times> int) list \<Rightarrow> replay_guard \<Rightarrow> (string \<times> int) list \<times> replay_guard" where
  "accept_all [] guard = ([], guard)"
| "accept_all ((s, seq) # es) guard =
     (case accept s seq guard of
        (Inl _, _) \<Rightarrow> accept_all es guard
      | (Inr _, guard') \<Rightarrow> (case accept_all es guard' of (ok, guard'') \<Rightarrow> ((s, seq) # ok, guard'')))"

definition numbers_of :: "string \<Rightarrow> (string \<times> int) list \<Rightarrow> int list" where
  "numbers_of s es = map snd (filter (\<lambda>e. fst e = s) es)"

lemma accept_all_forward:
  assumes "accept_all es guard = (ok, guard')"
  shows "sorted_wrt (<) (numbers_of s ok) \<and>
    (\<forall>q \<in> set (numbers_of s ok). 0 < q \<and> (\<forall>l. last_seq guard s = Some l \<longrightarrow> l < q)) \<and>
    set ok \<subseteq> set es \<and>
    last_seq guard' s = (if numbers_of s ok = [] then last_seq guard s else Some (last (numbers_of s ok)))"
  using assms
proof (induction es arbitrary: guard ok)
  case (Cons x es)
  obtain t seq where x: "x = (t, seq)" by (cases x)
  show ?case
  proof (cases rule: accept_cases [of seq guard t])
    case yes
    obtain ok1 where r: "accept_all es (bt_insert t seq guard) = (ok1, guard')" "ok = (t, seq) # ok1"
      using Cons.prems yes(3) by (auto simp: x split: prod.splits)
    note ih = Cons.IH [OF r(1)]
    show ?thesis
    proof (cases "t = s")
      case True
      have n: "numbers_of s ok = seq # numbers_of s ok1" by (simp add: r(2) numbers_of_def True)
      have "\<forall>q \<in> set (numbers_of s ok1). 0 < q \<and> seq < q" using ih True by (simp add: last_seq_insert)
      then have "\<forall>q \<in> set (numbers_of s ok). 0 < q \<and> (\<forall>l. last_seq guard s = Some l \<longrightarrow> l < q)"
        using yes(1,2) True n by fastforce
      then show ?thesis using ih yes(1) True n r(2) x by (auto simp: last_seq_insert)
    next
      case False
      then have "numbers_of s ok = numbers_of s ok1" by (simp add: r(2) numbers_of_def)
      then show ?thesis using ih False r(2) x by (auto simp: last_seq_insert)
    qed
  next
    case (no e)
    then have "accept_all es guard = (ok, guard')" using Cons.prems by (simp add: x)
    from Cons.IH [OF this] show ?thesis by auto
  qed
qed (auto simp: numbers_of_def)

section \<open>Comparing in constant time is comparing\<close>

lemma byte_of_inj: "byte_of a = byte_of b \<longleftrightarrow> a = b"
proof
  assume "byte_of a = byte_of b"
  then have "unat (byte_of a) = unat (byte_of b)" by simp
  moreover have "unat (byte_of ch) = of_char ch" for ch
  proof -
    have "(of_char ch :: nat) < 256" by simp
    then show ?thesis by (simp add: byte_of_def unat_of_nat)
  qed
  ultimately show "a = b" by simp
qed simp

lemma word_or_zero: "or a b = 0 \<longleftrightarrow> a = 0 \<and> b = (0 :: 'a::len word)"
  by (auto simp: bit_eq_iff bit_simps)

lemma word_xor_zero: "xor a b = 0 \<longleftrightarrow> a = (b :: 'a::len word)"
  by (auto simp: bit_eq_iff bit_simps)

lemma fold_xor_zero:
  "fold (\<lambda>(a, b) acc. or acc (xor (byte_of a) (byte_of b))) ps acc = (0 :: 8 word) \<longleftrightarrow>
    acc = 0 \<and> (\<forall>(a, b) \<in> set ps. a = b)"
proof (induction ps arbitrary: acc)
  case (Cons p ps)
  obtain a b where p: "p = (a, b)" by (cases p)
  have "xor (byte_of a) (byte_of b) = 0 \<longleftrightarrow> a = b"
    unfolding word_xor_zero by (rule byte_of_inj)
  then show ?case using Cons by (auto simp: p word_or_zero)
qed simp

lemma constant_time_eq_iff: "constant_time_eq left right \<longleftrightarrow> left = right"
proof (cases "length left = length right")
  case True
  have "(\<forall>(a, b) \<in> set (zip left right). a = b) \<longleftrightarrow> left = right"
    using True by (induction left right rule: list_induct2) auto
  then show ?thesis using True by (simp add: constant_time_eq_def fold_xor_zero)
qed (auto simp: constant_time_eq_def)

section \<open>What a round writes\<close>

definition settle_row :: "(outbound_event \<times> string option \<times> time) list \<Rightarrow> outbound_row \<Rightarrow> outbound_row" where
  "settle_row es r =
     (case find (\<lambda>x. oe_seq (fst x) = or_seq r) es of
        None \<Rightarrow> r
      | Some (e, outcome, now) \<Rightarrow>
          if or_delivered_at r \<noteq> None then r
          else (case outcome of
            None \<Rightarrow> r\<lparr>or_delivered_at := Some now, or_attempts := or_attempts r + 1, or_last_error := None\<rparr>
          | Some err \<Rightarrow> r\<lparr>or_attempts := or_attempts r + 1, or_next_attempt_at := now + backoff (oe_attempts e),
                         or_last_error := Some err\<rparr>))"

lemma settle_event_eq:
  "settle_event e outcome now s =
    (Inr (), s\<lparr>db_outbound := map (settle_row [(e, outcome, now)]) (db_outbound s)\<rparr>)"
  by (auto simp: settle_event_def mark_event_delivered_def mark_event_failed_def upd_outbound_def tx_def
      settle_row_def fun_eq_iff intro!: db.equality split: option.splits)

lemma settle_row_seq [simp]: "or_seq (settle_row es r) = or_seq r"
  by (simp add: settle_row_def split: option.splits prod.splits)

lemma settle_row_Cons:
  assumes "oe_seq e \<notin> (\<lambda>x. oe_seq (fst x)) ` set es"
  shows "settle_row es (settle_row [(e, outcome, now)] r) = settle_row ((e, outcome, now) # es) r"
proof (cases "oe_seq e = or_seq r")
  case True
  then have "find (\<lambda>x. oe_seq (fst x) = or_seq r) es = None" using assms by (force simp: find_None_iff)
  then have "settle_row es q = q" if "or_seq q = or_seq r" for q using that by (simp add: settle_row_def)
  then show ?thesis using True by (simp add: settle_row_def split: option.splits)
qed (simp add: settle_row_def)

lemma settle_all_eq:
  assumes "distinct (map (\<lambda>x. oe_seq (fst x)) es)"
  shows "settle_all es s = (Inr (), s\<lparr>db_outbound := map (settle_row es) (db_outbound s)\<rparr>)"
  using assms
proof (induction es arbitrary: s)
  case (Cons x es)
  obtain e outcome now where x: "x = (e, outcome, now)" by (cases x)
  have "settle_row es (settle_row [(e, outcome, now)] r) = settle_row (x # es) r" for r
    unfolding x using Cons.prems by (intro settle_row_Cons) (auto simp: x)
  then show ?case using Cons by (simp add: x settle_event_eq comp_def)
next
  case Nil
  have "settle_row [] = id" by (simp add: settle_row_def fun_eq_iff)
  then show ?case by simp
qed

lemma backoff_bounds: "1 \<le> backoff n \<and> backoff n \<le> 256"
proof -
  have "(2::int) ^ nat (max 0 (min n 8)) \<le> 2 ^ 8" by (rule power_increasing) auto
  then show ?thesis by (simp add: backoff_def)
qed

text \<open>The batch of a round: the first 64 events that are due.\<close>

definition batch :: "time \<Rightarrow> db \<Rightarrow> outbound_row list" where
  "batch now s = take 64 (sort_key or_seq
     (filter (\<lambda>r. or_delivered_at r = None \<and> or_next_attempt_at r \<le> now) (db_outbound s)))"

lemma batch_row:
  assumes "logs_ok s" and "r \<in> set (batch now s)"
  shows "r \<in> set (db_outbound s)" and "or_delivered_at r = None"
  using assms by (auto simp: batch_def dest!: in_set_takeD)

lemma sorted_seq_unique:
  "sorted_wrt (<) (map or_seq rs) \<Longrightarrow> r \<in> set rs \<Longrightarrow> q \<in> set rs \<Longrightarrow> or_seq r = or_seq q \<Longrightarrow> r = q"
  by (induction rs) auto

lemma batch_distinct:
  assumes "logs_ok s"
  shows "distinct (map or_seq (batch now s))"
proof -
  have "distinct (map or_seq (db_outbound s))" using assms by (simp add: logs_ok_def strict_sorted_iff)
  then have "distinct (map or_seq (sort_key or_seq (filter (\<lambda>r. or_delivered_at r = None \<and> or_next_attempt_at r \<le> now) (db_outbound s))))"
    by (simp add: distinct_map inj_on_def)
  then show ?thesis by (simp add: batch_def distinct_take take_map [symmetric])
qed

lemma round_events:
  "map (\<lambda>e. (e, receiver e)) (pending_events now 64 s) = map (\<lambda>r. (event_of_row r, receiver (event_of_row r))) (batch now s)"
  by (simp add: pending_events_def batch_def)

lemma deliver_store_eq:
  assumes "logs_ok s"
  shows "deliver_store now receiver s =
    (Inr (), s\<lparr>db_outbound := map (settle_row (map (\<lambda>e. (e, receiver e)) (pending_events now 64 s))) (db_outbound s)\<rparr>)"
  unfolding deliver_store_def
  by (rule settle_all_eq) (use batch_distinct [OF assms, of now] in \<open>simp add: round_events event_of_row_def comp_def\<close>)

lemma deliver_store_rows:
  fixes receiver :: "outbound_event \<Rightarrow> string option \<times> time" and now :: time
  assumes "logs_ok s" and "r \<in> set (db_outbound s)"
  defines "es \<equiv> map (\<lambda>e. (e, receiver e)) (pending_events now 64 s)"
  shows "r \<notin> set (batch now s) \<Longrightarrow> settle_row es r = r"
    and "r \<in> set (batch now s) \<Longrightarrow> find (\<lambda>x. oe_seq (fst x) = or_seq r) es = Some (event_of_row r, receiver (event_of_row r))"
proof -
  have es: "es = map (\<lambda>r. (event_of_row r, receiver (event_of_row r))) (batch now s)"
    by (simp add: es_def round_events)
  have seqs: "sorted_wrt (<) (map or_seq (db_outbound s))" using assms(1) by (simp add: logs_ok_def)
  have seq: "oe_seq (event_of_row q) = or_seq q" for q by (simp add: event_of_row_def)
  have uniq: "q = r" if "q \<in> set (batch now s)" "or_seq q = or_seq r" for q
    using sorted_seq_unique [OF seqs batch_row(1) [OF assms(1) that(1)] assms(2) that(2)] .
  show "settle_row es r = r" if out: "r \<notin> set (batch now s)"
  proof -
    have "find (\<lambda>x. oe_seq (fst x) = or_seq r) es = None"
      using out uniq by (auto simp: find_None_iff es seq)
    then show ?thesis by (simp add: settle_row_def)
  qed
  show "find (\<lambda>x. oe_seq (fst x) = or_seq r) es = Some (event_of_row r, receiver (event_of_row r))"
    if "r \<in> set (batch now s)"
  proof (rule find_in)
    show "(event_of_row r, receiver (event_of_row r)) \<in> set es" using that by (auto simp: es)
    show "y = (event_of_row r, receiver (event_of_row r))" if y: "y \<in> set es" "oe_seq (fst y) = or_seq r" for y
    proof -
      obtain q where q: "q \<in> set (batch now s)" "y = (event_of_row q, receiver (event_of_row q))"
        using y(1) by (auto simp: es)
      then have "q = r" using y(2) by (intro uniq) (simp_all add: seq)
      then show ?thesis using q(2) by simp
    qed
  qed (simp add: seq)
qed

section \<open>A verifier's history\<close>

text \<open>The assertions a verifier accepts of those it is shown, each at the time it is shown.\<close>

fun verify_all ::
  "codec \<Rightarrow> (federation_assertion \<times> time) list \<Rightarrow> federation_verifier \<Rightarrow>
    (federation_assertion \<times> time) list \<times> federation_verifier" where
  "verify_all c [] v = ([], v)"
| "verify_all c ((a, now) # as) v =
     (case verifier_verify c a now v of
        (Inl _, v') \<Rightarrow> verify_all c as v'
      | (Inr _, v') \<Rightarrow> (case verify_all c as v' of (ok, v'') \<Rightarrow> ((a, now) # ok, v'')))"

definition above :: "int option \<Rightarrow> int \<Rightarrow> bool" where
  "above l seq \<longleftrightarrow> (case l of None \<Rightarrow> 0 < seq | Some p \<Rightarrow> 0 < seq \<and> p < seq)"

lemma verify_federation_store: "verify_federation_assertion c a pin now = None \<Longrightarrow> fa_store_id a = pk_store_id pin"
  by (auto simp: verify_federation_assertion_def split: if_splits)

lemma verifier_verify_cases:
  obtains (refused) e where "verifier_verify c a now v = (Inl e, v)"
      and "\<not> (verify_federation_assertion c a (vf_pin v) now = None \<and> above (verifier_last_seq v) (fa_seq a))"
  | (accepted) v' where "verify_federation_assertion c a (vf_pin v) now = None"
      and "above (verifier_last_seq v) (fa_seq a)" and "verifier_verify c a now v = (Inr (), v')"
      and "vf_pin v' = vf_pin v" and "verifier_last_seq v' = Some (fa_seq a)"
proof (cases "verify_federation_assertion c a (vf_pin v) now")
  case (Some e)
  then show ?thesis by (intro refused) (simp_all add: verifier_verify_def)
next
  case None
  have store: "fa_store_id a = pk_store_id (vf_pin v)" by (rule verify_federation_store [OF None])
  show ?thesis
  proof (cases rule: accept_cases [of "fa_seq a" "vf_replay v" "fa_store_id a"])
    case yes
    show ?thesis
      by (rule accepted [of "v\<lparr>vf_replay := bt_insert (fa_store_id a) (fa_seq a) (vf_replay v)\<rparr>"])
        (use None yes store in \<open>auto simp: verifier_verify_def verifier_last_seq_def above_def last_seq_insert
          split: option.splits\<close>)
  next
    case (no e)
    show ?thesis
      by (rule refused [of "FedReplay e"])
        (use None no store in \<open>auto simp: verifier_verify_def verifier_last_seq_def above_def split: option.splits\<close>)
  qed
qed

lemma verify_all_history:
  assumes "verify_all c as v = (ok, v')"
  shows "sorted_wrt (<) (map (fa_seq \<circ> fst) ok) \<and> subseq ok as \<and> vf_pin v' = vf_pin v \<and>
    (\<forall>(a, now) \<in> set ok. verify_federation_assertion c a (vf_pin v) now = None \<and> above (verifier_last_seq v) (fa_seq a)) \<and>
    verifier_last_seq v' = (if ok = [] then verifier_last_seq v else Some (fa_seq (fst (last ok))))"
  using assms
proof (induction as arbitrary: v ok)
  case (Cons x as)
  obtain a now where x: "x = (a, now)" by (cases x)
  show ?case
  proof (cases rule: verifier_verify_cases [of c a now v])
    case (refused e)
    then show ?thesis using Cons.IH [of v ok] Cons.prems x by auto
  next
    case (accepted w)
    obtain ok1 where r: "verify_all c as w = (ok1, v')" "ok = (a, now) # ok1"
      using Cons.prems accepted(3) by (auto simp: x split: prod.splits)
    note ih = Cons.IH [OF r(1)]
    have "above (verifier_last_seq v) (fa_seq b)" if "above (verifier_last_seq w) (fa_seq b)" for b
      using that accepted(2,5) by (auto simp: above_def split: option.splits)
    then show ?thesis using ih accepted r(2) x by (fastforce simp: above_def)
  qed
qed simp

end
