(* ===== verification/Assertion.thy ===== *)
theory Assertion
  imports Registry Types
begin

text \<open>
  \<open>src/src/assertion_cache.rs\<close>: a store's signed claims about the state of its issues, and the
  directory of the last claims observed. The SHA-256 of a file name and the JSON reader and writer
  of an entry are parameters; a directory is the list of its \<open>.json\<close> files in listing order with
  their modification times. The named freshness of a read is the type \<open>freshness\<close>.
\<close>

definition ISSUE_ASSERTION_SCHEMA :: string where
  "ISSUE_ASSERTION_SCHEMA = ''marbles.issue-assertion/1''"
definition ASSERTION_CACHE_VERSION :: int where "ASSERTION_CACHE_VERSION = 1"
definition DEFAULT_FRESHNESS_WINDOW_SECONDS :: int where "DEFAULT_FRESHNESS_WINDOW_SECONDS = 5 * 60"
definition MAX_CLOCK_SKEW_SECONDS :: int where "MAX_CLOCK_SKEW_SECONDS = 5 * 60"
definition MAX_ENTRIES :: nat where "MAX_ENTRIES = 4096"
definition HEX :: string where "HEX = ''0123456789abcdef''"

datatype assertion_error =
    UnsupportedSchema string
  | WrongStore string string
  | WrongKeyId string string
  | KeyRetired string time
  | Unsigned
  | MalformedSignature
  | BadSignature
  | EmptyRemoteIssueId
  | UnknownState string
  | FutureAssertion time time int
  | CryptoFailure
  | AssertionJson

datatype freshness = Fresh | Stale | Unknown | Unverifiable

fun freshness_str :: "freshness \<Rightarrow> string" where
  "freshness_str Fresh = ''fresh''"
| "freshness_str Stale = ''stale''"
| "freshness_str Unknown = ''unknown''"
| "freshness_str Unverifiable = ''unverifiable''"

datatype missing_reason = NeverObserved | RemoteUnreachable

section \<open>The signed claim\<close>

record issue_assertion =
  ia_schema :: string
  ia_store_id :: string
  ia_remote_issue_id :: string
  ia_state :: string
  ia_asserted_at :: time
  ia_key_id :: string
  ia_signature :: "string option"

definition assertion_new :: "string \<Rightarrow> string \<Rightarrow> string \<Rightarrow> time \<Rightarrow> issue_assertion" where
  "assertion_new store_id remote_issue_id state asserted_at =
     \<lparr>ia_schema = ISSUE_ASSERTION_SCHEMA, ia_store_id = store_id,
      ia_remote_issue_id = remote_issue_id, ia_state = state, ia_asserted_at = asserted_at,
      ia_key_id = [], ia_signature = None\<rparr>"

definition assertion_fields :: "issue_assertion \<Rightarrow> json" where
  "assertion_fields a = JObj
     ([(''schema'', JStr (ia_schema a)), (''store_id'', JStr (ia_store_id a)),
       (''remote_issue_id'', JStr (ia_remote_issue_id a)), (''state'', JStr (ia_state a)),
       (''asserted_at'', JInt (ia_asserted_at a)), (''key_id'', JStr (ia_key_id a))] @
      optional_field ''signature'' (ia_signature a))"

definition unsigned :: "issue_assertion \<Rightarrow> issue_assertion" where
  "unsigned a = a\<lparr>ia_signature := None\<rparr>"

definition signing_bytes :: "codec \<Rightarrow> issue_assertion \<Rightarrow> string" where
  "signing_bytes c a = json_vec c (assertion_fields (unsigned a))"

text \<open>The signer is a key id and a fallible signature of bytes.\<close>

definition sign_issue_assertion ::
  "codec \<Rightarrow> string \<Rightarrow> (string \<Rightarrow> string option) \<Rightarrow> issue_assertion \<Rightarrow> assertion_error + issue_assertion" where
  "sign_issue_assertion c signer_key_id sign a =
     (if ia_schema a \<noteq> ISSUE_ASSERTION_SCHEMA then Inl (UnsupportedSchema (ia_schema a))
      else if trim (ia_remote_issue_id a) = [] then Inl EmptyRemoteIssueId
      else let b = a\<lparr>ia_key_id := signer_key_id, ia_signature := None\<rparr> in
           (case sign (signing_bytes c b) of
              None \<Rightarrow> Inl CryptoFailure
            | Some s \<Rightarrow> Inr (b\<lparr>ia_signature := Some (b64_encode c s)\<rparr>)))"

definition is_known_state :: "string \<Rightarrow> bool" where
  "is_known_state state \<longleftrightarrow> state \<in> set STATUSES"

definition verify_issue_assertion :: "codec \<Rightarrow> issue_assertion \<Rightarrow> pinned_key \<Rightarrow> time \<Rightarrow> assertion_error option" where
  "verify_issue_assertion c a pin now =
     (if ia_schema a \<noteq> ISSUE_ASSERTION_SCHEMA then Some (UnsupportedSchema (ia_schema a))
      else if pk_store_id pin = [] \<or> ia_store_id a \<noteq> pk_store_id pin then
        Some (WrongStore (ia_store_id a) (pk_store_id pin))
      else if ia_key_id a \<noteq> pk_key_id pin then Some (WrongKeyId (ia_key_id a) (pk_key_id pin))
      else if retired (pk_valid_until pin) now then
        Some (KeyRetired (pk_key_id pin) (case pk_valid_until pin of None \<Rightarrow> 0 | Some e \<Rightarrow> e))
      else if \<not> is_known_state (ia_state a) then Some (UnknownState (ia_state a))
      else (case check_signature c (ia_signature a) (pk_public_key pin) (signing_bytes c a) of
              None \<Rightarrow> None
            | Some SigMissing \<Rightarrow> Some Unsigned
            | Some SigMalformed \<Rightarrow> Some MalformedSignature
            | Some SigCrypto \<Rightarrow> Some CryptoFailure
            | Some SigBad \<Rightarrow> Some BadSignature))"

definition check_clock_skew :: "issue_assertion \<Rightarrow> time \<Rightarrow> assertion_error option" where
  "check_clock_skew a observed_at =
     (if sat_add observed_at MAX_CLOCK_SKEW_SECONDS < ia_asserted_at a
      then Some (FutureAssertion (ia_asserted_at a) observed_at MAX_CLOCK_SKEW_SECONDS) else None)"

section \<open>Entries and views\<close>

record cached_assertion =
  ca_schema :: string
  ca_store_id :: string
  ca_remote_issue_id :: string
  ca_state :: string
  ca_asserted_at :: time
  ca_signature :: string
  ca_key_id :: string
  ca_observed_at :: time

definition from_verified :: "issue_assertion \<Rightarrow> time \<Rightarrow> assertion_error + cached_assertion" where
  "from_verified a observed_at =
     (case ia_signature a of
        None \<Rightarrow> Inl Unsigned
      | Some s \<Rightarrow> Inr \<lparr>ca_schema = ia_schema a, ca_store_id = ia_store_id a,
          ca_remote_issue_id = ia_remote_issue_id a, ca_state = ia_state a,
          ca_asserted_at = ia_asserted_at a, ca_signature = s, ca_key_id = ia_key_id a,
          ca_observed_at = observed_at\<rparr>)"

definition to_assertion :: "cached_assertion \<Rightarrow> issue_assertion" where
  "to_assertion e =
     \<lparr>ia_schema = ca_schema e, ia_store_id = ca_store_id e,
      ia_remote_issue_id = ca_remote_issue_id e, ia_state = ca_state e,
      ia_asserted_at = ca_asserted_at e, ia_key_id = ca_key_id e,
      ia_signature = Some (ca_signature e)\<rparr>"

text \<open>Why a view is not trusted; the text of an unreachable entry is among them.\<close>

datatype view_problem =
    EntryUnreadable
  | EntryVersion int
  | FiledElsewhere
  | UnreachableAt time string
  | StoreNotPinned string
  | KeyNotPinned string string
  | DoesNotVerify assertion_error
  | ClockSkew assertion_error
  | ObservedInFuture time time

record assertion_view =
  av_store_id :: string
  av_remote_issue_id :: string
  av_freshness :: freshness
  av_assertion :: "cached_assertion option"
  av_missing :: "missing_reason option"
  av_problem :: "view_problem option"

definition unknown_view :: "string \<Rightarrow> string \<Rightarrow> missing_reason \<Rightarrow> assertion_view" where
  "unknown_view store_id remote_issue_id reason =
     \<lparr>av_store_id = store_id, av_remote_issue_id = remote_issue_id, av_freshness = Unknown,
      av_assertion = None, av_missing = Some reason, av_problem = None\<rparr>"

definition unverifiable_view :: "string \<Rightarrow> string \<Rightarrow> view_problem \<Rightarrow> assertion_view" where
  "unverifiable_view store_id remote_issue_id problem =
     \<lparr>av_store_id = store_id, av_remote_issue_id = remote_issue_id, av_freshness = Unverifiable,
      av_assertion = None, av_missing = None, av_problem = Some problem\<rparr>"

definition asserted_state :: "assertion_view \<Rightarrow> string option" where
  "asserted_state v =
     (if av_freshness v \<in> {Fresh, Stale} then map_option ca_state (av_assertion v) else None)"

definition view_observed_at :: "assertion_view \<Rightarrow> time option" where
  "view_observed_at v = map_option ca_observed_at (av_assertion v)"

datatype entry =
    AssertionEntry int string string time cached_assertion
  | UnreachableEntry int string string time string

fun entry_header :: "entry \<Rightarrow> int \<times> string \<times> string" where
  "entry_header (AssertionEntry version store_id remote_issue_id _ _) = (version, store_id, remote_issue_id)"
| "entry_header (UnreachableEntry version store_id remote_issue_id _ _) = (version, store_id, remote_issue_id)"

section \<open>The directory\<close>

record cache_env =
  ce_sha256 :: "string \<Rightarrow> 8 word list"
  ce_read :: "string \<Rightarrow> entry option"
  ce_write :: "entry \<Rightarrow> string"

record json_file =
  jf_name :: string
  jf_text :: file_text
  jf_modified :: time

record assertion_cache =
  ac_files :: "json_file list"
  ac_window :: int

datatype cache_error = CacheRead | CacheWrite | CacheAssertion assertion_error | CacheJson

definition with_freshness_window :: "int \<Rightarrow> assertion_cache \<Rightarrow> assertion_cache" where
  "with_freshness_window seconds k = k\<lparr>ac_window := max seconds 0\<rparr>"

definition hex_name :: "8 word list \<Rightarrow> string" where
  "hex_name digest =
     concat (map (\<lambda>b. [HEX ! unat (drop_bit 4 b), HEX ! unat (and b 0x0f)]) digest) @ ''.json''"

definition entry_path :: "cache_env \<Rightarrow> string \<Rightarrow> string \<Rightarrow> string" where
  "entry_path env store_id remote_issue_id =
     hex_name (ce_sha256 env (store_id @ [CHR 0x00] @ remote_issue_id))"

definition read_file :: "string \<Rightarrow> assertion_cache \<Rightarrow> file_text" where
  "read_file name k =
     (case find (\<lambda>f. jf_name f = name) (ac_files k) of None \<Rightarrow> NoFile | Some f \<Rightarrow> jf_text f)"

definition load_entry :: "cache_env \<Rightarrow> string \<Rightarrow> string \<Rightarrow> assertion_cache \<Rightarrow> cache_error + entry option" where
  "load_entry env store_id remote_issue_id k =
     (case read_file (entry_path env store_id remote_issue_id) k of
        NoFile \<Rightarrow> Inr None
      | BadFile \<Rightarrow> Inl CacheRead
      | Text text \<Rightarrow> (case ce_read env text of None \<Rightarrow> Inl CacheJson | Some e \<Rightarrow> Inr (Some e)))"

text \<open>A rename over an existing name replaces the file where the listing has it.\<close>

fun put_file :: "json_file \<Rightarrow> json_file list \<Rightarrow> json_file list" where
  "put_file f [] = [f]"
| "put_file f (g # fs) = (if jf_name g = jf_name f then f # fs else g # put_file f fs)"

definition prune :: "assertion_cache \<Rightarrow> assertion_cache" where
  "prune k =
     (if length (ac_files k) \<le> MAX_ENTRIES then k
      else let doomed = drop MAX_ENTRIES (sort_key (\<lambda>f. - jf_modified f) (ac_files k))
           in k\<lparr>ac_files := filter (\<lambda>f. f \<notin> set doomed) (ac_files k)\<rparr>)"

text \<open>\<open>disk\<close> is the modification time of the new file, or \<open>None\<close> when a step of the write fails.\<close>

definition write_entry :: "cache_env \<Rightarrow> time option \<Rightarrow> entry \<Rightarrow> assertion_cache \<Rightarrow> (cache_error + unit) \<times> assertion_cache" where
  "write_entry env disk e k =
     (case disk of
        None \<Rightarrow> (Inl CacheWrite, k)
      | Some modified \<Rightarrow>
          (let (version, store_id, remote_issue_id) = entry_header e;
               f = \<lparr>jf_name = entry_path env store_id remote_issue_id, jf_text = Text (ce_write env e),
                    jf_modified = modified\<rparr>
           in (Inr (), prune (k\<lparr>ac_files := put_file f (ac_files k)\<rparr>))))"

section \<open>Recording and reading\<close>

definition fresh_view :: "string \<Rightarrow> string \<Rightarrow> freshness \<Rightarrow> cached_assertion \<Rightarrow> assertion_view" where
  "fresh_view store_id remote_issue_id f e =
     \<lparr>av_store_id = store_id, av_remote_issue_id = remote_issue_id, av_freshness = f,
      av_assertion = Some e, av_missing = None, av_problem = None\<rparr>"

definition record_assertion ::
  "codec \<Rightarrow> cache_env \<Rightarrow> time option \<Rightarrow> remote_record \<Rightarrow> issue_assertion \<Rightarrow> time \<Rightarrow> assertion_cache \<Rightarrow>
    (cache_error + assertion_view) \<times> assertion_cache" where
  "record_assertion c env disk r a observed_at k =
     (if trim (ia_remote_issue_id a) = [] then (Inl (CacheAssertion EmptyRemoteIssueId), k)
      else (case find_pin r (ia_key_id a) of
        None \<Rightarrow> (Inl (CacheAssertion (WrongKeyId (ia_key_id a) (rr_key_id r))), k)
      | Some key \<Rightarrow>
          (case verify_issue_assertion c a key observed_at of
             Some e \<Rightarrow> (Inl (CacheAssertion e), k)
           | None \<Rightarrow>
               (case check_clock_skew a observed_at of
                  Some e \<Rightarrow> (Inl (CacheAssertion e), k)
                | None \<Rightarrow>
                    (case from_verified a observed_at of
                       Inl e \<Rightarrow> (Inl (CacheAssertion e), k)
                     | Inr cached \<Rightarrow>
                         (case write_entry env disk (AssertionEntry ASSERTION_CACHE_VERSION
                             (ca_store_id cached) (ca_remote_issue_id cached) observed_at cached) k of
                            (Inl e, k') \<Rightarrow> (Inl e, k')
                          | (Inr _, k') \<Rightarrow>
                              (Inr (fresh_view (ca_store_id cached) (ca_remote_issue_id cached) Fresh cached), k')))))))"

definition note_unreachable ::
  "cache_env \<Rightarrow> time option \<Rightarrow> string \<Rightarrow> string \<Rightarrow> string \<Rightarrow> time \<Rightarrow> assertion_cache \<Rightarrow>
    (cache_error + unit) \<times> assertion_cache" where
  "note_unreachable env disk store_id remote_issue_id detail attempted_at k =
     (case load_entry env store_id remote_issue_id k of
        Inl e \<Rightarrow> (Inl e, k)
      | Inr (Some (AssertionEntry _ _ _ _ _)) \<Rightarrow> (Inr (), k)
      | Inr _ \<Rightarrow> write_entry env disk
          (UnreachableEntry ASSERTION_CACHE_VERSION store_id remote_issue_id attempted_at detail) k)"

definition age_of :: "int \<Rightarrow> time \<Rightarrow> time \<Rightarrow> freshness" where
  "age_of window now observed_at = (if window < sat_sub now observed_at then Stale else Fresh)"

text \<open>The checks of a read on an assertion entry, in order.\<close>

definition read_cached ::
  "codec \<Rightarrow> int \<Rightarrow> remote_registry \<Rightarrow> string \<Rightarrow> string \<Rightarrow> time \<Rightarrow> cached_assertion \<Rightarrow> assertion_view" where
  "read_cached c window g store_id remote_issue_id now cached =
     (let bad = unverifiable_view store_id remote_issue_id; a = to_assertion cached in
      case record_for g store_id of
        None \<Rightarrow> bad (StoreNotPinned store_id)
      | Some r \<Rightarrow>
          (case find_pin r (ca_key_id cached) of
             None \<Rightarrow> bad (KeyNotPinned (ca_key_id cached) store_id)
           | Some pin \<Rightarrow>
               (case verify_issue_assertion c a pin now of
                  Some e \<Rightarrow> bad (DoesNotVerify e)
                | None \<Rightarrow>
                    (case check_clock_skew a (ca_observed_at cached) of
                       Some e \<Rightarrow> bad (ClockSkew e)
                     | None \<Rightarrow>
                         if sat_add now MAX_CLOCK_SKEW_SECONDS < ca_observed_at cached
                         then bad (ObservedInFuture (ca_observed_at cached) now)
                         else fresh_view store_id remote_issue_id
                           (age_of window now (ca_observed_at cached)) cached))))"

definition read_view ::
  "codec \<Rightarrow> cache_env \<Rightarrow> remote_registry \<Rightarrow> string \<Rightarrow> string \<Rightarrow> time \<Rightarrow> assertion_cache \<Rightarrow> assertion_view" where
  "read_view c env g store_id remote_issue_id now k =
     (case load_entry env store_id remote_issue_id k of
        Inl _ \<Rightarrow> unverifiable_view store_id remote_issue_id EntryUnreadable
      | Inr None \<Rightarrow> unknown_view store_id remote_issue_id NeverObserved
      | Inr (Some e) \<Rightarrow>
          (case entry_header e of (version, entry_store_id, entry_issue_id) \<Rightarrow>
             if version \<noteq> ASSERTION_CACHE_VERSION
             then unverifiable_view store_id remote_issue_id (EntryVersion version)
             else if entry_store_id \<noteq> store_id \<or> entry_issue_id \<noteq> remote_issue_id
             then unverifiable_view store_id remote_issue_id FiledElsewhere
             else (case e of
               UnreachableEntry _ _ _ attempted_at detail \<Rightarrow>
                 (unknown_view store_id remote_issue_id RemoteUnreachable)
                   \<lparr>av_problem := Some (UnreachableAt attempted_at detail)\<rparr>
             | AssertionEntry _ _ _ _ cached \<Rightarrow>
                 read_cached c (ac_window k) g store_id remote_issue_id now cached)))"

definition issue_of_file :: "cache_env \<Rightarrow> string \<Rightarrow> json_file \<Rightarrow> string option" where
  "issue_of_file env store_id f =
     (case jf_text f of
        Text text \<Rightarrow>
          (case ce_read env text of
             None \<Rightarrow> None
           | Some e \<Rightarrow> (case entry_header e of (_, entry_store_id, entry_issue_id) \<Rightarrow>
               if entry_store_id = store_id then Some entry_issue_id else None))
      | _ \<Rightarrow> None)"

definition read_all ::
  "codec \<Rightarrow> cache_env \<Rightarrow> remote_registry \<Rightarrow> string \<Rightarrow> time \<Rightarrow> assertion_cache \<Rightarrow> assertion_view list" where
  "read_all c env g store_id now k =
     (let issues = remdups_adj (sort (List.map_filter (issue_of_file env store_id) (ac_files k)))
      in map (\<lambda>issue. read_view c env g store_id issue now k) issues)"

section \<open>What a verified claim is\<close>

lemma verify_issue_assertion_None:
  "verify_issue_assertion c a pin now = None \<longleftrightarrow>
    ia_schema a = ISSUE_ASSERTION_SCHEMA \<and> pk_store_id pin \<noteq> [] \<and> ia_store_id a = pk_store_id pin \<and>
    ia_key_id a = pk_key_id pin \<and> \<not> retired (pk_valid_until pin) now \<and> ia_state a \<in> set STATUSES \<and>
    good_signature c (ia_signature a) (pk_public_key pin) (signing_bytes c a)"
  by (auto simp: verify_issue_assertion_def is_known_state_def good_signature_def
      split: option.splits sig_problem.splits)

lemma find_pin_Some:
  assumes "find_pin r k = Some pin"
  shows "pk_key_id pin = k \<and> pk_store_id pin = rr_store_id r \<and>
    record_look r k = Some (pk_public_key pin, pk_valid_until pin)"
proof -
  have "pin \<in> set (pins r) \<and> pk_key_id pin = k" using find_SomeD [OF assms [unfolded find_pin_def]] .
  then show ?thesis using assms by (auto simp: pins_def record_active_pin_def record_look_def)
qed

lemma find_pin_look: "find_pin r k = Some pin \<Longrightarrow> \<not> retired (pk_valid_until pin) now \<longleftrightarrow> trusted (record_look r) k now"
  using find_pin_Some [of r k pin] by (auto simp: trusted_def)

lemma record_for_Some: "record_for g s = Some r \<Longrightarrow> r \<in> set (rg_remotes g) \<and> rr_store_id r = s"
  unfolding record_for_def by (rule find_SomeD)

lemma assertion_fields_inj: "assertion_fields a = assertion_fields b \<longleftrightarrow> a = b"
proof
  assume "assertion_fields a = assertion_fields b"
  then have f: "ia_schema a = ia_schema b" "ia_store_id a = ia_store_id b"
    "ia_remote_issue_id a = ia_remote_issue_id b" "ia_state a = ia_state b"
    "ia_asserted_at a = ia_asserted_at b" "ia_key_id a = ia_key_id b"
    and sig: "optional_field ''signature'' (ia_signature a) = optional_field ''signature'' (ia_signature b)"
    by (simp_all add: assertion_fields_def)
  have "ia_signature a = ia_signature b"
    using sig by (simp add: optional_field_def split: option.splits)
  with f show "a = b" by (intro issue_assertion.equality) simp_all
qed simp

text \<open>A signed claim verifies under the signer's pin.\<close>

lemma sign_verifies:
  assumes "sign_issue_assertion c key_id sign a = Inr b"
    and "\<And>msg s. sign msg = Some s \<Longrightarrow> b64_decode c (b64_encode c s) = Some s \<and> ed_verify c pub s msg"
    and "b64_decode c (pk_public_key pin) = Some pub" "public_ok c pub"
    and "pk_key_id pin = key_id" "pk_store_id pin = ia_store_id a" "pk_store_id pin \<noteq> []"
  shows "verify_issue_assertion c b pin now = None \<longleftrightarrow>
    \<not> retired (pk_valid_until pin) now \<and> ia_state a \<in> set STATUSES"
proof -
  let ?a = "a\<lparr>ia_key_id := key_id, ia_signature := None\<rparr>"
  obtain s where s: "sign (signing_bytes c ?a) = Some s" "b = ?a\<lparr>ia_signature := Some (b64_encode c s)\<rparr>"
    "ia_schema a = ISSUE_ASSERTION_SCHEMA"
    using assms(1) by (auto simp: sign_issue_assertion_def Let_def split: if_splits option.splits)
  have "signing_bytes c b = signing_bytes c ?a" by (simp add: s(2) signing_bytes_def unsigned_def)
  then have "good_signature c (ia_signature b) (pk_public_key pin) (signing_bytes c b)"
    using assms(2) [OF s(1)] assms(3,4) s(2) by (simp add: good_signature_iff)
  then show ?thesis using s(2,3) assms(5-7) by (simp add: verify_issue_assertion_None)
qed

section \<open>A read is what the files say, checked\<close>

lemma asserted_state_unverified [simp]:
  "asserted_state (unknown_view s i why) = None" "asserted_state (unverifiable_view s i p) = None"
  "asserted_state ((unknown_view s i why)\<lparr>av_problem := x\<rparr>) = None"
  by (simp_all add: asserted_state_def unknown_view_def unverifiable_view_def)

lemma read_cached_state:
  "asserted_state (read_cached c w g store_id issue now cached) = Some st \<longleftrightarrow>
    ca_state cached = st \<and>
    (\<exists>r pin. record_for g store_id = Some r \<and> find_pin r (ca_key_id cached) = Some pin \<and>
      verify_issue_assertion c (to_assertion cached) pin now = None) \<and>
    check_clock_skew (to_assertion cached) (ca_observed_at cached) = None \<and>
    ca_observed_at cached \<le> sat_add now MAX_CLOCK_SKEW_SECONDS"
  by (auto simp: read_cached_def Let_def fresh_view_def asserted_state_def age_of_def not_less
      unverifiable_view_def split: option.splits if_splits)

lemma read_view_state:
  "asserted_state (read_view c env g store_id issue now k) = Some st \<longleftrightarrow>
    (\<exists>t cached. load_entry env store_id issue k =
        Inr (Some (AssertionEntry ASSERTION_CACHE_VERSION store_id issue t cached)) \<and>
      asserted_state (read_cached c (ac_window k) g store_id issue now cached) = Some st)"
  by (auto simp: read_view_def split: sum.splits option.splits entry.splits prod.splits if_splits)

text \<open>Entries the cache itself wrote are filed under the reference their claim is about.\<close>

definition filed_ok :: "entry \<Rightarrow> bool" where
  "filed_ok e \<longleftrightarrow> (case e of
     AssertionEntry v s i t cached \<Rightarrow> ca_store_id cached = s \<and> ca_remote_issue_id cached = i \<and> ca_observed_at cached = t
   | UnreachableEntry _ _ _ _ _ \<Rightarrow> True)"

definition cache_ok :: "cache_env \<Rightarrow> assertion_cache \<Rightarrow> bool" where
  "cache_ok env k \<longleftrightarrow> distinct (map jf_name (ac_files k)) \<and>
     (\<forall>f \<in> set (ac_files k). \<forall>text e. jf_text f = Text text \<longrightarrow> ce_read env text = Some e \<longrightarrow> filed_ok e)"

lemma load_entry_file:
  assumes "load_entry env s i k = Inr (Some e)"
  shows "\<exists>f \<in> set (ac_files k). \<exists>text. jf_text f = Text text \<and> ce_read env text = Some e"
  using assms
  by (auto simp: load_entry_def read_file_def dest: find_SomeD split: file_text.splits option.splits)

lemma set_put_file: "set (put_file f fs) \<subseteq> insert f (set fs)"
  by (induction fs) auto

lemma put_file_names: "set (map jf_name (put_file f fs)) = insert (jf_name f) (set (map jf_name fs))"
  by (induction fs) auto

lemma put_file_distinct: "distinct (map jf_name fs) \<Longrightarrow> distinct (map jf_name (put_file f fs))"
proof (induction fs)
  case (Cons g fs)
  then show ?case using put_file_names [of f fs] by auto
qed simp

lemma find_put_file: "find (\<lambda>g. jf_name g = jf_name f) (put_file f fs) = Some f"
  by (induction fs) auto

lemma prune_sub: "set (ac_files (prune k)) \<subseteq> set (ac_files k)"
  by (auto simp: prune_def Let_def)

lemma prune_distinct: "distinct (map jf_name (ac_files k)) \<Longrightarrow> distinct (map jf_name (ac_files (prune k)))"
  by (simp add: prune_def Let_def distinct_map_filter)

lemma ball_subset: "A \<subseteq> B \<Longrightarrow> \<forall>x \<in> B. P x \<Longrightarrow> \<forall>x \<in> A. P x"
  by blast

lemma cache_ok_prune:
  assumes "cache_ok env k"
  shows "cache_ok env (prune k)"
  unfolding cache_ok_def
proof
  show "distinct (map jf_name (ac_files (prune k)))"
    by (rule prune_distinct) (rule conjunct1 [OF assms [unfolded cache_ok_def]])
  show "\<forall>f \<in> set (ac_files (prune k)). \<forall>text e. jf_text f = Text text \<longrightarrow> ce_read env text = Some e \<longrightarrow> filed_ok e"
    by (rule ball_subset [OF prune_sub]) (rule conjunct2 [OF assms [unfolded cache_ok_def]])
qed

lemma write_entry_ok:
  assumes "cache_ok env k" and "\<And>e. ce_read env (ce_write env e) = Some e" and "filed_ok e"
  shows "cache_ok env (snd (write_entry env disk e k))"
proof (cases disk)
  case (Some modified)
  obtain v s i where h: "entry_header e = (v, s, i)" by (cases "entry_header e")
  let ?f = "\<lparr>jf_name = entry_path env s i, jf_text = Text (ce_write env e), jf_modified = modified\<rparr>"
  let ?k = "k\<lparr>ac_files := put_file ?f (ac_files k)\<rparr>"
  have filed: "filed_ok x" if g: "g \<in> set (ac_files ?k)" "jf_text g = Text body" "ce_read env body = Some x"
    for g body x
  proof (cases "g = ?f")
    case True
    then have "x = e" using g(2,3) assms(2) [of e] by simp
    then show ?thesis using assms(3) by simp
  next
    case False
    then have "g \<in> set (ac_files k)" using g(1) set_put_file [of ?f "ac_files k"] by auto
    then show ?thesis using conjunct2 [OF assms(1) [unfolded cache_ok_def]] g(2,3) by blast
  qed
  have "distinct (map jf_name (ac_files ?k))"
    using put_file_distinct [of "ac_files k" ?f] assms(1) by (simp add: cache_ok_def)
  moreover have "\<forall>g \<in> set (ac_files ?k). \<forall>text x. jf_text g = Text text \<longrightarrow> ce_read env text = Some x \<longrightarrow> filed_ok x"
    using filed by blast
  ultimately have "cache_ok env ?k" unfolding cache_ok_def by (rule conjI)
  then have "cache_ok env (prune ?k)" by (rule cache_ok_prune)
  then show ?thesis by (simp add: write_entry_def Some h)
qed (use assms in \<open>simp add: write_entry_def\<close>)

lemma record_assertion_cases:
  obtains (refused) e where "record_assertion c env disk r a t k = (Inl e, k)"
  | (written) pin sig cached e where "find_pin r (ia_key_id a) = Some pin"
      and "trim (ia_remote_issue_id a) \<noteq> []"
      and "verify_issue_assertion c a pin t = None" and "check_clock_skew a t = None"
      and "ia_signature a = Some sig" and "from_verified a t = Inr cached" and "to_assertion cached = a"
      and "e = AssertionEntry ASSERTION_CACHE_VERSION (ia_store_id a) (ia_remote_issue_id a) t cached"
      and "filed_ok e" and "ca_observed_at cached = t" and "disk \<noteq> None"
      and "record_assertion c env disk r a t k =
        (Inr (fresh_view (ia_store_id a) (ia_remote_issue_id a) Fresh cached), snd (write_entry env disk e k))"
proof (cases "\<exists>pin. find_pin r (ia_key_id a) = Some pin \<and> trim (ia_remote_issue_id a) \<noteq> [] \<and>
    verify_issue_assertion c a pin t = None \<and> check_clock_skew a t = None \<and> disk \<noteq> None")
  case True
  then obtain pin where p: "find_pin r (ia_key_id a) = Some pin" "trim (ia_remote_issue_id a) \<noteq> []"
    "verify_issue_assertion c a pin t = None" "check_clock_skew a t = None" "disk \<noteq> None" by blast
  then obtain sig where sig: "ia_signature a = Some sig"
    by (auto simp: verify_issue_assertion_None good_signature_iff)
  define cached where "cached = \<lparr>ca_schema = ia_schema a, ca_store_id = ia_store_id a,
    ca_remote_issue_id = ia_remote_issue_id a, ca_state = ia_state a, ca_asserted_at = ia_asserted_at a,
    ca_signature = sig, ca_key_id = ia_key_id a, ca_observed_at = t\<rparr>"
  have c: "from_verified a t = Inr cached" "to_assertion cached = a"
    using sig by (simp_all add: from_verified_def cached_def to_assertion_def)
  obtain m where m: "disk = Some m" using p(5) by blast
  show ?thesis
    by (rule written [OF p(1-4) sig c refl _ _ p(5)])
      (use p c m in \<open>simp_all add: filed_ok_def cached_def record_assertion_def write_entry_def\<close>)
next
  case False
  have "\<exists>e. record_assertion c env disk r a t k = (Inl e, k)"
    using False by (auto simp: record_assertion_def write_entry_def split: option.splits sum.splits)
  then show ?thesis using refused by blast
qed

lemma record_assertion_ok:
  assumes "cache_ok env k" and "\<And>e. ce_read env (ce_write env e) = Some e"
  shows "cache_ok env (snd (record_assertion c env disk r a t k))"
proof (cases rule: record_assertion_cases [of c env disk r a t k])
  case (written pin sig cached e)
  then show ?thesis using write_entry_ok [OF assms written(9)] by simp
qed (use assms(1) in simp)

lemma note_unreachable_ok:
  assumes "cache_ok env k" and "\<And>e. ce_read env (ce_write env e) = Some e"
  shows "cache_ok env (snd (note_unreachable env disk s i detail t k))"
  using assms write_entry_ok [OF assms, of "UnreachableEntry ASSERTION_CACHE_VERSION s i t detail" disk]
  by (auto simp: note_unreachable_def filed_ok_def split: sum.splits option.splits entry.splits)

section \<open>Pruning keeps the newest\<close>

lemma prune_files:
  assumes "distinct (ac_files k)" and "MAX_ENTRIES < length (ac_files k)"
  defines "ys \<equiv> sort_key (\<lambda>f. - jf_modified f) (ac_files k)"
  shows "set (ac_files (prune k)) = set (take MAX_ENTRIES ys)" and "distinct ys"
    and "set ys = set (ac_files k)" and "sorted (map (\<lambda>f. - jf_modified f) ys)"
proof -
  show d: "distinct ys" and st: "set ys = set (ac_files k)" and "sorted (map (\<lambda>f. - jf_modified f) ys)"
    using assms(1) by (simp_all add: ys_def)
  have "set ys = set (take MAX_ENTRIES ys) \<union> set (drop MAX_ENTRIES ys)"
    by (metis append_take_drop_id set_append)
  moreover have "set (take MAX_ENTRIES ys) \<inter> set (drop MAX_ENTRIES ys) = {}"
    using d by (rule set_take_disj_set_drop_if_distinct) simp
  moreover have "set (ac_files (prune k)) = set ys - set (drop MAX_ENTRIES ys)"
    using assms(2) st by (auto simp: prune_def ys_def Let_def)
  ultimately show "set (ac_files (prune k)) = set (take MAX_ENTRIES ys)" by blast
qed

lemma distinct_prune: "distinct (ac_files k) \<Longrightarrow> distinct (ac_files (prune k))"
  by (simp add: prune_def Let_def)

lemma prune_length:
  assumes "distinct (ac_files k)"
  shows "length (ac_files (prune k)) \<le> MAX_ENTRIES"
proof (cases "MAX_ENTRIES < length (ac_files k)")
  case True
  have "length (ac_files (prune k)) = card (set (ac_files (prune k)))"
    by (rule distinct_card [symmetric]) (rule distinct_prune [OF assms])
  also have "\<dots> \<le> length (take MAX_ENTRIES (sort_key (\<lambda>f. - jf_modified f) (ac_files k)))"
    unfolding prune_files(1) [OF assms True] by (rule card_length)
  also have "\<dots> \<le> MAX_ENTRIES" by simp
  finally show ?thesis .
qed (simp add: prune_def)

lemma prune_newest:
  assumes "distinct (ac_files k)" and "f \<in> set (ac_files k)" and "f \<notin> set (ac_files (prune k))"
    and "g \<in> set (ac_files (prune k))"
  shows "jf_modified f \<le> jf_modified g"
proof (cases "MAX_ENTRIES < length (ac_files k)")
  case True
  define ys where "ys = sort_key (\<lambda>f. - jf_modified f) (ac_files k)"
  note p = prune_files [OF assms(1) True, folded ys_def]
  have "set ys = set (take MAX_ENTRIES ys) \<union> set (drop MAX_ENTRIES ys)"
    by (metis append_take_drop_id set_append)
  then have f: "f \<in> set (drop MAX_ENTRIES ys)" and g: "g \<in> set (take MAX_ENTRIES ys)"
    using assms p by auto
  have "sorted (map (\<lambda>f. - jf_modified f) (take MAX_ENTRIES ys @ drop MAX_ENTRIES ys))" using p(4) by simp
  then have "- jf_modified g \<le> - jf_modified f"
    using f g by (auto simp only: map_append sorted_append set_map)
  then show ?thesis by simp
qed (use assms in \<open>simp add: prune_def\<close>)

lemma prune_keeps:
  assumes "distinct (ac_files k)" and "f \<in> set (ac_files k)"
    and "\<And>g. g \<in> set (ac_files k) \<Longrightarrow> g \<noteq> f \<Longrightarrow> jf_modified g < jf_modified f"
  shows "f \<in> set (ac_files (prune k))"
proof (rule ccontr)
  assume out: "f \<notin> set (ac_files (prune k))"
  then have big: "MAX_ENTRIES < length (ac_files k)" using assms(2) by (auto simp: prune_def split: if_splits)
  define ys where "ys = sort_key (\<lambda>f. - jf_modified f) (ac_files k)"
  have "length ys = length (ac_files k)" by (simp add: ys_def)
  then have "take MAX_ENTRIES ys \<noteq> []" using big by (auto simp: MAX_ENTRIES_def)
  then obtain g where g: "g \<in> set (ac_files (prune k))"
    using prune_files(1) [OF assms(1) big, folded ys_def] by (metis list.set_sel(1))
  have "g \<in> set (ac_files k)" using g prune_sub by blast
  moreover have "g \<noteq> f" using g out by auto
  ultimately have "jf_modified g < jf_modified f" by (rule assms(3))
  then show False using prune_newest [OF assms(1,2) out g] by simp
qed

section \<open>What was recorded is what is read\<close>

lemma find_distinct:
  "distinct (map name fs) \<Longrightarrow> f \<in> set fs \<Longrightarrow> find (\<lambda>g. name g = name f) fs = Some f"
  by (induction fs) (auto simp: image_iff)

lemma put_file_in: "f \<in> set (put_file f fs)"
  by (induction fs) auto

lemma write_then_load:
  assumes "distinct (map jf_name (ac_files k))" and "ce_read env (ce_write env e) = Some e"
    and "\<And>f. f \<in> set (ac_files k) \<Longrightarrow> jf_modified f < modified"
    and "entry_header e = (v, s, i)"
  shows "load_entry env s i (snd (write_entry env (Some modified) e k)) = Inr (Some e)"
    and "ac_window (snd (write_entry env (Some modified) e k)) = ac_window k"
proof -
  let ?f = "\<lparr>jf_name = entry_path env s i, jf_text = Text (ce_write env e), jf_modified = modified\<rparr>"
  let ?k = "k\<lparr>ac_files := put_file ?f (ac_files k)\<rparr>"
  have w: "snd (write_entry env (Some modified) e k) = prune ?k" by (simp add: write_entry_def assms(4))
  have d: "distinct (map jf_name (ac_files ?k))" using put_file_distinct [OF assms(1)] by simp
  have "?f \<in> set (ac_files (prune ?k))"
  proof (rule prune_keeps)
    show "distinct (ac_files ?k)" using d by (simp only: distinct_map)
    show "?f \<in> set (ac_files ?k)" using put_file_in [of ?f "ac_files k"] by simp
    show "jf_modified g < jf_modified ?f" if "g \<in> set (ac_files ?k)" "g \<noteq> ?f" for g
      using that set_put_file [of ?f "ac_files k"] assms(3) [of g] by auto
  qed
  from find_distinct [OF prune_distinct [OF d] this] have "read_file (entry_path env s i) (prune ?k) = Text (ce_write env e)"
    by (simp add: read_file_def)
  then show "load_entry env s i (snd (write_entry env (Some modified) e k)) = Inr (Some e)"
    using assms(2) by (simp add: load_entry_def w)
  show "ac_window (snd (write_entry env (Some modified) e k)) = ac_window k"
    unfolding w by (simp add: prune_def Let_def)
qed

lemma record_then_read:
  assumes "record_assertion c env (Some modified) r a t k = (Inr v, k')"
    and "distinct (map jf_name (ac_files k))" and "\<And>e. ce_read env (ce_write env e) = Some e"
    and "\<And>f. f \<in> set (ac_files k) \<Longrightarrow> jf_modified f < modified"
    and "record_for g (ia_store_id a) = Some r"
  shows "asserted_state (read_view c env g (ia_store_id a) (ia_remote_issue_id a) now k') = Some st \<longleftrightarrow>
      st = ia_state a \<and> trusted (record_look r) (ia_key_id a) now \<and> t \<le> sat_add now MAX_CLOCK_SKEW_SECONDS"
    and "trusted (record_look r) (ia_key_id a) now \<Longrightarrow> t \<le> sat_add now MAX_CLOCK_SKEW_SECONDS \<Longrightarrow>
      av_freshness (read_view c env g (ia_store_id a) (ia_remote_issue_id a) now k') = age_of (ac_window k) now t"
proof -
  obtain pin sig cached e where w: "find_pin r (ia_key_id a) = Some pin"
      "verify_issue_assertion c a pin t = None" "check_clock_skew a t = None" "to_assertion cached = a"
      "e = AssertionEntry ASSERTION_CACHE_VERSION (ia_store_id a) (ia_remote_issue_id a) t cached"
      "ca_observed_at cached = t" "k' = snd (write_entry env (Some modified) e k)"
    using assms(1) by (cases rule: record_assertion_cases [of c env "Some modified" r a t k]) auto
  have key: "ca_key_id cached = ia_key_id a" "ca_state cached = ia_state a" using w(4) by (auto simp: to_assertion_def)
  have l: "load_entry env (ia_store_id a) (ia_remote_issue_id a) k' = Inr (Some e)" "ac_window k' = ac_window k"
    using write_then_load [OF assms(2) assms(3) assms(4)] w(5,7) by simp_all
  have v: "verify_issue_assertion c a pin now = None \<longleftrightarrow> trusted (record_look r) (ia_key_id a) now"
    using w(2) find_pin_look [OF w(1), of now] by (simp add: verify_issue_assertion_None)
  show "asserted_state (read_view c env g (ia_store_id a) (ia_remote_issue_id a) now k') = Some st \<longleftrightarrow>
      st = ia_state a \<and> trusted (record_look r) (ia_key_id a) now \<and> t \<le> sat_add now MAX_CLOCK_SKEW_SECONDS"
    using l v w key assms(5) by (auto simp: read_view_state read_cached_state)
  assume "trusted (record_look r) (ia_key_id a) now" "t \<le> sat_add now MAX_CLOCK_SKEW_SECONDS"
  then show "av_freshness (read_view c env g (ia_store_id a) (ia_remote_issue_id a) now k') = age_of (ac_window k) now t"
    using l v w key assms(5) by (simp add: read_view_def read_cached_def fresh_view_def)
qed

section \<open>Nobody but the store can speak for it\<close>

text \<open>
  \<open>only_signed\<close>: whatever verifies under a key the reader pinned for the store was signed by the
  store; \<open>json_injective\<close>: the serializer loses nothing.
\<close>

definition only_signed :: "codec \<Rightarrow> remote_record \<Rightarrow> issue_assertion list \<Rightarrow> bool" where
  "only_signed c r issued \<longleftrightarrow>
     (\<forall>pin pub raw msg. pin \<in> set (pins r) \<longrightarrow> b64_decode c (pk_public_key pin) = Some pub \<longrightarrow>
        ed_verify c pub raw msg \<longrightarrow> msg \<in> signing_bytes c ` set issued)"

definition json_injective :: "codec \<Rightarrow> bool" where
  "json_injective c \<longleftrightarrow> (\<forall>a b. signing_bytes c a = signing_bytes c b \<longrightarrow> unsigned a = unsigned b)"

lemma verified_was_issued:
  assumes "only_signed c r issued" and "json_injective c" and "find_pin r k = Some pin"
    and "verify_issue_assertion c a pin now = None"
  shows "\<exists>b \<in> set issued. unsigned a = unsigned b"
proof -
  obtain raw pub where g: "b64_decode c (pk_public_key pin) = Some pub" "ed_verify c pub raw (signing_bytes c a)"
    using assms(4) by (auto simp: verify_issue_assertion_None good_signature_iff)
  have "pin \<in> set (pins r)" using find_SomeD [OF assms(3) [unfolded find_pin_def]] by simp
  then have "signing_bytes c a \<in> signing_bytes c ` set issued"
    using assms(1) g unfolding only_signed_def by blast
  then show ?thesis using assms(2) unfolding json_injective_def by blast
qed

text \<open>A state that a read gives was issued by the store itself.\<close>

lemma state_was_issued:
  assumes "cache_ok env k" and "json_injective c"
    and "\<forall>r. record_for g s = Some r \<longrightarrow> only_signed c r issued"
    and "asserted_state (read_view c env g s i now k) = Some st"
  shows "\<exists>b \<in> set issued. ia_store_id b = s \<and> ia_remote_issue_id b = i \<and> ia_state b = st \<and>
    st \<in> set STATUSES \<and> (\<exists>r. record_for g s = Some r \<and> trusted (record_look r) (ia_key_id b) now)"
proof -
  obtain t cached where l: "load_entry env s i k = Inr (Some (AssertionEntry ASSERTION_CACHE_VERSION s i t cached))"
      and st: "asserted_state (read_cached c (ac_window k) g s i now cached) = Some st"
    using assms(4) unfolding read_view_state by (elim exE conjE)
  obtain r pin where p: "record_for g s = Some r" "find_pin r (ca_key_id cached) = Some pin"
      "verify_issue_assertion c (to_assertion cached) pin now = None" "ca_state cached = st"
    using st unfolding read_cached_state by (elim exE conjE)
  obtain f body where "f \<in> set (ac_files k)" "jf_text f = Text body"
      "ce_read env body = Some (AssertionEntry ASSERTION_CACHE_VERSION s i t cached)"
    using load_entry_file [OF l] by (elim bexE exE conjE)
  with conjunct2 [OF assms(1) [unfolded cache_ok_def]]
  have filed: "filed_ok (AssertionEntry ASSERTION_CACHE_VERSION s i t cached)" by blast
  have "only_signed c r issued" using assms(3) p(1) by simp
  from verified_was_issued [OF this assms(2) p(2,3)]
  obtain b where b: "b \<in> set issued" "unsigned (to_assertion cached) = unsigned b" by (elim bexE)
  have "ia_store_id b = ca_store_id cached" "ia_remote_issue_id b = ca_remote_issue_id cached"
    "ia_state b = ca_state cached" "ia_key_id b = ca_key_id cached"
    using arg_cong [OF b(2), of ia_store_id] arg_cong [OF b(2), of ia_remote_issue_id]
      arg_cong [OF b(2), of ia_state] arg_cong [OF b(2), of ia_key_id]
    by (simp_all add: unsigned_def to_assertion_def)
  moreover have "trusted (record_look r) (ca_key_id cached) now" "ca_state cached \<in> set STATUSES"
    using p(3) find_pin_look [OF p(2), of now] by (auto simp: verify_issue_assertion_None to_assertion_def)
  ultimately show ?thesis using filed b(1) p(1,4) by (intro bexI [of _ b]) (auto simp: filed_ok_def)
qed

end
