(* ===== verification/Receipts.thy ===== *)
theory Receipts
  imports Assertion CanonicalRef
begin

text \<open>
  \<open>src/src/refs.rs\<close>, the audit half: the freshness of a stored remote dependency and the named
  verdict on its receipt, both judged offline against the pinned keys. \<open>audit_agrees\<close> shows that
  the two independent code paths never disagree.
\<close>

definition dependency_assertion :: "remote_dependency \<Rightarrow> issue_assertion" where
  "dependency_assertion d =
     \<lparr>ia_schema = ISSUE_ASSERTION_SCHEMA, ia_store_id = rd_store_id d,
      ia_remote_issue_id = rd_remote_issue_id d, ia_state = rd_state d,
      ia_asserted_at = rd_asserted_at d, ia_key_id = rd_key_id d,
      ia_signature = Some (rd_signature d)\<rparr>"

definition remote_dependency_freshness ::
  "codec \<Rightarrow> remote_dependency \<Rightarrow> remote_registry \<Rightarrow> time \<Rightarrow> int \<Rightarrow> freshness" where
  "remote_dependency_freshness c d g now window =
     (case record_for g (rd_store_id d) of
        None \<Rightarrow> Unverifiable
      | Some r \<Rightarrow>
          (case find_pin r (rd_key_id d) of
             None \<Rightarrow> Unverifiable
           | Some pin \<Rightarrow>
               (case parse_ref (rd_canonical_ref d) of
                  Inl _ \<Rightarrow> Unverifiable
                | Inr parsed \<Rightarrow>
                    if \<not> ref_names parsed (rd_store_id d) (rd_remote_issue_id d) then Unverifiable
                    else if verify_issue_assertion c (dependency_assertion d) pin now \<noteq> None then Unverifiable
                    else age_of (max window 0) now (rd_observed_at d))))"

section \<open>Receipts\<close>

record audit_receipt =
  au_store_id :: string
  au_remote_issue_id :: string
  au_state :: string
  au_asserted_at :: time
  au_signature :: string
  au_key_id :: string

definition receipt_from_dependency :: "remote_dependency \<Rightarrow> audit_receipt" where
  "receipt_from_dependency d =
     \<lparr>au_store_id = rd_store_id d, au_remote_issue_id = rd_remote_issue_id d, au_state = rd_state d,
      au_asserted_at = rd_asserted_at d, au_signature = rd_signature d, au_key_id = rd_key_id d\<rparr>"

definition receipt_from_cached :: "cached_assertion \<Rightarrow> audit_receipt" where
  "receipt_from_cached e =
     \<lparr>au_store_id = ca_store_id e, au_remote_issue_id = ca_remote_issue_id e, au_state = ca_state e,
      au_asserted_at = ca_asserted_at e, au_signature = ca_signature e, au_key_id = ca_key_id e\<rparr>"

definition receipt_assertion :: "audit_receipt \<Rightarrow> issue_assertion" where
  "receipt_assertion rc =
     \<lparr>ia_schema = ISSUE_ASSERTION_SCHEMA, ia_store_id = au_store_id rc,
      ia_remote_issue_id = au_remote_issue_id rc, ia_state = au_state rc,
      ia_asserted_at = au_asserted_at rc, ia_key_id = au_key_id rc,
      ia_signature = Some (au_signature rc)\<rparr>"

datatype receipt_state =
    RVerified
  | RWrongKey
  | RWrongStore
  | RStale
  | RDifferentIssue
  | RForgedSignature
  | RAbsentStore
  | RMissingReceipt
  | RMalformedReference

fun receipt_state_str :: "receipt_state \<Rightarrow> string" where
  "receipt_state_str RVerified = ''verified''"
| "receipt_state_str RWrongKey = ''wrong_key''"
| "receipt_state_str RWrongStore = ''wrong_store''"
| "receipt_state_str RStale = ''stale''"
| "receipt_state_str RDifferentIssue = ''different_issue''"
| "receipt_state_str RForgedSignature = ''forged_signature''"
| "receipt_state_str RAbsentStore = ''absent_store''"
| "receipt_state_str RMissingReceipt = ''missing_receipt''"
| "receipt_state_str RMalformedReference = ''malformed_reference''"

datatype audit_detail =
    NotPinned string
  | NoReceipt
  | IssueDiffers string string
  | StoreDiffers string string
  | KeyDiffers string string string
  | Fails assertion_error
  | TooOld time int int
  | BadReference ref_error

record reference_audit =
  ra_reference :: string
  ra_store_id :: string
  ra_remote_issue_id :: string
  ra_state :: receipt_state
  ra_receipt :: "audit_receipt option"
  ra_detail :: "audit_detail option"

definition is_verified :: "reference_audit \<Rightarrow> bool" where
  "is_verified a \<longleftrightarrow> ra_state a = RVerified"

definition verdict_of :: "assertion_error \<Rightarrow> receipt_state" where
  "verdict_of e =
     (case e of
        WrongStore _ _ \<Rightarrow> RWrongStore
      | WrongKeyId _ _ \<Rightarrow> RWrongKey
      | KeyRetired _ _ \<Rightarrow> RWrongKey
      | _ \<Rightarrow> RForgedSignature)"

text \<open>The verdict and its detail, in the order of the checks.\<close>

definition judge ::
  "codec \<Rightarrow> canonical_ref \<Rightarrow> audit_receipt option \<Rightarrow> remote_registry \<Rightarrow> time option \<Rightarrow> time \<Rightarrow> int \<Rightarrow>
    receipt_state \<times> audit_detail option" where
  "judge c reference receipt g observed_at now window =
     (case record_for g (cf_store_id reference) of
        None \<Rightarrow> (RAbsentStore, Some (NotPinned (cf_store_id reference)))
      | Some r \<Rightarrow>
     (case receipt of
        None \<Rightarrow> (RMissingReceipt, Some NoReceipt)
      | Some rc \<Rightarrow>
          if au_remote_issue_id rc \<noteq> cf_issue_id reference
          then (RDifferentIssue, Some (IssueDiffers (au_remote_issue_id rc) (cf_issue_id reference)))
          else if au_store_id rc \<noteq> cf_store_id reference \<or> au_store_id rc \<noteq> rr_store_id r
          then (RWrongStore, Some (StoreDiffers (au_store_id rc) (rr_store_id r)))
          else (case find_pin r (au_key_id rc) of
             None \<Rightarrow> (RWrongKey, Some (KeyDiffers (au_key_id rc) (rr_store_id r) (rr_key_id r)))
           | Some pin \<Rightarrow>
               (case verify_issue_assertion c (receipt_assertion rc) pin now of
                  Some e \<Rightarrow> (verdict_of e, Some (Fails e))
                | None \<Rightarrow>
                    (let observed = (case observed_at of None \<Rightarrow> au_asserted_at rc | Some t \<Rightarrow> t) in
                     if max window 0 < sat_sub now observed
                     then (RStale, Some (TooOld observed (sat_sub now observed) window))
                     else (RVerified, None))))))"

definition audit_of ::
  "codec \<Rightarrow> canonical_ref \<Rightarrow> audit_receipt option \<Rightarrow> remote_registry \<Rightarrow> time option \<Rightarrow> time \<Rightarrow> int \<Rightarrow>
    reference_audit" where
  "audit_of c reference receipt g observed_at now window =
     (case judge c reference receipt g observed_at now window of (state, detail) \<Rightarrow>
        \<lparr>ra_reference = display_ref reference, ra_store_id = cf_store_id reference,
         ra_remote_issue_id = cf_issue_id reference, ra_state = state, ra_receipt = receipt,
         ra_detail = detail\<rparr>)"

definition audit_remote_dependency ::
  "codec \<Rightarrow> remote_dependency \<Rightarrow> remote_registry \<Rightarrow> time \<Rightarrow> int \<Rightarrow> reference_audit" where
  "audit_remote_dependency c d g now window =
     (case parse_ref (rd_canonical_ref d) of
        Inr reference \<Rightarrow>
          audit_of c reference (Some (receipt_from_dependency d)) g (Some (rd_observed_at d)) now window
      | Inl e \<Rightarrow>
          \<lparr>ra_reference = rd_canonical_ref d, ra_store_id = rd_store_id d,
           ra_remote_issue_id = rd_remote_issue_id d, ra_state = RMalformedReference,
           ra_receipt = Some (receipt_from_dependency d), ra_detail = Some (BadReference e)\<rparr>)"

section \<open>The two paths agree\<close>

lemma judge_from_dependency:
  assumes "parse_ref (rd_canonical_ref d) = Inr reference"
  shows "fst (judge c reference (Some (receipt_from_dependency d)) g (Some (rd_observed_at d)) now window) = RVerified
      \<longleftrightarrow> remote_dependency_freshness c d g now window = Fresh"
    and "fst (judge c reference (Some (receipt_from_dependency d)) g (Some (rd_observed_at d)) now window) = RStale
      \<longleftrightarrow> remote_dependency_freshness c d g now window = Stale"
proof -
  have a: "receipt_assertion (receipt_from_dependency d) = dependency_assertion d"
    by (simp add: receipt_assertion_def receipt_from_dependency_def dependency_assertion_def)
  have v: "verdict_of e \<noteq> RVerified" "verdict_of e \<noteq> RStale" for e
    by (simp_all add: verdict_of_def split: assertion_error.splits)
  have r: "au_remote_issue_id (receipt_from_dependency d) = rd_remote_issue_id d"
    "au_store_id (receipt_from_dependency d) = rd_store_id d" "au_key_id (receipt_from_dependency d) = rd_key_id d"
    by (simp_all add: receipt_from_dependency_def)
  show "fst (judge c reference (Some (receipt_from_dependency d)) g (Some (rd_observed_at d)) now window) = RVerified
      \<longleftrightarrow> remote_dependency_freshness c d g now window = Fresh"
    and "fst (judge c reference (Some (receipt_from_dependency d)) g (Some (rd_observed_at d)) now window) = RStale
      \<longleftrightarrow> remote_dependency_freshness c d g now window = Stale"
    using assms v record_for_Some [of g "cf_store_id reference"] record_for_Some [of g "rd_store_id d"]
    by (auto simp: judge_def remote_dependency_freshness_def a r ref_names_def age_of_def Let_def
        split: option.splits if_splits)
qed

lemma audit_agrees:
  "ra_state (audit_remote_dependency c d g now window) = RVerified \<longleftrightarrow>
    remote_dependency_freshness c d g now window = Fresh"
  "ra_state (audit_remote_dependency c d g now window) = RStale \<longleftrightarrow>
    remote_dependency_freshness c d g now window = Stale"
proof -
  have st: "ra_state (audit_of c reference receipt g observed now window) =
      fst (judge c reference receipt g observed now window)" for reference receipt observed
    by (simp add: audit_of_def split: prod.splits)
  have bad: "remote_dependency_freshness c d g now window = Unverifiable" if "parse_ref (rd_canonical_ref d) = Inl e" for e
    using that by (simp add: remote_dependency_freshness_def split: option.splits)
  show "ra_state (audit_remote_dependency c d g now window) = RVerified \<longleftrightarrow>
      remote_dependency_freshness c d g now window = Fresh"
    using bad judge_from_dependency(1) [of d] st
    by (cases "parse_ref (rd_canonical_ref d)") (simp_all add: audit_remote_dependency_def)
  show "ra_state (audit_remote_dependency c d g now window) = RStale \<longleftrightarrow>
      remote_dependency_freshness c d g now window = Stale"
    using bad judge_from_dependency(2) [of d] st
    by (cases "parse_ref (rd_canonical_ref d)") (simp_all add: audit_remote_dependency_def)
qed

text \<open>What a verified verdict on a reference rests on.\<close>

lemma judge_verified:
  "fst (judge c reference receipt g observed_at now window) = RVerified \<longleftrightarrow>
    (\<exists>r rc pin. record_for g (cf_store_id reference) = Some r \<and> receipt = Some rc \<and>
       au_remote_issue_id rc = cf_issue_id reference \<and> au_store_id rc = cf_store_id reference \<and>
       find_pin r (au_key_id rc) = Some pin \<and> verify_issue_assertion c (receipt_assertion rc) pin now = None \<and>
       sat_sub now (case observed_at of None \<Rightarrow> au_asserted_at rc | Some t \<Rightarrow> t) \<le> max window 0)"
proof -
  have v: "verdict_of e \<noteq> RVerified" for e by (simp add: verdict_of_def split: assertion_error.splits)
  show ?thesis
    using record_for_Some [of g "cf_store_id reference"]
    by (auto simp: judge_def v Let_def not_less split: option.splits if_splits)
qed

end
