(* ===== verification/Demo_Codec.thy ===== *)
theory Demo_Codec
  imports Webhook Receipts Demo
begin

text \<open>
  A concrete codec for the witnesses: base64 is the identity, a signature is the key followed by
  the bytes it signs, and the serializer writes every name and value between markers. Two stores
  that talk to each other: \<open>demo_store\<close> signs, and \<open>demo_registry\<close> has its first key pinned.
\<close>

section \<open>Libraries\<close>

definition framed :: "string \<Rightarrow> string" where
  "framed s = concat (map (\<lambda>ch. [CHR ''+'', ch]) s) @ [CHR ''.'']"

definition demo_value :: "json \<Rightarrow> string" where
  "demo_value j = (case j of JStr s \<Rightarrow> framed s | JInt i \<Rightarrow> framed (show_int i) | _ \<Rightarrow> [])"

definition demo_json :: "json \<Rightarrow> string" where
  "demo_json j = (case j of JObj fs \<Rightarrow> concat (map (\<lambda>(k, v). framed k @ demo_value v) fs) | _ \<Rightarrow> [])"

definition demo_codec :: codec where
  "demo_codec =
     \<lparr>json_vec = demo_json, b64_encode = id, b64_decode = Some, public_ok = (\<lambda>pub. length pub = 32),
      ed_verify = (\<lambda>pub sig msg. sig = pub @ msg), ed_sign = (\<lambda>key msg. Some (key @ msg))\<rparr>"

lemma framed_inj: "framed s @ u = framed t @ v \<Longrightarrow> s = t \<and> u = v"
proof (induction s arbitrary: t)
  case Nil
  then show ?case by (cases t) (simp_all add: framed_def)
next
  case (Cons ch s)
  then show ?case by (cases t) (auto simp: framed_def)
qed

lemma framed_eq [simp]: "framed s = framed t \<longleftrightarrow> s = t"
  using framed_inj [of s "[]" t "[]"] by auto

lemma demo_codec_injective: "json_injective demo_codec"
  unfolding json_injective_def
proof (intro allI impI)
  fix a b assume "signing_bytes demo_codec a = signing_bytes demo_codec b"
  then have "ia_schema a = ia_schema b \<and> ia_store_id a = ia_store_id b \<and>
      ia_remote_issue_id a = ia_remote_issue_id b \<and> ia_state a = ia_state b \<and>
      ia_asserted_at a = ia_asserted_at b \<and> ia_key_id a = ia_key_id b"
    by (auto simp: signing_bytes_def demo_codec_def demo_json_def demo_value_def assertion_fields_def
        unsigned_def optional_field_def show_int_inj dest!: framed_inj)
  then show "unsigned a = unsigned b" by (intro issue_assertion.equality) (simp_all add: unsigned_def)
qed

section \<open>Cache files\<close>

text \<open>Entries as framed fields; the digest of a name is its bytes.\<close>

fun scan :: "string \<Rightarrow> string \<Rightarrow> string list option" where
  "scan acc [] = (if acc = [] then Some [] else None)"
| "scan acc (ch # s) =
     (if ch = CHR ''.'' then map_option ((#) (rev acc)) (scan [] s)
      else if ch = CHR ''+'' then (case s of [] \<Rightarrow> None | x # s' \<Rightarrow> scan (x # acc) s')
      else None)"

lemma scan_framed: "scan acc (framed s @ u) = map_option ((#) (rev acc @ s)) (scan [] u)"
  by (induction s arbitrary: acc) (simp_all add: framed_def)

lemma scan_fields: "scan [] (concat (map framed ws)) = Some ws"
  by (induction ws) (simp_all add: scan_framed)

definition read_int :: "string \<Rightarrow> int option" where
  "read_int s =
     (case s of
        [] \<Rightarrow> None
      | ch # t \<Rightarrow> if ch = CHR ''-'' then map_option (\<lambda>n. - int n) (read_digits 0 t)
                  else map_option int (read_digits 0 s))"

lemma read_show_int: "read_int (show_int i) = Some i"
proof (cases "i < 0")
  case False
  obtain ch t where c: "show_nat (nat i) = ch # t"
    by (cases "show_nat (nat i)") (auto simp: show_nat.simps [of "nat i"] split: if_splits)
  moreover have "ch \<noteq> CHR ''-''" using show_nat_digits [of ch "nat i"] c by auto
  ultimately have "read_int (show_int i) = map_option int (read_digits 0 (show_nat (nat i)))"
    using False by (simp add: read_int_def show_int_def del: read_digits.simps)
  then show ?thesis using False by (simp add: read_show_nat)
qed (simp add: read_int_def show_int_def read_show_nat)

fun demo_fields :: "entry \<Rightarrow> string list" where
  "demo_fields (AssertionEntry v s i t e) =
     [''a'', show_int v, s, i, show_int t, ca_schema e, ca_store_id e, ca_remote_issue_id e, ca_state e,
      show_int (ca_asserted_at e), ca_signature e, ca_key_id e, show_int (ca_observed_at e)]"
| "demo_fields (UnreachableEntry v s i t d) = [''u'', show_int v, s, i, show_int t, d]"

definition demo_entry :: "string list \<Rightarrow> entry option" where
  "demo_entry ws =
     (if length ws = 13 then
        (case (read_int (ws ! 1), read_int (ws ! 4), read_int (ws ! 9), read_int (ws ! 12)) of
           (Some v, Some t, Some a, Some b) \<Rightarrow> Some (AssertionEntry v (ws ! 2) (ws ! 3) t
             \<lparr>ca_schema = ws ! 5, ca_store_id = ws ! 6, ca_remote_issue_id = ws ! 7, ca_state = ws ! 8,
              ca_asserted_at = a, ca_signature = ws ! 10, ca_key_id = ws ! 11, ca_observed_at = b\<rparr>)
         | _ \<Rightarrow> None)
      else if length ws = 6 then
        (case (read_int (ws ! 1), read_int (ws ! 4)) of
           (Some v, Some t) \<Rightarrow> Some (UnreachableEntry v (ws ! 2) (ws ! 3) t (ws ! 5)) | _ \<Rightarrow> None)
      else None)"

definition demo_env :: cache_env where
  "demo_env =
     \<lparr>ce_sha256 = map byte_of, ce_read = (\<lambda>t. Option.bind (scan [] t) demo_entry),
      ce_write = (\<lambda>e. concat (map framed (demo_fields e)))\<rparr>"

lemma demo_entry_fields: "demo_entry (demo_fields e) = Some e"
  by (cases e) (simp_all add: demo_entry_def read_show_int)

lemma demo_env_reads_back: "ce_read demo_env (ce_write demo_env e) = Some e"
  by (simp add: demo_env_def scan_fields demo_entry_fields)

definition demo_key :: "char \<Rightarrow> string" where "demo_key ch = replicate 32 ch"

definition demo_pair :: "char \<Rightarrow> string \<times> string" where "demo_pair ch = (demo_key ch, demo_key ch)"

lemma demo_key_pair: "key_pair demo_codec (demo_key ch) (demo_key ch)"
  by (simp add: key_pair_def demo_codec_def demo_key_def)

section \<open>Two stores\<close>

definition demo_store :: store_identity where
  "demo_store = create_identity [1, 2] (demo_pair CHR ''a'') (init_options_new ''demo'') 10"

definition demo_record :: remote_record where
  "demo_record = new_record ''up'' ''http://up'' (descriptor_of_key (demo_store\<lparr>si_keys := []\<rparr>) (demo_pair CHR ''a'')) 20"

definition demo_registry :: remote_registry where
  "demo_registry = default_registry\<lparr>rg_remotes := [demo_record]\<rparr>"

definition demo_store2 :: store_identity where
  "demo_store2 = identity_rotate (demo_pair CHR ''b'') 1000 60 demo_store"

definition demo_descriptor2 :: store_descriptor where
  "demo_descriptor2 = projr (descriptor demo_codec demo_store2 1000)"

definition demo_parse :: "string \<Rightarrow> store_descriptor option" where
  "demo_parse text = (if text = ''new'' then Some demo_descriptor2 else None)"

lemma demo_store_ok: "identity_ok demo_store"
  unfolding demo_store_def by (rule create_identity_ok)

lemma demo_store_id: "si_store_id demo_store = ''store_0102''"
  by code_simp

lemma demo_registry_ok: "registry_ok demo_registry"
  by code_simp

lemma demo_get: "get_remote demo_registry ''up'' = Some demo_record" "record_for demo_registry ''store_0102'' = Some demo_record"
  by code_simp+

lemma demo_look: "record_look demo_record = identity_look demo_store"
proof
  fix k show "record_look demo_record k = identity_look demo_store k"
    by (simp add: record_look_eq identity_look_def find_key_def demo_record_def demo_store_def new_record_def
        descriptor_of_key_def unsigned_descriptor_def generate_key_def create_identity_def Let_def demo_pair_def)
qed

section \<open>A claim and its cache entry\<close>

definition demo_signed :: issue_assertion where
  "demo_signed = projr (sign_issue_assertion demo_codec (si_active_key_id demo_store) (ed_sign demo_codec (demo_key CHR ''a''))
     (assertion_new ''store_0102'' ''a'' ''open'' 100))"

text \<open>The same codec, in a world where the store has signed these claims and nothing else.\<close>

definition honest_world :: "issue_assertion list \<Rightarrow> codec" where
  "honest_world issued =
     demo_codec\<lparr>ed_verify := \<lambda>pub sig msg. sig = pub @ msg \<and> msg \<in> set (map (signing_bytes demo_codec) issued)\<rparr>"

definition honest_codec :: codec where
  "honest_codec = honest_world [demo_signed]"

definition demo_empty :: assertion_cache where
  "demo_empty = \<lparr>ac_files = [], ac_window = DEFAULT_FRESHNESS_WINDOW_SECONDS\<rparr>"

definition demo_cache :: assertion_cache where
  "demo_cache = snd (record_assertion honest_codec demo_env (Some 7) demo_record demo_signed 110 demo_empty)"

lemma honest_world_bytes: "signing_bytes (honest_world issued) = signing_bytes demo_codec"
  by (rule ext) (simp add: signing_bytes_def honest_world_def)

lemma honest_world_injective: "json_injective (honest_world issued)"
  using demo_codec_injective unfolding json_injective_def honest_world_bytes .

lemma honest_world_signed: "only_signed (honest_world issued) r issued"
  unfolding only_signed_def
proof (intro allI impI)
  fix pin pub raw msg assume "ed_verify (honest_world issued) pub raw msg"
  then have "msg \<in> signing_bytes demo_codec ` set issued" by (simp add: honest_world_def)
  then show "msg \<in> signing_bytes (honest_world issued) ` set issued"
    by (simp only: honest_world_bytes)
qed

lemmas honest_codec_injective = honest_world_injective [of "[demo_signed]", folded honest_codec_def]
lemmas honest_codec_signed = honest_world_signed [of "[demo_signed]", folded honest_codec_def]

lemma demo_recorded:
  "\<exists>v. record_assertion honest_codec demo_env (Some 7) demo_record demo_signed 110 demo_empty = (Inr v, demo_cache)"
  unfolding demo_cache_def by (rule not_isl) code_simp

lemma demo_cache_ok: "cache_ok demo_env demo_cache"
proof -
  have "cache_ok demo_env demo_empty" by (simp add: cache_ok_def demo_empty_def)
  then show ?thesis using record_assertion_ok demo_env_reads_back unfolding demo_cache_def by blast
qed

end
