(* ===== verification/FederationProps.thy ===== *)
theory FederationProps
  imports Demo_Codec
begin

text \<open>
  What one store may believe of another: rotations followed by a pin, retired keys, claims read from
  the cache, receipts, replayed assertions and the delivery of the outbox. The last section holds
  two runs in which the code departs from its own documentation.
\<close>

section \<open>Keys\<close>






section \<open>Claims\<close>



text \<open>
  C25. What was recorded is what is read back. After a successful \<open>record\<close> a read of the same
  reference gives the recorded state exactly while the signing key is trusted and the observation
  does not lie more than the allowed skew ahead of the reader's clock, and then it is fresh within
  the window after the observation and stale later.
\<close>

theorem recorded_claim_is_read_back:
  assumes "record_assertion c env (Some modified) r a t k = (Inr v, k')"
    and "distinct (map jf_name (ac_files k))" and "\<And>e. ce_read env (ce_write env e) = Some e"
    and "\<And>f. f \<in> set (ac_files k) \<Longrightarrow> jf_modified f < modified"
    and "record_for g (ia_store_id a) = Some r"
  shows "(asserted_state (read_view c env g (ia_store_id a) (ia_remote_issue_id a) now k') = Some st \<longleftrightarrow>
      st = ia_state a \<and> trusted (record_look r) (ia_key_id a) now \<and> t \<le> sat_add now MAX_CLOCK_SKEW_SECONDS) \<and>
    (trusted (record_look r) (ia_key_id a) now \<longrightarrow> t \<le> sat_add now MAX_CLOCK_SKEW_SECONDS \<longrightarrow>
      av_freshness (read_view c env g (ia_store_id a) (ia_remote_issue_id a) now k') =
        (if sat_sub now t \<le> ac_window k then Fresh else Stale))"
  using record_then_read [OF assms] by (simp add: age_of_def not_less)

theorem recorded_claim_is_read_back_witness:
  "asserted_state (read_view honest_codec demo_env demo_registry ''store_0102'' ''a'' 500 demo_cache) = Some ''open'' \<and>
   av_freshness (read_view honest_codec demo_env demo_registry ''store_0102'' ''a'' 500 demo_cache) = Stale"
proof -
  obtain v where v: "record_assertion honest_codec demo_env (Some 7) demo_record demo_signed 110 demo_empty = (Inr v, demo_cache)"
    using demo_recorded by blast
  have "ia_store_id demo_signed = ''store_0102''" "ia_remote_issue_id demo_signed = ''a''" "ia_state demo_signed = ''open''"
    "ia_key_id demo_signed = ''store_0102/key-1''" "record_look demo_record ''store_0102/key-1'' = Some (demo_key CHR ''a'', None)"
    "110 \<le> sat_add 500 MAX_CLOCK_SKEW_SECONDS" "\<not> sat_sub 500 110 \<le> ac_window demo_empty"
    "distinct (map jf_name (ac_files demo_empty))" "ac_files demo_empty = []" by code_simp+
  with recorded_claim_is_read_back [OF v, of demo_registry 500 "''open''"] demo_env_reads_back demo_get(2)
  show ?thesis by (simp add: trusted_def retired_def)
qed

text \<open>
  C26. The audit of a stored dependency and its freshness, two separate code paths, agree: the
  receipt is \<open>verified\<close> exactly when the dependency is fresh and \<open>stale\<close> exactly when it is stale, so
  any other verdict means unverifiable.
\<close>

theorem audit_and_freshness_agree:
  "(ra_state (audit_remote_dependency c d g now window) = RVerified \<longleftrightarrow>
     remote_dependency_freshness c d g now window = Fresh) \<and>
   (ra_state (audit_remote_dependency c d g now window) = RStale \<longleftrightarrow>
     remote_dependency_freshness c d g now window = Stale) \<and>
   (ra_state (audit_remote_dependency c d g now window) \<notin> {RVerified, RStale} \<longleftrightarrow>
     remote_dependency_freshness c d g now window = Unverifiable)"
proof -
  have "remote_dependency_freshness c d g now window \<noteq> Unknown"
    by (simp add: remote_dependency_freshness_def age_of_def split: option.splits sum.splits)
  then have "remote_dependency_freshness c d g now window = Unverifiable \<longleftrightarrow>
      remote_dependency_freshness c d g now window \<notin> {Fresh, Stale}"
    by (cases "remote_dependency_freshness c d g now window") simp_all
  then show ?thesis using audit_agrees [of c d g now window] by simp
qed

section \<open>Events\<close>

text \<open>
  C27. A receiver never accepts an assertion twice, nor one that comes before an accepted one. Of
  any series of assertions the accepted ones verified under the pin and carry strictly increasing
  positive sequence numbers; and an assertion shown after the series is accepted exactly when it
  verifies and its number is positive and above the last one accepted.
\<close>

theorem replays_are_refused:
  assumes "verify_all c as (verifier_new pin) = (ok, v)"
  shows "subseq ok as \<and> sorted_wrt (<) (map (fa_seq \<circ> fst) ok) \<and>
    (\<forall>(a, now) \<in> set ok. verify_federation_assertion c a pin now = None \<and> 0 < fa_seq a) \<and>
    (fst (verifier_verify c b t v) = Inr () \<longleftrightarrow>
      verify_federation_assertion c b pin t = None \<and> 0 < fa_seq b \<and> (\<forall>(a, _) \<in> set ok. fa_seq a < fa_seq b))"
proof -
  note h = verify_all_history [OF assms]
  have new: "verifier_last_seq (verifier_new pin) = None" "vf_pin (verifier_new pin) = pin"
    by (simp_all add: verifier_last_seq_def verifier_new_def last_seq_def)
  have last: "above (verifier_last_seq v) n \<longleftrightarrow> 0 < n \<and> (\<forall>(a, _) \<in> set ok. fa_seq a < n)" for n
  proof (cases ok rule: rev_cases)
    case (snoc xs x)
    then have "\<forall>y \<in> set xs. fa_seq (fst y) < fa_seq (fst x)"
      using h by (simp add: sorted_wrt_append)
    then show ?thesis using h snoc by (fastforce simp: above_def)
  qed (use h new in \<open>simp add: above_def\<close>)
  have "fst (verifier_verify c b t v) = Inr () \<longleftrightarrow>
      verify_federation_assertion c b pin t = None \<and> above (verifier_last_seq v) (fa_seq b)"
    using h new by (cases rule: verifier_verify_cases [of c b t v]) auto
  moreover have "\<forall>(a, now) \<in> set ok. verify_federation_assertion c a pin now = None \<and> 0 < fa_seq a"
    using h new by (auto simp: above_def)
  ultimately show ?thesis using h last by simp
qed

definition demo_event :: "int \<Rightarrow> federation_assertion" where
  "demo_event n = projr (sign_federation_assertion demo_codec ''store_0102/key-1'' (ed_sign demo_codec (demo_key CHR ''a''))
     (federation_of ''c'' \<lparr>oe_seq = n, oe_store_id = ''store_0102'', oe_issue_id = ''a'', oe_project = ''p'',
        oe_occurred_at = 5, oe_event = ''created'', oe_attempts = 0\<rparr>))"

theorem replays_are_refused_witness:
  "fst (verify_all demo_codec [(demo_event 4, 10), (demo_event 4, 11), (demo_event 3, 12)] (verifier_new (record_active_pin demo_record))) =
      [(demo_event 4, 10)] \<and>
   fst (verifier_verify demo_codec (demo_event 4) 13
     (snd (verify_all demo_codec [(demo_event 4, 10), (demo_event 4, 11), (demo_event 3, 12)] (verifier_new (record_active_pin demo_record))))) \<noteq> Inr ()"
proof -
  let ?run = "verify_all demo_codec [(demo_event 4, 10), (demo_event 4, 11), (demo_event 3, 12)] (verifier_new (record_active_pin demo_record))"
  have "fst ?run = [(demo_event 4, 10)]" by code_simp
  with replays_are_refused [OF pair_snd [OF this], of "demo_event 4" 13] show ?thesis by simp
qed

text \<open>
  C28. A delivery round settles the events that are due and touches nothing else. In every
  reachable state a round succeeds; each of the first 64 due events has one more attempt and is either
  delivered, with its error cleared, or scheduled between one and 256 seconds after the answer; every other
  event and the rest of the store stay as they are.
\<close>

theorem delivery_round:
  assumes "db_reachable s"
  shows "\<exists>rows. deliver_store now receiver s = (Inr (), s\<lparr>db_outbound := rows\<rparr>) \<and>
    list_all2 (\<lambda>r r'. if r \<in> set (batch now s)
      then (case receiver (event_of_row r) of
        (None, t) \<Rightarrow> r' = r\<lparr>or_delivered_at := Some t, or_attempts := or_attempts r + 1, or_last_error := None\<rparr>
      | (Some e, t) \<Rightarrow> \<exists>wait. 1 \<le> wait \<and> wait \<le> 256 \<and>
          r' = r\<lparr>or_attempts := or_attempts r + 1, or_next_attempt_at := t + wait, or_last_error := Some e\<rparr>)
      else r' = r) (db_outbound s) rows"
proof -
  have ok: "logs_ok s" using db_reachable_ok [OF assms] by (simp add: db_ok_def)
  let ?es = "map (\<lambda>e. (e, receiver e)) (pending_events now 64 s)"
  note rows = deliver_store_rows [OF ok, of _ now receiver]
  have row: "if r \<in> set (batch now s)
      then (case receiver (event_of_row r) of
        (None, t) \<Rightarrow> settle_row ?es r = r\<lparr>or_delivered_at := Some t, or_attempts := or_attempts r + 1, or_last_error := None\<rparr>
      | (Some e, t) \<Rightarrow> \<exists>wait. 1 \<le> wait \<and> wait \<le> 256 \<and>
          settle_row ?es r = r\<lparr>or_attempts := or_attempts r + 1, or_next_attempt_at := t + wait, or_last_error := Some e\<rparr>)
      else settle_row ?es r = r" if r: "r \<in> set (db_outbound s)" for r
  proof (cases "r \<in> set (batch now s)")
    case True
    have "settle_row ?es r = settle_row [(event_of_row r, receiver (event_of_row r))] r"
      using rows(2) [OF r True] by (simp add: settle_row_def event_of_row_def)
    moreover have "or_delivered_at r = None" by (rule batch_row(2) [OF ok True])
    ultimately show ?thesis
      using True backoff_bounds [of "oe_attempts (event_of_row r)"]
      by (auto simp: settle_row_def event_of_row_def split: prod.splits option.splits)
  qed (use rows(1) [OF r] in simp)
  have "deliver_store now receiver s = (Inr (), s\<lparr>db_outbound := map (settle_row ?es) (db_outbound s)\<rparr>)"
    by (rule deliver_store_eq [OF ok])
  then show ?thesis
    by (intro exI [of _ "map (settle_row ?es) (db_outbound s)"] conjI)
      (simp, unfold list_all2_map2, rule list.rel_refl_strong, rule row)
qed

theorem delivery_round_witness:
  "\<exists>rows. deliver_store 2000 (\<lambda>e. (None, 2001)) demo = (Inr (), demo\<lparr>db_outbound := rows\<rparr>) \<and>
    or_delivered_at (rows ! 0) = Some 2001"
proof -
  obtain rows where rows: "deliver_store 2000 (\<lambda>e. (None, 2001)) demo = (Inr (), demo\<lparr>db_outbound := rows\<rparr>)"
      "list_all2 (\<lambda>r r'. if r \<in> set (batch 2000 demo)
        then r' = r\<lparr>or_delivered_at := Some 2001, or_attempts := or_attempts r + 1, or_last_error := None\<rparr> else r' = r)
      (db_outbound demo) rows"
    using delivery_round [OF demo_reachable, of 2000 "\<lambda>e. (None, 2001)"] unfolding prod.case option.case
    by (elim exE conjE) (rule that)
  have "0 < length (db_outbound demo)" "db_outbound demo ! 0 \<in> set (batch 2000 demo)" by code_simp+
  with list_all2_nthD [OF rows(2), of 0] rows(1) show ?thesis by (intro exI [of _ rows]) simp
qed

section \<open>Where the code departs from its documentation\<close>

text \<open>
  A read compares the reference with the header of the entry only, not with the claim inside. A file
  for issue \<open>b\<close> that holds the store's genuine claim about issue \<open>a\<close> reads as fresh: \<open>b\<close> is
  reported with \<open>a\<close>'s state, where the module says that a mismatch is unverifiable.
\<close>

definition misfiled :: assertion_cache where
  "misfiled = demo_empty\<lparr>ac_files := [\<lparr>jf_name = entry_path demo_env ''store_0102'' ''b'',
     jf_text = Text (ce_write demo_env (AssertionEntry ASSERTION_CACHE_VERSION ''store_0102'' ''b'' 110
       (projr (from_verified demo_signed 110)))), jf_modified = 7\<rparr>]\<rparr>"

theorem misfiled_claim_reads_fresh:
  "let v = read_view honest_codec demo_env demo_registry ''store_0102'' ''b'' 120 misfiled in
   av_freshness v = Fresh \<and> asserted_state v = Some ''open'' \<and> map_option ca_remote_issue_id (av_assertion v) = Some ''a''"
  by code_simp

text \<open>
  A rotation to a descriptor that keeps the key id and changes the key is reported as done, also
  when the operator confirmed the new key, but the pin keeps the old one.
\<close>

definition same_id :: store_descriptor where
  "same_id = projr (descriptor demo_codec (demo_store\<lparr>si_keys := [generate_key (demo_pair CHR ''c'') ''store_0102'' 1 50]\<rparr>) 60)"

theorem same_key_id_keeps_the_old_key:
  "let (result, g) = registry_rotate demo_codec (\<lambda>_. Some same_id) ''up'' [] (Some (demo_key CHR ''c'')) 60 1000 demo_registry in
   \<not> isl result \<and> map_option rr_public_key (get_remote g ''up'') = Some (demo_key CHR ''a'')"
  by code_simp

end
