(* ===== verification/Float64.thy ===== *)
theory Float64
  imports Complex_Main
begin

text \<open>
  Rust's \<open>f64\<close> for the reports: a finite double is the rational it stands for, and an arithmetic
  operation rounds the exact result to 53 significant bits, ties to even. The reports only divide and
  multiply counts and seconds, so no result overflows, underflows or is a NaN.
\<close>

definition pow2 :: "int \<Rightarrow> rat" where
  "pow2 e = (if 0 \<le> e then of_int (2 ^ nat e) else 1 / of_int (2 ^ nat (- e)))"

function bits :: "int \<Rightarrow> int" where
  "bits n = (if n \<le> 0 then 0 else bits (n div 2) + 1)"
  by pat_completeness auto
termination
  by (relation "measure nat") auto

declare bits.simps [simp del]

text \<open>The exponent of the last of the 53 bits of a positive rational.\<close>

definition ulp_of :: "rat \<Rightarrow> int" where
  "ulp_of x =
     (case quotient_of x of (n, d) \<Rightarrow>
        (let e = bits n - bits d - 53 in if x < pow2 (e + 53) then e else e + 1))"

definition round_even :: "rat \<Rightarrow> int" where
  "round_even y =
     (let f = \<lfloor>y\<rfloor>; r = y - of_int f in
      if r < 1 / 2 then f else if 1 / 2 < r then f + 1 else if even f then f else f + 1)"

definition fl :: "rat \<Rightarrow> rat" where
  "fl x =
     (if x = 0 then 0
      else (let e = ulp_of \<bar>x\<bar> in sgn x * of_int (round_even (\<bar>x\<bar> / pow2 e)) * pow2 e))"

text \<open>\<open>n as f64\<close>, the operators, and \<open>f64::round\<close>, which rounds halves away from zero.\<close>

definition f_of :: "int \<Rightarrow> rat" where "f_of n = fl (of_int n)"
definition f_div :: "rat \<Rightarrow> rat \<Rightarrow> rat" where "f_div x y = fl (x / y)"
definition f_mul :: "rat \<Rightarrow> rat \<Rightarrow> rat" where "f_mul x y = fl (x * y)"
definition f_sub :: "rat \<Rightarrow> rat \<Rightarrow> rat" where "f_sub x y = fl (x - y)"

definition f_round :: "rat \<Rightarrow> int" where
  "f_round x = (if 0 \<le> x then \<lfloor>x + 1 / 2\<rfloor> else \<lceil>x - 1 / 2\<rceil>)"

section \<open>Rounding stays between the powers of two, and keeps order\<close>

lemma pow2_pos [simp]: "0 < pow2 e"
  by (simp add: pow2_def)

lemma pow2_add: "pow2 (a + b) = pow2 a * pow2 b"
proof -
  have p: "pow2 e = 2 powi e" for e by (simp add: pow2_def power_int_def field_simps)
  show ?thesis unfolding p by (simp add: power_int_add)
qed

lemma bits_bounds:
  assumes "0 < n"
  shows "0 < bits n" and "pow2 (bits n - 1) \<le> of_int n" and "of_int n < pow2 (bits n)"
proof -
  have "0 < bits n \<and> 2 ^ nat (bits n - 1) \<le> n \<and> n < 2 ^ nat (bits n)"
    using assms
  proof (induction n rule: bits.induct)
    case (1 n)
    show ?case
    proof (cases "n = 1")
      case True
      then show ?thesis by (simp add: bits.simps [of 1] bits.simps [of 0])
    next
      case False
      then have n: "0 < n" "0 < n div 2" using 1(2) by auto
      have b: "bits n = bits (n div 2) + 1" using n(1) by (simp add: bits.simps [of n])
      have ih: "0 < bits (n div 2)" "2 ^ nat (bits (n div 2) - 1) \<le> n div 2" "n div 2 < 2 ^ nat (bits (n div 2))"
        using 1 n by auto
      have "nat (bits n - 1) = Suc (nat (bits (n div 2) - 1))" "nat (bits n) = Suc (nat (bits (n div 2)))"
        using ih(1) b by linarith+
      then show ?thesis using ih b by simp linarith
    qed
  qed
  then have b: "0 < bits n" "2 ^ nat (bits n - 1) \<le> n" "n < 2 ^ nat (bits n)" by blast+
  show "0 < bits n" by (rule b(1))
  have "(of_int (2 ^ nat (bits n - 1)) :: rat) \<le> of_int n" "(of_int n :: rat) < of_int (2 ^ nat (bits n))"
    using b(2,3) by (simp_all only: of_int_le_iff of_int_less_iff)
  then show "pow2 (bits n - 1) \<le> of_int n" "of_int n < pow2 (bits n)" using b(1) by (simp_all add: pow2_def)
qed

lemma ulp_bounds:
  assumes "0 < x"
  shows "pow2 (ulp_of x + 52) \<le> x" and "x < pow2 (ulp_of x + 53)"
proof -
  obtain n d where q: "quotient_of x = (n, d)" by fastforce
  have d: "0 < d" and x: "x = of_int n / of_int d"
    using quotient_of_denom_pos [OF q] quotient_of_div [OF q] by auto
  have n: "0 < n" using assms d unfolding x by (simp add: zero_less_divide_iff)
  let ?e = "bits n - bits d - 53"
  have lo: "pow2 (?e + 52) \<le> x"
  proof -
    have "pow2 (?e + 52) * of_int d \<le> pow2 (?e + 52) * pow2 (bits d)"
      using bits_bounds(3) [OF d] by (intro mult_left_mono) (simp_all add: less_imp_le)
    also have "\<dots> = pow2 (bits n - 1)" by (simp add: pow2_add [symmetric])
    also have "\<dots> \<le> of_int n" by (rule bits_bounds(2) [OF n])
    finally show ?thesis using d unfolding x by (simp add: pos_le_divide_eq)
  qed
  have hi: "x < pow2 (?e + 54)"
  proof -
    have "of_int n < pow2 (bits n)" by (rule bits_bounds(3) [OF n])
    also have "\<dots> = pow2 (?e + 54) * pow2 (bits d - 1)" by (simp add: pow2_add [symmetric])
    also have "\<dots> \<le> pow2 (?e + 54) * of_int d"
      using bits_bounds(2) [OF d] by (intro mult_left_mono) (simp_all add: less_imp_le)
    finally show ?thesis using d unfolding x by (simp add: pos_divide_less_eq)
  qed
  show "pow2 (ulp_of x + 52) \<le> x" "x < pow2 (ulp_of x + 53)"
    using lo hi by (auto simp: ulp_of_def q Let_def not_less add.assoc)
qed

lemma round_even_mono: "x \<le> y \<Longrightarrow> round_even x \<le> round_even y"
proof -
  assume le: "x \<le> y"
  have fl: "\<lfloor>x\<rfloor> \<le> \<lfloor>y\<rfloor>" by (rule floor_mono [OF le])
  have b: "\<lfloor>z\<rfloor> \<le> round_even z \<and> round_even z \<le> \<lfloor>z\<rfloor> + 1" for z by (simp add: round_even_def Let_def)
  show ?thesis
  proof (cases "\<lfloor>x\<rfloor> = \<lfloor>y\<rfloor>")
    case True
    then show ?thesis using le by (simp add: round_even_def Let_def)
  next
    case False
    then show ?thesis using b [of x] b [of y] fl by linarith
  qed
qed

lemma round_even_int [simp]: "round_even (of_int n) = n"
  by (simp add: round_even_def)

lemma fl_pos: "0 < x \<Longrightarrow> fl x = of_int (round_even (x / pow2 (ulp_of x))) * pow2 (ulp_of x)"
  by (simp add: fl_def Let_def)

lemma fl_zero [simp]: "fl 0 = 0"
  by (simp add: fl_def)

text \<open>A multiple of the last bit is exact, and so is every integer of at most 53 bits.\<close>

lemma fl_exact:
  assumes "0 < x" and "x = of_int m * pow2 (ulp_of x)"
  shows "fl x = x"
proof -
  have "x / pow2 (ulp_of x) = of_int m"
    using assms(2) pow2_pos [of "ulp_of x"] by (metis less_irrefl nonzero_mult_div_cancel_right)
  then show ?thesis using assms by (simp add: fl_pos)
qed

lemma fl_int:
  assumes "0 \<le> n" and "n < 2 ^ 53"
  shows "fl (of_int n) = of_int n"
proof (cases "n = 0")
  case False
  then have pos: "0 < (of_int n :: rat)" using assms by simp
  let ?e = "ulp_of (of_int n)"
  have "pow2 (?e + 52) < pow2 53"
    using ulp_bounds(1) [OF pos] assms(2) by (simp add: pow2_def) 
  then have "?e \<le> 0"
  proof -
    have "\<not> 1 \<le> ?e"
    proof
      assume "1 \<le> ?e"
      then have "pow2 (?e + 52) = pow2 53 * pow2 (?e - 1)" by (simp add: pow2_add [symmetric] add.commute)
      moreover have "1 \<le> pow2 (?e - 1)" using \<open>1 \<le> ?e\<close> by (simp add: pow2_def)
      ultimately show False using \<open>pow2 (?e + 52) < pow2 53\<close> pow2_pos [of 53] by simp
    qed
    then show ?thesis by simp
  qed
  then have "(of_int n :: rat) = of_int (n * 2 ^ nat (- ?e)) * pow2 ?e" by (auto simp: pow2_def)
  then show ?thesis by (rule fl_exact [OF pos])
qed simp

lemma fl_between:
  assumes "0 < x"
  shows "pow2 (ulp_of x + 52) \<le> fl x" and "fl x \<le> pow2 (ulp_of x + 53)"
proof -
  let ?u = "pow2 (ulp_of x)"
  have s: "pow2 (ulp_of x + 52) = of_int (2 ^ 52) * ?u" "pow2 (ulp_of x + 53) = of_int (2 ^ 53) * ?u"
    by (simp_all add: pow2_add) (simp_all add: pow2_def)
  have "of_int (2 ^ 52) \<le> x / ?u" "x / ?u \<le> of_int (2 ^ 53)"
    using ulp_bounds [OF assms] unfolding s by (simp_all add: pos_le_divide_eq pos_divide_le_eq)
  then have "2 ^ 52 \<le> round_even (x / ?u)" "round_even (x / ?u) \<le> 2 ^ 53"
    using round_even_mono [of "of_int (2 ^ 52)" "x / ?u"] round_even_mono [of "x / ?u" "of_int (2 ^ 53)"]
    by (simp_all only: round_even_int)
  then have "of_int (2 ^ 52) \<le> (of_int (round_even (x / ?u)) :: rat)"
    "(of_int (round_even (x / ?u)) :: rat) \<le> of_int (2 ^ 53)" by (simp_all only: of_int_le_iff)
  then show "pow2 (ulp_of x + 52) \<le> fl x" "fl x \<le> pow2 (ulp_of x + 53)"
    unfolding fl_pos [OF assms] s by (simp_all add: mult_right_mono less_imp_le)
qed

lemma fl_nonneg: "0 \<le> x \<Longrightarrow> 0 \<le> fl x"
proof (cases "x = 0")
  case False
  assume "0 \<le> x"
  then have "0 < x" using False by simp
  from fl_between(1) [OF this] show ?thesis using pow2_pos [of "ulp_of x + 52"] by linarith
qed simp

lemma fl_mono:
  assumes "0 \<le> x" and "x \<le> y"
  shows "fl x \<le> fl y"
proof (cases "x = 0")
  case True
  then show ?thesis using fl_nonneg [of y] assms by simp
next
  case False
  then have x: "0 < x" and y: "0 < y" using assms by auto
  consider "ulp_of x = ulp_of y" | "ulp_of x < ulp_of y" | "ulp_of y < ulp_of x" by linarith
  then show ?thesis
  proof cases
    case 1
    have "round_even (x / pow2 (ulp_of y)) \<le> round_even (y / pow2 (ulp_of y))"
      using assms(2) by (intro round_even_mono divide_right_mono) (simp_all add: less_imp_le)
    then show ?thesis unfolding fl_pos [OF x] fl_pos [OF y] 1 by (simp add: mult_right_mono less_imp_le)
  next
    case 2
    have "pow2 (ulp_of y + 52) = pow2 (ulp_of x + 53) * pow2 (ulp_of y - ulp_of x - 1)"
      by (simp add: pow2_add [symmetric] add.commute)
    moreover have "1 \<le> pow2 (ulp_of y - ulp_of x - 1)" using 2 by (simp add: pow2_def)
    ultimately have "pow2 (ulp_of x + 53) \<le> pow2 (ulp_of y + 52)" using pow2_pos [of "ulp_of x + 53"] by simp
    then show ?thesis using fl_between(2) [OF x] fl_between(1) [OF y] by linarith
  next
    case 3
    have "pow2 (ulp_of x + 52) = pow2 (ulp_of y + 53) * pow2 (ulp_of x - ulp_of y - 1)"
      by (simp add: pow2_add [symmetric] add.commute)
    moreover have "1 \<le> pow2 (ulp_of x - ulp_of y - 1)" using 3 by (simp add: pow2_def)
    ultimately have "pow2 (ulp_of y + 53) \<le> pow2 (ulp_of x + 52)" using pow2_pos [of "ulp_of y + 53"] by simp
    then show ?thesis using ulp_bounds(1) [OF x] ulp_bounds(2) [OF y] assms(2) by linarith
  qed
qed

lemma fl_le_int: "0 \<le> x \<Longrightarrow> x \<le> of_int n \<Longrightarrow> n < 2 ^ 53 \<Longrightarrow> fl x \<le> of_int n"
  using fl_mono [of x "of_int n"] fl_int [of n] by (metis dual_order.trans of_int_0_le_iff)

end
