(* ===== verification/Rollup.thy ===== *)
theory Rollup
  imports Float64 PlanGantt
begin

text \<open>
  \<open>src/src/report.rs\<close>, the rollups: progress of a set of issues, the descendants and the tree of a
  goal, goal summaries, the burndown and the progress bar. Everything is computed from one page of
  issues. A \<open>BTreeMap\<close> from a parent to its children, filled in the order of the page, is the
  filter it is looked up as. Percentages and rates are doubles (\<open>Float64\<close>); \<open>{:.1}\<close> prints the
  nearest tenth.
\<close>

section \<open>Progress\<close>

record progress =
  pg_total :: int
  pg_open :: int
  pg_in_progress :: int
  pg_review :: int
  pg_blocked :: int
  pg_deferred :: int
  pg_closed :: int
  pg_epics :: int
  pg_tasks :: int
  pg_percent_done :: rat

definition progress_default :: progress where
  "progress_default =
     \<lparr>pg_total = 0, pg_open = 0, pg_in_progress = 0, pg_review = 0, pg_blocked = 0, pg_deferred = 0,
      pg_closed = 0, pg_epics = 0, pg_tasks = 0, pg_percent_done = 0\<rparr>"

definition count_status :: "string \<Rightarrow> progress \<Rightarrow> progress" where
  "count_status st p =
     (if st = ''open'' then p\<lparr>pg_open := pg_open p + 1\<rparr>
      else if st = ''in_progress'' then p\<lparr>pg_in_progress := pg_in_progress p + 1\<rparr>
      else if st = ''review'' then p\<lparr>pg_review := pg_review p + 1\<rparr>
      else if st = ''blocked'' then p\<lparr>pg_blocked := pg_blocked p + 1\<rparr>
      else if st = ''deferred'' then p\<lparr>pg_deferred := pg_deferred p + 1\<rparr>
      else if st = ''closed'' then p\<lparr>pg_closed := pg_closed p + 1\<rparr>
      else p)"

definition count_type :: "string \<Rightarrow> progress \<Rightarrow> progress" where
  "count_type ty p =
     (if ty = ''epic'' then p\<lparr>pg_epics := pg_epics p + 1\<rparr>
      else if ty = ''goal'' then p
      else p\<lparr>pg_tasks := pg_tasks p + 1\<rparr>)"

definition count_issue :: "issue \<Rightarrow> progress \<Rightarrow> progress" where
  "count_issue i p =
     count_type (i_issue_type i) (count_status (i_status i) (p\<lparr>pg_total := pg_total p + 1\<rparr>))"

definition percent_done :: "int \<Rightarrow> int \<Rightarrow> rat" where
  "percent_done shut scope =
     (if scope = 0 then 0
      else f_div (of_int (f_round (f_mul (f_div (f_of shut) (f_of scope)) 1000))) 10)"

definition from_issues :: "issue list \<Rightarrow> progress" where
  "from_issues issues =
     (let out = fold count_issue issues progress_default
      in out\<lparr>pg_percent_done := percent_done (pg_closed out) (pg_total out)\<rparr>)"

section \<open>The descendants of a goal\<close>

definition children_of :: "issue list \<Rightarrow> string \<Rightarrow> issue list" where
  "children_of issues p = filter (\<lambda>i. i_parent i = Some p) issues"

text \<open>The loop of \<open>descendant_ids\<close>; the head of the list is the top of the stack.\<close>

function descend :: "issue list \<Rightarrow> string list \<Rightarrow> string list \<Rightarrow> string list" where
  "descend issues [] seen = seen"
| "descend issues (i # stack) seen =
     (if i \<in> set seen then descend issues stack seen
      else descend issues (rev (map i_id (children_of issues i)) @ stack) (bs_insert i seen))"
  by pat_completeness auto
termination
proof (relation "measures
    [\<lambda>(issues, stack, seen). card (i_id ` set issues \<union> set stack - set seen),
     \<lambda>(issues, stack, seen). length stack]")
  fix issues :: "issue list" and i stack and seen :: "string list"
  assume i: "i \<in> set seen"
  show "((issues, stack, seen), (issues, i # stack, seen)) \<in> measures
      [\<lambda>(issues, stack, seen). card (i_id ` set issues \<union> set stack - set seen),
       \<lambda>(issues, stack, seen). length stack]"
    using i by (simp add: insert_Diff_if)
next
  fix issues :: "issue list" and i stack and seen :: "string list"
  assume i: "i \<notin> set seen"
  let ?kids = "rev (map i_id (children_of issues i))"
  have "i_id ` set issues \<union> set (?kids @ stack) - set (bs_insert i seen) \<subset>
      i_id ` set issues \<union> set (i # stack) - set seen"
    using i by (auto simp: children_of_def)
  then have "card (i_id ` set issues \<union> set (?kids @ stack) - set (bs_insert i seen)) <
      card (i_id ` set issues \<union> set (i # stack) - set seen)"
    by (simp add: psubset_card_mono)
  then show "((issues, ?kids @ stack, bs_insert i seen), (issues, i # stack, seen)) \<in> measures
      [\<lambda>(issues, stack, seen). card (i_id ` set issues \<union> set stack - set seen),
       \<lambda>(issues, stack, seen). length stack]"
    by simp
qed simp

definition descendant_ids :: "issue list \<Rightarrow> string \<Rightarrow> string list" where
  "descendant_ids issues base = descend issues [base] []"

definition progress_for :: "issue list \<Rightarrow> string \<Rightarrow> progress" where
  "progress_for issues base =
     (let ids = descendant_ids issues base
      in from_issues (filter (\<lambda>i. i_id i \<noteq> base \<and> i_id i \<in> set ids) issues))"

record goal_summary =
  gs_id :: string
  gs_title :: string
  gs_status :: string
  gs_priority :: int
  gs_project :: string
  gs_progress :: progress

definition goal_summary_of :: "issue list \<Rightarrow> issue \<Rightarrow> goal_summary" where
  "goal_summary_of issues goal =
     \<lparr>gs_id = i_id goal, gs_title = i_title goal, gs_status = i_status goal,
      gs_priority = i_priority goal, gs_project = i_project goal,
      gs_progress = progress_for issues (i_id goal)\<rparr>"

definition goal_summaries :: "issue list \<Rightarrow> string option \<Rightarrow> goal_summary list" where
  "goal_summaries issues project =
     sort_key (\<lambda>g. (gs_priority g, gs_id g))
       (map (goal_summary_of issues)
         (filter (\<lambda>i. case project of None \<Rightarrow> True | Some p \<Rightarrow> i_project i = p)
           (filter (\<lambda>i. i_issue_type i = ''goal'') issues)))"

section \<open>The tree of a goal\<close>

text \<open>
  \<open>walk\<close> recurses without a guard, so it may not return: fuel bounds the depth of the recursion, and
  \<open>None\<close> is a walk that is still going when it runs out.
\<close>

definition sorted_children :: "issue list \<Rightarrow> string \<Rightarrow> issue list" where
  "sorted_children issues p = sort_key (\<lambda>i. (i_priority i, i_id i)) (children_of issues p)"

definition tree_line :: "nat \<Rightarrow> issue \<Rightarrow> string" where
  "tree_line depth i =
     concat (replicate depth ''  '') @ i_id i @ '' ['' @ i_status i @ ''] '' @ i_title i @ '' ('' @
     (if i_issue_type i = [] then ''task'' else i_issue_type i) @ '', p'' @ show_int (i_priority i) @ '')''"

fun all_some :: "'a option list \<Rightarrow> 'a list option" where
  "all_some [] = Some []"
| "all_some (None # xs) = None"
| "all_some (Some x # xs) = map_option (\<lambda>ys. x # ys) (all_some xs)"

fun walk :: "nat \<Rightarrow> issue list \<Rightarrow> nat \<Rightarrow> issue \<Rightarrow> string list option" where
  "walk 0 issues depth i = None"
| "walk (Suc fuel) issues depth i =
     map_option (\<lambda>below. tree_line depth i # concat below)
       (all_some (map (walk fuel issues (depth + 1)) (sorted_children issues (i_id i))))"

definition tree_lines :: "nat \<Rightarrow> issue list \<Rightarrow> string \<Rightarrow> string list option" where
  "tree_lines fuel issues base =
     (case find (\<lambda>i. i_id i = base) issues of
        None \<Rightarrow> Some []
      | Some i \<Rightarrow> walk fuel issues 0 i)"

section \<open>Burndown\<close>

definition sat_mul :: "int \<Rightarrow> int \<Rightarrow> int" where
  "sat_mul a b = max i64_min (min i64_max (a * b))"

record burndown_day =
  bd_date :: string
  bd_scope :: int
  bd_done :: int
  bd_remaining :: int
  bd_ideal_remaining :: int

record burndown =
  bn_days :: int
  bn_scope :: int
  bn_done :: int
  bn_remaining :: int
  bn_burn_per_day :: "rat option"
  bn_projected :: "rat option"
  bn_points :: "burndown_day list"

definition closed_by :: "time \<Rightarrow> issue \<Rightarrow> bool" where
  "closed_by t i \<longleftrightarrow> (case i_closed_at i of None \<Rightarrow> False | Some c \<Rightarrow> c \<le> t)"

definition tally :: "('a \<Rightarrow> bool) \<Rightarrow> 'a list \<Rightarrow> int" where
  "tally P issues = int (length (filter P issues))"

definition ideal_remaining :: "int \<Rightarrow> int \<Rightarrow> int \<Rightarrow> int" where
  "ideal_remaining scope d days =
     max (f_round (f_mul (f_of scope) (f_sub 1 (f_div (f_of d) (f_of days))))) 0"

text \<open>\<open>date\<close> is chrono's rendering of a second as its UTC day, empty out of its range.\<close>

definition burndown_point ::
  "(time \<Rightarrow> string) \<Rightarrow> issue list \<Rightarrow> int \<Rightarrow> time \<Rightarrow> time \<Rightarrow> int \<Rightarrow> burndown_day" where
  "burndown_point date issues days start now d =
     (let t = min (start + sat_mul d 86400) now;
          scope = tally (\<lambda>i. i_created_at i \<le> t) issues;
          done_by = tally (\<lambda>i. i_created_at i \<le> t \<and> closed_by t i) issues
      in \<lparr>bd_date = date t, bd_scope = scope, bd_done = done_by,
          bd_remaining = max (scope - done_by) 0,
          bd_ideal_remaining = ideal_remaining (int (length issues)) d days\<rparr>)"

definition burn_rate :: "issue list \<Rightarrow> time \<Rightarrow> time \<Rightarrow> rat option" where
  "burn_rate issues start now =
     (let elapsed = f_div (f_of (now - start)) 86400;
          burnt = tally (closed_by now) issues - tally (closed_by start) issues
      in if 0 < elapsed \<and> 0 < burnt then Some (f_div (f_of burnt) elapsed) else None)"

definition burndown_of :: "(time \<Rightarrow> string) \<Rightarrow> issue list \<Rightarrow> int \<Rightarrow> time \<Rightarrow> burndown" where
  "burndown_of date issues days now =
     (let days = max days 1;
          start = sat_sub now (sat_mul days 86400);
          total = int (length issues);
          done_now = tally (closed_by now) issues;
          remaining = max (total - done_now) 0;
          rate = burn_rate issues start now
      in \<lparr>bn_days = days, bn_scope = total, bn_done = done_now, bn_remaining = remaining,
          bn_burn_per_day = rate,
          bn_projected = Option.bind rate
            (\<lambda>r. if 0 < r then Some (f_div (f_of remaining) r) else None),
          bn_points = map (burndown_point date issues days start now) [0..days]\<rparr>)"

section \<open>The progress bar\<close>

text \<open>\<open>{:>5.1}\<close>: one decimal, padded on the left to five characters.\<close>

definition show_tenths :: "rat \<Rightarrow> string" where
  "show_tenths x =
     (let n = round_even (10 * x);
          s = (if n < 0 then ''-'' else []) @ show_nat (nat (\<bar>n\<bar> div 10)) @ ''.'' @ show_nat (nat (\<bar>n\<bar> mod 10))
      in replicate (5 - length s) (CHR '' '') @ s)"

definition progress_bar :: "progress \<Rightarrow> nat \<Rightarrow> string" where
  "progress_bar p w =
     (let w = max w 4;
          filled = min (nat (f_round (f_mul (f_div (pg_percent_done p) 100) (f_of (int w))))) w
      in replicate filled (CHR ''#'') @ replicate (w - filled) (CHR ''-'') @ '' '' @
         show_tenths (pg_percent_done p) @ ''%'')"

section \<open>Progress counts, and the percentage is one\<close>

lemma fold_count_issue:
  "pg_total (fold count_issue xs p) = pg_total p + int (length xs)"
  "pg_open (fold count_issue xs p) = pg_open p + tally (\<lambda>i. i_status i = ''open'') xs"
  "pg_in_progress (fold count_issue xs p) = pg_in_progress p + tally (\<lambda>i. i_status i = ''in_progress'') xs"
  "pg_review (fold count_issue xs p) = pg_review p + tally (\<lambda>i. i_status i = ''review'') xs"
  "pg_blocked (fold count_issue xs p) = pg_blocked p + tally (\<lambda>i. i_status i = ''blocked'') xs"
  "pg_deferred (fold count_issue xs p) = pg_deferred p + tally (\<lambda>i. i_status i = ''deferred'') xs"
  "pg_closed (fold count_issue xs p) = pg_closed p + tally (\<lambda>i. i_status i = ''closed'') xs"
  "pg_epics (fold count_issue xs p) = pg_epics p + tally (\<lambda>i. i_issue_type i = ''epic'') xs"
  "pg_tasks (fold count_issue xs p) = pg_tasks p + tally (\<lambda>i. i_issue_type i \<notin> {''epic'', ''goal''}) xs"
  by (induction xs arbitrary: p) (simp_all add: tally_def count_issue_def count_status_def count_type_def)

lemma from_issues_counts [simp]:
  "pg_total (from_issues xs) = int (length xs)"
  "pg_open (from_issues xs) = tally (\<lambda>i. i_status i = ''open'') xs"
  "pg_in_progress (from_issues xs) = tally (\<lambda>i. i_status i = ''in_progress'') xs"
  "pg_review (from_issues xs) = tally (\<lambda>i. i_status i = ''review'') xs"
  "pg_blocked (from_issues xs) = tally (\<lambda>i. i_status i = ''blocked'') xs"
  "pg_deferred (from_issues xs) = tally (\<lambda>i. i_status i = ''deferred'') xs"
  "pg_closed (from_issues xs) = tally (\<lambda>i. i_status i = ''closed'') xs"
  "pg_epics (from_issues xs) = tally (\<lambda>i. i_issue_type i = ''epic'') xs"
  "pg_tasks (from_issues xs) = tally (\<lambda>i. i_issue_type i \<notin> {''epic'', ''goal''}) xs"
  "pg_percent_done (from_issues xs) =
     percent_done (tally (\<lambda>i. i_status i = ''closed'') xs) (int (length xs))"
  by (simp_all add: from_issues_def Let_def fold_count_issue progress_default_def)

lemma tally_Nil [simp]: "tally P [] = 0"
  by (simp add: tally_def)

lemma tally_Cons [simp]: "tally P (x # xs) = (if P x then 1 else 0) + tally P xs"
  by (simp add: tally_def)

lemma tally_append [simp]: "tally P (xs @ ys) = tally P xs + tally P ys"
  by (simp add: tally_def)

lemma tally_filter: "tally P (filter Q xs) = tally (\<lambda>i. Q i \<and> P i) xs"
  by (simp add: tally_def conj_commute)

lemma tally_mono: "(\<And>i. i \<in> set xs \<Longrightarrow> P i \<Longrightarrow> Q i) \<Longrightarrow> tally P xs \<le> tally Q xs"
  by (induction xs) auto

lemma tally_bounds: "0 \<le> tally P xs" "tally P xs \<le> int (length xs)"
  by (simp_all add: tally_def)

lemma tally_diff: "tally P xs - tally (\<lambda>i. P i \<and> Q i) xs = tally (\<lambda>i. P i \<and> \<not> Q i) xs"
  by (induction xs) auto

lemma statuses_partition:
  "\<forall>i \<in> set xs. i_status i \<in> set STATUSES \<Longrightarrow>
    int (length xs) = sum_list (map (\<lambda>st. tally (\<lambda>i. i_status i = st) xs) STATUSES)"
  by (induction xs) (auto simp: STATUSES_def)

lemma f_of_small [simp]: "0 \<le> n \<Longrightarrow> n < 2 ^ 53 \<Longrightarrow> f_of n = of_int n"
  by (simp add: f_of_def fl_int)

lemma f_round_mono: "0 \<le> x \<Longrightarrow> x \<le> y \<Longrightarrow> f_round x \<le> f_round y"
  by (simp add: f_round_def floor_mono)

lemma f_round_int [simp]: "0 \<le> n \<Longrightarrow> f_round (of_int n) = n"
  by (simp add: f_round_def) linarith

lemma f_div_mono: "0 \<le> x \<Longrightarrow> x \<le> y \<Longrightarrow> 0 < z \<Longrightarrow> f_div x z \<le> f_div y z"
  unfolding f_div_def by (rule fl_mono) (simp_all add: divide_right_mono)

lemma f_div_nonneg: "0 \<le> x \<Longrightarrow> 0 \<le> y \<Longrightarrow> 0 \<le> f_div x y"
  unfolding f_div_def by (rule fl_nonneg) simp

lemma f_mul_mono: "0 \<le> x \<Longrightarrow> x \<le> y \<Longrightarrow> 0 \<le> z \<Longrightarrow> f_mul x z \<le> f_mul y z"
  unfolding f_mul_def by (rule fl_mono) (simp_all add: mult_right_mono)

lemma f_mul_nonneg: "0 \<le> x \<Longrightarrow> 0 \<le> y \<Longrightarrow> 0 \<le> f_mul x y"
  unfolding f_mul_def by (rule fl_nonneg) simp

lemma percent_done_mono:
  assumes "0 \<le> a" and "a \<le> b" and "b < 2 ^ 53" and "0 \<le> n" and "n < 2 ^ 53"
  shows "percent_done a n \<le> percent_done b n"
proof (cases "n = 0")
  case False
  then have n: "0 < n" using assms by simp
  let ?q = "\<lambda>k. f_mul (f_div (of_int k) (of_int n)) 1000"
  have q: "0 \<le> ?q a" "?q a \<le> ?q b"
    using assms n by (simp_all add: f_mul_nonneg f_div_nonneg f_mul_mono f_div_mono)
  have "0 \<le> f_round (?q a)" using f_round_mono [of 0, OF _ q(1)] f_round_int [of 0] by simp
  then show ?thesis
    using assms n f_round_mono [OF q] by (simp add: percent_done_def f_div_mono)
qed (simp add: percent_done_def)

lemma percent_done_bounds:
  assumes "0 \<le> a" and "a \<le> n" and "n < 2 ^ 53"
  shows "0 \<le> percent_done a n" and "percent_done a n \<le> 100"
proof -
  have none: "percent_done 0 n = 0"
    using assms f_round_int [of 0] by (simp add: percent_done_def f_div_def f_mul_def)
  then show "0 \<le> percent_done a n" using percent_done_mono [of 0 a n] assms by simp
  have all: "percent_done n n \<le> 100"
    using assms fl_int [of 1] fl_int [of 1000] fl_int [of 100] f_round_int [of 1000]
    by (simp add: percent_done_def f_div_def f_mul_def)
  then show "percent_done a n \<le> 100" using percent_done_mono [of a n n] assms by simp
qed

lemma percent_done_all: "0 < n \<Longrightarrow> n < 2 ^ 53 \<Longrightarrow> percent_done n n = 100"
  using fl_int [of 1] fl_int [of 1000] fl_int [of 100] f_round_int [of 1000]
  by (simp add: percent_done_def f_div_def f_mul_def)

end
