(* ===== verification/GoalTree.thy ===== *)
theory GoalTree
  imports Rollup
begin

text \<open>
  What the parent links of a page mean: \<open>descendant_ids\<close> is the reflexive transitive closure of the
  child relation whatever the page holds, and the unguarded \<open>tree_lines\<close> returns when no issue is its
  own ancestor, one line for each descendant.
\<close>

definition child_edges :: "issue list \<Rightarrow> (string \<times> string) set" where
  "child_edges issues = {(p, i_id i) |p i. i \<in> set issues \<and> i_parent i = Some p}"

lemma child_edge_iff:
  "(p, c) \<in> child_edges issues \<longleftrightarrow> (\<exists>i \<in> set issues. i_parent i = Some p \<and> i_id i = c)"
  by (auto simp: child_edges_def)

lemma set_children [simp]: "i_id ` set (children_of issues p) = {c. (p, c) \<in> child_edges issues}"
  by (auto simp: children_of_def child_edges_def)

lemma finite_child_edges [simp]: "finite (child_edges issues)"
proof -
  have "child_edges issues \<subseteq> (\<lambda>i. (the (i_parent i), i_id i)) ` set issues"
    by (force simp: child_edges_def)
  then show ?thesis by (rule finite_subset) simp
qed

section \<open>Descendants\<close>

lemma descend_set:
  assumes "\<forall>x \<in> set seen. \<forall>y. (x, y) \<in> child_edges issues \<longrightarrow> y \<in> set seen \<union> set stack"
  shows "set (descend issues stack seen) = (child_edges issues)\<^sup>* `` (set seen \<union> set stack)"
  using assms
proof (induction issues stack seen rule: descend.induct)
  case (1 issues seen)
  then have "child_edges issues `` set seen \<subseteq> set seen" by auto
  then show ?case by (simp add: Image_closed_trancl)
next
  case (2 issues i stack seen)
  let ?E = "child_edges issues"
  show ?case
  proof (cases "i \<in> set seen")
    case True
    then show ?thesis using 2 by (simp add: insert_absorb)
  next
    case False
    let ?kids = "rev (map i_id (children_of issues i))"
    have kids: "set ?kids = {c. (i, c) \<in> ?E}" by simp
    have "set (descend issues (i # stack) seen) =
        ?E\<^sup>* `` (set (bs_insert i seen) \<union> set (?kids @ stack))"
      using False 2 by auto
    also have "\<dots> = ?E\<^sup>* `` (insert i (set seen \<union> set stack) \<union> {c. (i, c) \<in> ?E})" by (simp add: kids Un_ac)
    also have "\<dots> = ?E\<^sup>* `` insert i (set seen \<union> set stack)"
      by (auto intro: converse_rtrancl_into_rtrancl)
    finally show ?thesis by simp
  qed
qed

lemma descend_sorted:
  "sorted seen \<Longrightarrow> distinct seen \<Longrightarrow>
    sorted (descend issues stack seen) \<and> distinct (descend issues stack seen)"
  by (induction issues stack seen rule: descend.induct) simp_all

lemma descendant_ids_set: "set (descendant_ids issues base) = (child_edges issues)\<^sup>* `` {base}"
  unfolding descendant_ids_def by (subst descend_set) auto

lemma progress_for_scope:
  "progress_for issues base =
    from_issues (filter (\<lambda>i. i_id i \<noteq> base \<and> (base, i_id i) \<in> (child_edges issues)\<^sup>*) issues)"
  by (simp add: progress_for_def Let_def descendant_ids_set)

section \<open>The tree\<close>

lemma all_some_map:
  "(\<And>x. x \<in> set xs \<Longrightarrow> f x = Some (g x)) \<Longrightarrow> all_some (map f xs) = Some (map g xs)"
  by (induction xs) auto

text \<open>The nodes of the walk with their depths, in the order of the lines.\<close>

fun tree_nodes :: "nat \<Rightarrow> issue list \<Rightarrow> nat \<Rightarrow> issue \<Rightarrow> (nat \<times> issue) list" where
  "tree_nodes 0 issues depth i = []"
| "tree_nodes (Suc fuel) issues depth i =
     (depth, i) # concat (map (tree_nodes fuel issues (depth + 1)) (sorted_children issues (i_id i)))"

definition below :: "issue list \<Rightarrow> string \<Rightarrow> string set" where
  "below issues i = (child_edges issues)\<^sup>+ `` {i}"

lemma finite_below [simp]: "finite (below issues i)"
proof -
  have "below issues i \<subseteq> snd ` ((child_edges issues)\<^sup>+)" by (force simp: below_def)
  then show ?thesis by (rule finite_subset) (simp add: finite_trancl)
qed

text \<open>With distinct ids an issue has one parent.\<close>

lemma one_parent:
  assumes "distinct (map i_id issues)" and "(p, c) \<in> child_edges issues" and "(q, c) \<in> child_edges issues"
  shows "p = q"
proof -
  obtain i j where "i \<in> set issues" "i_parent i = Some p" "c = i_id i"
    and "j \<in> set issues" "i_parent j = Some q" "c = i_id j"
    using assms(2,3) unfolding child_edges_def by blast
  moreover from this have "i = j" using assms(1) by (metis distinct_map inj_onD)
  ultimately show ?thesis by simp
qed

definition own_ancestor :: "issue list \<Rightarrow> string \<Rightarrow> bool" where
  "own_ancestor issues i \<longleftrightarrow> (i, i) \<in> (child_edges issues)\<^sup>+"

lemma child_own_ancestor:
  assumes "distinct (map i_id issues)" and "(i, c) \<in> child_edges issues" and "\<not> own_ancestor issues i"
  shows "\<not> own_ancestor issues c"
proof
  assume "own_ancestor issues c"
  then obtain w where "(c, w) \<in> (child_edges issues)\<^sup>*" "(w, c) \<in> child_edges issues"
    unfolding own_ancestor_def by (meson tranclD2)
  moreover from this(2) have "w = i" using one_parent [OF assms(1)] assms(2) by blast
  ultimately have "(i, i) \<in> (child_edges issues)\<^sup>+" using assms(2) by (meson rtrancl_into_trancl2)
  then show False using assms(3) by (simp add: own_ancestor_def)
qed

lemma sorted_child:
  "c \<in> set (sorted_children issues i) \<longleftrightarrow> c \<in> set issues \<and> i_parent c = Some i"
  by (auto simp: sorted_children_def children_of_def)

lemma child_edge: "c \<in> set (sorted_children issues i) \<Longrightarrow> (i, i_id c) \<in> child_edges issues"
  by (auto simp: sorted_child child_edges_def)

lemma child_below:
  assumes "distinct (map i_id issues)" and "\<not> own_ancestor issues i"
    and "c \<in> set (sorted_children issues i)"
  shows "card (below issues (i_id c)) < card (below issues i)" and "\<not> own_ancestor issues (i_id c)"
proof -
  have e: "(i, i_id c) \<in> child_edges issues" by (rule child_edge [OF assms(3)])
  show loop: "\<not> own_ancestor issues (i_id c)" by (rule child_own_ancestor [OF assms(1) e assms(2)])
  have "below issues (i_id c) \<subseteq> below issues i"
    using e by (auto simp: below_def intro: trancl_into_trancl2)
  moreover have "i_id c \<in> below issues i" "i_id c \<notin> below issues (i_id c)"
    using e loop by (auto simp: below_def own_ancestor_def)
  ultimately show "card (below issues (i_id c)) < card (below issues i)" by (intro psubset_card_mono) auto
qed

lemma walk_nodes:
  assumes "distinct (map i_id issues)" and "\<not> own_ancestor issues (i_id i)"
    and "card (below issues (i_id i)) < fuel"
  shows "walk fuel issues depth i =
    Some (map (\<lambda>(d, j). tree_line d j) (tree_nodes fuel issues depth i))"
  using assms(2,3)
proof (induction fuel arbitrary: i depth)
  case (Suc fuel)
  have "walk fuel issues (depth + 1) c =
      Some (map (\<lambda>(d, j). tree_line d j) (tree_nodes fuel issues (depth + 1) c))"
    if "c \<in> set (sorted_children issues (i_id i))" for c
    using child_below [OF assms(1) Suc.prems(1) that] Suc by simp
  then show ?case
    by (simp add: all_some_map map_concat comp_def)
qed simp

lemma below_bound: "card (below issues i) \<le> length issues"
proof -
  have "below issues i \<subseteq> i_id ` set issues"
    by (auto simp: below_def child_edges_def elim: trancl.cases)
  then have "card (below issues i) \<le> card (i_id ` set issues)" by (simp add: card_mono)
  also have "\<dots> \<le> length issues" by (metis card_image_le card_length le_trans List.finite_set)
  finally show ?thesis .
qed

lemma shared_descendant:
  assumes "distinct (map i_id issues)"
    and "(a, x) \<in> (child_edges issues)\<^sup>*" and "(b, x) \<in> (child_edges issues)\<^sup>*"
  shows "(a, b) \<in> (child_edges issues)\<^sup>* \<or> (b, a) \<in> (child_edges issues)\<^sup>*"
  using assms(2,3)
proof (induction rule: rtrancl_induct)
  case base
  then show ?case by simp
next
  case (step y z)
  from \<open>(b, z) \<in> _\<close> show ?case
  proof (cases rule: rtranclE)
    case base
    then show ?thesis using step(1,2) by (meson rtrancl.rtrancl_into_rtrancl)
  next
    case (step w)
    then show ?thesis using one_parent [OF assms(1)] \<open>(y, z) \<in> _\<close> step.IH by metis
  qed
qed

lemma siblings_apart:
  assumes "distinct (map i_id issues)" and "\<not> own_ancestor issues p"
    and "(p, a) \<in> child_edges issues" and "(p, b) \<in> child_edges issues" and "a \<noteq> b"
    and "(a, x) \<in> (child_edges issues)\<^sup>*" and "(b, x) \<in> (child_edges issues)\<^sup>*"
  shows False
proof -
  have no: "\<not> (u, v) \<in> (child_edges issues)\<^sup>*"
    if u: "(p, u) \<in> child_edges issues" and v: "(p, v) \<in> child_edges issues" and ne: "u \<noteq> v" for u v
  proof
    assume "(u, v) \<in> (child_edges issues)\<^sup>*"
    then show False
    proof (cases rule: rtranclE)
      case base
      then show ?thesis using ne by simp
    next
      case (step w)
      then have "w = p" using one_parent [OF assms(1)] v by metis
      then have "(p, p) \<in> (child_edges issues)\<^sup>+" using u step(1) by auto
      then show ?thesis using assms(2) by (simp add: own_ancestor_def)
    qed
  qed
  show ?thesis using shared_descendant [OF assms(1,6,7)] no [OF assms(3,4,5)] no [OF assms(4,3)] assms(5) by auto
qed

lemma tree_nodes_set:
  assumes "distinct (map i_id issues)" and "\<not> own_ancestor issues (i_id i)"
    and "card (below issues (i_id i)) < fuel" and "i \<in> set issues"
  shows "set (map snd (tree_nodes fuel issues depth i)) =
    {j \<in> set issues. (i_id i, i_id j) \<in> (child_edges issues)\<^sup>*}"
  using assms(2,3,4)
proof (induction fuel arbitrary: i depth)
  case (Suc fuel)
  let ?E = "child_edges issues"
  let ?D = "\<lambda>k. {j \<in> set issues. (k, i_id j) \<in> ?E\<^sup>*}"
  have kids: "set (sorted_children issues (i_id i)) = {c \<in> set issues. i_parent c = Some (i_id i)}"
    by (auto simp: sorted_children_def children_of_def)
  have ih: "snd ` set (tree_nodes fuel issues (depth + 1) c) = ?D (i_id c)"
    if "c \<in> set (sorted_children issues (i_id i))" for c
    using child_below [OF assms(1) Suc.prems(1) that] Suc that kids by simp
  have "snd ` set (tree_nodes (Suc fuel) issues depth i) =
      insert i (\<Union>c \<in> {c \<in> set issues. i_parent c = Some (i_id i)}. ?D (i_id c))"
    using ih by (simp add: image_UN kids)
  also have "\<dots> = ?D (i_id i)"
  proof (rule set_eqI, rule iffI)
    fix j
    assume "j \<in> insert i (\<Union>c \<in> {c \<in> set issues. i_parent c = Some (i_id i)}. ?D (i_id c))"
    then consider "j = i" | c where "c \<in> set issues" "i_parent c = Some (i_id i)" "j \<in> ?D (i_id c)" by blast
    then show "j \<in> ?D (i_id i)"
    proof cases
      case 2
      then have "(i_id i, i_id c) \<in> ?E" by (auto simp: child_edges_def)
      then show ?thesis using 2(3) by (simp add: converse_rtrancl_into_rtrancl)
    qed (use Suc.prems(3) in simp)
  next
    fix j
    assume j: "j \<in> ?D (i_id i)"
    then have "(i_id i, i_id j) \<in> ?E\<^sup>*" by simp
    then show "j \<in> insert i (\<Union>c \<in> {c \<in> set issues. i_parent c = Some (i_id i)}. ?D (i_id c))"
    proof (cases rule: converse_rtranclE)
      case base
      then have "j = i" using j Suc.prems(3) assms(1) by (auto simp: distinct_map inj_on_def)
      then show ?thesis by simp
    next
      case (step k)
      then obtain c where "c \<in> set issues" "i_parent c = Some (i_id i)" "k = i_id c"
        by (auto simp: child_edges_def)
      then show ?thesis using step(2) j by blast
    qed
  qed
  finally show ?case by simp
qed simp

lemma distinct_concat_parts:
  assumes "distinct xs" and "\<And>x. x \<in> set xs \<Longrightarrow> distinct (f x)"
    and "\<And>x y z. x \<in> set xs \<Longrightarrow> y \<in> set xs \<Longrightarrow> x \<noteq> y \<Longrightarrow> z \<in> set (f x) \<Longrightarrow> z \<notin> set (f y)"
  shows "distinct (concat (map f xs))"
  using assms
proof (induction xs)
  case (Cons x xs)
  have "distinct (concat (map f xs))" using Cons.prems by (intro Cons.IH) auto
  moreover have "set (f x) \<inter> set (f y) = {}" if "y \<in> set xs" for y
    using Cons.prems(3) [of x y] Cons.prems(1) that by auto
  ultimately show ?case using Cons.prems(2) [of x] by auto
qed simp

lemma tree_nodes_distinct:
  assumes "distinct (map i_id issues)" and "\<not> own_ancestor issues (i_id i)"
    and "card (below issues (i_id i)) < fuel" and "i \<in> set issues"
  shows "distinct (map snd (tree_nodes fuel issues depth i))"
  using assms(2,3,4)
proof (induction fuel arbitrary: i depth)
  case (Suc fuel)
  let ?E = "child_edges issues"
  let ?f = "\<lambda>c. map snd (tree_nodes fuel issues (depth + 1) c)"
  let ?cs = "sorted_children issues (i_id i)"
  have kid: "c \<in> set issues" "(i_id i, i_id c) \<in> ?E" "card (below issues (i_id c)) < fuel"
    "\<not> own_ancestor issues (i_id c)" if "c \<in> set ?cs" for c
    using that child_edge [OF that] child_below [OF assms(1) Suc.prems(1) that] Suc.prems(2)
    by (auto simp: sorted_child)
  have sets: "set (?f c) = {j \<in> set issues. (i_id c, i_id j) \<in> ?E\<^sup>*}" if "c \<in> set ?cs" for c
    using kid [OF that] by (intro tree_nodes_set assms(1))
  have "distinct (concat (map ?f ?cs))"
  proof (rule distinct_concat_parts)
    show "distinct ?cs" using assms(1) by (simp add: sorted_children_def children_of_def distinct_map)
    show "distinct (?f c)" if "c \<in> set ?cs" for c using kid [OF that] by (intro Suc.IH)
    show "z \<notin> set (?f d)" if "c \<in> set ?cs" "d \<in> set ?cs" "c \<noteq> d" "z \<in> set (?f c)" for c d z
    proof
      assume "z \<in> set (?f d)"
      then have "(i_id c, i_id z) \<in> ?E\<^sup>*" "(i_id d, i_id z) \<in> ?E\<^sup>*" using that(1,2,4) sets by blast+
      moreover have "i_id c \<noteq> i_id d"
        using kid [OF that(1)] kid [OF that(2)] that(3) assms(1) by (metis distinct_map inj_onD)
      ultimately show False using siblings_apart [OF assms(1) Suc.prems(1)] kid(2) [OF that(1)] kid(2) [OF that(2)] by blast
    qed
  qed
  moreover have "i \<notin> set (concat (map ?f ?cs))"
  proof
    assume "i \<in> set (concat (map ?f ?cs))"
    then obtain c where c: "c \<in> set ?cs" "i \<in> set (?f c)" by auto
    then have "(i_id c, i_id i) \<in> ?E\<^sup>*" "(i_id i, i_id c) \<in> ?E" using sets kid(2) by blast+
    then have "(i_id i, i_id i) \<in> ?E\<^sup>+" by (meson rtrancl_into_trancl2)
    then show False using Suc.prems(1) by (simp add: own_ancestor_def)
  qed
  ultimately show ?case by (simp add: map_concat comp_def)
qed simp

text \<open>A walk that meets its own start again never returns, whatever the fuel.\<close>

lemma all_some_None: "None \<in> set xs \<Longrightarrow> all_some xs = None"
  by (induction xs rule: all_some.induct) auto

lemma walk_child_None:
  assumes "c \<in> set (sorted_children issues (i_id i))" and "\<And>d. walk fuel issues d c = None"
  shows "walk (Suc fuel) issues depth i = None"
proof -
  have "None \<in> walk fuel issues (depth + 1) ` set (sorted_children issues (i_id i))"
    using assms by (metis imageI)
  then show ?thesis by (simp add: all_some_None)
qed

lemma cycle_never_returns:
  assumes "own_ancestor issues (i_id i)" and "i \<in> set issues"
  shows "walk fuel issues depth i = None"
  using assms
proof (induction fuel arbitrary: i depth)
  case (Suc fuel)
  obtain k where k: "(i_id i, k) \<in> child_edges issues" "(k, i_id i) \<in> (child_edges issues)\<^sup>*"
    using Suc.prems(1) unfolding own_ancestor_def by (meson tranclD)
  then obtain c where c: "c \<in> set issues" "i_parent c = Some (i_id i)" "i_id c = k"
    by (auto simp: child_edges_def)
  have "own_ancestor issues (i_id c)" using k c(3) by (simp add: own_ancestor_def)
  then have "walk fuel issues d c = None" for d using Suc.IH c(1) by blast
  then show ?case using c by (intro walk_child_None) (auto simp: sorted_child)
qed simp

end
