(* ===== verification/Portfolio.thy ===== *)
theory Portfolio
  imports GoalTree PlanGraph
begin

text \<open>
  \<open>src/src/report.rs\<close>, the portfolio, the view scope, the scrum board and the dashboard. A map from
  issue ids to statuses is \<open>statuses\<close> of \<open>PlanGraph\<close>; \<open>by_project\<close> is the filter it is looked up as.
\<close>

record project_info =
  pi_slug :: string
  pi_root :: string
  pi_prefix :: string
  pi_folder :: "string option"

record project_rollup =
  pl_slug :: string
  pl_folder :: "string option"
  pl_prefix :: string
  pl_progress :: progress
  pl_ready :: int
  pl_oldest_ready_age_secs :: "int option"
  pl_stale :: int
  pl_oldest_review_age_secs :: "int option"
  pl_burn_per_day :: "rat option"
  pl_goals :: "goal_summary list"

record folder_rollup =
  fl_slug :: "string option"
  fl_name :: string
  fl_parent :: "string option"
  fl_projects :: "project_rollup list"
  fl_progress :: progress
  fl_ready :: int
  fl_stale :: int
  fl_burn_per_day :: "rat option"

record portfolio_totals =
  tt_projects :: int
  tt_progress :: progress
  tt_ready :: int
  tt_stale :: int
  tt_burn_per_day :: "rat option"

record portfolio =
  po_generated_at :: time
  po_days :: int
  po_stale_days :: int
  po_folders :: "folder_rollup list"
  po_unfiled :: "project_rollup list"
  po_totals :: portfolio_totals

section \<open>The ready rule over a page of issues\<close>

definition dep_settled :: "(string \<rightharpoonup> string) \<Rightarrow> dependency \<Rightarrow> bool" where
  "dep_settled sts d =
     (case Option.bind (depends_on_id d) sts of None \<Rightarrow> True | Some st \<Rightarrow> st = ''closed'')"

definition report_ready :: "(string \<rightharpoonup> string) \<Rightarrow> time \<Rightarrow> issue \<Rightarrow> bool" where
  "report_ready sts now i =
     (if i_issue_type i = ''goal'' \<or> i_status i \<noteq> ''open'' then False
      else if (case i_available_at i of None \<Rightarrow> False | Some a \<Rightarrow> now < a) then False
      else if i_assignee i \<noteq> None \<and> (case i_expires_at i of None \<Rightarrow> True | Some e \<Rightarrow> now < e) then False
      else (\<forall>d \<in> set (i_dependencies i). dep_settled sts d))"

definition max_of :: "int list \<Rightarrow> int option" where
  "max_of xs = (if xs = [] then None else Some (Max (set xs)))"

definition is_work :: "issue \<Rightarrow> bool" where
  "is_work i \<longleftrightarrow> i_issue_type i \<noteq> ''goal''"

definition stale_before :: "time \<Rightarrow> issue \<Rightarrow> bool" where
  "stale_before cutoff i \<longleftrightarrow>
     (i_status i = ''open'' \<or> i_status i = ''in_progress'') \<and> i_updated_at i < cutoff"

definition project_rollup_of ::
  "(time \<Rightarrow> string) \<Rightarrow> project_info \<Rightarrow> issue list \<Rightarrow> (string \<rightharpoonup> string) \<Rightarrow> time \<Rightarrow> int \<Rightarrow> int \<Rightarrow> project_rollup" where
  "project_rollup_of date project issues sts now days stale_days =
     (let work = filter is_work issues;
          ready_work = filter (report_ready sts now) work;
          stale_cutoff = sat_sub now (sat_mul stale_days 86400)
      in \<lparr>pl_slug = pi_slug project, pl_folder = pi_folder project, pl_prefix = pi_prefix project,
          pl_progress = from_issues work,
          pl_ready = int (length ready_work),
          pl_oldest_ready_age_secs = max_of (map (\<lambda>i. max (now - i_created_at i) 0) ready_work),
          pl_stale = tally (stale_before stale_cutoff) work,
          pl_oldest_review_age_secs = max_of (map (\<lambda>i. max (now - i_updated_at i) 0)
            (filter (\<lambda>i. i_status i = ''review'') work)),
          pl_burn_per_day = bn_burn_per_day (burndown_of date work days now),
          pl_goals = filter (\<lambda>g. gs_status g \<noteq> ''closed'') (goal_summaries issues (Some (pi_slug project)))\<rparr>)"

definition in_project :: "issue list \<Rightarrow> string \<Rightarrow> issue list" where
  "in_project issues slug = filter (\<lambda>i. i_project i = slug) issues"

definition folder_rollup_of ::
  "(time \<Rightarrow> string) \<Rightarrow> issue list \<Rightarrow> project_rollup list \<Rightarrow> time \<Rightarrow> int \<Rightarrow> folder \<Rightarrow> folder_rollup option" where
  "folder_rollup_of date issues rollups now days f =
     (let in_folder = filter (\<lambda>p. pl_folder p = Some (fo_slug f)) rollups;
          folder_issues = filter is_work (concat (map (\<lambda>p. in_project issues (pl_slug p)) in_folder))
      in if in_folder = [] then None
         else Some \<lparr>fl_slug = Some (fo_slug f), fl_name = fo_name f, fl_parent = fo_parent f,
           fl_projects = in_folder,
           fl_progress = from_issues folder_issues,
           fl_ready = sum_list (map pl_ready in_folder),
           fl_stale = sum_list (map pl_stale in_folder),
           fl_burn_per_day = bn_burn_per_day (burndown_of date folder_issues days now)\<rparr>)"

definition portfolio_with_universe ::
  "(time \<Rightarrow> string) \<Rightarrow> project_info list \<Rightarrow> folder list \<Rightarrow> issue list \<Rightarrow> issue list \<Rightarrow>
    time \<Rightarrow> int \<Rightarrow> int \<Rightarrow> portfolio" where
  "portfolio_with_universe date projects folders issues universe now days stale_days =
     (let sts = statuses universe;
          rollups = sort_key pl_slug
            (map (\<lambda>p. project_rollup_of date p (in_project issues (pi_slug p)) sts now days stale_days) projects);
          all_work = filter is_work issues
      in \<lparr>po_generated_at = now, po_days = days, po_stale_days = stale_days,
          po_folders = sort_key fl_name
            (List.map_filter (folder_rollup_of date issues rollups now days) folders),
          po_unfiled = filter (\<lambda>p. pl_folder p = None \<or>
            \<not> (\<exists>f \<in> set folders. Some (fo_slug f) = pl_folder p)) rollups,
          po_totals =
            \<lparr>tt_projects = int (length projects), tt_progress = from_issues all_work,
             tt_ready = sum_list (map pl_ready rollups), tt_stale = sum_list (map pl_stale rollups),
             tt_burn_per_day = bn_burn_per_day (burndown_of date all_work days now)\<rparr>\<rparr>)"

definition portfolio_of ::
  "(time \<Rightarrow> string) \<Rightarrow> project_info list \<Rightarrow> folder list \<Rightarrow> issue list \<Rightarrow> time \<Rightarrow> int \<Rightarrow> int \<Rightarrow> portfolio" where
  "portfolio_of date projects folders issues now days stale_days =
     portfolio_with_universe date projects folders issues issues now days stale_days"

section \<open>The scope of a view\<close>

record view_scope =
  vs_project :: "string option"
  vs_folder :: "string option"
  vs_plan :: "string option"

definition unless_given :: "'a option \<Rightarrow> ('a \<Rightarrow> bool) \<Rightarrow> bool" where
  "unless_given v P = (case v of None \<Rightarrow> True | Some x \<Rightarrow> P x)"

definition scope_issues :: "issue list \<Rightarrow> project_info list \<Rightarrow> view_scope \<Rightarrow> issue list" where
  "scope_issues issues projects scope =
     (let folder_projects = (case vs_folder scope of None \<Rightarrow> []
            | Some f \<Rightarrow> map pi_slug (filter (\<lambda>p. pi_folder p = Some f) projects))
      in filter (\<lambda>i. unless_given (vs_project scope) (\<lambda>p. i_project i = p) \<and>
           unless_given (vs_folder scope) (\<lambda>_. i_project i \<in> set folder_projects) \<and>
           unless_given (vs_plan scope) (\<lambda>p. plan_name_of i = Some p)) issues)"

definition selected_projects :: "project_info list \<Rightarrow> issue list \<Rightarrow> view_scope \<Rightarrow> project_info list" where
  "selected_projects projects selected scope =
     filter (\<lambda>p. vs_plan scope = None \<or> pi_slug p \<in> set (map i_project selected))
       (filter (\<lambda>p. unless_given (vs_folder scope) (\<lambda>f. pi_folder p = Some f))
         (filter (\<lambda>p. unless_given (vs_project scope) (\<lambda>s. pi_slug p = s)) projects))"

section \<open>The scrum board\<close>

record scrum_card =
  sd_id :: string
  sd_title :: string
  sd_project :: string
  sd_priority :: int
  sd_issue_type :: string
  sd_assignee :: "string option"
  sd_labels :: "string list"
  sd_epic :: "string option"
  sd_blocked_by :: int
  sd_age_seconds :: int
  sd_estimate :: "int option"
  sd_plan :: "string option"

record scrum_column =
  sl_status :: string
  sl_title :: string
  sl_count :: int
  sl_wip_limit :: "int option"
  sl_cards :: "scrum_card list"

record scrum_swimlane =
  sw_key :: string
  sw_title :: string
  sw_columns :: "scrum_column list"

record scrum_board =
  sb_columns :: "scrum_column list"
  sb_swimlanes :: "scrum_swimlane list"

definition column_title :: "string \<Rightarrow> string" where
  "column_title st =
     (if st = ''open'' then ''Ready'' else if st = ''in_progress'' then ''In progress''
      else if st = ''review'' then ''Review'' else if st = ''blocked'' then ''Blocked''
      else if st = ''deferred'' then ''Deferred'' else if st = ''closed'' then ''Closed''
      else ''Unknown'')"

text \<open>Unlike the ready rule, a dependency that names no known issue counts as unresolved.\<close>

definition blocked_by :: "issue \<Rightarrow> (string \<rightharpoonup> string) \<Rightarrow> int" where
  "blocked_by i sts =
     int (length (filter (\<lambda>d. case depends_on_id d of None \<Rightarrow> True
        | Some p \<Rightarrow> (case sts p of None \<Rightarrow> True | Some st \<Rightarrow> st \<noteq> ''closed'')) (i_dependencies i)))"

definition scrum_card_of :: "(string \<rightharpoonup> string) \<Rightarrow> time \<Rightarrow> issue \<Rightarrow> scrum_card" where
  "scrum_card_of sts now i =
     \<lparr>sd_id = i_id i, sd_title = i_title i, sd_project = i_project i, sd_priority = i_priority i,
      sd_issue_type = i_issue_type i, sd_assignee = i_assignee i, sd_labels = i_labels i,
      sd_epic = i_parent i, sd_blocked_by = blocked_by i sts,
      sd_age_seconds = max (now - i_created_at i) 0, sd_estimate = metadata_estimate i,
      sd_plan = plan_name_of i\<rparr>"

definition scrum_columns :: "issue list \<Rightarrow> (string \<rightharpoonup> string) \<Rightarrow> time \<Rightarrow> scrum_column list" where
  "scrum_columns work sts now =
     map (\<lambda>st. let cards = map (scrum_card_of sts now) (filter (\<lambda>i. i_status i = st) work)
            in \<lparr>sl_status = st, sl_title = column_title st, sl_count = int (length cards),
                sl_wip_limit = None, sl_cards = cards\<rparr>) STATUSES"

definition scrum :: "issue list \<Rightarrow> issue list \<Rightarrow> time \<Rightarrow> scrum_board" where
  "scrum selected all_issues now =
     (let sts = statuses all_issues;
          work = sort_key (\<lambda>i. (i_priority i, i_created_at i, i_id i)) (filter is_work selected)
      in \<lparr>sb_columns = scrum_columns work sts now,
          sb_swimlanes = map (\<lambda>p.
            \<lparr>sw_key = p, sw_title = p,
             sw_columns = scrum_columns (filter (\<lambda>i. i_project i = p) work) sts now\<rparr>)
            (bs_collect (map i_project work))\<rparr>)"

section \<open>The dashboard\<close>

record dashboard_totals =
  dt_total :: int
  dt_open :: int
  dt_in_progress :: int
  dt_review :: int
  dt_blocked :: int
  dt_closed :: int
  dt_ready :: int
  dt_stale :: int
  dt_percent_done :: rat

record dashboard =
  da_schema :: string
  da_generated_at :: time
  da_scope :: view_scope
  da_totals :: dashboard_totals
  da_portfolio :: portfolio
  da_burndown :: burndown
  da_scrum :: scrum_board
  da_gantt :: gantt

definition dashboard_of ::
  "(time \<Rightarrow> string) \<Rightarrow> project_info list \<Rightarrow> folder list \<Rightarrow> issue list \<Rightarrow> view_scope \<Rightarrow>
    int \<Rightarrow> int \<Rightarrow> int \<Rightarrow> time \<Rightarrow> error + dashboard" where
  "dashboard_of date projects folders all_issues scope days stale_days default_estimate_min now =
     (let days = max days 1;
          selected = scope_issues all_issues projects scope;
          work = filter is_work selected;
          sts = statuses all_issues;
          progress = from_issues work;
          stale_cutoff = sat_sub now (sat_mul (max stale_days 0) 86400);
          totals =
            \<lparr>dt_total = pg_total progress, dt_open = pg_open progress,
             dt_in_progress = pg_in_progress progress, dt_review = pg_review progress,
             dt_blocked = pg_blocked progress, dt_closed = pg_closed progress,
             dt_ready = tally (report_ready sts now) work,
             dt_stale = tally (stale_before stale_cutoff) work,
             dt_percent_done = pg_percent_done progress\<rparr>;
          chosen = selected_projects projects selected scope
      in case gantt_scoped all_issues selected
             \<lparr>sc_project = vs_project scope, sc_folder = vs_folder scope, sc_plan = vs_plan scope\<rparr>
             False default_estimate_min now of
           Inl e \<Rightarrow> Inl e
         | Inr view \<Rightarrow> Inr
             \<lparr>da_schema = ''marbles.view.dashboard.v1'', da_generated_at = now, da_scope = scope,
              da_totals = totals,
              da_portfolio =
                portfolio_with_universe date chosen folders selected all_issues now days stale_days,
              da_burndown = burndown_of date work days now,
              da_scrum = scrum selected all_issues now,
              da_gantt = gv_gantt view\<rparr>)"

end
