(* ===== verification/Views.thy ===== *)
theory Views
  imports Portfolio Queue
begin

text \<open>
  The views are one count of one queue: grouping the page by project, folder, column or lane loses and
  repeats nothing, and the ready rule of the reports is the WHERE clause of the store's ready query.
\<close>

section \<open>Grouping\<close>

lemma sum_list_delta:
  fixes c :: "'a::comm_monoid_add"
  shows "distinct ks \<Longrightarrow> (\<Sum>k\<leftarrow>ks. if a = k then c else 0) = (if a \<in> set ks then c else 0)"
  by (induction ks) auto

lemma mset_groups:
  assumes "distinct ks" and "key ` set xs \<subseteq> set ks"
  shows "mset (concat (map (\<lambda>k. filter (\<lambda>x. key x = k) xs) ks)) = mset xs"
proof -
  have "mset (concat (map (\<lambda>k. filter (\<lambda>x. key x = k) xs) ks)) =
      (\<Sum>k\<leftarrow>ks. mset (filter (\<lambda>x. key x = k) xs))" for xs
    by (induction ks) auto
  moreover have "(\<Sum>k\<leftarrow>ks. mset (filter (\<lambda>x. key x = k) xs)) = mset xs"
    using assms(2)
  proof (induction xs)
    case (Cons x xs)
    have "mset (filter (\<lambda>x. key x = k) (x # xs)) =
        (if key x = k then {#x#} else 0) + mset (filter (\<lambda>x. key x = k) xs)" for k
      by simp
    then have "(\<Sum>k\<leftarrow>ks. mset (filter (\<lambda>x. key x = k) (x # xs))) =
        (\<Sum>k\<leftarrow>ks. if key x = k then {#x#} else 0) + (\<Sum>k\<leftarrow>ks. mset (filter (\<lambda>x. key x = k) xs))"
      by (simp only: sum_list_addf)
    then show ?case using Cons assms(1) by (simp add: sum_list_delta)
  qed (induction ks, auto)
  ultimately show ?thesis by simp
qed

lemma tally_mset: "mset xs = mset ys \<Longrightarrow> tally P xs = tally P ys"
  unfolding tally_def by (metis mset_filter size_mset)

lemma tally_concat: "tally P (concat xss) = (\<Sum>xs\<leftarrow>xss. tally P xs)"
  by (induction xss) auto

lemma tally_groups:
  assumes "distinct ks" and "key ` set xs \<subseteq> set ks"
  shows "(\<Sum>k\<leftarrow>ks. tally P (filter (\<lambda>x. key x = k) xs)) = tally P xs"
  using tally_mset [OF mset_groups [OF assms], of P] by (simp add: tally_concat comp_def)

lemma sum_list_sort_key [simp]: "(\<Sum>x\<leftarrow>sort_key k xs. (f x :: 'a::comm_monoid_add)) = (\<Sum>x\<leftarrow>xs. f x)"
  by (metis mset_map mset_sort sum_mset_sum_list)

section \<open>The ready rule\<close>

definition page :: "db \<Rightarrow> issue list" where
  "page s = list_issues None True None s"

lemma page_eq: "page s = map (issue_of_row s) (sort_key queue_order (db_issues s))"
  by (simp add: page_def list_issues_def)

lemma issue_of_row_fields [simp]:
  "i_id (issue_of_row s r) = ir_id r" "i_status (issue_of_row s r) = ir_status r"
  "i_issue_type (issue_of_row s r) = ir_issue_type r" "i_project (issue_of_row s r) = ir_project r"
  "i_parent (issue_of_row s r) = ir_parent r"
  by (simp_all add: issue_of_row_def)

lemma set_page: "set (page s) = issue_of_row s ` set (db_issues s)"
  by (auto simp: page_eq)

lemma page_ids: "distinct (map ir_id (db_issues s)) \<Longrightarrow> distinct (map i_id (page s))"
  by (simp add: page_eq comp_def distinct_map)

lemma statuses_page:
  assumes "distinct (map ir_id (db_issues s))"
  shows "statuses (page s) i = map_option ir_status (find_issue s i)"
proof -
  let ?ps = "map (\<lambda>x. (i_id x, i_status x)) (page s)"
  have d: "distinct (map fst ?ps)" using page_ids [OF assms] by (simp add: comp_def)
  have e: "statuses (page s) = map_of ?ps" using map_of_rev_distinct [OF d] by (simp add: statuses_def)
  show ?thesis
  proof (cases "find_issue s i")
    case None
    then have "i \<notin> fst ` set ?ps" by (auto simp: find_issue_None set_page)
    then show ?thesis using None e by (simp add: map_of_eq_None_iff [THEN iffD2])
  next
    case (Some r)
    have "(i, ir_status r) \<in> set ?ps"
      using find_issue_mem [OF Some] find_issue_id [OF Some] by (force simp: set_page)
    then show ?thesis using Some e d by simp
  qed
qed

lemma report_ready_iff:
  assumes "db_reachable s" and "r \<in> set (db_issues s)"
  shows "report_ready (statuses (page s)) now (issue_of_row s r) \<longleftrightarrow>
    is_ready s None now r \<and> is_work (issue_of_row s r)"
proof -
  have ids: "distinct (map ir_id (db_issues s))" by (rule reach_ids [OF assms(1)])
  have dep: "dep_settled (statuses (page s)) \<lparr>depends_on_id = Some d\<rparr> \<longleftrightarrow> \<not> open_issue s d" for d
    by (auto simp: dep_settled_def statuses_page [OF ids] open_issue_iff [OF ids] split: option.splits)
  have "(\<forall>d \<in> set (i_dependencies (issue_of_row s r)). dep_settled (statuses (page s)) d) \<longleftrightarrow>
      \<not> blocked s (ir_id r)"
    by (simp add: issue_of_row_def blocked_def dep)
  moreover have "(case i_available_at (issue_of_row s r) of None \<Rightarrow> False | Some a \<Rightarrow> now < a) \<longleftrightarrow>
      \<not> past (ir_available_at r) now"
    by (auto simp: issue_of_row_def past_def split: option.splits)
  moreover have "i_assignee (issue_of_row s r) \<noteq> None \<and>
      (case i_expires_at (issue_of_row s r) of None \<Rightarrow> True | Some e \<Rightarrow> now < e) \<longleftrightarrow> \<not> claimable r now"
    by (auto simp: issue_of_row_def claimable_def split: option.splits)
  ultimately show ?thesis
    by (auto simp: report_ready_def is_ready_def is_work_def)
qed

lemma tally_map: "tally P (map f xs) = tally (\<lambda>x. P (f x)) xs"
  by (induction xs) auto

lemma tally_ready:
  assumes "db_reachable s"
  shows "tally (report_ready (statuses (page s)) now) (filter is_work (page s)) =
    tally is_work (ready None now s)" (is ?all)
    and "tally (report_ready (statuses (page s)) now) (filter is_work (in_project (page s) slug)) =
    tally is_work (ready (Some slug) now s)" (is ?one)
proof -
  have rule: "report_ready (statuses (page s)) now (issue_of_row s r) \<longleftrightarrow>
      is_ready s None now r \<and> is_work (issue_of_row s r)" if "r \<in> set (db_issues s)" for r
    by (rule report_ready_iff [OF assms that])
  have count: "tally P (map f (sort_key k xs)) = tally (\<lambda>r. P (f r)) xs"
    for P and f :: "issue_row \<Rightarrow> issue" and k :: "issue_row \<Rightarrow> int \<times> int \<times> string" and xs
    unfolding tally_map by (rule tally_mset) simp
  have cong: "tally P xs = tally Q xs" if "\<And>r. r \<in> set xs \<Longrightarrow> P r = Q r" for P Q and xs :: "issue_row list"
    using that by (induction xs) auto
  show ?all
    unfolding tally_filter page_eq ready_def count tally_filter
    by (rule cong) (use rule in \<open>auto simp: page_eq\<close>)
  show ?one
    unfolding tally_filter in_project_def page_eq ready_def count tally_filter
    by (rule cong) (use rule in \<open>auto simp: page_eq is_ready_def\<close>)
qed

section \<open>The portfolio\<close>

definition all_rollups :: "portfolio \<Rightarrow> project_rollup list" where
  "all_rollups p = concat (map fl_projects (po_folders p)) @ po_unfiled p"

lemma mset_concat_sort_key: "mset (concat (map f (sort_key k xs))) = mset (concat (map f xs))"
  unfolding mset_concat by (simp add: comp_def)

lemma folder_projects:
  "mset (concat (map fl_projects (List.map_filter (folder_rollup_of date issues rs now days) fs))) =
    mset (concat (map (\<lambda>slug. filter (\<lambda>p. pl_folder p = slug) rs) (map (\<lambda>f. Some (fo_slug f)) fs)))"
proof (induction fs)
  case (Cons f fs)
  have "map_option fl_projects (folder_rollup_of date issues rs now days f) =
      (let ps = filter (\<lambda>p. pl_folder p = Some (fo_slug f)) rs in if ps = [] then None else Some ps)"
    by (simp add: folder_rollup_of_def Let_def)
  then show ?case using Cons
    by (cases "folder_rollup_of date issues rs now days f")
      (simp_all add: map_filter_simps Let_def filter_empty_conv split: if_splits)
qed (simp add: map_filter_simps)

lemma rollups_partition:
  assumes "distinct (map fo_slug fs)"
  shows "mset (all_rollups (portfolio_with_universe date ps fs xs universe now days sd)) =
    mset (map (\<lambda>p. project_rollup_of date p (in_project xs (pi_slug p)) (statuses universe) now days sd) ps)"
proof -
  let ?rs = "sort_key pl_slug
    (map (\<lambda>p. project_rollup_of date p (in_project xs (pi_slug p)) (statuses universe) now days sd) ps)"
  let ?ks = "map (\<lambda>f. Some (fo_slug f)) fs"
  let ?in = "\<lambda>p. pl_folder p \<in> set ?ks"
  have "filter (\<lambda>p. pl_folder p = k) ?rs = filter (\<lambda>p. pl_folder p = k) (filter ?in ?rs)" if "k \<in> set ?ks" for k
    unfolding filter_filter using that by (intro filter_cong) auto
  then have "concat (map (\<lambda>k. filter (\<lambda>p. pl_folder p = k) ?rs) ?ks) =
      concat (map (\<lambda>k. filter (\<lambda>p. pl_folder p = k) (filter ?in ?rs)) ?ks)"
    by (intro arg_cong [of _ _ concat] map_cong) simp_all
  also have "mset \<dots> = mset (filter ?in ?rs)"
  proof (rule mset_groups)
    show "distinct ?ks" using assms by (simp add: distinct_map inj_on_def)
  qed auto
  finally have filed: "mset (concat (map (\<lambda>k. filter (\<lambda>p. pl_folder p = k) ?rs) ?ks)) = mset (filter ?in ?rs)" .
  have rest: "filter (\<lambda>p. pl_folder p = None \<or> \<not> (\<exists>f \<in> set fs. Some (fo_slug f) = pl_folder p)) ?rs =
      filter (\<lambda>p. \<not> ?in p) ?rs"
    by (rule filter_cong) (auto simp: eq_commute)
  have "mset (all_rollups (portfolio_with_universe date ps fs xs universe now days sd)) =
      mset (filter ?in ?rs) + mset (filter (\<lambda>p. \<not> ?in p) ?rs)"
    unfolding all_rollups_def portfolio_with_universe_def Let_def
    by (simp only: portfolio.simps mset_append mset_concat_sort_key folder_projects filed rest)
  also have "\<dots> = mset ?rs" by (simp only: mset_filter multiset_partition [symmetric])
  finally show ?thesis by simp
qed

lemma sum_rollups:
  fixes f :: "project_rollup \<Rightarrow> int"
  assumes "mset rs = mset ss"
  shows "sum_list (map f rs) = sum_list (map f ss)"
  using assms by (metis mset_map sum_mset_sum_list)

text \<open>When every issue lies in a listed project, the sums over the projects are the totals.\<close>

lemma totals_sum:
  assumes "distinct (map pi_slug ps)" and "i_project ` set xs \<subseteq> pi_slug ` set ps"
  shows "tt_ready (po_totals (portfolio_with_universe date ps fs xs universe now days sd)) =
      tally (report_ready (statuses universe) now) (filter is_work xs)"
    and "tt_stale (po_totals (portfolio_with_universe date ps fs xs universe now days sd)) =
      tally (stale_before (sat_sub now (sat_mul sd 86400))) (filter is_work xs)"
proof -
  have by_project: "(\<Sum>p\<leftarrow>ps. tally P (filter is_work (in_project xs (pi_slug p)))) = tally P (filter is_work xs)" for P
  proof -
    have "filter is_work (in_project xs k) = filter (\<lambda>i. i_project i = k) (filter is_work xs)" for k
      by (simp add: in_project_def conj_commute)
    moreover have "i_project ` set (filter is_work xs) \<subseteq> set (map pi_slug ps)" using assms(2) by auto
    ultimately show ?thesis
      using tally_groups [OF assms(1), of i_project "filter is_work xs" P] by (simp add: comp_def)
  qed
  show "tt_ready (po_totals (portfolio_with_universe date ps fs xs universe now days sd)) =
      tally (report_ready (statuses universe) now) (filter is_work xs)"
    using by_project [of "report_ready (statuses universe) now"]
    by (simp add: portfolio_with_universe_def Let_def project_rollup_of_def comp_def tally_def)
  show "tt_stale (po_totals (portfolio_with_universe date ps fs xs universe now days sd)) =
      tally (stale_before (sat_sub now (sat_mul sd 86400))) (filter is_work xs)"
    using by_project [of "stale_before (sat_sub now (sat_mul sd 86400))"]
    by (simp add: portfolio_with_universe_def Let_def project_rollup_of_def comp_def)
qed

text \<open>The projects a scoped view selects hold every issue it selects.\<close>

lemma scope_covered:
  assumes "distinct (map pi_slug ps)" and "i_project ` set issues \<subseteq> pi_slug ` set ps"
  shows "i_project ` set (scope_issues issues ps scope) \<subseteq>
    pi_slug ` set (selected_projects ps (scope_issues issues ps scope) scope)"
proof
  fix slug
  assume "slug \<in> i_project ` set (scope_issues issues ps scope)"
  then obtain i where i: "i \<in> set (scope_issues issues ps scope)" "slug = i_project i" by blast
  then have "i \<in> set issues" by (simp add: scope_issues_def Let_def)
  then obtain p where p: "p \<in> set ps" "pi_slug p = slug" using assms(2) i(2) by force
  have same: "q = p" if "q \<in> set ps" "pi_slug q = slug" for q
    using that p assms(1) by (metis distinct_map inj_onD)
  have "unless_given (vs_project scope) (\<lambda>s. pi_slug p = s)"
    using i p(2) by (auto simp: scope_issues_def Let_def unless_given_def split: option.splits)
  moreover have "unless_given (vs_folder scope) (\<lambda>f. pi_folder p = Some f)"
  proof (cases "vs_folder scope")
    case (Some f)
    then obtain q where "q \<in> set ps" "pi_slug q = slug" "pi_folder q = Some f"
      using i by (auto simp: scope_issues_def Let_def unless_given_def)
    then show ?thesis using same Some by (simp add: unless_given_def)
  qed (simp add: unless_given_def)
  moreover have "pi_slug p \<in> set (map i_project (scope_issues issues ps scope))"
    using i p(2) by simp
  ultimately have "p \<in> set (selected_projects ps (scope_issues issues ps scope) scope)"
    using p(1) by (simp add: selected_projects_def)
  then show "slug \<in> pi_slug ` set (selected_projects ps (scope_issues issues ps scope) scope)"
    using p(2) by blast
qed

section \<open>The board\<close>

lemma columns_shape:
  "map sl_status (scrum_columns work sts now) = STATUSES"
  "c \<in> set (scrum_columns work sts now) \<Longrightarrow> sl_count c = int (length (sl_cards c))"
  by (auto simp: scrum_columns_def Let_def comp_def)

lemma distinct_statuses: "distinct STATUSES"
  by (simp add: STATUSES_def)

lemma columns_partition:
  assumes "\<forall>i \<in> set work. i_status i \<in> set STATUSES"
  shows "mset (concat (map sl_cards (scrum_columns work sts now))) = mset (map (scrum_card_of sts now) work)"
proof -
  have "concat (map sl_cards (scrum_columns work sts now)) =
      map (scrum_card_of sts now) (concat (map (\<lambda>st. filter (\<lambda>i. i_status i = st) work) STATUSES))"
    by (simp add: scrum_columns_def Let_def comp_def map_concat)
  moreover have "mset (concat (map (\<lambda>st. filter (\<lambda>i. i_status i = st) work) STATUSES)) = mset work"
    by (rule mset_groups) (use assms distinct_statuses in auto)
  ultimately show ?thesis by simp
qed

lemma mset_concat_cong:
  "(\<And>x. x \<in> set xs \<Longrightarrow> mset (f x) = mset (g x)) \<Longrightarrow> mset (concat (map f xs)) = mset (concat (map g xs))"
  by (induction xs) auto

lemma columns_sorted:
  assumes "c \<in> set (scrum_columns (sort_key (\<lambda>i. (i_priority i, i_created_at i, i_id i)) xs) sts now)"
  shows "sorted (map sd_priority (sl_cards c))"
proof -
  let ?k = "\<lambda>i. (i_priority i, i_created_at i, i_id i)"
  obtain st where c: "sl_cards c = map (scrum_card_of sts now) (filter (\<lambda>i. i_status i = st) (sort_key ?k xs))"
    using assms by (auto simp: scrum_columns_def Let_def)
  have "sorted (map ?k (filter (\<lambda>i. i_status i = st) (sort_key ?k xs)))" by (rule sorted_filter) simp
  then have "sorted (map (fst \<circ> ?k) (filter (\<lambda>i. i_status i = st) (sort_key ?k xs)))"
    by (auto simp: sorted_wrt_map less_eq_prod_def elim!: sorted_wrt_mono_rel [rotated])
  then show ?thesis by (simp add: c comp_def scrum_card_of_def)
qed

lemma sum_list_int: "(\<Sum>x\<leftarrow>xs. int (f x)) = int (\<Sum>x\<leftarrow>xs. f x)"
  by (induction xs) auto

lemma columns_count:
  assumes "\<forall>i \<in> set work. i_status i \<in> set STATUSES"
  shows "(\<Sum>c\<leftarrow>scrum_columns work sts now. sl_count c) = int (length work)"
proof -
  have "(\<Sum>c\<leftarrow>scrum_columns work sts now. sl_count c) =
      int (size (mset (concat (map sl_cards (scrum_columns work sts now)))))"
    by (simp add: scrum_columns_def Let_def comp_def length_concat sum_list_int)
  then show ?thesis using columns_partition [OF assms] by simp
qed

section \<open>The burndown\<close>

lemma ideal_ends:
  assumes "0 \<le> n" and "n < 2 ^ 53" and "0 < days" and "days < 2 ^ 53"
  shows "ideal_remaining n 0 days = n" and "ideal_remaining n days days = 0"
  using assms fl_int [of 1] fl_int [of n] f_round_int [of 0]
  by (simp_all add: ideal_remaining_def f_div_def f_sub_def f_mul_def)

lemma ideal_antitone:
  assumes "0 \<le> n" and "n < 2 ^ 53" and "0 < days" and "days < 2 ^ 53"
    and "0 \<le> d" and "d \<le> e" and "e \<le> days"
  shows "ideal_remaining n e days \<le> ideal_remaining n d days"
proof -
  let ?q = "\<lambda>k. f_div (of_int k) (of_int days)"
  have q: "?q d \<le> ?q e" using assms by (simp add: f_div_mono)
  have "?q e \<le> ?q days" using assms by (simp add: f_div_mono)
  also have "?q days = 1" using assms fl_int [of 1] by (simp add: f_div_def)
  finally have "0 \<le> f_sub 1 (?q e) \<and> f_sub 1 (?q e) \<le> f_sub 1 (?q d)"
    using q by (simp add: f_sub_def fl_nonneg fl_mono)
  then have m: "0 \<le> f_mul (of_int n) (f_sub 1 (?q e))"
    "f_mul (of_int n) (f_sub 1 (?q e)) \<le> f_mul (of_int n) (f_sub 1 (?q d))"
    using assms(1) by (simp_all add: f_mul_nonneg) (simp add: f_mul_def fl_mono mult_left_mono)
  show ?thesis
    using f_round_mono [OF m] assms by (simp add: ideal_remaining_def max.mono)
qed

lemma upto_nth: "0 \<le> d \<Longrightarrow> d \<le> n \<Longrightarrow> [0..n] ! nat d = d"
  by (simp add: nth_upto)

lemma window_days:
  assumes "1 \<le> days" and "days * 86400 < 2 ^ 53" and "i64_min + 2 ^ 53 \<le> now" and "now \<le> i64_max"
  shows "sat_sub now (sat_mul days 86400) = now - days * 86400"
    and "0 \<le> d \<Longrightarrow> d \<le> days \<Longrightarrow> sat_mul d 86400 = d * 86400"
  using assms by (auto simp: sat_sub_def sat_mul_def i64_min_def i64_max_def)

lemma burn_rate_window:
  assumes "1 \<le> days" and "days * 86400 < 2 ^ 53" and "int (length xs) < 2 ^ 53"
  shows "burn_rate xs (now - days * 86400) now =
    (let k = tally (\<lambda>i. closed_by now i \<and> \<not> closed_by (now - days * 86400) i) xs
     in if 0 < k then Some (f_div (of_int k) (of_int days)) else None)"
proof -
  let ?s = "now - days * 86400"
  have elapsed: "f_div (f_of (days * 86400)) 86400 = of_int days"
    using assms(1,2) fl_int [of days] by (simp add: f_div_def)
  have "tally (closed_by ?s) xs = tally (\<lambda>i. closed_by now i \<and> closed_by ?s i) xs"
    using assms(1) by (induction xs) (auto simp: closed_by_def split: option.splits)
  then have k: "tally (closed_by now) xs - tally (closed_by ?s) xs =
      tally (\<lambda>i. closed_by now i \<and> \<not> closed_by ?s i) xs"
    by (simp add: tally_diff)
  have "f_of (tally (\<lambda>i. closed_by now i \<and> \<not> closed_by ?s i) xs) =
      of_int (tally (\<lambda>i. closed_by now i \<and> \<not> closed_by ?s i) xs)"
    using tally_bounds [of "\<lambda>i. closed_by now i \<and> \<not> closed_by ?s i" xs] assms(3) by simp
  then show ?thesis using assms(1) by (simp add: burn_rate_def elapsed k Let_def)
qed

lemma burndown_points:
  assumes "1 \<le> days" and "days * 86400 < 2 ^ 53" and "i64_min + 2 ^ 53 \<le> now" and "now \<le> i64_max"
    and "0 \<le> d" and "d \<le> days"
  shows "burndown_point date xs days (now - days * 86400) now d =
    (let t = now - (days - d) * 86400;
         made = tally (\<lambda>i. i_created_at i \<le> t) xs;
         shut = tally (\<lambda>i. i_created_at i \<le> t \<and> closed_by t i) xs
     in \<lparr>bd_date = date t, bd_scope = made, bd_done = shut,
         bd_remaining = tally (\<lambda>i. i_created_at i \<le> t \<and> \<not> closed_by t i) xs,
         bd_ideal_remaining = ideal_remaining (int (length xs)) d days\<rparr>)"
proof -
  let ?t = "now - (days - d) * 86400"
  have t: "min (now - days * 86400 + sat_mul d 86400) now = ?t"
    using window_days(2) [OF assms] assms(6) by (simp add: algebra_simps)
  have left: "max (tally (\<lambda>i. i_created_at i \<le> ?t) xs -
      tally (\<lambda>i. i_created_at i \<le> ?t \<and> closed_by ?t i) xs) 0 =
      tally (\<lambda>i. i_created_at i \<le> ?t \<and> \<not> closed_by ?t i) xs"
    using tally_bounds(1) [of "\<lambda>i. i_created_at i \<le> ?t \<and> \<not> closed_by ?t i" xs]
    by (simp only: tally_diff max.absorb1)
  show ?thesis by (simp only: burndown_point_def Let_def t left)
qed

end
