(* ===== verification/Parents.thy ===== *)
theory Parents
  imports Views
begin

text \<open>
  The parent links of a reachable store: a parent exists, in the project of its child, and no issue is
  its own ancestor. Only \<open>create\<close> writes the parent column and only \<open>drop_project\<close> deletes rows, so
  every other operation keeps the kinship of the rows.
\<close>

definition kinship :: "issue_row \<Rightarrow> string \<times> string option \<times> string" where
  "kinship r = (ir_id r, ir_parent r, ir_project r)"

definition kin :: "db \<Rightarrow> (string \<times> string option \<times> string) list" where
  "kin s = map kinship (db_issues s)"

definition kin_edges :: "(string \<times> string option \<times> string) list \<Rightarrow> (string \<times> string) set" where
  "kin_edges ks = {(p, i) |p i q. (i, Some p, q) \<in> set ks}"

definition parents_ok :: "(string \<times> string option \<times> string) list \<Rightarrow> bool" where
  "parents_ok ks \<longleftrightarrow> acyclic (kin_edges ks) \<and>
     (\<forall>i p q. (i, Some p, q) \<in> set ks \<longrightarrow> (\<exists>g. (p, g, q) \<in> set ks))"

lemma kin_log [simp]: "kin (log_event i ts a e d s) = kin s"
  by (simp add: kin_def)

lemma kin_upd [simp]:
  "(\<And>r. ir_id r = i \<Longrightarrow> kinship (f r) = kinship r) \<Longrightarrow> kin (upd_issue i f s) = kin s"
  by (auto simp: kin_def upd_issue_def)

lemma kin_replace:
  assumes "distinct (map ir_id (db_issues s))" and "find_issue s i = Some r" and "kinship r' = kinship r"
  shows "kin (upd_issue i (\<lambda>_. r') s) = kin s"
proof -
  have "x = r" if "x \<in> set (db_issues s)" "ir_id x = i" for x
    using find_issue_row [OF assms(1) that(1)] that(2) assms(2) by simp
  then show ?thesis using assms(3) by (auto simp: kin_def upd_issue_def)
qed

lemma kin_tx: "(\<And>v s'. f s = Inr (v, s') \<Longrightarrow> kin s' = kin s) \<Longrightarrow> kin (snd (tx f s)) = kin s"
  by (rule tx_keeps [where P = "\<lambda>t. kin t = kin s"]) simp_all

lemma kin_same: "db_issues s' = db_issues s \<Longrightarrow> kin s' = kin s"
  by (simp add: kin_def)

lemma kin_touch_updated [simp]: "kin (touch_updated i ts s) = kin s"
  by (simp add: touch_updated_def kinship_def)

lemma kinship_claims [simp]:
  "kinship (clear_claim r) = kinship r" "kinship (set_claim req ts ttl r) = kinship r"
  "kinship (close_row reason ev ts r) = kinship r"
  by (simp_all add: clear_claim_def set_claim_def close_row_def kinship_def)

lemma kinship_fields [simp]:
  "kinship (r\<lparr>ir_updated_at := u\<rparr>) = kinship r" "kinship (r\<lparr>ir_expires_at := e\<rparr>) = kinship r"
  "kinship (r\<lparr>ir_labels := ls\<rparr>) = kinship r"
  by (simp_all add: kinship_def)

lemma kinship_patch:
  assumes "patch_row pol patch ts r = Inr r'"
  shows "kinship r' = kinship r"
proof -
  have "ir_id r' = ir_id r"
    using assms by (auto simp: patch_row_def patch_metadata_def patch_text_def patch_status_def Let_def
        split: option.splits sum.splits json.splits)
  then show ?thesis using patch_row_fields [OF assms] by (simp add: kinship_def)
qed

section \<open>Every operation\<close>

lemma kin_update:
  assumes "distinct (map ir_id (db_issues s))"
  shows "kin (snd (update i patch actor ts s)) = kin s"
proof -
  have "kin s' = kin s" if body: "update_body i patch actor ts s = Inr (v, s')" for v s'
  proof -
    from body obtain r r' where r: "find_issue s i = Some r" "patch_row (db_policy s) patch ts r = Inr r'"
      and s': "kin s' = kin (upd_issue i (\<lambda>_. r') s)"
      by (auto simp: update_body_def Let_def split: option.splits sum.splits if_splits)
    then show ?thesis using kin_replace [OF assms r(1) kinship_patch [OF r(2)]] by simp
  qed
  then show ?thesis
    unfolding update_def snd_then_get
    by (auto simp: snd_then_get split: option.split intro: kin_tx)
qed

lemma kin_set_labels: "kin (snd (set_labels i ls actor ts s)) = kin s"
  unfolding set_labels_def by (rule kin_tx) (auto split: option.splits)

lemma kin_labels:
  "kin (snd (add_label i l actor ts s)) = kin s" "kin (snd (remove_label i l actor ts s)) = kin s"
  by (simp_all add: add_label_def add_label_write_def remove_label_def kin_set_labels split: sum.split)

lemma kin_deps:
  "kin (snd (add_dep c p actor ts s)) = kin s" "kin (snd (remove_dep c p actor ts s)) = kin s"
  "kin (snd (add_remote_dep c d actor ts s)) = kin s" "kin (snd (remove_remote_dep c ref actor ts s)) = kin s"
proof -
  have "kin (insert_dep c p s) = kin s" "kin (upsert_remote c d s) = kin s"
    by (rule kin_same, simp add: insert_dep_def upsert_remote_def Let_def)+
  then show "kin (snd (add_dep c p actor ts s)) = kin s" "kin (snd (add_remote_dep c d actor ts s)) = kin s"
    unfolding add_dep_def add_remote_dep_def
    by (auto intro!: kin_tx split: if_splits sum.splits)
  show "kin (snd (remove_dep c p actor ts s)) = kin s" "kin (snd (remove_remote_dep c ref actor ts s)) = kin s"
    unfolding remove_dep_def remove_remote_dep_def by (rule kin_tx; clarsimp; simp add: kin_def)+
qed

lemma kin_folders:
  "kin (snd (ensure_project slug dir prefix ts s)) = kin s"
  "kin (snd (ensure_folder f ts s)) = kin s"
  "kin (snd (set_project_folder q g ts s)) = kin s"
  "kin (snd (set_store_id sid s)) = kin s"
  "kin (snd (mark_event_delivered seq ts s)) = kin s"
  "kin (snd (mark_event_failed seq ts err s)) = kin s"
  by (auto simp: ensure_project_def ensure_folder_def set_project_folder_def assign_folder_def set_store_id_def
      mark_event_delivered_def mark_event_failed_def upd_outbound_def
      Let_def tx_def split: if_splits option.splits intro!: kin_same)

lemma kin_claims:
  "kin (snd (claim req ts s)) = kin s" "kin (snd (touch i a ts s)) = kin s"
  "kin (snd (release i actor ts s)) = kin s"
  unfolding claim_def touch_def release_def
  by (auto split: option.splits if_splits intro!: kin_tx)

lemma kin_close:
  "kin (snd (close_unchecked i reason ev actor ts s)) = kin s"
  "kin (snd (close i reason ev actor ts s)) = kin s"
proof -
  show u: "kin (snd (close_unchecked i reason ev actor ts s)) = kin s"
    unfolding close_unchecked_def snd_then_get by (rule kin_tx) (auto split: option.splits)
  show "kin (snd (close i reason ev actor ts s)) = kin s"
    by (simp add: close_def u split: option.split)
qed

lemma kin_supersede: "kin (snd (supersede i j actor ts s)) = kin s"
proof -
  let ?why = "''superseded by '' @ j"
  obtain out s1 where cl: "close_unchecked i (Some ?why) [evidence_ack ?why] actor ts s = (out, s1)"
    by (cases "close_unchecked i (Some ?why) [evidence_ack ?why] actor ts s")
  then have "kin s1 = kin s"
    using kin_close(1) [of i "Some ?why" "[evidence_ack ?why]" actor ts s] by simp
  then show ?thesis using cl by (auto simp: supersede_def Let_def kin_labels split: sum.split)
qed

lemma kin_sweep: "kin (snd (sweep ts s)) = kin s"
proof -
  have rows: "kin (snd (fold (sweep_row ts) rows st)) = kin (snd st)" for rows st
    by (induction rows arbitrary: st) (auto simp: sweep_row_def Let_def split: prod.splits)
  have "kin s' = kin s" if "fold (sweep_row ts) rows (rep0, s) = (rep, s')" for rows rep0 rep s'
    using rows [of rows "(rep0, s)"] that by simp
  then show ?thesis unfolding sweep_def Let_def by (intro kin_tx) (auto split: if_splits)
qed

lemmas kin_ops =
  kin_update kin_set_labels kin_labels kin_deps kin_folders kin_claims kin_close kin_supersede kin_sweep

section \<open>The invariant\<close>

lemma kin_edges_Nil [simp]: "kin_edges [] = {}"
  by (simp add: kin_edges_def)

lemma parents_ok_filter:
  assumes "parents_ok ks" and "ks' = filter (\<lambda>k. snd (snd k) \<noteq> slug) ks"
  shows "parents_ok ks'"
proof -
  have "kin_edges ks' \<subseteq> kin_edges ks" using assms(2) by (auto simp: kin_edges_def)
  then have "acyclic (kin_edges ks')" using assms(1) by (auto simp: parents_ok_def intro: acyclic_subset)
  then show ?thesis using assms by (fastforce simp: parents_ok_def)
qed

lemma parents_ok_add:
  assumes "parents_ok ks" and "i \<notin> fst ` set ks"
    and "\<And>p. g = Some p \<Longrightarrow> \<exists>h. (p, h, q) \<in> set ks"
  shows "parents_ok (ks @ [(i, g, q)])"
proof (cases g)
  case None
  then have "kin_edges (ks @ [(i, g, q)]) = kin_edges ks" by (auto simp: kin_edges_def)
  then show ?thesis using assms(1) None by (fastforce simp: parents_ok_def)
next
  case (Some p)
  have e: "kin_edges (ks @ [(i, g, q)]) = insert (p, i) (kin_edges ks)" using Some by (auto simp: kin_edges_def)
  obtain h where p: "(p, h, q) \<in> set ks" using assms(3) [OF Some] by blast
  have "i \<notin> Domain (kin_edges ks)"
    using assms(1,2) unfolding kin_edges_def parents_ok_def by force
  moreover have "i \<noteq> p" using p assms(2) by force
  ultimately have "(i, p) \<notin> (kin_edges ks)\<^sup>*" by (auto elim: converse_rtranclE)
  then have "acyclic (kin_edges (ks @ [(i, g, q)]))"
    unfolding e using assms(1) by (simp add: acyclic_insert_edge parents_ok_def)
  then show ?thesis using assms(1) p Some by (fastforce simp: parents_ok_def)
qed

lemma parents_create:
  assumes "create spec draws ts s = Some (out, s')" and "parents_ok (kin s)"
  shows "parents_ok (kin s')"
proof (cases out)
  case (Inl e)
  then have "s' = s"
    using assms(1) by (auto simp: create_def split: option.splits)
  then show ?thesis using assms(2) by simp
next
  case (Inr i)
  obtain q prefix meta g where c: "parent_problem s q (n_parent spec) = None" "find_issue s i = None"
    "s' = log_event i ts (or_else (n_created_by spec) ''system'') ''created'' (n_title spec)
       (s\<lparr>db_issues := db_issues s @ [new_row spec i q meta g ts]\<rparr>)"
    using create_Inr [OF assms(1) [unfolded Inr]] by metis
  have kin: "kin s' = kin s @ [(i, n_parent spec, q)]"
    unfolding c(3) by (simp add: kin_def kinship_def new_row_def)
  show ?thesis
    unfolding kin
  proof (rule parents_ok_add [OF assms(2)])
    show "i \<notin> fst ` set (kin s)" using c(2) by (force simp: find_issue_None kin_def kinship_def)
    fix p
    assume "n_parent spec = Some p"
    then obtain r where "find_issue s p = Some r" "ir_project r = q"
      using c(1) by (auto simp: parent_problem_def split: option.splits if_splits)
    then have "(p, ir_parent r, q) \<in> set (kin s)"
      using find_issue_mem find_issue_id by (force simp: kin_def kinship_def)
    then show "\<exists>h. (p, h, q) \<in> set (kin s)" by blast
  qed
qed

lemma parents_drop: "parents_ok (kin s) \<Longrightarrow> parents_ok (kin (snd (drop_project slug s)))"
proof -
  assume ok: "parents_ok (kin s)"
  have "kin (s\<lparr>db_outbound := a, db_history := b, db_deps := c, db_remote_deps := d,
      db_issues := filter (\<lambda>r. ir_project r \<noteq> slug) (db_issues s), db_projects := e, db_project_folders := f\<rparr>) =
      filter (\<lambda>k. snd (snd k) \<noteq> slug) (kin s)" for a b c d e f
    by (simp add: kin_def filter_map comp_def kinship_def)
  with ok show ?thesis
    unfolding drop_project_def
    by (intro tx_keeps [where P = "\<lambda>t. parents_ok (kin t)"])
      (auto simp: Let_def intro: parents_ok_filter split: if_splits)
qed

lemma db_reachable_parents: "db_reachable s \<Longrightarrow> parents_ok (kin s)"
proof (induction rule: db_reachable.induct)
  case (r_open sid pol w)
  show ?case by (simp add: kin_def empty_db_def parents_ok_def acyclic_def)
next
  case (r_step s s')
  have ids: "distinct (map ir_id (db_issues s))" by (rule reach_ids [OF r_step(1)])
  from r_step(2) show ?case
  proof cases
    case s_drop_project
    then show ?thesis using parents_drop r_step(3) by simp
  next
    case s_create
    then show ?thesis using parents_create r_step(3) by blast
  qed (use r_step(3) in \<open>simp_all add: kin_ops ids\<close>)
qed

lemma kin_edge_iff:
  "(p, i) \<in> kin_edges ks \<longleftrightarrow> (\<exists>k \<in> set ks. fst (snd k) = Some p \<and> fst k = i)"
  by (force simp: kin_edges_def)

lemma child_edges_page: "child_edges (page s) = kin_edges (kin s)"
proof -
  have rows: "(\<exists>k \<in> set (kin s). P k) \<longleftrightarrow> (\<exists>r \<in> set (db_issues s). P (kinship r))"
    and cells: "(\<exists>i \<in> set (page s). Q i) \<longleftrightarrow> (\<exists>r \<in> set (db_issues s). Q (issue_of_row s r))" for P Q
    by (auto simp: kin_def set_page)
  show ?thesis
    by (rule set_eqI) (simp add: split_paired_all child_edge_iff kin_edge_iff rows cells, simp add: kinship_def)
qed

lemma no_own_ancestor: "db_reachable s \<Longrightarrow> \<not> own_ancestor (page s) i"
  using db_reachable_parents by (simp add: own_ancestor_def child_edges_page parents_ok_def acyclic_def)

end
