(* ===== verification/RemoteReport.thy ===== *)
theory RemoteReport
  imports Receipts DbDeps
begin

text \<open>
  What the command line shows of other stores: the remotes workspace and the strict gate of
  \<open>src/src/report.rs\<close>, and \<open>readiness_rows\<close> of \<open>src/src/main.rs\<close>, which puts the gate in front of the
  ready queue. The registry that \<open>readiness_rows\<close> loads, the assertion cache and the clock are
  arguments; a registry that fails to load is the empty one.
\<close>

section \<open>The remotes workspace\<close>

fun aggregate :: "bool \<Rightarrow> bool \<Rightarrow> assertion_view list \<Rightarrow> freshness" where
  "aggregate stale fresh [] = (if stale then Stale else if fresh then Fresh else Unknown)"
| "aggregate stale fresh (v # vs) =
     (case av_freshness v of
        Unverifiable \<Rightarrow> Unverifiable
      | Unknown \<Rightarrow> Unknown
      | Stale \<Rightarrow> aggregate True fresh vs
      | Fresh \<Rightarrow> aggregate stale True vs)"

definition remote_workspace_freshness :: "assertion_view list \<Rightarrow> freshness" where
  "remote_workspace_freshness views = aggregate False False views"

record remote_workspace_entry =
  we_name :: string
  we_display_name :: string
  we_store_id :: string
  we_key_id :: string
  we_endpoint :: string
  we_freshness :: freshness
  we_observed_at :: "time option"
  we_references :: nat
  we_problem :: "view_problem option"

record remotes_workspace =
  ws_registry :: string
  ws_registry_present :: bool
  ws_freshness_window_seconds :: int
  ws_remotes :: "remote_workspace_entry list"

definition latest :: "time list \<Rightarrow> time option" where
  "latest ts = (if ts = [] then None else Some (Max (set ts)))"

definition first_some :: "'a option list \<Rightarrow> 'a option" where
  "first_some vs = (case List.map_filter id vs of [] \<Rightarrow> None | v # _ \<Rightarrow> Some v)"

definition remote_entry ::
  "codec \<Rightarrow> cache_env \<Rightarrow> remote_registry \<Rightarrow> assertion_cache \<Rightarrow> remote_record \<Rightarrow> time \<Rightarrow> remote_workspace_entry" where
  "remote_entry c env g k r now =
     (let views = read_all c env g (rr_store_id r) now k
      in \<lparr>we_name = rr_name r, we_display_name = rr_display_name r, we_store_id = rr_store_id r,
          we_key_id = rr_key_id r, we_endpoint = rr_endpoint r,
          we_freshness = remote_workspace_freshness views,
          we_observed_at = latest (List.map_filter view_observed_at views),
          we_references = length views,
          we_problem = first_some (map av_problem views)\<rparr>)"

definition remotes_workspace_of ::
  "codec \<Rightarrow> cache_env \<Rightarrow> remote_registry \<Rightarrow> assertion_cache \<Rightarrow> string \<Rightarrow> bool \<Rightarrow> time \<Rightarrow> remotes_workspace" where
  "remotes_workspace_of c env g k path present now =
     \<lparr>ws_registry = path, ws_registry_present = present, ws_freshness_window_seconds = ac_window k,
      ws_remotes = map (\<lambda>r. remote_entry c env g k r now) (rg_remotes g)\<rparr>"

section \<open>The gate\<close>

datatype remote_gate_verdict = Satisfied | Blocked string

definition remote_gate :: "assertion_view \<Rightarrow> remote_gate_verdict" where
  "remote_gate v =
     (case av_freshness v of
        Fresh \<Rightarrow>
          (case asserted_state v of
             Some st \<Rightarrow> if st = ''closed'' then Satisfied else Blocked (''remote: '' @ st)
           | None \<Rightarrow> Blocked ''remote: unverifiable'')
      | Stale \<Rightarrow> Blocked ''remote: stale''
      | Unknown \<Rightarrow> Blocked ''remote: unknown''
      | Unverifiable \<Rightarrow> Blocked ''remote: unverifiable'')"

record readiness_row =
  rw_issue :: issue
  rw_blocking_reasons :: "string list"

definition row_ready :: "readiness_row \<Rightarrow> bool" where
  "row_ready row \<longleftrightarrow> rw_blocking_reasons row = []"

definition edge_gate ::
  "codec \<Rightarrow> cache_env \<Rightarrow> remote_registry \<Rightarrow> assertion_cache \<Rightarrow> time \<Rightarrow> remote_dependency \<Rightarrow> remote_gate_verdict" where
  "edge_gate c env g k now edge =
     (case parse_ref (rd_canonical_ref edge) of
        Inr reference \<Rightarrow>
          if ref_names reference (rd_store_id edge) (rd_remote_issue_id edge)
          then remote_gate (read_view c env g (rd_store_id edge) (rd_remote_issue_id edge) now k)
          else Blocked ''remote: unverifiable''
      | Inl _ \<Rightarrow> Blocked ''remote: unverifiable'')"

definition add_reason :: "remote_gate_verdict \<Rightarrow> string list \<Rightarrow> string list" where
  "add_reason gate reasons =
     (case gate of
        Satisfied \<Rightarrow> reasons
      | Blocked reason \<Rightarrow> if reason \<in> set reasons then reasons else reasons @ [reason])"

definition readiness_rows ::
  "codec \<Rightarrow> cache_env \<Rightarrow> remote_registry \<Rightarrow> assertion_cache \<Rightarrow> time \<Rightarrow> (issue \<times> remote_dependency list) list \<Rightarrow>
    readiness_row list" where
  "readiness_rows c env g k now rows =
     map (\<lambda>(i, edges). \<lparr>rw_issue = i,
        rw_blocking_reasons = fold (\<lambda>e. add_reason (edge_gate c env g k now e)) edges []\<rparr>) rows"

text \<open>\<open>mb ready\<close> against a local store.\<close>

definition mb_ready ::
  "codec \<Rightarrow> cache_env \<Rightarrow> remote_registry \<Rightarrow> assertion_cache \<Rightarrow> string option \<Rightarrow> time \<Rightarrow> db \<Rightarrow> readiness_row list" where
  "mb_ready c env g k project now s =
     readiness_rows c env g k now (ready_with_remote_edges project now s)"

text \<open>The named freshness and the audit of the edges an issue shows.\<close>

definition annotate_remote_dependencies ::
  "codec \<Rightarrow> remote_registry \<Rightarrow> assertion_cache \<Rightarrow> time \<Rightarrow> remote_dependency list \<Rightarrow> remote_dependency list" where
  "annotate_remote_dependencies c g k now ds =
     map (\<lambda>d. d\<lparr>rd_freshness :=
        Some (freshness_str (remote_dependency_freshness c d g now (ac_window k)))\<rparr>) ds"

definition audit_remote_dependencies ::
  "codec \<Rightarrow> remote_registry \<Rightarrow> assertion_cache \<Rightarrow> time \<Rightarrow> remote_dependency list \<Rightarrow> reference_audit list" where
  "audit_remote_dependencies c g k now ds =
     map (\<lambda>d. audit_remote_dependency c d g now (ac_window k)) ds"

section \<open>The aggregate\<close>

definition weakest :: "assertion_view list \<Rightarrow> freshness" where
  "weakest views =
     (let fs = av_freshness ` set views in
      if Unverifiable \<in> fs then Unverifiable else if Unknown \<in> fs \<or> fs = {} then Unknown
      else if Stale \<in> fs then Stale else Fresh)"

lemma aggregate_iff:
  "aggregate stale fresh vs \<in> {Unverifiable, Unknown} \<longleftrightarrow>
     (\<exists>v \<in> set vs. av_freshness v \<in> {Unverifiable, Unknown}) \<or> vs = [] \<and> \<not> stale \<and> \<not> fresh"
  "aggregate stale fresh vs = Stale \<longleftrightarrow>
     (\<forall>v \<in> set vs. av_freshness v \<in> {Fresh, Stale}) \<and> (stale \<or> (\<exists>v \<in> set vs. av_freshness v = Stale))"
  "aggregate stale fresh vs = Fresh \<longleftrightarrow>
     (\<forall>v \<in> set vs. av_freshness v = Fresh) \<and> \<not> stale \<and> (fresh \<or> vs \<noteq> [])"
  by (induction stale fresh vs rule: aggregate.induct) (auto split: freshness.splits)

text \<open>
  The remote is as fresh as its weakest reference, except that of the two unusable verdicts the first
  in reading order is reported.
\<close>

lemma workspace_freshness:
  "remote_workspace_freshness vs = Fresh \<longleftrightarrow> weakest vs = Fresh"
  "remote_workspace_freshness vs = Stale \<longleftrightarrow> weakest vs = Stale"
proof -
  have f: "f = Fresh \<longleftrightarrow> f \<noteq> Unverifiable \<and> f \<noteq> Unknown \<and> f \<noteq> Stale"
    and u: "f \<in> {Fresh, Stale} \<longleftrightarrow> f \<noteq> Unverifiable \<and> f \<noteq> Unknown" for f
    by (cases f; simp)+
  have im: "x \<in> av_freshness ` set vs \<longleftrightarrow> (\<exists>v \<in> set vs. av_freshness v = x)" for x by auto
  have all: "(\<forall>v \<in> set vs. av_freshness v = Fresh) \<longleftrightarrow> (\<forall>v \<in> set vs. av_freshness v \<noteq> Unverifiable \<and>
      av_freshness v \<noteq> Unknown \<and> av_freshness v \<noteq> Stale)" by (intro ball_cong refl f)
  let ?bad = "Unverifiable \<in> av_freshness ` set vs \<or> Unknown \<in> av_freshness ` set vs"
  have "weakest vs = Stale \<longleftrightarrow> \<not> ?bad \<and> Stale \<in> av_freshness ` set vs"
    "weakest vs = Fresh \<longleftrightarrow> \<not> ?bad \<and> Stale \<notin> av_freshness ` set vs \<and> vs \<noteq> []"
    by (auto simp: weakest_def Let_def)
  moreover have "aggregate False False vs = Stale \<longleftrightarrow> \<not> ?bad \<and> Stale \<in> av_freshness ` set vs"
    unfolding aggregate_iff(2) u im by blast
  moreover have "aggregate False False vs = Fresh \<longleftrightarrow> \<not> ?bad \<and> Stale \<notin> av_freshness ` set vs \<and> vs \<noteq> []"
    unfolding aggregate_iff(3) all im by blast
  ultimately show "remote_workspace_freshness vs = Fresh \<longleftrightarrow> weakest vs = Fresh"
    "remote_workspace_freshness vs = Stale \<longleftrightarrow> weakest vs = Stale"
    by (simp_all only: remote_workspace_freshness_def)
qed

section \<open>What a satisfied gate shows\<close>

lemma remote_gate_Satisfied:
  "remote_gate v = Satisfied \<longleftrightarrow> av_freshness v = Fresh \<and> asserted_state v = Some ''closed''"
  by (auto simp: remote_gate_def split: freshness.splits option.splits)

lemma edge_gate_Satisfied:
  "edge_gate c env g k now e = Satisfied \<longleftrightarrow>
    (\<exists>r. parse_ref (rd_canonical_ref e) = Inr r \<and> ref_names r (rd_store_id e) (rd_remote_issue_id e)) \<and>
    av_freshness (read_view c env g (rd_store_id e) (rd_remote_issue_id e) now k) = Fresh \<and>
    asserted_state (read_view c env g (rd_store_id e) (rd_remote_issue_id e) now k) = Some ''closed''"
  by (auto simp: edge_gate_def remote_gate_Satisfied split: sum.splits)

lemma set_reasons:
  "set (fold (\<lambda>e. add_reason (f e)) es rs) = set rs \<union> {m. \<exists>e \<in> set es. f e = Blocked m}"
  by (induction es arbitrary: rs) (auto simp: add_reason_def split: remote_gate_verdict.splits)

lemma distinct_reasons: "distinct rs \<Longrightarrow> distinct (fold (\<lambda>e. add_reason (f e)) es rs)"
  by (induction es arbitrary: rs) (auto simp: add_reason_def split: remote_gate_verdict.splits)

lemma no_reasons: "fold (\<lambda>e. add_reason (f e)) es [] = [] \<longleftrightarrow> (\<forall>e \<in> set es. f e = Satisfied)"
proof -
  have s: "f e = Satisfied \<longleftrightarrow> (\<forall>m. f e \<noteq> Blocked m)" for e by (cases "f e") simp_all
  have "fold (\<lambda>e. add_reason (f e)) es [] = [] \<longleftrightarrow> set (fold (\<lambda>e. add_reason (f e)) es []) = {}" by simp
  also have "\<dots> \<longleftrightarrow> (\<forall>e \<in> set es. f e = Satisfied)" unfolding set_reasons s by auto
  finally show ?thesis .
qed

lemma mb_ready_rows:
  "map rw_issue (mb_ready c env g k project now s) = ready project now s"
  by (simp add: mb_ready_def readiness_rows_def ready_with_remote_edges_def comp_def)

lemma mb_ready_row:
  assumes "row \<in> set (mb_ready c env g k project now s)"
  shows "rw_issue row \<in> set (ready project now s)"
    and "distinct (rw_blocking_reasons row)"
    and "row_ready row \<longleftrightarrow>
      (\<forall>e \<in> set (remote_dependencies (i_id (rw_issue row)) s). edge_gate c env g k now e = Satisfied)"
  using assms by (auto simp: mb_ready_def readiness_rows_def ready_with_remote_edges_def row_ready_def
      no_reasons distinct_reasons)

end
