(* ===== verification/ReportProps.thy ===== *)
theory ReportProps
  imports Parents RemoteReport Demo_Codec
begin

text \<open>
  The properties of the reports. \<open>demo_goal\<close> is a store with a goal, an epic below it and three tasks,
  one closed and one claimed.
\<close>

section \<open>A store with a goal\<close>

definition demo_node_spec :: "string \<Rightarrow> string \<Rightarrow> string option \<Rightarrow> new_issue" where
  "demo_node_spec i ty parent = (demo_issue i)\<lparr>n_issue_type := ty, n_parent := parent\<rparr>"

definition demo_goal_run :: "(time \<times> db_op) list" where
  "demo_goal_run =
     [(0, EnsureProject ''p'' ''/p'' ''p''),
      (0, EnsureFolder \<lparr>fo_slug = ''f'', fo_name = ''F'', fo_parent = None, fo_created_at = 0\<rparr>),
      (0, SetProjectFolder ''p'' (Some ''f'')),
      (0, Create (demo_node_spec ''g'' ''goal'' None) []),
      (0, Create (demo_node_spec ''e'' ''epic'' (Some ''g'')) []),
      (0, Create (demo_node_spec ''t'' ''task'' (Some ''e'')) []),
      (0, Create (demo_node_spec ''u'' ''task'' (Some ''e'')) []),
      (0, Create (demo_node_spec ''v'' ''task'' (Some ''g'')) []),
      (1000, CloseUnchecked ''t'' None [evidence_ack ''done''] ''me''),
      (1000, Claim (demo_claim ''u'' ''w''))]"

definition demo_goal :: db where
  "demo_goal = the (exec_all demo_goal_run (empty_db ''s''))"

lemma demo_goal_reachable: "db_reachable demo_goal"
  unfolding demo_goal_def by (rule run_reachable) code_simp

section \<open>The ready queue behind remote edges\<close>










section \<open>Goal trees\<close>

text \<open>
  C14. Parents form a forest. In every store the operations can reach, the parent of an issue exists
  and lies in the same project, and no issue is its own ancestor.
\<close>

theorem parents_form_a_forest:
  assumes "db_reachable s" and "r \<in> set (db_issues s)"
  shows "\<not> own_ancestor (page s) (ir_id r) \<and>
    (\<forall>p. ir_parent r = Some p \<longrightarrow> (\<exists>q. find_issue s p = Some q \<and> ir_project q = ir_project r))"
proof -
  have "\<exists>q. find_issue s p = Some q \<and> ir_project q = ir_project r" if p: "ir_parent r = Some p" for p
  proof -
    have "(ir_id r, Some p, ir_project r) \<in> set (kin s)"
      using assms(2) p by (force simp: kin_def kinship_def)
    then obtain g where "(p, g, ir_project r) \<in> set (kin s)"
      using db_reachable_parents [OF assms(1)] unfolding parents_ok_def by blast
    then obtain q where q: "q \<in> set (db_issues s)" "ir_id q = p" "ir_project q = ir_project r"
      by (auto simp: kin_def kinship_def)
    then show ?thesis using find_issue_row [OF reach_ids [OF assms(1)] q(1)] by auto
  qed
  then show ?thesis using no_own_ancestor [OF assms(1)] by blast
qed

theorem parents_form_a_forest_witness:
  "\<exists>r q. r \<in> set (db_issues demo_goal) \<and> ir_parent r = Some ''e'' \<and> \<not> own_ancestor (page demo_goal) (ir_id r) \<and>
     find_issue demo_goal ''e'' = Some q \<and> ir_project q = ''p''"
proof -
  have "\<exists>r \<in> set (db_issues demo_goal). ir_parent r = Some ''e'' \<and> ir_project r = ''p''" by code_simp
  then obtain r where r: "r \<in> set (db_issues demo_goal)" "ir_parent r = Some ''e''" "ir_project r = ''p''" by blast
  with parents_form_a_forest [OF demo_goal_reachable r(1)] show ?thesis by auto
qed

text \<open>
  A goal tree prints exactly when it is a tree. Over a page with distinct ids the unguarded walk of
  \<open>tree_lines\<close> never returns when the goal is its own ancestor; otherwise it returns, one line for each
  descendant of the goal and no other, in any fuel above the number of issues.
\<close>

theorem goal_tree_exact:
  assumes "distinct (map i_id issues)" and "find (\<lambda>i. i_id i = g) issues = Some i"
  shows "(own_ancestor issues g \<longrightarrow> (\<forall>fuel. tree_lines fuel issues g = None)) \<and>
    (\<not> own_ancestor issues g \<longrightarrow> (\<forall>fuel. length issues < fuel \<longrightarrow>
      (\<exists>nodes. tree_lines fuel issues g = Some (map (\<lambda>(d, j). tree_line d j) nodes) \<and>
        distinct (map snd nodes) \<and>
        set (map snd nodes) = {j \<in> set issues. i_id j \<in> set (descendant_ids issues g)})))"
proof -
  have i: "i \<in> set issues" "i_id i = g" using find_SomeD [OF assms(2)] by auto
  have lines: "tree_lines fuel issues g = walk fuel issues 0 i" for fuel
    using assms(2) by (simp add: tree_lines_def)
  have "\<exists>nodes. tree_lines fuel issues g = Some (map (\<lambda>(d, j). tree_line d j) nodes) \<and> distinct (map snd nodes) \<and>
      set (map snd nodes) = {j \<in> set issues. i_id j \<in> set (descendant_ids issues g)}"
    if "\<not> own_ancestor issues g" "length issues < fuel" for fuel
  proof (intro exI conjI)
    have fuel: "card (below issues (i_id i)) < fuel" using below_bound [of issues "i_id i"] that(2) by simp
    have loop: "\<not> own_ancestor issues (i_id i)" using that(1) i(2) by simp
    show "tree_lines fuel issues g = Some (map (\<lambda>(d, j). tree_line d j) (tree_nodes fuel issues 0 i))"
      unfolding lines by (rule walk_nodes [OF assms(1) loop fuel])
    show "distinct (map snd (tree_nodes fuel issues 0 i))"
      by (rule tree_nodes_distinct [OF assms(1) loop fuel i(1)])
    show "set (map snd (tree_nodes fuel issues 0 i)) = {j \<in> set issues. i_id j \<in> set (descendant_ids issues g)}"
      using tree_nodes_set [OF assms(1) loop fuel i(1)] i(2) by (simp add: descendant_ids_set)
  qed
  then show ?thesis using cycle_never_returns i unfolding lines by simp
qed

text \<open>A page, as an import could make it, whose one issue is its own parent.\<close>

definition loop_page :: "issue list" where
  "loop_page = map (\<lambda>i. i\<lparr>i_parent := Some (i_id i)\<rparr>) (filter (\<lambda>i. i_id i = ''g'') (page demo_goal))"

lemma loop_page_loops: "own_ancestor loop_page ''g''"
proof -
  have "\<exists>i \<in> set loop_page. i_parent i = Some ''g'' \<and> i_id i = ''g''" by code_simp
  then have "(''g'', ''g'') \<in> child_edges loop_page" by (simp add: child_edge_iff)
  then show ?thesis by (simp add: own_ancestor_def)
qed

theorem goal_tree_exact_witness:
  "tree_lines 6 (page demo_goal) ''g'' = Some
     [''g [open] g (goal, p1)'', ''  e [open] e (epic, p1)'', ''    t [closed] t (task, p1)'',
      ''    u [open] u (task, p1)'', ''  v [open] v (task, p1)''] \<and>
   descendant_ids (page demo_goal) ''g'' = [''e'', ''g'', ''t'', ''u'', ''v''] \<and>
   tree_lines 100 loop_page ''g'' = None"
proof -
  have "tree_lines 6 (page demo_goal) ''g'' = Some
     [''g [open] g (goal, p1)'', ''  e [open] e (epic, p1)'', ''    t [closed] t (task, p1)'',
      ''    u [open] u (task, p1)'', ''  v [open] v (task, p1)'']"
    "descendant_ids (page demo_goal) ''g'' = [''e'', ''g'', ''t'', ''u'', ''v'']"
    by code_simp+
  moreover have "distinct (map i_id loop_page)" "find (\<lambda>i. i_id i = ''g'') loop_page \<noteq> None" by code_simp+
  ultimately show ?thesis using goal_tree_exact [of loop_page "''g''"] loop_page_loops by auto
qed

section \<open>Counts\<close>

text \<open>
  A rollup counts every strict descendant of its goal once. Its status counts add up to its total
  when the statuses are legal, its percentage is between 0 and 100, and it is 100 when everything
  below the goal is closed.
\<close>

theorem rollup_counts_descendants:
  assumes "\<forall>i \<in> set issues. i_status i \<in> set STATUSES" and "int (length issues) < 2 ^ 53"
  shows "let p = progress_for issues g;
      below = filter (\<lambda>i. i_id i \<noteq> g \<and> (g, i_id i) \<in> (child_edges issues)\<^sup>*) issues in
    pg_total p = int (length below) \<and> pg_closed p = tally (\<lambda>i. i_status i = ''closed'') below \<and>
    pg_open p + pg_in_progress p + pg_review p + pg_blocked p + pg_deferred p + pg_closed p = pg_total p \<and>
    0 \<le> pg_percent_done p \<and> pg_percent_done p \<le> 100 \<and>
    (0 < pg_total p \<longrightarrow> pg_closed p = pg_total p \<longrightarrow> pg_percent_done p = 100)"
proof -
  define xs where "xs = filter (\<lambda>i. i_id i \<noteq> g \<and> (g, i_id i) \<in> (child_edges issues)\<^sup>*) issues"
  have p: "progress_for issues g = from_issues xs" unfolding xs_def by (rule progress_for_scope)
  have "length xs \<le> length issues" by (simp add: xs_def)
  then have len: "int (length xs) < 2 ^ 53" using assms(2) by linarith
  have "\<forall>i \<in> set xs. i_status i \<in> set STATUSES" using assms(1) by (simp add: xs_def)
  from statuses_partition [OF this]
  have "tally (\<lambda>i. i_status i = ''open'') xs + tally (\<lambda>i. i_status i = ''in_progress'') xs +
      tally (\<lambda>i. i_status i = ''review'') xs + tally (\<lambda>i. i_status i = ''blocked'') xs +
      tally (\<lambda>i. i_status i = ''deferred'') xs + tally (\<lambda>i. i_status i = ''closed'') xs = int (length xs)"
    by (simp add: STATUSES_def)
  then show ?thesis
    unfolding p xs_def [symmetric] Let_def from_issues_counts
    using percent_done_bounds [OF tally_bounds len] percent_done_all [OF _ len] by simp
qed

theorem rollup_counts_descendants_witness:
  "(\<forall>i \<in> set (page demo_goal). i_status i \<in> set STATUSES) = True \<and> pg_total (progress_for (page demo_goal) ''g'') = 4 \<and>
   pg_closed (progress_for (page demo_goal) ''g'') = 1 \<and> pg_percent_done (progress_for (page demo_goal) ''g'') = 25 \<and>
   pg_percent_done (progress_for (page demo_goal) ''g'') \<le> 100"
proof -
  have "\<forall>i \<in> set (page demo_goal). i_status i \<in> set STATUSES" "int (length (page demo_goal)) < 2 ^ 53"
    "pg_total (progress_for (page demo_goal) ''g'') = 4" "pg_closed (progress_for (page demo_goal) ''g'') = 1"
    "pg_percent_done (progress_for (page demo_goal) ''g'') = 25"
    by code_simp+
  then show ?thesis
    using rollup_counts_descendants [of "page demo_goal" "''g''"] by (simp only: Let_def) simp
qed

text \<open>One open task of two thousand still rounds to a full bar.\<close>

theorem full_bar_with_open_work: "percent_done 1999 2000 = 100"
  by code_simp

text \<open>
  C31. The portfolio counts the store's own queue. Over all issues of a reachable store and its registered
  projects, the ready count of every project is the number of its work items in the store's ready
  query, the folders and the unfiled list together hold every project once, and the total is the whole
  queue's.
\<close>

theorem portfolio_counts_the_queue:
  assumes "db_reachable s" and "distinct (map pi_slug ps)" and "pi_slug ` set ps = pr_slug ` set (db_projects s)"
    and "distinct (map fo_slug fs)"
  shows "let p = portfolio_of date ps fs (page s) now days stale_days in
    mset (map pl_slug (all_rollups p)) = mset (map pi_slug ps) \<and>
    (\<forall>r \<in> set (all_rollups p). pl_ready r = tally is_work (ready (Some (pl_slug r)) now s)) \<and>
    sum_list (map pl_ready (all_rollups p)) = tt_ready (po_totals p) \<and>
    tt_ready (po_totals p) = tally is_work (ready None now s)"
proof -
  let ?p = "portfolio_of date ps fs (page s) now days stale_days"
  let ?roll = "\<lambda>q. project_rollup_of date q (in_project (page s) (pi_slug q)) (statuses (page s)) now days stale_days"
  have parts: "mset (all_rollups ?p) = mset (map ?roll ps)"
    unfolding portfolio_of_def by (rule rollups_partition [OF assms(4)])
  have slugs: "mset (map pl_slug (all_rollups ?p)) = mset (map pi_slug ps)"
    using arg_cong [OF parts, of "image_mset pl_slug"]
    by (simp add: project_rollup_of_def Let_def multiset.map_comp comp_def)
  have "pl_ready r = tally is_work (ready (Some (pl_slug r)) now s)" if "r \<in> set (all_rollups ?p)" for r
  proof -
    have "r \<in> ?roll ` set ps" using that mset_eq_setD [OF parts] by simp
    then obtain q where "r = ?roll q" by blast
    then show ?thesis
      using tally_ready(2) [OF assms(1)] by (simp add: project_rollup_of_def Let_def tally_def)
  qed
  moreover have "sum_list (map pl_ready (all_rollups ?p)) = tt_ready (po_totals ?p)"
    unfolding sum_rollups [OF parts] by (simp add: portfolio_of_def portfolio_with_universe_def Let_def)
  moreover have "i_project ` set (page s) \<subseteq> pi_slug ` set ps"
    using db_reachable_ok [OF assms(1)] unfolding assms(3) set_page by (auto simp: db_ok_def issues_ok_def)
  then have "tt_ready (po_totals ?p) = tally is_work (ready None now s)"
    unfolding portfolio_of_def using totals_sum(1) [OF assms(2)] tally_ready(1) [OF assms(1)] by simp
  ultimately show ?thesis using slugs unfolding Let_def by blast
qed

definition demo_project :: project_info where
  "demo_project = \<lparr>pi_slug = ''p'', pi_root = ''/p'', pi_prefix = ''p'', pi_folder = Some ''f''\<rparr>"

definition demo_folder :: folder where
  "demo_folder = \<lparr>fo_slug = ''f'', fo_name = ''F'', fo_parent = None, fo_created_at = 0\<rparr>"

theorem portfolio_counts_the_queue_witness:
  "map (\<lambda>f. map pl_slug (fl_projects f))
     (po_folders (portfolio_of (\<lambda>_. []) [demo_project] [demo_folder] (page demo_goal) 1000 1 1)) = [[''p'']] \<and>
   tt_ready (po_totals (portfolio_of (\<lambda>_. []) [demo_project] [demo_folder] (page demo_goal) 1000 1 1)) = 2 \<and>
   tally is_work (ready None 1000 demo_goal) = 2"
proof -
  have filed: "map (\<lambda>f. map pl_slug (fl_projects f)) (po_folders
      (portfolio_of (\<lambda>_. []) [demo_project] [demo_folder] (page demo_goal) 1000 1 1)) = [[''p'']]"
    by code_simp
  have queue: "tally is_work (ready None 1000 demo_goal) = 2" by code_simp
  have "distinct (map pi_slug [demo_project])" "pi_slug ` set [demo_project] = pr_slug ` set (db_projects demo_goal)"
    "distinct (map fo_slug [demo_folder])" by code_simp+
  from portfolio_counts_the_queue [OF demo_goal_reachable this, of "\<lambda>_. []" 1000 1 1] filed queue
  show ?thesis by (simp only: Let_def)
qed

text \<open>
  C32. Every view counts the same work. On one dashboard whose projects have distinct slugs and cover the
  issues, the totals, the portfolio and the burndown agree on the work in scope and its completion, the
  board's columns add up to it, and totals and portfolio agree on what is ready and, for a legal
  staleness window, on what is stale.
\<close>

theorem views_agree:
  assumes "dashboard_of date ps fs issues scope days stale_days estimate now = Inr d"
    and "distinct (map pi_slug ps)" and "i_project ` set issues \<subseteq> pi_slug ` set ps"
    and "\<forall>i \<in> set issues. i_status i \<in> set STATUSES" and "0 \<le> stale_days"
  shows "dt_total (da_totals d) = pg_total (tt_progress (po_totals (da_portfolio d))) \<and>
    dt_total (da_totals d) = bn_scope (da_burndown d) \<and>
    dt_total (da_totals d) = (\<Sum>c\<leftarrow>sb_columns (da_scrum d). sl_count c) \<and>
    dt_percent_done (da_totals d) = pg_percent_done (tt_progress (po_totals (da_portfolio d))) \<and>
    dt_ready (da_totals d) = tt_ready (po_totals (da_portfolio d)) \<and>
    dt_stale (da_totals d) = tt_stale (po_totals (da_portfolio d))"
proof -
  let ?sel = "scope_issues issues ps scope"
  let ?work = "filter is_work ?sel"
  let ?chosen = "selected_projects ps ?sel scope"
  let ?board = "scrum ?sel issues now"
  let ?p = "portfolio_with_universe date ?chosen fs ?sel issues now (max days 1) stale_days"
  have d: "dt_total (da_totals d) = int (length ?work)" "da_portfolio d = ?p" "da_scrum d = ?board"
    "da_burndown d = burndown_of date ?work (max days 1) now"
    "dt_percent_done (da_totals d) = pg_percent_done (from_issues ?work)"
    "dt_ready (da_totals d) = tally (report_ready (statuses issues) now) ?work"
    "dt_stale (da_totals d) = tally (stale_before (sat_sub now (sat_mul stale_days 86400))) ?work"
    using assms(1,5) by (auto simp: dashboard_of_def Let_def split: sum.splits)
  have progress: "tt_progress (po_totals ?p) = from_issues ?work"
    by (simp add: portfolio_with_universe_def Let_def)
  have chosen: "distinct (map pi_slug ?chosen)"
    using assms(2) by (simp add: selected_projects_def distinct_map_filter)
  have covered: "i_project ` set ?sel \<subseteq> pi_slug ` set ?chosen" by (rule scope_covered [OF assms(2,3)])
  have "set ?sel \<subseteq> set issues" by (auto simp: scope_issues_def Let_def)
  then have legal: "\<forall>i \<in> set (sort_key k ?work). i_status i \<in> set STATUSES"
    for k :: "issue \<Rightarrow> int \<times> int \<times> string" using assms(4) by auto
  have "(\<Sum>c\<leftarrow>sb_columns ?board. sl_count c) = int (length ?work)"
    unfolding scrum_def Let_def using columns_count [OF legal] by simp
  then show ?thesis
    unfolding d progress totals_sum [OF chosen covered] by (simp add: burndown_of_def Let_def)
qed

theorem views_agree_witness:
  "\<exists>d. dashboard_of (\<lambda>_. []) [demo_project] [demo_folder] (page demo_goal)
       \<lparr>vs_project = Some ''p'', vs_folder = None, vs_plan = None\<rparr> 1 1 30 1000 = Inr d \<and>
     dt_total (da_totals d) = 4 \<and> (\<Sum>c\<leftarrow>sb_columns (da_scrum d). sl_count c) = 4 \<and>
     dt_ready (da_totals d) = tt_ready (po_totals (da_portfolio d))"
proof -
  let ?scope = "\<lparr>vs_project = Some ''p'', vs_folder = None, vs_plan = None\<rparr>"
  let ?d = "dashboard_of (\<lambda>_. []) [demo_project] [demo_folder] (page demo_goal) ?scope 1 1 30 1000"
  have "map_sum (\<lambda>_. 0 :: nat) (\<lambda>d. dt_total (da_totals d)) ?d = Inr 4" by code_simp
  then obtain d where d: "?d = Inr d" "dt_total (da_totals d) = 4" by (cases ?d) auto
  have "distinct (map pi_slug [demo_project])" "i_project ` set (page demo_goal) \<subseteq> pi_slug ` set [demo_project]"
    "\<forall>i \<in> set (page demo_goal). i_status i \<in> set STATUSES" by code_simp+
  from views_agree [OF d(1) this] d show ?thesis by auto
qed

text \<open>
  The scrum board shows all selected work and nothing twice. When the statuses are legal, the columns
  are the six statuses in display order, their cards together are the cards of the selected issues that
  are not goals, every count is the number of its cards, and the swimlanes, one per project in order,
  divide the same cards.
\<close>

theorem board_partition:
  assumes "\<forall>i \<in> set selected. i_status i \<in> set STATUSES"
  shows "let b = scrum selected issues now;
      cards = mset (map (scrum_card_of (statuses issues) now) (filter is_work selected)) in
    map sl_status (sb_columns b) = STATUSES \<and>
    mset (concat (map sl_cards (sb_columns b))) = cards \<and>
    (\<forall>c \<in> set (sb_columns b). sl_count c = int (length (sl_cards c)) \<and> sorted (map sd_priority (sl_cards c))) \<and>
    map sw_key (sb_swimlanes b) = sorted_list_of_set (i_project ` set (filter is_work selected)) \<and>
    mset (concat (map (\<lambda>l. concat (map sl_cards (sw_columns l))) (sb_swimlanes b))) = cards"
proof -
  let ?f = "scrum_card_of (statuses issues) now"
  define work where "work = sort_key (\<lambda>i. (i_priority i, i_created_at i, i_id i)) (filter is_work selected)"
  have legal: "\<forall>i \<in> set work. i_status i \<in> set STATUSES" using assms by (simp add: work_def)
  have same: "mset (map ?f work) = mset (map ?f (filter is_work selected))" by (simp add: work_def)
  have b: "sb_columns (scrum selected issues now) = scrum_columns work (statuses issues) now"
    "sb_swimlanes (scrum selected issues now) = map (\<lambda>p. \<lparr>sw_key = p, sw_title = p,
       sw_columns = scrum_columns (filter (\<lambda>i. i_project i = p) work) (statuses issues) now\<rparr>)
       (bs_collect (map i_project work))"
    by (simp_all add: scrum_def Let_def work_def)
  have keys: "bs_collect (map i_project work) = sorted_list_of_set (i_project ` set (filter is_work selected))"
    by (simp add: bs_collect_def work_def)
  have "mset (concat (map (\<lambda>l. concat (map sl_cards (sw_columns l))) (sb_swimlanes (scrum selected issues now)))) =
      mset (concat (map (\<lambda>p. map ?f (filter (\<lambda>i. i_project i = p) work)) (bs_collect (map i_project work))))"
    unfolding b map_map comp_def scrum_swimlane.simps
    by (rule mset_concat_cong) (use legal in \<open>simp add: columns_partition\<close>)
  also have "\<dots> = mset (map ?f (concat (map (\<lambda>p. filter (\<lambda>i. i_project i = p) work) (bs_collect (map i_project work)))))"
    by (simp add: map_concat comp_def)
  also have "\<dots> = mset (map ?f work)"
    unfolding mset_map by (intro arg_cong [of _ _ "image_mset _"] mset_groups) (auto simp: bs_collect_def work_def)
  finally have lanes: "mset (concat (map (\<lambda>l. concat (map sl_cards (sw_columns l)))
      (sb_swimlanes (scrum selected issues now)))) = mset (map ?f work)" .
  have sorted: "sorted (map sd_priority (sl_cards c))" if "c \<in> set (scrum_columns work (statuses issues) now)" for c
    using that unfolding work_def by (rule columns_sorted)
  show ?thesis
    unfolding Let_def b(1) same [symmetric] lanes columns_shape(1) columns_partition [OF legal]
    using columns_shape(2) sorted keys b(2) by (simp add: comp_def)
qed

theorem board_partition_witness:
  "map sl_count (sb_columns (scrum (page demo_goal) (page demo_goal) 1000)) = [3, 0, 0, 0, 0, 1] \<and>
   map sw_key (sb_swimlanes (scrum (page demo_goal) (page demo_goal) 1000)) = [''p''] \<and>
   map sl_status (sb_columns (scrum (page demo_goal) (page demo_goal) 1000)) = STATUSES"
proof -
  have "map sl_count (sb_columns (scrum (page demo_goal) (page demo_goal) 1000)) = [3, 0, 0, 0, 0, 1]"
    "map sw_key (sb_swimlanes (scrum (page demo_goal) (page demo_goal) 1000)) = [''p'']"
    "\<forall>i \<in> set (page demo_goal). i_status i \<in> set STATUSES" by code_simp+
  with board_partition [of "page demo_goal" "page demo_goal" 1000] show ?thesis by (simp only: Let_def)
qed

text \<open>
  The burndown is what it claims. For a window of whole days that fits a double exactly, the series has
  one point per day boundary up to now; at each the scope is what existed by then, done is what of it was
  closed by then, and remaining is the difference. The ideal line falls from the whole scope to nothing.
  The burn rate is the number of closes inside the window per day, and the projection is what remains
  divided by it.
\<close>

theorem burndown_exact:
  assumes "1 \<le> days" and "days * 86400 < 2 ^ 53" and "i64_min + 2 ^ 53 \<le> now" and "now \<le> i64_max"
    and "int (length issues) < 2 ^ 53"
  shows "let b = burndown_of date issues days now;
      by_end = \<lambda>d. now - (days - d) * 86400;
      burnt = tally (\<lambda>i. closed_by now i \<and> \<not> closed_by (by_end 0) i) issues in
    length (bn_points b) = nat days + 1 \<and>
    (\<forall>d \<in> {0..days}. let p = bn_points b ! nat d in
      bd_scope p = tally (\<lambda>i. i_created_at i \<le> by_end d) issues \<and>
      bd_done p = tally (\<lambda>i. i_created_at i \<le> by_end d \<and> closed_by (by_end d) i) issues \<and>
      bd_remaining p = tally (\<lambda>i. i_created_at i \<le> by_end d \<and> \<not> closed_by (by_end d) i) issues \<and>
      bd_ideal_remaining p = ideal_remaining (int (length issues)) d days) \<and>
    ideal_remaining (int (length issues)) 0 days = int (length issues) \<and>
    ideal_remaining (int (length issues)) days days = 0 \<and>
    (\<forall>d \<in> {0..days}. \<forall>e \<in> {d..days}.
      ideal_remaining (int (length issues)) e days \<le> ideal_remaining (int (length issues)) d days) \<and>
    bn_remaining b = tally (\<lambda>i. \<not> closed_by now i) issues \<and>
    bn_burn_per_day b = (if 0 < burnt then Some (f_div (of_int burnt) (of_int days)) else None)"
proof -
  let ?b = "burndown_of date issues days now"
  let ?at = "\<lambda>d. now - (days - d) * 86400"
  have days: "days < 2 ^ 53" "max days 1 = days" using assms(1,2) by linarith+
  have pts: "bn_points ?b = map (burndown_point date issues days (now - days * 86400) now) [0..days]"
    and rate: "bn_burn_per_day ?b = burn_rate issues (now - days * 86400) now"
    and left: "bn_remaining ?b = max (int (length issues) - tally (closed_by now) issues) 0"
    by (simp_all add: burndown_of_def Let_def days(2) window_days(1) [OF assms(1-4)])
  have nth: "bn_points ?b ! nat d = burndown_point date issues days (now - days * 86400) now d"
    if "d \<in> {0..days}" for d
    unfolding pts using that by (simp add: upto_nth)
  have "int (length issues) - tally (closed_by now) issues = tally (\<lambda>i. \<not> closed_by now i) issues"
    by (induction issues) auto
  then have "bn_remaining ?b = tally (\<lambda>i. \<not> closed_by now i) issues"
    unfolding left using tally_bounds(1) [of "\<lambda>i. \<not> closed_by now i" issues] by simp
  then show ?thesis
    unfolding Let_def rate burn_rate_window [OF assms(1,2,5), unfolded Let_def]
    using nth burndown_points [OF assms(1-4)] ideal_ends [OF _ assms(5) _ days(1)]
      ideal_antitone [OF _ assms(5) _ days(1)] assms(1)
    by (simp add: Let_def pts)
qed

theorem burndown_exact_witness:
  "length (bn_points (burndown_of (\<lambda>_. []) (page demo_goal) 2 1000)) = 3 \<and>
   bn_remaining (burndown_of (\<lambda>_. []) (page demo_goal) 2 1000) = 4 \<and>
   bn_burn_per_day (burndown_of (\<lambda>_. []) (page demo_goal) 2 1000) = Some (1 / 2)"
proof -
  have "1 \<le> (2 :: int)" "(2 :: int) * 86400 < 2 ^ 53" "i64_min + 2 ^ 53 \<le> 1000" "1000 \<le> i64_max"
    "int (length (page demo_goal)) < 2 ^ 53" by code_simp+
  note b = burndown_exact [OF this, of "\<lambda>_. []", unfolded Let_def]
  have "tally (\<lambda>i. \<not> closed_by 1000 i) (page demo_goal) = 4"
    "tally (\<lambda>i. closed_by 1000 i \<and> \<not> closed_by (1000 - (2 - 0) * 86400) i) (page demo_goal) = 1"
    "f_div (of_int 1) (of_int 2) = 1 / 2" by code_simp+
  with b show ?thesis by simp
qed

end
