(* ===== verification/Records.thy ===== *)
theory Records
  imports Json
begin

text \<open>
  \<open>src/src/records.rs\<close>: the append-only record engine. A \<open>BTreeMap\<close> is its sorted list of entries; the
  durable trail is the list of its lines, \<open>None\<close> for an engine in memory. serde's text of a persisted
  revision is a pair of functions, the trail's opening and writing always succeed (the code panics
  when they do not). A sequence number does not reach \<open>i64::MAX\<close>.
\<close>

section \<open>The engine\<close>

datatype column_type = TextColumn | IntColumn | BoolColumn | JsonColumn

record column =
  co_name :: string
  co_ty :: column_type

record record_schema =
  rs_name :: string
  rs_key :: "string list"
  rs_columns :: "column list"
  rs_data_column :: string

record revision =
  rv_seq :: int
  rv_key :: "string list"
  rv_data :: json
  rv_deleted :: bool

record persisted_revision =
  pe_type :: string
  pe_seq :: int
  pe_key :: "string list"
  pe_data :: json
  pe_deleted :: bool

record version =
  vn_revision :: "64 word"
  vn_origin :: string

record cas_result =
  cs_applied :: bool
  cs_version :: "version option"
  cs_data :: "json option"
  cs_deleted :: bool

record trail_codec =
  tc_write :: "persisted_revision \<Rightarrow> string"
  tc_read :: "string \<Rightarrow> persisted_revision option"

record engine =
  en_schemas :: "(string \<times> record_schema) list"
  en_history :: "(string \<times> revision list) list"
  en_live :: "(string \<times> string list list) list"
  en_seq :: int
  en_trail :: "string list option"

definition engine_new :: engine where
  "engine_new = \<lparr>en_schemas = [], en_history = [], en_live = [], en_seq = 0, en_trail = None\<rparr>"

definition durable :: "string list \<Rightarrow> engine" where
  "durable path = engine_new\<lparr>en_trail := Some path\<rparr>"

datatype define_error = NameEmpty | DataColumnUndeclared string string

definition define_type :: "record_schema \<Rightarrow> engine \<Rightarrow> define_error + engine" where
  "define_type sch e =
     (if rs_name sch = [] then Inl NameEmpty
      else if map_of (en_schemas e) (rs_name sch) = None \<and>
          \<not> (\<exists>col \<in> set (rs_columns sch). co_name col = rs_data_column sch)
      then Inl (DataColumnUndeclared (rs_data_column sch) (rs_name sch))
      else Inr (e\<lparr>en_schemas := bt_insert (rs_name sch) sch (en_schemas e)\<rparr>))"

definition has_type :: "engine \<Rightarrow> string \<Rightarrow> bool" where
  "has_type e name \<longleftrightarrow> map_of (en_schemas e) name \<noteq> None"

definition type_schema :: "engine \<Rightarrow> string \<Rightarrow> record_schema option" where
  "type_schema e name = map_of (en_schemas e) name"

text \<open>\<open>entry(name).or_default()\<close>.\<close>

definition or_nil :: "'a list option \<Rightarrow> 'a list" where
  "or_nil v = (case v of None \<Rightarrow> [] | Some xs \<Rightarrow> xs)"

definition push_revision :: "string \<Rightarrow> revision \<Rightarrow> engine \<Rightarrow> engine" where
  "push_revision name r e =
     (let live = or_nil (map_of (en_live e) name)
      in e\<lparr>en_history := bt_insert name (or_nil (map_of (en_history e) name) @ [r]) (en_history e),
           en_live := bt_insert name
             (if rv_deleted r then filter (\<lambda>k. k \<noteq> rv_key r) live else bs_insert (rv_key r) live) (en_live e)\<rparr>)"

definition append_record ::
  "trail_codec \<Rightarrow> string \<Rightarrow> string list \<Rightarrow> json \<Rightarrow> bool \<Rightarrow> engine \<Rightarrow> int \<times> engine" where
  "append_record tc name key data deleted e =
     (let seq = en_seq e + 1;
          e1 = push_revision name \<lparr>rv_seq = seq, rv_key = key, rv_data = data, rv_deleted = deleted\<rparr>
                 (e\<lparr>en_seq := seq\<rparr>);
          line = tc_write tc \<lparr>pe_type = name, pe_seq = seq, pe_key = key, pe_data = data, pe_deleted = deleted\<rparr>
      in (seq, e1\<lparr>en_trail := map_option (\<lambda>ls. ls @ [line]) (en_trail e)\<rparr>))"

definition latest_of :: "revision list \<Rightarrow> string list \<Rightarrow> revision option" where
  "latest_of dq key = find (\<lambda>r. rv_key r = key) (rev dq)"

definition current_of :: "revision list \<Rightarrow> string list \<Rightarrow> json option" where
  "current_of dq key =
     Option.bind (latest_of dq key) (\<lambda>r. if rv_deleted r then None else Some (rv_data r))"

definition current :: "engine \<Rightarrow> string \<Rightarrow> string list \<Rightarrow> json option" where
  "current e name key = Option.bind (map_of (en_history e) name) (\<lambda>dq. current_of dq key)"

definition history_of :: "engine \<Rightarrow> string \<Rightarrow> string list \<Rightarrow> revision list" where
  "history_of e name key =
     (case map_of (en_history e) name of None \<Rightarrow> [] | Some dq \<Rightarrow> filter (\<lambda>r. rv_key r = key) dq)"

definition live_keys :: "engine \<Rightarrow> string \<Rightarrow> string list list" where
  "live_keys e name = or_nil (map_of (en_live e) name)"

definition key_of :: "engine \<Rightarrow> string \<Rightarrow> string list \<Rightarrow> string list option" where
  "key_of e name key = Option.bind (map_of (en_live e) name) (\<lambda>ks. if key \<in> set ks then Some key else None)"

definition memory_version :: "revision \<Rightarrow> version" where
  "memory_version r = \<lparr>vn_revision = of_int (rv_seq r), vn_origin = ''memory''\<rparr>"

definition latest_revision :: "engine \<Rightarrow> string \<Rightarrow> string list \<Rightarrow> revision option" where
  "latest_revision e name key = Option.bind (map_of (en_history e) name) (\<lambda>dq. latest_of dq key)"

definition version_of :: "engine \<Rightarrow> string \<Rightarrow> string list \<Rightarrow> version option" where
  "version_of e name key = map_option memory_version (latest_revision e name key)"

definition conflict :: "revision \<Rightarrow> cas_result" where
  "conflict r =
     \<lparr>cs_applied = False, cs_version = Some (memory_version r),
      cs_data = (if rv_deleted r then None else Some (rv_data r)), cs_deleted = rv_deleted r\<rparr>"

definition swap_in ::
  "trail_codec \<Rightarrow> string \<Rightarrow> string list \<Rightarrow> json \<Rightarrow> bool \<Rightarrow> engine \<Rightarrow> (string + cas_result) \<times> engine" where
  "swap_in tc name key data deleted e =
     (case append_record tc name key data deleted e of (seq, e') \<Rightarrow>
        (Inr \<lparr>cs_applied = True, cs_version = Some \<lparr>vn_revision = of_int seq, vn_origin = ''memory''\<rparr>,
              cs_data = (if deleted then None else Some data), cs_deleted = deleted\<rparr>, e'))"

definition compare_and_swap ::
  "trail_codec \<Rightarrow> string \<Rightarrow> string list \<Rightarrow> version option \<Rightarrow> json \<Rightarrow> bool \<Rightarrow> engine \<Rightarrow>
    (string + cas_result) \<times> engine" where
  "compare_and_swap tc name key expected data deleted e =
     (case (expected, latest_revision e name key) of
        (None, None) \<Rightarrow> swap_in tc name key data deleted e
      | (None, Some r) \<Rightarrow>
          if rv_deleted r then swap_in tc name key data deleted e else (Inr (conflict r), e)
      | (Some v, None) \<Rightarrow> (Inl ''not-found'', e)
      | (Some v, Some r) \<Rightarrow>
          if of_int (rv_seq r) = vn_revision v \<and> vn_origin v = ''memory''
          then swap_in tc name key data deleted e else (Inr (conflict r), e))"

text \<open>Reopening replays the lines in order; a blank line is skipped, a line that does not parse is an error.\<close>

definition replay_line :: "trail_codec \<Rightarrow> string \<Rightarrow> engine \<Rightarrow> engine option" where
  "replay_line tc line e =
     (if trim line = [] then Some e
      else case tc_read tc line of
        None \<Rightarrow> None
      | Some p \<Rightarrow> Some (push_revision (pe_type p)
          \<lparr>rv_seq = pe_seq p, rv_key = pe_key p, rv_data = pe_data p, rv_deleted = pe_deleted p\<rparr>
          (e\<lparr>en_seq := max (en_seq e) (pe_seq p)\<rparr>)))"

fun replay :: "trail_codec \<Rightarrow> string list \<Rightarrow> engine \<Rightarrow> engine option" where
  "replay tc [] e = Some e"
| "replay tc (l # ls) e = Option.bind (replay_line tc l e) (replay tc ls)"

definition load_trail :: "trail_codec \<Rightarrow> string list option \<Rightarrow> engine option" where
  "load_trail tc file =
     (case file of None \<Rightarrow> Some (durable []) | Some ls \<Rightarrow> replay tc ls (durable ls))"

section \<open>The live index\<close>

text \<open>The index holds exactly the keys whose latest revision is no tombstone, in key order.\<close>

definition engine_ok :: "engine \<Rightarrow> bool" where
  "engine_ok e \<longleftrightarrow>
     (\<forall>name. sorted (live_keys e name) \<and> distinct (live_keys e name) \<and>
       (\<forall>k. k \<in> set (live_keys e name) \<longleftrightarrow> current e name k \<noteq> None)) \<and>
     (\<forall>name dq. map_of (en_history e) name = Some dq \<longrightarrow>
       sorted_wrt (<) (map rv_seq dq) \<and> (\<forall>r \<in> set dq. rv_seq r \<le> en_seq e))"

lemma latest_of_snoc [simp]:
  "latest_of (dq @ [r]) k = (if rv_key r = k then Some r else latest_of dq k)"
  by (simp add: latest_of_def)

lemma latest_of_Nil [simp]: "latest_of [] k = None"
  by (simp add: latest_of_def)

lemma current_latest:
  "current e name k = Option.bind (latest_revision e name k) (\<lambda>r. if rv_deleted r then None else Some (rv_data r))"
  by (simp add: current_def current_of_def latest_revision_def split: bind_splits)

lemma latest_push:
  "latest_revision (push_revision name r e) name' k =
     (if name' = name \<and> k = rv_key r then Some r else latest_revision e name' k)"
  by (auto simp: latest_revision_def push_revision_def Let_def or_nil_def split: option.splits)

lemma latest_seq [simp]: "latest_revision (e\<lparr>en_seq := s\<rparr>) name k = latest_revision e name k"
  by (simp add: latest_revision_def)

lemma latest_trail [simp]: "latest_revision (e\<lparr>en_trail := t\<rparr>) name k = latest_revision e name k"
  by (simp add: latest_revision_def)

lemma current_push:
  "current (push_revision name r e) name' k =
     (if name' = name \<and> k = rv_key r then (if rv_deleted r then None else Some (rv_data r)) else current e name' k)"
  by (simp add: current_latest latest_push)

lemma current_append [simp]:
  "current (snd (append_record tc name key data deleted e)) name' k =
     (if name' = name \<and> k = key then (if deleted then None else Some data) else current e name' k)"
  by (simp add: current_latest append_record_def Let_def latest_push)

lemma latest_append [simp]:
  "latest_revision (snd (append_record tc name key data deleted e)) name' k =
     (if name' = name \<and> k = key
      then Some \<lparr>rv_seq = en_seq e + 1, rv_key = key, rv_data = data, rv_deleted = deleted\<rparr>
      else latest_revision e name' k)"
  by (simp add: append_record_def Let_def latest_push)

lemma seq_append [simp]:
  "fst (append_record tc name key data deleted e) = en_seq e + 1"
  "en_seq (snd (append_record tc name key data deleted e)) = en_seq e + 1"
  by (simp_all add: append_record_def Let_def push_revision_def)

lemma engine_ok_new [simp]: "engine_ok engine_new" "engine_ok (durable ls)"
  by (simp_all add: engine_ok_def engine_new_def durable_def live_keys_def current_def or_nil_def)

lemma current_new [simp]: "current engine_new name k = None"
  by (simp add: current_def engine_new_def)

lemma live_push:
  "live_keys (push_revision name r e) name' =
     (if name' = name then
        (if rv_deleted r then filter (\<lambda>k. k \<noteq> rv_key r) (live_keys e name) else bs_insert (rv_key r) (live_keys e name))
      else live_keys e name')"
  by (simp add: live_keys_def push_revision_def Let_def or_nil_def)

lemma engine_ok_push:
  assumes "engine_ok e" and "en_seq e < rv_seq r" and "rv_seq r = q"
  shows "engine_ok (push_revision name r (e\<lparr>en_seq := q\<rparr>))"
proof -
  have live: "sorted (live_keys e n) \<and> distinct (live_keys e n) \<and>
      (\<forall>k. k \<in> set (live_keys e n) \<longleftrightarrow> current e n k \<noteq> None)" for n
    using assms(1) by (simp add: engine_ok_def)
  have seqs: "sorted_wrt (<) (map rv_seq dq) \<and> (\<forall>r \<in> set dq. rv_seq r \<le> en_seq e)"
    if "map_of (en_history e) n = Some dq" for n dq
    using assms(1) that by (simp add: engine_ok_def)
  have same: "live_keys (e\<lparr>en_seq := q\<rparr>) n = live_keys e n" "current (e\<lparr>en_seq := q\<rparr>) n k = current e n k" for n k
    by (simp_all add: live_keys_def current_def)
  have "sorted_wrt (<) (map rv_seq dq) \<and> (\<forall>x \<in> set dq. rv_seq x \<le> q)"
    if "map_of (en_history (push_revision name r (e\<lparr>en_seq := q\<rparr>))) n = Some dq" for n dq
  proof (cases "n = name")
    case True
    then have dq: "dq = or_nil (map_of (en_history e) name) @ [r]"
      using that by (simp add: push_revision_def Let_def)
    have "sorted_wrt (<) (map rv_seq (or_nil (map_of (en_history e) name))) \<and>
        (\<forall>x \<in> set (or_nil (map_of (en_history e) name)). rv_seq x \<le> en_seq e)"
      using seqs by (cases "map_of (en_history e) name") (simp_all add: or_nil_def)
    then show ?thesis using assms(2,3) unfolding dq by (fastforce simp: sorted_wrt_append)
  next
    case False
    then have "map_of (en_history e) n = Some dq" using that by (simp add: push_revision_def Let_def)
    then show ?thesis using seqs assms(2,3) by fastforce
  qed
  moreover have "en_seq (push_revision name r (e\<lparr>en_seq := q\<rparr>)) = q" by (simp add: push_revision_def Let_def)
  ultimately show ?thesis
    unfolding engine_ok_def live_push current_push same
    using live by (auto simp: sorted_filter [of id, simplified])
qed

lemma engine_ok_trail [simp]: "engine_ok (e\<lparr>en_trail := t\<rparr>) = engine_ok e"
  by (simp add: engine_ok_def live_keys_def current_def)

lemma engine_ok_append: "engine_ok e \<Longrightarrow> engine_ok (snd (append_record tc name key data deleted e))"
  by (simp add: append_record_def Let_def engine_ok_push)

text \<open>One record type is a keyed store: writing is \<open>append\<close>, deleting is a tombstone.\<close>

interpretation records: key_map engine_new
    "\<lambda>k v e. snd (append_record tc name k v False e)" "\<lambda>k e. snd (append_record tc name k JNull True e)"
    "\<lambda>e k. current e name k" engine_ok
  for tc name
  by unfold_locales (auto simp: engine_ok_append)

lemma latest_in: "latest_revision e name k = Some r \<Longrightarrow>
    \<exists>dq. map_of (en_history e) name = Some dq \<and> r \<in> set dq \<and> rv_key r = k"
  by (auto simp: latest_revision_def latest_of_def dest!: find_SomeD split: bind_splits)

section \<open>Runs\<close>

datatype record_op =
    Define record_schema
  | Append string "string list" json bool
  | Swap string "string list" "version option" json bool

fun record_step :: "trail_codec \<Rightarrow> record_op \<Rightarrow> engine \<Rightarrow> engine" where
  "record_step tc (Define sch) e = (case define_type sch e of Inl _ \<Rightarrow> e | Inr e' \<Rightarrow> e')"
| "record_step tc (Append name key data deleted) e = snd (append_record tc name key data deleted e)"
| "record_step tc (Swap name key expected data deleted) e =
     snd (compare_and_swap tc name key expected data deleted e)"

definition record_run :: "trail_codec \<Rightarrow> record_op list \<Rightarrow> engine \<Rightarrow> engine" where
  "record_run tc ops e = fold (record_step tc) ops e"

lemma swap_cases:
  "snd (compare_and_swap tc name key expected data deleted e) = e \<or>
   snd (compare_and_swap tc name key expected data deleted e) = snd (append_record tc name key data deleted e)"
  by (auto simp: compare_and_swap_def swap_in_def split: option.split prod.split)

lemma define_same:
  assumes "define_type sch e = Inr e'"
  shows "en_history e' = en_history e" "en_live e' = en_live e" "en_seq e' = en_seq e" "en_trail e' = en_trail e"
  using assms by (auto simp: define_type_def split: if_splits)

lemma record_step_keeps:
  assumes "P e" and "\<And>sch e'. define_type sch e = Inr e' \<Longrightarrow> P e'" and "\<And>name key data deleted. P (snd (append_record tc name key data deleted e))"
  shows "P (record_step tc op e)"
proof (cases op)
  case (Swap name key expected data deleted)
  then show ?thesis using swap_cases [of tc name key expected data deleted e] assms(1,3) by auto
qed (use assms in \<open>auto split: sum.split\<close>)

lemma record_run_keeps:
  assumes "P e" and "\<And>sch e e'. define_type sch e = Inr e' \<Longrightarrow> P e \<Longrightarrow> P e'"
    and "\<And>e name key data deleted. P e \<Longrightarrow> P (snd (append_record tc name key data deleted e))"
  shows "P (record_run tc ops e)"
  unfolding record_run_def using assms(1)
proof (induction ops arbitrary: e)
  case (Cons op ops)
  have "P (record_step tc op e)" using Cons.prems assms(2,3) by (blast intro: record_step_keeps)
  then show ?case using Cons.IH by simp
qed simp

lemma engine_ok_define: "define_type sch e = Inr e' \<Longrightarrow> engine_ok e' = engine_ok e"
  by (simp add: engine_ok_def live_keys_def current_def define_same)

lemma latest_define: "define_type sch e = Inr e' \<Longrightarrow> latest_revision e' name key = latest_revision e name key"
  by (simp add: latest_revision_def define_same)

lemma record_run_ok: "engine_ok e \<Longrightarrow> engine_ok (record_run tc ops e)"
  by (rule record_run_keeps) (simp_all add: engine_ok_append engine_ok_define)

text \<open>The trail of a durable engine, replayed, is the engine without its schemas.\<close>

definition replays_to :: "trail_codec \<Rightarrow> engine \<Rightarrow> bool" where
  "replays_to tc e \<longleftrightarrow> (\<exists>ls. en_trail e = Some ls \<and>
     (\<forall>t. replay tc ls (durable t) = Some (e\<lparr>en_schemas := [], en_trail := Some t\<rparr>)))"

lemma replay_append: "replay tc (ls @ ms) e = Option.bind (replay tc ls e) (replay tc ms)"
  by (induction ls arbitrary: e) (auto split: bind_splits)

lemma replays_append:
  assumes "\<And>p. tc_read tc (tc_write tc p) = Some p" and "\<And>p. trim (tc_write tc p) \<noteq> []"
    and "replays_to tc e"
  shows "replays_to tc (snd (append_record tc name key data deleted e))"
proof -
  obtain ls where ls: "en_trail e = Some ls"
    "\<And>t. replay tc ls (durable t) = Some (e\<lparr>en_schemas := [], en_trail := Some t\<rparr>)"
    using assms(3) by (auto simp: replays_to_def)
  show ?thesis
    unfolding replays_to_def
    by (rule exI [of _ "ls @ [tc_write tc \<lparr>pe_type = name, pe_seq = en_seq e + 1, pe_key = key, pe_data = data,
        pe_deleted = deleted\<rparr>]"])
      (simp add: append_record_def Let_def ls replay_append replay_line_def assms(1,2) push_revision_def)
qed

lemma replays_define:
  assumes "replays_to tc e" and "define_type sch e = Inr e'"
  shows "replays_to tc e'"
  using assms by (auto simp: replays_to_def define_type_def split: if_splits)

lemma replays_run:
  assumes c: "\<And>p. tc_read tc (tc_write tc p) = Some p" "\<And>p. trim (tc_write tc p) \<noteq> []"
    and "replays_to tc e"
  shows "replays_to tc (record_run tc ops e)"
proof (rule record_run_keeps [of "replays_to tc", OF assms(3)])
  show "replays_to tc e'" if "define_type sch e = Inr e'" "replays_to tc e" for sch e e'
    using replays_define that by blast
  show "replays_to tc (snd (append_record tc name key data deleted e))" if "replays_to tc e"
    for e name key data deleted
    by (rule replays_append [OF c that])
qed

lemma replays_durable [simp]: "replays_to tc (durable [])"
  by (simp add: replays_to_def durable_def engine_new_def)

text \<open>A trail never loses a revision: what a key's history was is a prefix of what it becomes.\<close>

lemma history_append:
  "history_of (snd (append_record tc name key data deleted e)) n k =
     history_of e n k @ (if n = name \<and> k = key
       then [\<lparr>rv_seq = en_seq e + 1, rv_key = key, rv_data = data, rv_deleted = deleted\<rparr>] else [])"
  by (auto simp: history_of_def append_record_def Let_def push_revision_def or_nil_def split: option.splits)

section \<open>The abstract store\<close>

text \<open>
  What the engine promises: a counter and, per record type and key, the log of the revisions of that
  key. A conditional write looks at the last entry of the log.
\<close>

record trail_spec =
  ts_count :: int
  ts_log :: "string \<Rightarrow> string list \<Rightarrow> revision list"

definition spec_empty :: trail_spec where
  "spec_empty = \<lparr>ts_count = 0, ts_log = \<lambda>_ _. []\<rparr>"

definition last_entry :: "trail_spec \<Rightarrow> string \<Rightarrow> string list \<Rightarrow> revision option" where
  "last_entry m name key = (if ts_log m name key = [] then None else Some (last (ts_log m name key)))"

definition spec_append :: "string \<Rightarrow> string list \<Rightarrow> json \<Rightarrow> bool \<Rightarrow> trail_spec \<Rightarrow> trail_spec" where
  "spec_append name key data deleted m =
     (let r = \<lparr>rv_seq = ts_count m + 1, rv_key = key, rv_data = data, rv_deleted = deleted\<rparr>
      in m\<lparr>ts_count := ts_count m + 1,
           ts_log := (ts_log m)(name := (ts_log m name)(key := ts_log m name key @ [r]))\<rparr>)"

text \<open>Whether a conditional write goes through, given the last entry of its key.\<close>

definition admits :: "revision option \<Rightarrow> version option \<Rightarrow> bool" where
  "admits newest expected =
     (case expected of
        None \<Rightarrow> (case newest of None \<Rightarrow> True | Some r \<Rightarrow> rv_deleted r)
      | Some v \<Rightarrow> (case newest of None \<Rightarrow> False | Some r \<Rightarrow> memory_version r = v))"

fun spec_step :: "record_op \<Rightarrow> trail_spec \<Rightarrow> trail_spec" where
  "spec_step (Define sch) m = m"
| "spec_step (Append name key data deleted) m = spec_append name key data deleted m"
| "spec_step (Swap name key expected data deleted) m =
     (if admits (last_entry m name key) expected then spec_append name key data deleted m else m)"

definition live_value :: "revision option \<Rightarrow> json option" where
  "live_value newest = Option.bind newest (\<lambda>r. if rv_deleted r then None else Some (rv_data r))"

definition abs_engine :: "engine \<Rightarrow> trail_spec" where
  "abs_engine e = \<lparr>ts_count = en_seq e, ts_log = history_of e\<rparr>"

lemma latest_is_last: "latest_revision e name key = last_entry (abs_engine e) name key"
proof -
  have "latest_of dq key = (if filter (\<lambda>r. rv_key r = key) dq = [] then None
      else Some (last (filter (\<lambda>r. rv_key r = key) dq)))" for dq
    by (induction dq rule: rev_induct) simp_all
  then show ?thesis
    by (auto simp: latest_revision_def last_entry_def abs_engine_def history_of_def split: option.splits)
qed

lemma abs_append:
  "abs_engine (snd (append_record tc name key data deleted e)) =
     spec_append name key data deleted (abs_engine e)"
  by (auto simp: abs_engine_def spec_append_def history_append Let_def fun_eq_iff)

lemma memory_version_eq [simp]:
  "memory_version r = v \<longleftrightarrow> of_int (rv_seq r) = vn_revision v \<and> vn_origin v = ''memory''"
  by (cases v) (auto simp: memory_version_def)

lemma swap_unfold:
  "compare_and_swap tc name key expected data deleted e =
     (if admits (latest_revision e name key) expected then swap_in tc name key data deleted e
      else (case latest_revision e name key of None \<Rightarrow> Inl ''not-found'' | Some r \<Rightarrow> Inr (conflict r), e))"
  by (auto simp: compare_and_swap_def admits_def split: option.split)

lemma snd_swap_in [simp]:
  "snd (swap_in tc name key data deleted e) = snd (append_record tc name key data deleted e)"
  by (simp add: swap_in_def split: prod.split)

lemma abs_define: "define_type sch e = Inr e' \<Longrightarrow> abs_engine e' = abs_engine e"
  by (simp add: abs_engine_def history_of_def fun_eq_iff define_same)

lemma abs_step: "abs_engine (record_step tc op e) = spec_step op (abs_engine e)"
  by (cases op) (auto simp: abs_append abs_define swap_unfold latest_is_last split: sum.split)

lemma abs_run: "abs_engine (record_run tc ops e) = fold spec_step ops (abs_engine e)"
  unfolding record_run_def by (induction ops arbitrary: e) (simp_all add: abs_step)

lemma abs_new [simp]: "abs_engine engine_new = spec_empty" "abs_engine (durable ls) = spec_empty"
  by (simp_all add: abs_engine_def spec_empty_def history_of_def engine_new_def durable_def fun_eq_iff)

lemma current_value: "current e name key = live_value (last_entry (abs_engine e) name key)"
  by (simp add: current_latest latest_is_last live_value_def)

lemma live_keys_sorted_set:
  assumes "engine_ok e"
  shows "live_keys e name = sorted_list_of_set {k. current e name k \<noteq> None}"
proof -
  have "sorted (live_keys e name)" "distinct (live_keys e name)"
    and "set (live_keys e name) = {k. current e name k \<noteq> None}"
    using assms unfolding engine_ok_def by blast+
  then show ?thesis using sorted_list_of_set.idem_if_sorted_distinct by metis
qed

section \<open>A version is spent once\<close>

definition beyond :: "int \<Rightarrow> string \<Rightarrow> string list \<Rightarrow> engine \<Rightarrow> bool" where
  "beyond q name key e \<longleftrightarrow> q \<le> en_seq e \<and> (\<exists>r. latest_revision e name key = Some r \<and> q \<le> rv_seq r)"

lemma beyond_append: "beyond q name key e \<Longrightarrow> beyond q name key (snd (append_record tc n k data deleted e))"
  by (auto simp: beyond_def)

lemma beyond_run: "beyond q name key e \<Longrightarrow> beyond q name key (record_run tc ops e)"
  by (rule record_run_keeps) (simp_all add: beyond_append, simp add: beyond_def define_same latest_define)

definition positive :: "engine \<Rightarrow> bool" where
  "positive e \<longleftrightarrow> 0 \<le> en_seq e \<and> (\<forall>name key r. latest_revision e name key = Some r \<longrightarrow> 0 < rv_seq r)"

lemma positive_append: "positive e \<Longrightarrow> positive (snd (append_record tc n k data deleted e))"
  by (auto simp: positive_def)

lemma positive_new [simp]: "positive engine_new" "positive (durable ls)"
  by (simp_all add: positive_def engine_new_def durable_def latest_revision_def)

lemma positive_run: "positive e \<Longrightarrow> positive (record_run tc ops e)"
  by (rule record_run_keeps) (simp_all add: positive_append, simp add: positive_def define_same latest_define)

lemma latest_bound:
  assumes "engine_ok e" and "latest_revision e name key = Some r"
  shows "rv_seq r \<le> en_seq e"
proof -
  obtain dq where "map_of (en_history e) name = Some dq" "r \<in> set dq" using latest_in [OF assms(2)] by blast
  then show ?thesis using assms(1) unfolding engine_ok_def by blast
qed

lemma word_of_int_inj:
  assumes "0 \<le> a" "a < 2 ^ 64" "0 \<le> b" "b < 2 ^ 64" and "(word_of_int a :: 64 word) = word_of_int b"
  shows "a = b"
proof -
  have "uint (word_of_int a :: 64 word) = a" "uint (word_of_int b :: 64 word) = b"
    using assms(1-4) by (simp_all add: uint_word_of_int_eq take_bit_int_eq_self)
  with assms(5) show ?thesis by metis
qed

lemma spent_version:
  assumes "engine_ok e" "positive e" "admits (latest_revision e name key) (Some v)"
    and "e1 = snd (append_record tc name key data deleted e)"
    and "en_seq (record_run tc ops e1) < 2 ^ 64"
  shows "\<not> admits (latest_revision (record_run tc ops e1) name key) (Some v)"
proof
  assume again: "admits (latest_revision (record_run tc ops e1) name key) (Some v)"
  let ?e = "record_run tc ops e1"
  obtain r where r: "latest_revision e name key = Some r" "word_of_int (rv_seq r) = vn_revision v"
    using assms(3) by (auto simp: admits_def split: option.splits)
  obtain r' where r': "latest_revision ?e name key = Some r'" "word_of_int (rv_seq r') = vn_revision v"
    using again by (auto simp: admits_def split: option.splits)
  have b: "0 < rv_seq r" "rv_seq r \<le> en_seq e"
    using assms(2) r(1) latest_bound [OF assms(1) r(1)] unfolding positive_def by blast+
  have "beyond (en_seq e + 1) name key e1" unfolding assms(4) by (simp add: beyond_def)
  then have "beyond (en_seq e + 1) name key ?e" by (rule beyond_run)
  then have b': "en_seq e + 1 \<le> rv_seq r'" using r'(1) by (simp add: beyond_def)
  have "engine_ok ?e" unfolding assms(4) by (rule record_run_ok [OF engine_ok_append [OF assms(1)]])
  then have "rv_seq r' < 2 ^ 64" using latest_bound r'(1) assms(5) by fastforce
  then have "rv_seq r = rv_seq r'" using word_of_int_inj [of "rv_seq r" "rv_seq r'"] b b' r(2) r'(2) by simp
  then show False using b b' by simp
qed

end
