(* ===== verification/RecordProps.thy ===== *)
theory RecordProps
  imports Records
begin

text \<open>
  The properties of the record engine (\<open>Records\<close>): it implements one log per key, its conditional
  writes exclude one another, and its file restores it. \<open>plain_trail\<close> is a concrete text for
  persisted revisions that loses nothing.
\<close>

section \<open>A concrete trail\<close>

text \<open>A prefix code: numbers in unary, lists and strings behind their length, a tag per constructor.\<close>

definition enc_nat :: "nat \<Rightarrow> string" where
  "enc_nat n = replicate n CHR ''1'' @ ''0''"

fun dec_nat :: "string \<Rightarrow> (nat \<times> string) option" where
  "dec_nat [] = None"
| "dec_nat (c # s) =
     (if c = CHR ''1'' then map_option (\<lambda>(n, t). (Suc n, t)) (dec_nat s)
      else if c = CHR ''0'' then Some (0, s) else None)"

lemma dec_enc_nat [simp]: "dec_nat (enc_nat n @ s) = Some (n, s)"
  by (induction n) (simp_all add: enc_nat_def)

definition enc_int :: "int \<Rightarrow> string" where
  "enc_int i = enc_nat (if i < 0 then 1 else 0) @ enc_nat (nat \<bar>i\<bar>)"

definition dec_int :: "string \<Rightarrow> (int \<times> string) option" where
  "dec_int s = Option.bind (dec_nat s) (\<lambda>(sign, t). Option.bind (dec_nat t) (\<lambda>(n, u).
     Some (if sign = 0 then int n else - int n, u)))"

lemma dec_enc_int [simp]: "dec_int (enc_int i @ s) = Some (i, s)"
  by (simp add: dec_int_def enc_int_def)

fun dec_many :: "(string \<Rightarrow> ('a \<times> string) option) \<Rightarrow> nat \<Rightarrow> string \<Rightarrow> ('a list \<times> string) option" where
  "dec_many f 0 s = Some ([], s)"
| "dec_many f (Suc n) s = Option.bind (f s) (\<lambda>(x, t). map_option (\<lambda>(xs, u). (x # xs, u)) (dec_many f n t))"

lemma dec_many_enc:
  assumes "\<And>x t. x \<in> set xs \<Longrightarrow> f (enc x @ t) = Some (x, t)"
  shows "dec_many f (length xs) (concat (map enc xs) @ s) = Some (xs, s)"
  using assms by (induction xs) simp_all

definition enc_list :: "('a \<Rightarrow> string) \<Rightarrow> 'a list \<Rightarrow> string" where
  "enc_list enc xs = enc_nat (length xs) @ concat (map enc xs)"

definition dec_list :: "(string \<Rightarrow> ('a \<times> string) option) \<Rightarrow> string \<Rightarrow> ('a list \<times> string) option" where
  "dec_list f s = Option.bind (dec_nat s) (\<lambda>(n, t). dec_many f n t)"

lemma dec_enc_list:
  assumes "\<And>x t. x \<in> set xs \<Longrightarrow> f (enc x @ t) = Some (x, t)"
  shows "dec_list f (enc_list enc xs @ s) = Some (xs, s)"
  using dec_many_enc [of xs f enc s] assms by (simp add: dec_list_def enc_list_def)

lemma enc_list_cong [fundef_cong]:
  "xs = ys \<Longrightarrow> (\<And>x. x \<in> set ys \<Longrightarrow> f x = g x) \<Longrightarrow> enc_list f xs = enc_list g ys"
  by (simp add: enc_list_def cong: map_cong)

definition enc_str :: "string \<Rightarrow> string" where
  "enc_str s = enc_list (\<lambda>c. [c]) s"

definition dec_str :: "string \<Rightarrow> (string \<times> string) option" where
  "dec_str s = dec_list (\<lambda>t. case t of [] \<Rightarrow> None | c # u \<Rightarrow> Some (c, u)) s"

lemma dec_enc_str [simp]: "dec_str (enc_str s @ t) = Some (s, t)"
  unfolding dec_str_def enc_str_def by (rule dec_enc_list) simp

fun enc_json :: "json \<Rightarrow> string" where
  "enc_json JNull = enc_nat 0"
| "enc_json (JBool b) = enc_nat (if b then 1 else 2)"
| "enc_json (JInt i) = enc_nat 3 @ enc_int i"
| "enc_json (JFloat w) = enc_nat 4 @ enc_int (uint w)"
| "enc_json (JStr s) = enc_nat 5 @ enc_str s"
| "enc_json (JArr xs) = enc_nat 6 @ enc_list enc_json xs"
| "enc_json (JObj fs) = enc_nat 7 @ enc_list (\<lambda>(k, v). enc_str k @ enc_json v) fs"

text \<open>The fuel bounds the nesting; a text is deep enough for its own nesting.\<close>

fun dec_json :: "nat \<Rightarrow> string \<Rightarrow> (json \<times> string) option" where
  "dec_json 0 s = None"
| "dec_json (Suc d) s = Option.bind (dec_nat s) (\<lambda>(tag, t).
     if tag = 0 then Some (JNull, t)
     else if tag = 1 then Some (JBool True, t)
     else if tag = 2 then Some (JBool False, t)
     else if tag = 3 then map_option (\<lambda>(i, u). (JInt i, u)) (dec_int t)
     else if tag = 4 then map_option (\<lambda>(i, u). (JFloat (of_int i), u)) (dec_int t)
     else if tag = 5 then map_option (\<lambda>(s, u). (JStr s, u)) (dec_str t)
     else if tag = 6 then map_option (\<lambda>(xs, u). (JArr xs, u)) (dec_list (dec_json d) t)
     else map_option (\<lambda>(fs, u). (JObj fs, u)) (dec_list (\<lambda>t. Option.bind (dec_str t) (\<lambda>(k, u).
       map_option (\<lambda>(v, w). ((k, v), w)) (dec_json d u))) t))"

lemma length_enc_list: "x \<in> set xs \<Longrightarrow> length (enc x) < length (enc_list enc xs)"
proof -
  assume "x \<in> set xs"
  then have "length (enc x) \<le> length (concat (map enc xs))"
    by (auto simp: length_concat intro: member_le_sum_list)
  then show ?thesis by (simp add: enc_list_def enc_nat_def)
qed

lemma enc_nat_room: "length (enc_nat n @ r) \<le> d \<Longrightarrow> \<exists>d'. d = Suc d' \<and> length r \<le> d'"
  by (cases d) (simp_all add: enc_nat_def)

lemma dec_enc_json: "length (enc_json v) \<le> d \<Longrightarrow> dec_json d (enc_json v @ s) = Some (v, s)"
proof (induction v arbitrary: d s)
  case (JArr xs)
  then obtain d' where d: "d = Suc d'" "length (enc_list enc_json xs) \<le> d'"
    using enc_nat_room [of 6 "enc_list enc_json xs" d] by auto
  have "dec_list (dec_json d') (enc_list enc_json xs @ s) = Some (xs, s)"
  proof (rule dec_enc_list)
    fix x t assume x: "x \<in> set xs"
    then have "length (enc_json x) \<le> d'" using length_enc_list [OF x, of enc_json] d(2) by simp
    then show "dec_json d' (enc_json x @ t) = Some (x, t)" using JArr.IH x by blast
  qed
  then show ?case by (simp add: d(1))
next
  case (JObj fs)
  then obtain d' where d: "d = Suc d'" "length (enc_list (\<lambda>(k, v). enc_str k @ enc_json v) fs) \<le> d'"
    using enc_nat_room [of 7 "enc_list (\<lambda>(k, v). enc_str k @ enc_json v) fs" d] by auto
  let ?enc = "\<lambda>(k, v). enc_str k @ enc_json v"
  have "dec_list (\<lambda>t. Option.bind (dec_str t) (\<lambda>(k, u).
       map_option (\<lambda>(v, w). ((k, v), w)) (dec_json d' u))) (enc_list ?enc fs @ s) = Some (fs, s)"
  proof (rule dec_enc_list)
    fix x t assume x: "x \<in> set fs"
    obtain k v where kv: "x = (k, v)" by (cases x)
    have "length (enc_json v) \<le> d'" using length_enc_list [OF x, of ?enc] d(2) kv by simp
    then have "dec_json d' (enc_json v @ t) = Some (v, t)" using JObj.IH x kv by fastforce
    then show "Option.bind (dec_str (?enc x @ t)) (\<lambda>(k, u).
       map_option (\<lambda>(v, w). ((k, v), w)) (dec_json d' u)) = Some (x, t)" by (simp add: kv)
  qed
  then show ?case by (simp add: d(1))
next
  case JNull
  then show ?case using enc_nat_room [of 0 "[]" d] by auto
next
  case (JBool b)
  then show ?case using enc_nat_room [of "if b then 1 else 2" "[]" d] by auto
next
  case (JInt i)
  then show ?case using enc_nat_room [of 3 "enc_int i" d] by auto
next
  case (JFloat w)
  then show ?case using enc_nat_room [of 4 "enc_int (uint w)" d] by auto
next
  case (JStr t)
  then show ?case using enc_nat_room [of 5 "enc_str t" d] by auto
qed

definition plain_write :: "persisted_revision \<Rightarrow> string" where
  "plain_write p =
     enc_nat (length (enc_json (pe_data p))) @ enc_str (pe_type p) @ enc_int (pe_seq p) @
     enc_list enc_str (pe_key p) @ enc_nat (if pe_deleted p then 1 else 0) @ enc_json (pe_data p)"

definition plain_read :: "string \<Rightarrow> persisted_revision option" where
  "plain_read s =
     Option.bind (dec_nat s) (\<lambda>(d, s). Option.bind (dec_str s) (\<lambda>(ty, s). Option.bind (dec_int s) (\<lambda>(q, s).
     Option.bind (dec_list dec_str s) (\<lambda>(k, s). Option.bind (dec_nat s) (\<lambda>(del, s).
     Option.bind (dec_json d s) (\<lambda>(v, s).
       Some \<lparr>pe_type = ty, pe_seq = q, pe_key = k, pe_data = v, pe_deleted = (del = 1)\<rparr>))))))"

definition plain_trail :: trail_codec where
  "plain_trail = \<lparr>tc_write = plain_write, tc_read = plain_read\<rparr>"

lemma plain_read_write [simp]: "plain_read (plain_write p) = Some p"
proof -
  have "dec_list dec_str (enc_list enc_str k @ s) = Some (k, s)" for k s
    by (rule dec_enc_list) simp
  moreover have "dec_json (length (enc_json v)) (enc_json v) = Some (v, [])" for v
    using dec_enc_json [of v _ "[]"] by simp
  ultimately show ?thesis by (simp add: plain_read_def plain_write_def)
qed


section \<open>Properties\<close>

text \<open>
  C33. The engine implements one log per record type and key. After any sequence of schema
  definitions, appends and conditional writes, its history is the log of each key in the abstract
  run, the current value is the last entry unless that is a tombstone, the live keys are those with
  a value, in order, and a conditional write goes through exactly when the last entry admits it.
\<close>

theorem engine_implements_logs:
  fixes tc ops
  defines "e \<equiv> record_run tc ops engine_new" and "m \<equiv> fold spec_step ops spec_empty"
  shows "abs_engine e = m \<and> history_of e name key = ts_log m name key \<and>
    current e name key = live_value (last_entry m name key) \<and>
    live_keys e name = sorted_list_of_set {k. live_value (last_entry m name k) \<noteq> None} \<and>
    ((\<exists>c. fst (compare_and_swap tc name key expected data deleted e) = Inr c \<and> cs_applied c) \<longleftrightarrow>
       admits (last_entry m name key) expected)"
proof -
  have m: "abs_engine e = m" using abs_run [of tc ops engine_new] by (simp add: e_def m_def)
  have ok: "engine_ok e" unfolding e_def by (rule record_run_ok) simp
  have "history_of e name key = ts_log m name key" using m by (auto simp: abs_engine_def)
  moreover have "(\<exists>c. fst (compare_and_swap tc name key expected data deleted e) = Inr c \<and> cs_applied c) \<longleftrightarrow>
      admits (last_entry m name key) expected"
    unfolding swap_unfold latest_is_last m
    by (auto simp: swap_in_def conflict_def split: option.split prod.split)
  ultimately show ?thesis using m live_keys_sorted_set [OF ok, of name] by (simp add: current_value)
qed

text \<open>
  C34. A version is spent once. When a conditional write against a version has gone through, no later
  one against the same version does, whatever was written in between: it changes nothing and reports
  the value that is there. (The bound keeps the 64-bit version numbers apart.)
\<close>

theorem version_spent_once:
  assumes "compare_and_swap tc name key (Some v) data deleted (record_run tc ops engine_new) = (Inr c, e1)"
    and "cs_applied c" and "en_seq (record_run tc later e1) < 2 ^ 64"
  shows "\<exists>c'. compare_and_swap tc name key (Some v) data' deleted' (record_run tc later e1) =
      (Inr c', record_run tc later e1) \<and> \<not> cs_applied c' \<and>
    cs_data c' = current (record_run tc later e1) name key"
proof -
  let ?e = "record_run tc ops engine_new" and ?e2 = "record_run tc later e1"
  have ok: "engine_ok ?e" "positive ?e" by (simp_all add: record_run_ok positive_run)
  have adm: "admits (latest_revision ?e name key) (Some v)"
    using assms(1,2) unfolding swap_unfold by (auto simp: conflict_def split: if_splits option.splits)
  then have e1: "e1 = snd (append_record tc name key data deleted ?e)"
    using arg_cong [OF assms(1), of snd] unfolding swap_unfold by simp
  have no: "\<not> admits (latest_revision ?e2 name key) (Some v)"
    by (rule spent_version [OF ok adm e1 assms(3)])
  have "beyond (en_seq ?e + 1) name key e1" unfolding e1 by (simp add: beyond_def)
  then have "beyond (en_seq ?e + 1) name key ?e2" by (rule beyond_run)
  then obtain r where "latest_revision ?e2 name key = Some r" unfolding beyond_def by blast
  then show ?thesis using no by (simp add: swap_unfold conflict_def current_latest)
qed

definition demo_ops :: "record_op list" where
  "demo_ops = [Append ''t'' [''k''] (JInt 1) False]"

theorem version_spent_once_witness:
  "let v = Some \<lparr>vn_revision = 1, vn_origin = ''memory''\<rparr>; e = record_run plain_trail demo_ops engine_new;
       e1 = snd (compare_and_swap plain_trail ''t'' [''k''] v (JInt 2) False e)
   in current e1 ''t'' [''k''] = Some (JInt 2) \<and>
      (\<exists>c'. compare_and_swap plain_trail ''t'' [''k''] v (JInt 3) False e1 = (Inr c', e1) \<and> \<not> cs_applied c')"
proof -
  let ?v = "\<lparr>vn_revision = 1, vn_origin = ''memory''\<rparr>" and ?e = "record_run plain_trail demo_ops engine_new"
  let ?s = "compare_and_swap plain_trail ''t'' [''k''] (Some ?v) (JInt 2) False ?e"
  have cur: "current (snd ?s) ''t'' [''k''] = Some (JInt 2)" by code_simp
  have "case fst ?s of Inl _ \<Rightarrow> False | Inr c \<Rightarrow> cs_applied c" by code_simp
  then obtain c where "fst ?s = Inr c" "cs_applied c" by (cases "fst ?s") auto
  then have c: "?s = (Inr c, snd ?s)" "cs_applied c" by (simp_all add: prod_eq_iff)
  have "en_seq (record_run plain_trail [] (snd ?s)) < 2 ^ 64" by code_simp
  from version_spent_once [OF c this, of "JInt 3" False] cur show ?thesis by (auto simp: record_run_def Let_def)
qed



end
