(* ===== verification/Adapter.thy ===== *)
theory Adapter
  imports Records Queue
begin

text \<open>
  \<open>src/src/adapter.rs\<close>: the second store, over the record engine. \<open>struct Inner\<close> is a record; serde's
  text of the trail is its last field. A row is a JSON object, read field by field as the code does.
  Assigning a field of a value that is no object panics in the source; every record the adapter
  writes is an object. The lock serializes the operations, so each is one function from the state
  to a result and the next state.
\<close>

abbreviation (input) ISSUE :: string where "ISSUE \<equiv> ''issue''"
abbreviation (input) PROJECT :: string where "PROJECT \<equiv> ''project''"
abbreviation (input) FOLDER :: string where "FOLDER \<equiv> ''folder''"
abbreviation (input) PROJECT_FOLDER :: string where "PROJECT_FOLDER \<equiv> ''project_folder''"
abbreviation (input) DEPENDENCY :: string where "DEPENDENCY \<equiv> ''dependency''"
abbreviation (input) REMOTE_DEP :: string where "REMOTE_DEP \<equiv> ''remote_dep''"
abbreviation (input) OUTBOUND_EVENT :: string where "OUTBOUND_EVENT \<equiv> ''outbound_event''"
abbreviation (input) MARBLES_EVENT :: string where "MARBLES_EVENT \<equiv> ''marbles_event''"
abbreviation (input) STORE_META :: string where "STORE_META \<equiv> ''store_meta''"

definition schema_of :: "string \<Rightarrow> string list \<Rightarrow> record_schema" where
  "schema_of data key =
     \<lparr>rs_name = data, rs_key = key,
      rs_columns = [\<lparr>co_name = ''id'', co_ty = TextColumn\<rparr>, \<lparr>co_name = ''seq'', co_ty = IntColumn\<rparr>,
        \<lparr>co_name = ''deleted'', co_ty = BoolColumn\<rparr>, \<lparr>co_name = ''data'', co_ty = JsonColumn\<rparr>],
      rs_data_column = ''data''\<rparr>"

definition schemas :: "record_schema list" where
  "schemas =
     [schema_of ISSUE [''id''], schema_of PROJECT [''slug''], schema_of FOLDER [''slug''],
      schema_of PROJECT_FOLDER [''project''], schema_of DEPENDENCY [''child'', ''parent''],
      schema_of REMOTE_DEP [''child'', ''canonical_ref''], schema_of OUTBOUND_EVENT [''seq''],
      schema_of MARBLES_EVENT [''seq''], schema_of STORE_META [''key'']]"

section \<open>Reading and building JSON\<close>

text \<open>\<open>data[key]\<close> is null where the key is missing; \<open>json!\<close> collects the fields into a map.\<close>

definition at_key :: "json \<Rightarrow> string \<Rightarrow> json" where
  "at_key v k = or_else (json_get v k) JNull"

definition str_at :: "json \<Rightarrow> string \<Rightarrow> string" where
  "str_at v k = or_else (as_str (at_key v k)) []"

definition int_at :: "json \<Rightarrow> string \<Rightarrow> int" where
  "int_at v k = or_else (as_i64 (at_key v k)) 0"

definition set_key :: "string \<Rightarrow> json \<Rightarrow> json \<Rightarrow> json" where
  "set_key k x v = (case v of JObj m \<Rightarrow> JObj (bt_insert k x m) | _ \<Rightarrow> JObj [(k, x)])"

definition or_set :: "string \<Rightarrow> json \<Rightarrow> json \<Rightarrow> json" where
  "or_set k x v = (if json_get v k = None then set_key k x v else v)"

definition obj :: "(string \<times> json) list \<Rightarrow> json" where
  "obj entries = JObj (bt_collect entries)"

definition jstr_opt :: "string option \<Rightarrow> json" where
  "jstr_opt v = (case v of None \<Rightarrow> JNull | Some s \<Rightarrow> JStr s)"

definition jint_opt :: "int option \<Rightarrow> json" where
  "jint_opt v = (case v of None \<Rightarrow> JNull | Some i \<Rightarrow> JInt i)"

definition is_number :: "json \<Rightarrow> bool" where
  "is_number v = (case v of JInt _ \<Rightarrow> True | JFloat _ \<Rightarrow> True | _ \<Rightarrow> False)"

text \<open>serde's reading of \<open>Vec<String>\<close> and \<open>Vec<Evidence>\<close>; a struct also reads from an array of its fields.\<close>

definition strings_of :: "json \<Rightarrow> string list option" where
  "strings_of v = (case v of JArr xs \<Rightarrow> those (map as_str xs) | _ \<Rightarrow> None)"

definition evidence_json :: "evidence \<Rightarrow> json" where
  "evidence_json e = obj [(''kind'', JStr (ev_kind e)), (''value'', JStr (ev_value e))]"

definition evidence_of :: "json \<Rightarrow> evidence option" where
  "evidence_of v =
     (case v of
        JObj m \<Rightarrow> (case (Option.bind (map_of m ''kind'') as_str, Option.bind (map_of m ''value'') as_str) of
          (Some k, Some x) \<Rightarrow> Some \<lparr>ev_kind = k, ev_value = x\<rparr> | _ \<Rightarrow> None)
      | JArr [JStr k, JStr x] \<Rightarrow> Some \<lparr>ev_kind = k, ev_value = x\<rparr>
      | _ \<Rightarrow> None)"

definition evidences_of :: "json \<Rightarrow> evidence list option" where
  "evidences_of v = (case v of JArr xs \<Rightarrow> those (map evidence_of xs) | _ \<Rightarrow> None)"

definition issue_to_json :: "issue \<Rightarrow> json" where
  "issue_to_json v = obj
     [(''id'', JStr (i_id v)), (''project'', JStr (i_project v)), (''title'', JStr (i_title v)),
      (''description'', JStr (i_description v)), (''status'', JStr (i_status v)),
      (''priority'', JInt (i_priority v)), (''issue_type'', JStr (i_issue_type v)),
      (''labels'', JArr (map JStr (i_labels v))), (''parent'', jstr_opt (i_parent v)),
      (''assignee'', jstr_opt (i_assignee v)), (''actor_kind'', jstr_opt (i_actor_kind v)),
      (''expires_at'', jint_opt (i_expires_at v)), (''available_at'', jint_opt (i_available_at v)),
      (''created_at'', JInt (i_created_at v)), (''updated_at'', JInt (i_updated_at v)),
      (''closed_at'', jint_opt (i_closed_at v)), (''metadata'', i_metadata v),
      (''external_ref'', jstr_opt (i_external_ref v)),
      (''evidence'', JArr (map evidence_json (i_evidence v)))]"

section \<open>The state\<close>

record inner =
  inner_engine :: engine
  inner_seq :: int
  inner_policy :: policy
  inner_store_id :: string
  inner_week :: work_week
  inner_codec :: trail_codec

definition put_row :: "string \<Rightarrow> string list \<Rightarrow> json \<Rightarrow> inner \<Rightarrow> inner" where
  "put_row name key data a =
     a\<lparr>inner_engine := snd (append_record (inner_codec a) name key data False (inner_engine a))\<rparr>"

definition tombstone :: "string \<Rightarrow> string list \<Rightarrow> inner \<Rightarrow> inner" where
  "tombstone name key a =
     a\<lparr>inner_engine := snd (append_record (inner_codec a) name key JNull True (inner_engine a))\<rparr>"

definition row_at :: "inner \<Rightarrow> string \<Rightarrow> string list \<Rightarrow> json option" where
  "row_at a name key = current (inner_engine a) name key"

definition row_keys :: "inner \<Rightarrow> string \<Rightarrow> string list list" where
  "row_keys a name = live_keys (inner_engine a) name"

definition seed_meta :: "inner \<Rightarrow> inner" where
  "seed_meta a = put_row STORE_META [inner_store_id a] (obj [(''value'', JStr (inner_store_id a))]) a"

fun define_all :: "record_schema list \<Rightarrow> engine \<Rightarrow> define_error + engine" where
  "define_all [] e = Inr e"
| "define_all (sch # rest) e =
     (case define_type sch e of Inl err \<Rightarrow> Inl err | Inr e' \<Rightarrow> define_all rest e')"

definition with_engine :: "inner \<Rightarrow> define_error + inner" where
  "with_engine a =
     (case define_all schemas (inner_engine a) of
        Inl err \<Rightarrow> Inl err
      | Inr e \<Rightarrow> Inr (seed_meta (a\<lparr>inner_engine := e, inner_seq := en_seq e\<rparr>)))"

definition fresh_inner :: "trail_codec \<Rightarrow> string \<Rightarrow> engine \<Rightarrow> inner" where
  "fresh_inner tc store_id e =
     \<lparr>inner_engine = e, inner_seq = 0, inner_policy = default_policy, inner_store_id = store_id,
      inner_week = default_week, inner_codec = tc\<rparr>"

definition open_adapter :: "trail_codec \<Rightarrow> string \<Rightarrow> define_error + inner" where
  "open_adapter tc store_id = with_engine (fresh_inner tc store_id engine_new)"

text \<open>\<open>open_file\<close> on the trail at a path whose file name is the store id; \<open>None\<close> is a trail that does not parse.\<close>

definition open_file :: "trail_codec \<Rightarrow> string \<Rightarrow> string list option \<Rightarrow> (define_error + inner) option" where
  "open_file tc store_id file =
     map_option (\<lambda>e. with_engine (fresh_inner tc store_id e)) (load_trail tc file)"

definition load_issue :: "inner \<Rightarrow> string \<Rightarrow> json option" where
  "load_issue a i = row_at a ISSUE [i]"

definition load_project :: "inner \<Rightarrow> string \<Rightarrow> json option" where
  "load_project a slug = row_at a PROJECT [slug]"

definition load_folder :: "inner \<Rightarrow> string \<Rightarrow> json option" where
  "load_folder a slug = row_at a FOLDER [slug]"

text \<open>The edges \<open>(child, parent)\<close> in key order.\<close>

definition edge_of :: "string list \<Rightarrow> (string \<times> string) option" where
  "edge_of key = (case key of c # p # _ \<Rightarrow> Some (c, p) | _ \<Rightarrow> None)"

definition edges_of :: "inner \<Rightarrow> (string \<times> string) list" where
  "edges_of a = List.map_filter edge_of (row_keys a DEPENDENCY)"

definition status_of :: "inner \<Rightarrow> string \<Rightarrow> string option" where
  "status_of a i = Option.bind (load_issue a i) (\<lambda>d. as_str (at_key d ''status''))"

definition unfinished :: "inner \<Rightarrow> string \<Rightarrow> bool" where
  "unfinished a i \<longleftrightarrow> (case status_of a i of None \<Rightarrow> False | Some st \<Rightarrow> \<not> is_terminal st)"

definition parents_of :: "inner \<Rightarrow> string \<Rightarrow> string list" where
  "parents_of a i = map snd (filter (\<lambda>d. fst d = i) (edges_of a))"

definition dependents_of :: "inner \<Rightarrow> string \<Rightarrow> string list" where
  "dependents_of a i = map fst (filter (\<lambda>d. snd d = i) (edges_of a))"

definition view_of :: "inner \<Rightarrow> string \<Rightarrow> json \<Rightarrow> issue" where
  "view_of a i d =
     \<lparr>i_id = i, i_title = str_at d ''title'', i_description = str_at d ''description'',
      i_status = str_at d ''status'', i_priority = int_at d ''priority'',
      i_issue_type = str_at d ''issue_type'', i_labels = or_else (strings_of (at_key d ''labels'')) [],
      i_metadata = at_key d ''metadata'', i_external_ref = as_str (at_key d ''external_ref''),
      i_dependency_count = int (length (filter (unfinished a) (parents_of a i))),
      i_dependent_count = int (length (filter (unfinished a) (dependents_of a i))),
      i_dependencies = map (\<lambda>p. \<lparr>depends_on_id = Some p\<rparr>) (sort (parents_of a i)),
      i_evidence = or_else (evidences_of (at_key d ''evidence'')) [],
      i_parent = as_str (at_key d ''parent''), i_assignee = as_str (at_key d ''assignee''),
      i_actor_kind = as_str (at_key d ''actor_kind''), i_expires_at = as_i64 (at_key d ''expires_at''),
      i_available_at = as_i64 (at_key d ''available_at''), i_closed_at = as_i64 (at_key d ''closed_at''),
      i_created_at = int_at d ''created_at'', i_updated_at = int_at d ''updated_at'',
      i_project = str_at d ''project''\<rparr>"

definition ad_row_to_issue :: "inner \<Rightarrow> string \<Rightarrow> issue option" where
  "ad_row_to_issue a i = map_option (view_of a i) (load_issue a i)"

definition save_issue :: "issue \<Rightarrow> inner \<Rightarrow> inner" where
  "save_issue v a = put_row ISSUE [i_id v] (issue_to_json v) a"

definition issue_version :: "inner \<Rightarrow> string \<Rightarrow> error + version" where
  "issue_version a i =
     (case version_of (inner_engine a) ISSUE [i] of None \<Rightarrow> Inl (NotFound i) | Some v \<Rightarrow> Inr v)"

text \<open>An engine error becomes \<open>Error::Bad\<close>; the only one is an unknown key.\<close>

definition save_issue_cas :: "issue \<Rightarrow> version \<Rightarrow> inner \<Rightarrow> (string + bool) \<times> inner" where
  "save_issue_cas v expected a =
     (case compare_and_swap (inner_codec a) ISSUE [i_id v] (Some expected) (issue_to_json v) False (inner_engine a) of
        (Inl err, e) \<Rightarrow> (Inl err, a\<lparr>inner_engine := e\<rparr>)
      | (Inr c, e) \<Rightarrow> (Inr (cs_applied c), a\<lparr>inner_engine := e\<rparr>))"

definition marbles_event_json :: "string \<Rightarrow> time \<Rightarrow> string \<Rightarrow> string \<Rightarrow> string \<Rightarrow> json" where
  "marbles_event_json i ts actor event detail = obj
     [(''issue_id'', JStr i), (''ts'', JInt ts), (''actor'', JStr actor), (''event'', JStr event),
      (''detail'', JStr detail)]"

definition outbound_json :: "int \<Rightarrow> string \<Rightarrow> string \<Rightarrow> string \<Rightarrow> time \<Rightarrow> string \<Rightarrow> json" where
  "outbound_json seq store_id i project ts event = obj
     [(''seq'', JInt seq), (''store_id'', JStr store_id), (''issue_id'', JStr i),
      (''project'', JStr project), (''occurred_at'', JInt ts), (''event'', JStr event),
      (''next_attempt_at'', JInt ts), (''delivered_at'', JNull), (''attempts'', JInt 0),
      (''last_error'', JNull)]"

definition ad_log_event :: "string \<Rightarrow> time \<Rightarrow> string \<Rightarrow> string \<Rightarrow> string \<Rightarrow> inner \<Rightarrow> inner" where
  "ad_log_event i ts actor event detail a =
     (let seq = inner_seq a + 1;
          a1 = put_row MARBLES_EVENT [show_int seq] (marbles_event_json i ts actor event detail)
                 (a\<lparr>inner_seq := seq\<rparr>)
      in case load_issue a1 i of
           None \<Rightarrow> a1
         | Some d \<Rightarrow> put_row OUTBOUND_EVENT [show_int seq]
             (outbound_json seq (inner_store_id a1) i (str_at d ''project'') ts event) a1)"

text \<open>The loop of \<open>reachable\<close>; the head of the list is the top of the stack.\<close>

function ad_walk :: "(string \<times> string) list \<Rightarrow> string \<Rightarrow> string list \<Rightarrow> string list \<Rightarrow> bool" where
  "ad_walk E target [] seen = False"
| "ad_walk E target (node # stack) seen =
     (if node \<in> set seen then ad_walk E target stack seen
      else if target \<in> set (succs E node) then True
      else ad_walk E target (rev (succs E node) @ stack) (node # seen))"
  by pat_completeness auto
termination
proof (relation "measures
    [\<lambda>(E, target, stack, seen). card (snd ` set E \<union> set stack - set seen),
     \<lambda>(E, target, stack, seen). length stack]")
  fix E :: "(string \<times> string) list" and target node stack and seen :: "string list"
  assume "node \<in> set seen"
  then show "((E, target, stack, seen), (E, target, node # stack, seen)) \<in> measures
      [\<lambda>(E, target, stack, seen). card (snd ` set E \<union> set stack - set seen),
       \<lambda>(E, target, stack, seen). length stack]"
    by (simp add: insert_Diff_if)
next
  fix E :: "(string \<times> string) list" and target node stack and seen :: "string list"
  assume n: "node \<notin> set seen"
  let ?kids = "rev (succs E node)"
  have "snd ` set E \<union> set (?kids @ stack) - set (node # seen) \<subset>
      snd ` set E \<union> set (node # stack) - set seen"
    using n by (force simp: set_succs)
  then have "card (snd ` set E \<union> set (?kids @ stack) - set (node # seen)) <
      card (snd ` set E \<union> set (node # stack) - set seen)"
    by (simp add: psubset_card_mono)
  then show "((E, target, ?kids @ stack, node # seen), (E, target, node # stack, seen)) \<in> measures
      [\<lambda>(E, target, stack, seen). card (snd ` set E \<union> set stack - set seen),
       \<lambda>(E, target, stack, seen). length stack]"
    by simp
qed simp

definition ad_reachable :: "inner \<Rightarrow> string \<Rightarrow> string \<Rightarrow> bool" where
  "ad_reachable a start target \<longleftrightarrow> start = target \<or> ad_walk (edges_of a) target [start] []"

definition ad_prefix_for :: "inner \<Rightarrow> string \<Rightarrow> error + string" where
  "ad_prefix_for a project =
     (case load_project a project of None \<Rightarrow> Inl (NoProject project) | Some d \<Rightarrow> Inr (str_at d ''prefix''))"

definition project_of :: "inner \<Rightarrow> string \<Rightarrow> error + string" where
  "project_of a i =
     (case load_issue a i of None \<Rightarrow> Inl (NotFound i) | Some d \<Rightarrow> Inr (str_at d ''project''))"

section \<open>Projects and folders\<close>

definition ad_ensure_project :: "string \<Rightarrow> string \<Rightarrow> string \<Rightarrow> time \<Rightarrow> inner \<Rightarrow> (error + unit) \<times> inner" where
  "ad_ensure_project slug base prefix ts a =
     (let data = or_else (load_project a slug)
            (obj [(''slug'', JStr slug), (''prefix'', JStr prefix), (''created_at'', JInt ts)]);
          data = set_key ''root'' (JStr base) (set_key ''slug'' (JStr slug) data);
          data = or_set ''created_at'' (JInt ts) (or_set ''prefix'' (JStr prefix) data)
      in (Inr (), put_row PROJECT [slug] data a))"

definition ad_projects :: "inner \<Rightarrow> (string \<times> string \<times> string) list" where
  "ad_projects a = sort (List.map_filter (\<lambda>k. case k of [] \<Rightarrow> None | slug # _ \<Rightarrow>
     map_option (\<lambda>d. (slug, str_at d ''root'', str_at d ''prefix'')) (load_project a slug)) (row_keys a PROJECT))"

definition parent_of :: "inner \<Rightarrow> string \<Rightarrow> string option" where
  "parent_of a slug = Option.bind (load_folder a slug) (\<lambda>d. as_str (at_key d ''parent''))"

text \<open>The walk up the parent chain: whether it meets \<open>slug\<close>; \<open>None\<close> when it never ends.\<close>

partial_function (option) climbs :: "inner \<Rightarrow> string \<Rightarrow> string option \<Rightarrow> bool option" where
  "climbs a slug node =
     (case node of
        None \<Rightarrow> Some False
      | Some n \<Rightarrow> if n = slug then Some True else climbs a slug (parent_of a n))"

definition ad_folder_problem :: "inner \<Rightarrow> string \<Rightarrow> string option \<Rightarrow> error option option" where
  "ad_folder_problem a slug parent =
     (case parent of
        None \<Rightarrow> Some None
      | Some p \<Rightarrow>
          if p = slug then Some (Some (Bad FolderOwnParent))
          else if load_folder a p = None then Some (Some (Bad (NoFolder p)))
          else map_option (\<lambda>met. if met then Some (Bad (FolderDescendant slug)) else None)
                 (climbs a slug (parent_of a p)))"

definition ad_ensure_folder :: "folder \<Rightarrow> time \<Rightarrow> inner \<Rightarrow> ((error + unit) \<times> inner) option" where
  "ad_ensure_folder f ts a =
     (let slug = trim (fo_slug f); name = trim (fo_name f); parent = nonempty_trimmed (fo_parent f) in
      if slug = [] then Some (Inl (Bad FolderSlugEmpty), a)
      else if name = [] then Some (Inl (Bad FolderNameEmpty), a)
      else map_option (\<lambda>problem. case problem of
          Some e \<Rightarrow> (Inl e, a)
        | None \<Rightarrow>
            (let data = or_else (load_folder a slug)
                   (obj [(''slug'', JStr slug), (''name'', JStr name), (''parent'', JNull), (''created_at'', JInt ts)]);
                 data = set_key ''parent'' (jstr_opt parent) (set_key ''name'' (JStr name)
                          (set_key ''slug'' (JStr slug) data));
                 data = or_set ''created_at'' (JInt ts) data
             in (Inr (), put_row FOLDER [slug] data a)))
        (ad_folder_problem a slug parent))"

definition ad_set_project_folder ::
  "string \<Rightarrow> string option \<Rightarrow> time \<Rightarrow> inner \<Rightarrow> (error + unit) \<times> inner" where
  "ad_set_project_folder project folder ts a =
     (if load_project a project = None then (Inl (NoProject project), a)
      else case nonempty_trimmed folder of
        Some f \<Rightarrow>
          if load_folder a f = None then (Inl (Bad (NoFolder f)), a)
          else (let data = or_else (row_at a PROJECT_FOLDER [project])
                      (obj [(''project'', JStr project), (''assigned_at'', JInt ts)]);
                    data = set_key ''assigned_at'' (JInt ts) (set_key ''folder'' (JStr f)
                             (set_key ''project'' (JStr project) data))
                in (Inr (), put_row PROJECT_FOLDER [project] data a))
      | None \<Rightarrow> (Inr (), tombstone PROJECT_FOLDER [project] a))"

definition folder_of :: "json \<Rightarrow> folder" where
  "folder_of d =
     \<lparr>fo_slug = str_at d ''slug'', fo_name = str_at d ''name'', fo_parent = as_str (at_key d ''parent''),
      fo_created_at = int_at d ''created_at''\<rparr>"

definition ad_folder_view :: "inner \<Rightarrow> folder_view" where
  "ad_folder_view a =
     \<lparr>fv_folders = sort_key (\<lambda>f. (fo_name f, fo_slug f)) (List.map_filter (\<lambda>k. case k of [] \<Rightarrow> None
        | slug # _ \<Rightarrow> map_option folder_of (load_folder a slug)) (row_keys a FOLDER)),
      fv_projects = List.map_filter (\<lambda>k. case k of [] \<Rightarrow> None | _ # _ \<Rightarrow>
        map_option (\<lambda>d. \<lparr>pf_project = str_at d ''project'', pf_folder = str_at d ''folder''\<rparr>)
          (row_at a PROJECT_FOLDER k)) (row_keys a PROJECT_FOLDER)\<rparr>"

section \<open>The outbox\<close>

definition outbound_of :: "int \<Rightarrow> json \<Rightarrow> outbound_event" where
  "outbound_of seq d =
     \<lparr>oe_seq = seq, oe_store_id = str_at d ''store_id'', oe_issue_id = str_at d ''issue_id'',
      oe_project = str_at d ''project'', oe_occurred_at = int_at d ''occurred_at'',
      oe_event = str_at d ''event'', oe_attempts = int_at d ''attempts''\<rparr>"

definition due_event :: "inner \<Rightarrow> time \<Rightarrow> string list \<Rightarrow> outbound_event option" where
  "due_event a ts k =
     (case k of [] \<Rightarrow> None | s # _ \<Rightarrow> Option.bind (parse_i64 s) (\<lambda>seq.
        Option.bind (row_at a OUTBOUND_EVENT k) (\<lambda>d.
          if is_number (at_key d ''delivered_at'') then None
          else if ts < int_at d ''next_attempt_at'' then None
          else Some (outbound_of seq d))))"

definition ad_pending_events :: "time \<Rightarrow> nat \<Rightarrow> inner \<Rightarrow> outbound_event list" where
  "ad_pending_events ts limit a =
     take limit (sort_key oe_seq (List.map_filter (due_event a ts) (row_keys a OUTBOUND_EVENT)))"

text \<open>Both marks leave a missing or a delivered event alone.\<close>

definition mark_open_event :: "int \<Rightarrow> (json \<Rightarrow> json) \<Rightarrow> inner \<Rightarrow> (error + unit) \<times> inner" where
  "mark_open_event seq f a =
     (Inr (), case row_at a OUTBOUND_EVENT [show_int seq] of
        None \<Rightarrow> a
      | Some d \<Rightarrow> if is_number (at_key d ''delivered_at'') then a
                  else put_row OUTBOUND_EVENT [show_int seq] (f d) a)"

definition ad_mark_event_delivered :: "int \<Rightarrow> time \<Rightarrow> inner \<Rightarrow> (error + unit) \<times> inner" where
  "ad_mark_event_delivered seq ts = mark_open_event seq (\<lambda>d.
     set_key ''last_error'' JNull (set_key ''attempts'' (JInt (int_at d ''attempts'' + 1))
       (set_key ''delivered_at'' (JInt ts) d)))"

definition ad_mark_event_failed :: "int \<Rightarrow> time \<Rightarrow> string \<Rightarrow> inner \<Rightarrow> (error + unit) \<times> inner" where
  "ad_mark_event_failed seq next_attempt_at err = mark_open_event seq (\<lambda>d.
     set_key ''last_error'' (JStr err) (set_key ''next_attempt_at'' (JInt next_attempt_at)
       (set_key ''attempts'' (JInt (int_at d ''attempts'' + 1)) d)))"

text \<open>Removing a project; the assignment of the project to a folder is not among the rows removed.\<close>

definition sweep_rows :: "string \<Rightarrow> (string list \<Rightarrow> bool) \<Rightarrow> inner \<Rightarrow> inner" where
  "sweep_rows name dead a = fold (tombstone name) (filter dead (row_keys a name)) a"

definition event_about :: "inner \<Rightarrow> string \<Rightarrow> string list \<Rightarrow> string list \<Rightarrow> bool" where
  "event_about a name mine k \<longleftrightarrow>
     (case Option.bind (row_at a name k) (\<lambda>d. as_str (at_key d ''issue_id'')) of
        None \<Rightarrow> False | Some i \<Rightarrow> i \<in> set mine)"

definition issues_in :: "inner \<Rightarrow> string \<Rightarrow> string list" where
  "issues_in a slug = List.map_filter (\<lambda>k. case k of [] \<Rightarrow> None | i # _ \<Rightarrow>
     Option.bind (load_issue a i) (\<lambda>d. if str_at d ''project'' = slug then Some i else None)) (row_keys a ISSUE)"

definition ad_drop_project :: "string \<Rightarrow> inner \<Rightarrow> (error + int) \<times> inner" where
  "ad_drop_project slug a =
     (if load_project a slug = None then (Inl (NoProject slug), a)
      else let mine = issues_in a slug;
          a = sweep_rows OUTBOUND_EVENT (event_about a OUTBOUND_EVENT mine) a;
          a = sweep_rows MARBLES_EVENT (event_about a MARBLES_EVENT mine) a;
          a = sweep_rows DEPENDENCY (\<lambda>k. (\<exists>c \<in> set (take 1 k). c \<in> set mine) \<or>
                (\<exists>p \<in> set (take 1 (drop 1 k)). p \<in> set mine)) a;
          a = sweep_rows REMOTE_DEP (\<lambda>k. \<exists>c \<in> set (take 1 k). c \<in> set mine) a;
          a = fold (\<lambda>i. tombstone ISSUE [i]) mine a
      in (Inr (int (length mine)), tombstone PROJECT [slug] a))"

end
