(* ===== verification/AdapterOps.thy ===== *)
theory AdapterOps
  imports Adapter
begin

text \<open>
  The issue lifecycle of \<open>src/src/adapter.rs\<close> over the state of \<open>Adapter\<close>. As in the SQLite store,
  the random bytes of new ids are an input and a calendar walk that overflows is a panic.
\<close>

section \<open>Creation and reads\<close>

fun ad_pick_id :: "string \<Rightarrow> inner \<Rightarrow> draw list \<Rightarrow> string option" where
  "ad_pick_id prefix a [] = None"
| "ad_pick_id prefix a (d # ds) =
     (let candidate = prefix @ ''-'' @ short_suffix d
      in if load_issue a candidate = None then Some candidate else ad_pick_id prefix a ds)"

definition ad_parent_problem :: "inner \<Rightarrow> string \<Rightarrow> string option \<Rightarrow> error option" where
  "ad_parent_problem a project parent =
     (case parent of
        None \<Rightarrow> None
      | Some p \<Rightarrow>
          (case load_issue a p of
             None \<Rightarrow> Some (NotFound p)
           | Some d \<Rightarrow> if str_at d ''project'' \<noteq> project
                       then Some (Bad (ParentElsewhere p (str_at d ''project'') project)) else None))"

definition ad_new_issue :: "new_issue \<Rightarrow> string \<Rightarrow> string \<Rightarrow> json \<Rightarrow> time \<Rightarrow> time \<Rightarrow> issue" where
  "ad_new_issue spec i project metadata grace ts =
     \<lparr>i_id = i, i_title = n_title spec, i_description = n_description spec, i_status = ''open'',
      i_priority = (if n_priority spec = 0 then 2 else n_priority spec),
      i_issue_type = n_issue_type spec, i_labels = n_labels spec, i_metadata = metadata,
      i_external_ref = n_external_ref spec, i_dependency_count = 0, i_dependent_count = 0,
      i_dependencies = [], i_evidence = [], i_parent = n_parent spec, i_assignee = None,
      i_actor_kind = None, i_expires_at = None, i_available_at = Some grace, i_closed_at = None,
      i_created_at = ts, i_updated_at = ts, i_project = project\<rparr>"

definition ad_insert :: "new_issue \<Rightarrow> string \<Rightarrow> string \<Rightarrow> time \<Rightarrow> inner \<Rightarrow> (error + string) \<times> inner" where
  "ad_insert spec project i ts a =
     (let grace = (case n_available_at spec of
                     Some t \<Rightarrow> t | None \<Rightarrow> ts + creation_grace_seconds (inner_policy a));
          metadata = or_else (n_metadata spec) (obj [])
      in case metadata of
           JObj m \<Rightarrow>
             (let metadata = (case n_external_ref spec of
                    None \<Rightarrow> metadata | Some reference \<Rightarrow> set_key ''external_ref'' (JStr reference) metadata);
                  a1 = put_row ISSUE [i] (issue_to_json (ad_new_issue spec i project metadata grace ts)) a
              in (Inr i, ad_log_event i ts (or_else (n_created_by spec) ''system'') ''created'' (n_title spec) a1))
         | _ \<Rightarrow> (Inl (Bad CreateMetadataNotObject), a))"

definition ad_create :: "new_issue \<Rightarrow> draw list \<Rightarrow> time \<Rightarrow> inner \<Rightarrow> ((error + string) \<times> inner) option" where
  "ad_create spec draws ts a =
     (case n_project spec of
        None \<Rightarrow> Some (Inl (Bad CreateNeedsProject), a)
      | Some project \<Rightarrow>
          (case ad_prefix_for a project of
             Inl e \<Rightarrow> Some (Inl e, a)
           | Inr prefix \<Rightarrow>
               (case ad_parent_problem a project (n_parent spec) of
                  Some e \<Rightarrow> Some (Inl e, a)
                | None \<Rightarrow>
                    (case n_id spec of
                       Some i \<Rightarrow> Some (if load_issue a i \<noteq> None then (Inl (Bad (IssueExists i)), a)
                                       else ad_insert spec project i ts a)
                     | None \<Rightarrow> map_option (\<lambda>i. ad_insert spec project i ts a) (ad_pick_id prefix a draws)))))"

definition ad_get :: "string \<Rightarrow> inner \<Rightarrow> error + issue" where
  "ad_get i a = (case ad_row_to_issue a i of None \<Rightarrow> Inl (NotFound i) | Some v \<Rightarrow> Inr v)"

definition all_issues :: "inner \<Rightarrow> issue list" where
  "all_issues a = List.map_filter (\<lambda>k. case k of [] \<Rightarrow> None | i # _ \<Rightarrow> ad_row_to_issue a i) (row_keys a ISSUE)"

definition ad_list :: "string option \<Rightarrow> bool \<Rightarrow> string option \<Rightarrow> inner \<Rightarrow> issue list" where
  "ad_list project all only_id a =
     sort_key issue_order (filter (\<lambda>v. \<not> (\<not> all \<and> i_status v = ''closed'') \<and>
       (case project of None \<Rightarrow> True | Some p \<Rightarrow> i_project v = p) \<and>
       (case only_id of None \<Rightarrow> True | Some i \<Rightarrow> i_id v = i)) (all_issues a))"

definition ad_is_ready :: "inner \<Rightarrow> string option \<Rightarrow> time \<Rightarrow> issue \<Rightarrow> bool" where
  "ad_is_ready a project now v \<longleftrightarrow> i_status v = ''open'' \<and>
     (case project of None \<Rightarrow> True | Some p \<Rightarrow> i_project v = p) \<and>
     (case i_available_at v of None \<Rightarrow> True | Some t \<Rightarrow> \<not> now < t) \<and>
     list_all (\<lambda>p. case status_of a p of None \<Rightarrow> False | Some st \<Rightarrow> is_terminal st) (parents_of a (i_id v)) \<and>
     (case (i_assignee v, i_expires_at v) of (Some _, Some e) \<Rightarrow> \<not> now < e | _ \<Rightarrow> True)"

definition ad_ready :: "string option \<Rightarrow> time \<Rightarrow> inner \<Rightarrow> issue list" where
  "ad_ready project now a = sort_key issue_order (filter (ad_is_ready a project now) (all_issues a))"

section \<open>Edits\<close>

definition ad_patch_metadata :: "json \<Rightarrow> issue \<Rightarrow> error + issue" where
  "ad_patch_metadata merge cur =
     (let base = (case i_metadata cur of JObj m \<Rightarrow> m | _ \<Rightarrow> []) in
      case merge of
        JObj incoming \<Rightarrow>
          (let meta = JObj (fold (\<lambda>(k, v). if is_null v then bt_remove k else bt_insert k v) incoming base)
           in Inr (cur\<lparr>i_metadata := meta,
                       i_external_ref := Option.bind (json_get meta ''external_ref'') as_str\<rparr>))
      | _ \<Rightarrow> Inl (Bad PatchMetadataNotObject))"

definition ad_patch_text :: "issue_patch \<Rightarrow> issue \<Rightarrow> issue" where
  "ad_patch_text patch v =
     (let v1 = v\<lparr>i_title := or_else (p_title patch) (i_title v),
                 i_description := or_else (p_description patch) (i_description v)\<rparr>;
          v2 = (case p_append_notes patch of
                  None \<Rightarrow> v1
                | Some notes \<Rightarrow> v1\<lparr>i_description :=
                    (if i_description v1 \<noteq> [] then i_description v1 @ [CHR 0x0A] else i_description v1) @ notes\<rparr>)
      in v2\<lparr>i_priority := or_else (p_priority patch) (i_priority v2),
            i_evidence := or_else (p_evidence patch) (i_evidence v2)\<rparr>)"

definition ad_update :: "string \<Rightarrow> issue_patch \<Rightarrow> string \<Rightarrow> time \<Rightarrow> inner \<Rightarrow> (error + issue) \<times> inner" where
  "ad_update i patch actor ts a =
     (case (case p_status patch of None \<Rightarrow> None | Some st \<Rightarrow> if st \<notin> set STATUSES then Some st else None) of
        Some st \<Rightarrow> (Inl (BadStatus st), a)
      | None \<Rightarrow>
          (case ad_get i a of
             Inl e \<Rightarrow> (Inl e, a)
           | Inr cur \<Rightarrow>
               (case (case p_metadata patch of
                        None \<Rightarrow> Inr (ad_patch_text patch cur)
                      | Some merge \<Rightarrow> ad_patch_metadata merge (ad_patch_text patch cur)) of
                  Inl e \<Rightarrow> (Inl e, a)
                | Inr v \<Rightarrow>
                    (let changed = (case p_status patch of None \<Rightarrow> False | Some st \<Rightarrow> st \<noteq> i_status v);
                         v1 = (case p_status patch of
                                 None \<Rightarrow> v
                               | Some st \<Rightarrow> v\<lparr>i_status := st,
                                   i_closed_at := (if st = ''closed'' then Some ts else None)\<rparr>);
                         avail = (case p_available_at patch of
                                    Some t \<Rightarrow> t
                                  | None \<Rightarrow> max (ts + edit_deferral_seconds (inner_policy a))
                                              (or_else (i_available_at v1) 0));
                         v2 = v1\<lparr>i_updated_at := ts, i_available_at := Some avail\<rparr>;
                         a1 = save_issue v2 a;
                         a2 = (if changed then ad_log_event i ts actor ''status'' (status_detail (i_status v2)) a1 else a1);
                         a3 = ad_log_event i ts actor ''updated'' [] a2
                     in (ad_get i a3, a3)))))"

text \<open>A read followed by a write of the view it gave, the way most operations start.\<close>

definition on_issue ::
  "string \<Rightarrow> inner \<Rightarrow> (issue \<Rightarrow> (error + 'a) \<times> inner) \<Rightarrow> (error + 'a) \<times> inner" where
  "on_issue i a f = (case ad_get i a of Inl e \<Rightarrow> (Inl e, a) | Inr v \<Rightarrow> f v)"

definition ad_set_labels :: "string \<Rightarrow> string list \<Rightarrow> string \<Rightarrow> time \<Rightarrow> inner \<Rightarrow> (error + unit) \<times> inner" where
  "ad_set_labels i labels actor ts a = on_issue i a (\<lambda>v.
     (Inr (), ad_log_event i ts actor ''labels'' (join_char CHR '','' labels)
        (save_issue (v\<lparr>i_labels := sort labels\<rparr>) a)))"

definition ad_add_label :: "string \<Rightarrow> string \<Rightarrow> string \<Rightarrow> time \<Rightarrow> inner \<Rightarrow> (error + unit) \<times> inner" where
  "ad_add_label i label actor ts a = on_issue i a (\<lambda>v.
     if label \<in> set (i_labels v) then (Inr (), a)
     else let labels = sort (i_labels v @ [label])
       in (Inr (), ad_log_event i ts actor ''labels'' (join_char CHR '','' labels)
             (save_issue (v\<lparr>i_labels := labels\<rparr>) a)))"

definition ad_remove_label :: "string \<Rightarrow> string \<Rightarrow> string \<Rightarrow> time \<Rightarrow> inner \<Rightarrow> (error + unit) \<times> inner" where
  "ad_remove_label i label actor ts a = on_issue i a (\<lambda>v.
     let labels = filter (\<lambda>l. l \<noteq> label) (i_labels v)
     in (Inr (), ad_log_event i ts actor ''labels'' (join_char CHR '','' labels)
           (save_issue (v\<lparr>i_labels := labels\<rparr>) a)))"

section \<open>Dependencies\<close>

definition ad_add_dep :: "string \<Rightarrow> string \<Rightarrow> string \<Rightarrow> time \<Rightarrow> inner \<Rightarrow> (error + unit) \<times> inner" where
  "ad_add_dep child parent actor ts a =
     (if child = parent then (Inl (CycleError child parent), a)
      else if load_issue a child = None then (Inl (NotFound child), a)
      else if load_issue a parent = None then (Inl (NotFound parent), a)
      else if ad_reachable a parent child then (Inl (CycleError child parent), a)
      else if row_at a DEPENDENCY [child, parent] = None
      then (let a1 = put_row DEPENDENCY [child, parent]
                  (obj [(''child'', JStr child), (''parent'', JStr parent)]) a
            in case ad_get child a1 of
                 Inl e \<Rightarrow> (Inl e, a1)
               | Inr v \<Rightarrow> (Inr (), ad_log_event child ts actor ''depends_on'' parent
                   (save_issue (v\<lparr>i_updated_at := ts\<rparr>) a1)))
      else (Inr (), a))"

definition ad_remove_dep :: "string \<Rightarrow> string \<Rightarrow> string \<Rightarrow> time \<Rightarrow> inner \<Rightarrow> (error + unit) \<times> inner" where
  "ad_remove_dep child parent actor ts a =
     (if row_at a DEPENDENCY [child, parent] \<noteq> None
      then (Inr (), ad_log_event child ts actor ''unblocked_from'' parent
              (tombstone DEPENDENCY [child, parent] a))
      else (Inr (), a))"

definition remote_fields :: "string \<Rightarrow> remote_dependency \<Rightarrow> json \<Rightarrow> json" where
  "remote_fields child d data =
     fold (\<lambda>(k, v). set_key k v)
       [(''child'', JStr child), (''canonical_ref'', JStr (rd_canonical_ref d)),
        (''store_id'', JStr (rd_store_id d)), (''remote_issue_id'', JStr (rd_remote_issue_id d)),
        (''state'', JStr (rd_state d)), (''asserted_at'', JInt (rd_asserted_at d)),
        (''observed_at'', JInt (rd_observed_at d)), (''signature'', JStr (rd_signature d)),
        (''key_id'', JStr (rd_key_id d))] data"

definition ad_add_remote_dep ::
  "string \<Rightarrow> remote_dependency \<Rightarrow> string \<Rightarrow> time \<Rightarrow> inner \<Rightarrow> (error + unit) \<times> inner" where
  "ad_add_remote_dep child d actor ts a =
     (if load_issue a child = None then (Inl (NotFound child), a)
      else let key = [child, rd_canonical_ref d];
          data = or_else (row_at a REMOTE_DEP key) (obj [(''child'', JStr child)]);
          a1 = put_row REMOTE_DEP key (remote_fields child d data) a
      in case ad_get child a1 of
           Inl e \<Rightarrow> (Inl e, a1)
         | Inr v \<Rightarrow> (Inr (), ad_log_event child ts actor ''depends_on_remote'' (rd_canonical_ref d)
             (save_issue (v\<lparr>i_updated_at := ts\<rparr>) a1)))"

definition remote_of :: "json \<Rightarrow> remote_dependency" where
  "remote_of d =
     \<lparr>rd_canonical_ref = str_at d ''canonical_ref'', rd_store_id = str_at d ''store_id'',
      rd_remote_issue_id = str_at d ''remote_issue_id'', rd_state = str_at d ''state'',
      rd_asserted_at = int_at d ''asserted_at'', rd_observed_at = int_at d ''observed_at'',
      rd_signature = str_at d ''signature'', rd_key_id = str_at d ''key_id'', rd_freshness = None\<rparr>"

definition ad_remote_dependencies :: "string \<Rightarrow> inner \<Rightarrow> remote_dependency list" where
  "ad_remote_dependencies child a =
     sort_key rd_canonical_ref (List.map_filter (\<lambda>k. case k of [] \<Rightarrow> None | c # _ \<Rightarrow>
       if c \<noteq> child then None else map_option remote_of (row_at a REMOTE_DEP k)) (row_keys a REMOTE_DEP))"

definition ad_ready_with_remote_edges ::
  "string option \<Rightarrow> time \<Rightarrow> inner \<Rightarrow> (issue \<times> remote_dependency list) list" where
  "ad_ready_with_remote_edges project now a =
     map (\<lambda>v. (v, ad_remote_dependencies (i_id v) a)) (ad_ready project now a)"

section \<open>Claims\<close>

definition ad_claim :: "claim_request \<Rightarrow> time \<Rightarrow> inner \<Rightarrow> (error + claim_receipt) \<times> inner" where
  "ad_claim req ts a =
     (case claim_ttl (inner_policy a) (inner_week a) req ts of
        None \<Rightarrow> (Inl (Panic ''calendar overflow''), a)
      | Some ttl \<Rightarrow>
          (case project_of a (cr_id req) of
             Inl e \<Rightarrow> (Inl e, a)
           | Inr project \<Rightarrow> on_issue (cr_id req) a (\<lambda>cur.
               case issue_version a (cr_id req) of
                 Inl e \<Rightarrow> (Inl e, a)
               | Inr expected \<Rightarrow>
                   if (i_assignee cur \<noteq> None \<and>
                        (case i_expires_at cur of None \<Rightarrow> False | Some e \<Rightarrow> ts < e)) \<and>
                      i_assignee cur \<noteq> Some (cr_assignee req)
                   then (Inl (AlreadyClaimed (cr_id req) (the (i_assignee cur))), a)
                   else (case save_issue_cas
                          (cur\<lparr>i_assignee := Some (cr_assignee req),
                             i_actor_kind := Some (actor_kind_str (cr_actor_kind req)),
                             i_expires_at := Some (ts + ttl), i_updated_at := ts\<rparr>) expected a of
                      (Inl err, a1) \<Rightarrow> (Inl (Bad (EngineError err)), a1)
                    | (Inr False, a1) \<Rightarrow> on_issue (cr_id req) a1 (\<lambda>latest.
                        (if i_assignee latest \<noteq> Some (cr_assignee req) \<and> i_assignee latest \<noteq> None
                         then Inl (AlreadyClaimed (cr_id req) (the (i_assignee latest)))
                         else Inl (Bad (LostRace (cr_id req))), a1))
                    | (Inr True, a1) \<Rightarrow>
                        (Inr \<lparr>rc_id = cr_id req, rc_assignee = cr_assignee req,
                              rc_actor_kind = cr_actor_kind req, rc_expires_at = ts + ttl\<rparr>,
                         ad_log_event (cr_id req) ts (cr_assignee req) ''claimed''
                           (actor_kind_str (cr_actor_kind req)) a1)))))"

definition ad_touch :: "string \<Rightarrow> string \<Rightarrow> time \<Rightarrow> inner \<Rightarrow> (error + time) \<times> inner" where
  "ad_touch i assignee ts a = on_issue i a (\<lambda>v.
     if i_assignee v \<noteq> Some assignee then (Inl (Bad (NotClaimedBy i assignee)), a)
     else (case (case Option.bind (i_actor_kind v) actor_kind_parse of
              Some Human \<Rightarrow> map_option (\<lambda>e. e - ts) (human_expiry (inner_week a) ts (inner_policy a))
            | _ \<Rightarrow> Some (agent_ttl_seconds (inner_policy a))) of
         None \<Rightarrow> (Inl (Panic ''calendar overflow''), a)
       | Some ttl \<Rightarrow> (Inr (ts + ttl), ad_log_event i ts assignee ''heartbeat'' []
           (save_issue (v\<lparr>i_expires_at := Some (ts + ttl), i_updated_at := ts\<rparr>) a))))"

definition unclaimed :: "time \<Rightarrow> issue \<Rightarrow> issue" where
  "unclaimed ts v = v\<lparr>i_assignee := None, i_actor_kind := None, i_expires_at := None, i_updated_at := ts\<rparr>"

definition ad_release :: "string \<Rightarrow> string \<Rightarrow> time \<Rightarrow> inner \<Rightarrow> (error + unit) \<times> inner" where
  "ad_release i actor ts a = on_issue i a (\<lambda>v.
     (Inr (), ad_log_event i ts actor ''released'' [] (save_issue (unclaimed ts v) a)))"

text \<open>The snapshot of lapsed claims, in order, and the loop over it, which stops at the first error.\<close>

definition lapsed_claims :: "inner \<Rightarrow> time \<Rightarrow> (string \<times> string \<times> string) list" where
  "lapsed_claims a ts = sort (List.map_filter (\<lambda>k. case k of [] \<Rightarrow> None | i # _ \<Rightarrow>
     Option.bind (load_issue a i) (\<lambda>d. Option.bind (as_str (at_key d ''assignee'')) (\<lambda>who.
       Option.bind (as_i64 (at_key d ''expires_at'')) (\<lambda>e.
         if e \<le> ts then Some (i, who, or_else (as_str (at_key d ''actor_kind'')) ''agent'') else None))))
     (row_keys a ISSUE))"

fun ad_sweep_loop ::
  "time \<Rightarrow> (string \<times> string \<times> string) list \<Rightarrow> sweep_report \<Rightarrow> inner \<Rightarrow> (error + sweep_report) \<times> inner" where
  "ad_sweep_loop ts [] rep a = (Inr rep, a)"
| "ad_sweep_loop ts ((i, who, kind) # rest) rep a =
     (if kind = ''human''
      then ad_sweep_loop ts rest (rep\<lparr>escalated := escalated rep @ [i @ '' ('' @ who @ '')'']\<rparr>)
             (ad_log_event i ts ''sweeper'' ''escalated'' who a)
      else on_issue i a (\<lambda>v. ad_sweep_loop ts rest (rep\<lparr>requeued := requeued rep @ [i]\<rparr>)
             (ad_log_event i ts ''sweeper'' ''claim_expired'' who (save_issue (unclaimed ts v) a))))"

definition ad_sweep :: "time \<Rightarrow> inner \<Rightarrow> (error + sweep_report) \<times> inner" where
  "ad_sweep ts a = ad_sweep_loop ts (lapsed_claims a ts) \<lparr>requeued = [], escalated = []\<rparr> a"

section \<open>Close, supersede, history\<close>

definition ad_check_blockers :: "inner \<Rightarrow> string \<Rightarrow> error option" where
  "ad_check_blockers a i =
     map_option (\<lambda>b. Bad (StillWaitsOn i b)) (find (unfinished a) (parents_of a i))"

definition ad_merge_evidence :: "evidence list \<Rightarrow> evidence list \<Rightarrow> evidence list" where
  "ad_merge_evidence given old =
     fold (\<lambda>x merged. if \<exists>e \<in> set merged. ev_kind e = ev_kind x \<and> ev_value e = ev_value x
                     then merged else merged @ [x]) given old"

definition ad_close_unchecked ::
  "string \<Rightarrow> string option \<Rightarrow> evidence list \<Rightarrow> string \<Rightarrow> time \<Rightarrow> inner \<Rightarrow> (error + issue) \<times> inner" where
  "ad_close_unchecked i reason ev actor ts a = on_issue i a (\<lambda>v.
     let v1 = (unclaimed ts v)\<lparr>i_evidence := ad_merge_evidence ev (i_evidence v),
                 i_status := ''closed'', i_closed_at := Some ts\<rparr>;
         a1 = ad_log_event i ts actor ''closed'' (close_detail reason ev) (save_issue v1 a)
     in (ad_get i a1, a1))"

definition ad_close ::
  "string \<Rightarrow> string option \<Rightarrow> evidence list \<Rightarrow> string \<Rightarrow> time \<Rightarrow> inner \<Rightarrow> (error + issue) \<times> inner" where
  "ad_close i reason ev actor ts a =
     (if ev = [] then (Inl (NoEvidence i), a)
      else case ad_check_blockers a i of
        Some e \<Rightarrow> (Inl e, a)
      | None \<Rightarrow> ad_close_unchecked i reason ev actor ts a)"

definition ad_supersede :: "string \<Rightarrow> string \<Rightarrow> string \<Rightarrow> time \<Rightarrow> inner \<Rightarrow> (error + unit) \<times> inner" where
  "ad_supersede i replacement actor ts a = on_issue replacement a (\<lambda>_.
     let why = ''superseded by '' @ replacement in
       case ad_close_unchecked i (Some why) [evidence_ack why] actor ts a of
         (Inl e, a1) \<Rightarrow> (Inl e, a1)
       | (Inr _, a1) \<Rightarrow> ad_add_label i (''supersedes:'' @ replacement) actor ts a1)"

definition event_at :: "inner \<Rightarrow> string \<Rightarrow> string list \<Rightarrow> (int \<times> history_event) option" where
  "event_at a i k =
     (case k of [] \<Rightarrow> None | s # _ \<Rightarrow> Option.bind (parse_i64 s) (\<lambda>seq.
        Option.bind (row_at a MARBLES_EVENT k) (\<lambda>d.
          if as_str (at_key d ''issue_id'') \<noteq> Some i then None
          else Some (seq, \<lparr>he_issue_id = i, he_ts = int_at d ''ts'', he_actor = str_at d ''actor'',
                           he_event = str_at d ''event'', he_detail = str_at d ''detail''\<rparr>))))"

definition ad_history :: "string \<Rightarrow> inner \<Rightarrow> history_event list" where
  "ad_history i a = map snd (sort_key fst (List.map_filter (event_at a i) (row_keys a MARBLES_EVENT)))"

text \<open>\<open>*counts.entry(project).or_default().entry(status).or_default() += 1\<close>.\<close>

definition bump :: "string \<Rightarrow> string \<Rightarrow> (string \<times> (string \<times> int) list) list \<Rightarrow> (string \<times> (string \<times> int) list) list" where
  "bump project status counts =
     (let statuses = or_nil (map_of counts project)
      in bt_insert project (bt_insert status (or_else (map_of statuses status) 0 + 1) statuses) counts)"

definition ad_stats :: "inner \<Rightarrow> json" where
  "ad_stats a =
     (let counts = fold (\<lambda>k counts. case k of [] \<Rightarrow> counts | i # _ \<Rightarrow>
            (case load_issue a i of None \<Rightarrow> counts
             | Some d \<Rightarrow> bump (str_at d ''project'') (str_at d ''status'') counts)) (row_keys a ISSUE) []
      in obj (map (\<lambda>(project, statuses). (project, obj
           [(''by_status'', obj (map (\<lambda>(st, n). (st, JInt n)) statuses)),
            (''total'', JInt (sum_list (map snd statuses)))])) counts))"

end
