(* ===== verification/AdapterSim.thy ===== *)
theory AdapterSim
  imports AdapterOps
begin

text \<open>
  How the adapter's records show the tables of the SQLite store. \<open>tables\<close> is the JSON row each
  table row becomes, \<open>stored\<close> what the engine holds; the two stores match when the maps are the same.
\<close>

section \<open>JSON objects\<close>

lemma json_get_obj [simp]: "json_get (obj xs) k = map_of (rev xs) k"
  by (simp add: obj_def)

lemma set_key_obj [simp]: "set_key k v (obj xs) = obj (xs @ [(k, v)])"
  by (simp add: set_key_def obj_def bt_collect_def)

lemma obj_eqI: "map_of (rev xs) = map_of (rev ys) \<Longrightarrow> obj xs = obj ys"
  unfolding obj_def by (rule arg_cong [where f = JObj], rule bt_insert_eqI) simp_all

lemma at_key_obj [simp]: "at_key (obj xs) k = or_else (map_of (rev xs) k) JNull"
  by (simp add: at_key_def)

lemma or_else_simps [simp]: "or_else None d = d" "or_else (Some x) d = x"
  by (simp_all add: or_else_def)

lemma as_str_jstr_opt [simp]: "as_str (jstr_opt v) = v"
  by (cases v) (simp_all add: jstr_opt_def)

definition fits :: "int \<Rightarrow> bool" where
  "fits n \<longleftrightarrow> i64_min \<le> n \<and> n \<le> i64_max"

definition fits_opt :: "int option \<Rightarrow> bool" where
  "fits_opt v \<longleftrightarrow> (case v of None \<Rightarrow> True | Some n \<Rightarrow> fits n)"

lemma as_i64_fits [simp]: "fits n \<Longrightarrow> as_i64 (JInt n) = Some n"
  by (simp add: fits_def)

lemma as_i64_opt [simp]: "fits_opt v \<Longrightarrow> as_i64 (jint_opt v) = v"
  by (cases v) (simp_all add: jint_opt_def fits_opt_def fits_def)

lemma those_map: "(\<And>x. x \<in> set xs \<Longrightarrow> f (g x) = Some x) \<Longrightarrow> those (map f (map g xs)) = Some xs"
  by (induction xs) simp_all

lemma strings_of_labels [simp]: "strings_of (JArr (map JStr ls)) = Some ls"
  unfolding strings_of_def json.case by (rule those_map) simp

lemma evidence_of_json [simp]: "evidence_of (evidence_json e) = Some e"
proof -
  have "evidence_json e = JObj (bt_collect [(''kind'', JStr (ev_kind e)), (''value'', JStr (ev_value e))])"
    by (simp add: evidence_json_def obj_def)
  then show ?thesis by (simp add: evidence_of_def)
qed

lemma evidences_of_list [simp]: "evidences_of (JArr (map evidence_json es)) = Some es"
  unfolding evidences_of_def json.case by (rule those_map) simp

declare show_int_inj [simp]

lemma parse_show_int: "fits n \<Longrightarrow> parse_i64 (show_int n) = Some n"
proof -
  assume n: "fits n"
  have r: "read_digits 0 (show_nat k) = Some k" for k using read_show_nat [of 0 k] by simp
  obtain c t where ct: "show_nat (nat n) = c # t" by (cases "show_nat (nat n)") simp_all
  have "read_digits 0 (c # t) \<noteq> None" unfolding ct [symmetric] by (simp add: r)
  then have c: "c \<noteq> CHR ''-''" "c \<noteq> CHR ''+''" by (auto simp: char_digit_def)
  show ?thesis
  proof (cases "n < 0")
    case True
    then show ?thesis using n by (simp add: show_int_def parse_i64_def r in_i64_def fits_def)
  next
    case False
    have "parse_i64 (c # t) = Option.bind (read_digits 0 (c # t)) (\<lambda>n. in_i64 (int n))"
      using c by (simp add: parse_i64_def)
    then show ?thesis using False n unfolding ct [symmetric]
      by (simp add: show_int_def r in_i64_def fits_def)
  qed
qed

section \<open>The image of the tables\<close>

definition row_json :: "issue_row \<Rightarrow> json" where
  "row_json r = obj
     [(''id'', JStr (ir_id r)), (''project'', JStr (ir_project r)), (''title'', JStr (ir_title r)),
      (''description'', JStr (ir_description r)), (''status'', JStr (ir_status r)),
      (''priority'', JInt (ir_priority r)), (''issue_type'', JStr (ir_issue_type r)),
      (''labels'', JArr (map JStr (ir_labels r))), (''parent'', jstr_opt (ir_parent r)),
      (''assignee'', jstr_opt (ir_assignee r)), (''actor_kind'', jstr_opt (ir_actor_kind r)),
      (''expires_at'', jint_opt (ir_expires_at r)), (''available_at'', jint_opt (ir_available_at r)),
      (''created_at'', JInt (ir_created_at r)), (''updated_at'', JInt (ir_updated_at r)),
      (''closed_at'', jint_opt (ir_closed_at r)), (''metadata'', ir_metadata r),
      (''external_ref'', jstr_opt (ir_external_ref r)),
      (''evidence'', JArr (map evidence_json (ir_evidence r)))]"

definition project_json :: "project_row \<Rightarrow> json" where
  "project_json p = obj
     [(''slug'', JStr (pr_slug p)), (''prefix'', JStr (pr_prefix p)),
      (''created_at'', JInt (pr_created_at p)), (''root'', JStr (pr_root p))]"

definition folder_json :: "folder_row \<Rightarrow> json" where
  "folder_json f = obj
     [(''slug'', JStr (fr_slug f)), (''name'', JStr (fr_name f)), (''parent'', jstr_opt (fr_parent f)),
      (''created_at'', JInt (fr_created_at f))]"

definition assignment_json :: "project_folder_row \<Rightarrow> json" where
  "assignment_json x = obj
     [(''project'', JStr (pfr_project x)), (''assigned_at'', JInt (pfr_assigned_at x)),
      (''folder'', JStr (pfr_folder x))]"

definition edge_json :: "string \<Rightarrow> string \<Rightarrow> json" where
  "edge_json c p = obj [(''child'', JStr c), (''parent'', JStr p)]"

definition remote_json :: "string \<Rightarrow> remote_dependency \<Rightarrow> json" where
  "remote_json child d = remote_fields child d (obj [])"

definition event_json :: "history_row \<Rightarrow> json" where
  "event_json h = marbles_event_json (hr_issue_id h) (hr_ts h) (hr_actor h) (hr_event h) (hr_detail h)"

definition delivery_json :: "outbound_row \<Rightarrow> json" where
  "delivery_json r = obj
     [(''seq'', JInt (or_seq r)), (''store_id'', JStr (or_store_id r)), (''issue_id'', JStr (or_issue_id r)),
      (''project'', JStr (or_project r)), (''occurred_at'', JInt (or_occurred_at r)),
      (''event'', JStr (or_event r)), (''next_attempt_at'', JInt (or_next_attempt_at r)),
      (''delivered_at'', jint_opt (or_delivered_at r)), (''attempts'', JInt (or_attempts r)),
      (''last_error'', jstr_opt (or_last_error r))]"

definition one :: "(string \<Rightarrow> json option) \<Rightarrow> string list \<Rightarrow> json option" where
  "one f key = (case key of [x] \<Rightarrow> f x | _ \<Rightarrow> None)"

definition two :: "(string \<Rightarrow> string \<Rightarrow> json option) \<Rightarrow> string list \<Rightarrow> json option" where
  "two f key = (case key of [x, y] \<Rightarrow> f x y | _ \<Rightarrow> None)"

lemma one_simps [simp]: "one f [x] = f x" "one f [] = None" "one f (x # y # zs) = None"
  by (simp_all add: one_def)

lemma two_simps [simp]: "two f [x, y] = f x y" "two f [] = None" "two f [x] = None" "two f (x # y # z # zs) = None"
  by (simp_all add: two_def)

lemma one_Some: "one f k = Some v \<longleftrightarrow> (\<exists>x. k = [x] \<and> f x = Some v)"
  by (auto simp: one_def split: list.splits)

lemma two_Some: "two f k = Some v \<longleftrightarrow> (\<exists>x y. k = [x, y] \<and> f x y = Some v)"
  by (auto simp: two_def split: list.splits)

lemma one_if [simp]: "one (\<lambda>x. if x = i then v else f x) k = (if k = [i] then v else one f k)"
  by (auto simp: one_def split: list.splits)

lemma two_if [simp]:
  "two (\<lambda>x y. if x = i \<and> y = j then v else f x y) k = (if k = [i, j] then v else two f k)"
  by (auto simp: two_def split: list.splits)

definition tables :: "db \<Rightarrow> string \<times> string list \<Rightarrow> json option" where
  "tables s = (\<lambda>(name, key).
     if name = ISSUE then one (\<lambda>i. map_option row_json (find_issue s i)) key
     else if name = PROJECT then one (\<lambda>p. map_option project_json (find_project s p)) key
     else if name = FOLDER then one (\<lambda>f. map_option folder_json (find_folder s f)) key
     else if name = PROJECT_FOLDER
       then one (\<lambda>p. map_option assignment_json (find (\<lambda>x. pfr_project x = p) (db_project_folders s))) key
     else if name = DEPENDENCY
       then two (\<lambda>c p. if (c, p) \<in> set (db_deps s) then Some (edge_json c p) else None) key
     else if name = REMOTE_DEP
       then two (\<lambda>c ref. map_option (\<lambda>r. remote_json c (snd r)) (find (same_edge c ref) (db_remote_deps s))) key
     else if name = MARBLES_EVENT
       then one (\<lambda>q. map_option event_json (find (\<lambda>h. show_int (hr_seq h) = q) (db_history s))) key
     else if name = OUTBOUND_EVENT
       then one (\<lambda>q. map_option delivery_json (find (\<lambda>r. show_int (or_seq r) = q) (db_outbound s))) key
     else if name = STORE_META
       then one (\<lambda>k. if k = db_store_id s then Some (obj [(''value'', JStr k)]) else None) key
     else None)"

lemma tables_at:
  "tables s (ISSUE, k) = one (\<lambda>i. map_option row_json (find_issue s i)) k"
  "tables s (PROJECT, k) = one (\<lambda>p. map_option project_json (find_project s p)) k"
  "tables s (FOLDER, k) = one (\<lambda>f. map_option folder_json (find_folder s f)) k"
  "tables s (PROJECT_FOLDER, k) =
     one (\<lambda>p. map_option assignment_json (find (\<lambda>x. pfr_project x = p) (db_project_folders s))) k"
  "tables s (DEPENDENCY, k) = two (\<lambda>c p. if (c, p) \<in> set (db_deps s) then Some (edge_json c p) else None) k"
  "tables s (REMOTE_DEP, k) =
     two (\<lambda>c ref. map_option (\<lambda>r. remote_json c (snd r)) (find (same_edge c ref) (db_remote_deps s))) k"
  "tables s (MARBLES_EVENT, k) =
     one (\<lambda>q. map_option event_json (find (\<lambda>h. show_int (hr_seq h) = q) (db_history s))) k"
  "tables s (OUTBOUND_EVENT, k) =
     one (\<lambda>q. map_option delivery_json (find (\<lambda>r. show_int (or_seq r) = q) (db_outbound s))) k"
  by (simp_all add: tables_def)

definition stored :: "inner \<Rightarrow> string \<times> string list \<Rightarrow> json option" where
  "stored a = (\<lambda>(name, key). row_at a name key)"

definition matches :: "db \<Rightarrow> inner \<Rightarrow> bool" where
  "matches s a \<longleftrightarrow> engine_ok (inner_engine a) \<and> stored a = tables s \<and>
     inner_seq a = db_history_seq s \<and> inner_policy a = db_policy s \<and>
     inner_store_id a = db_store_id s \<and> inner_week a = db_week s"

section \<open>Writes\<close>

lemma stored_put [simp]: "stored (put_row n k d a) = (stored a)((n, k) := Some d)"
  by (auto simp: stored_def row_at_def put_row_def fun_eq_iff)

lemma stored_tombstone [simp]: "stored (tombstone n k a) = (stored a)((n, k) := None)"
  by (auto simp: stored_def row_at_def tombstone_def fun_eq_iff)

lemma put_frame [simp]:
  "inner_seq (put_row n k d a) = inner_seq a" "inner_policy (put_row n k d a) = inner_policy a"
  "inner_store_id (put_row n k d a) = inner_store_id a" "inner_week (put_row n k d a) = inner_week a"
  "inner_codec (put_row n k d a) = inner_codec a"
  "inner_seq (tombstone n k a) = inner_seq a" "inner_policy (tombstone n k a) = inner_policy a"
  "inner_store_id (tombstone n k a) = inner_store_id a" "inner_week (tombstone n k a) = inner_week a"
  "inner_codec (tombstone n k a) = inner_codec a"
  by (simp_all add: put_row_def tombstone_def)

lemma engine_ok_put [simp]:
  "engine_ok (inner_engine a) \<Longrightarrow> engine_ok (inner_engine (put_row n k d a))"
  "engine_ok (inner_engine a) \<Longrightarrow> engine_ok (inner_engine (tombstone n k a))"
  by (simp_all add: put_row_def tombstone_def engine_ok_append)

lemma stored_seq [simp]: "stored (a\<lparr>inner_seq := q\<rparr>) = stored a"
  by (simp add: stored_def row_at_def)

lemma row_at_matches: "matches s a \<Longrightarrow> row_at a n k = tables s (n, k)"
  by (auto simp: matches_def stored_def dest: fun_cong [of _ _ "(n, k)"])

lemma matches_put:
  assumes "matches s a" and "tables s' = (tables s)((n, k) := Some d)"
    and "db_history_seq s' = db_history_seq s" and "db_policy s' = db_policy s"
    and "db_store_id s' = db_store_id s" and "db_week s' = db_week s"
  shows "matches s' (put_row n k d a)"
  using assms by (simp add: matches_def)

lemma matches_tombstone:
  assumes "matches s a" and "tables s' = (tables s)((n, k) := None)"
    and "db_history_seq s' = db_history_seq s" and "db_policy s' = db_policy s"
    and "db_store_id s' = db_store_id s" and "db_week s' = db_week s"
  shows "matches s' (tombstone n k a)"
  using assms by (simp add: matches_def)

text \<open>Writing one table moves one row of the image.\<close>

lemma tables_issue:
  assumes "\<And>j. find_issue s' j = (if j = i then Some r else find_issue s j)"
    and "db_projects s' = db_projects s" "db_folders s' = db_folders s"
    and "db_project_folders s' = db_project_folders s" "db_deps s' = db_deps s"
    and "db_remote_deps s' = db_remote_deps s" "db_history s' = db_history s"
    and "db_outbound s' = db_outbound s" "db_store_id s' = db_store_id s"
  shows "tables s' = (tables s)((ISSUE, [i]) := Some (row_json r))"
proof -
  have "(\<lambda>j. map_option row_json (find_issue s' j)) =
      (\<lambda>j. map_option row_json (find_issue s j))(i := Some (row_json r))"
    using assms(1) by (simp add: fun_eq_iff)
  then show ?thesis
    using assms(2-) by (simp add: tables_def fun_eq_iff find_project_def find_folder_def)
qed

lemma matches_upd:
  assumes "matches s a" and "find_issue s i = Some r" and "\<And>r. ir_id r = i \<Longrightarrow> ir_id (f r) = i"
    and "row_json (f r) = d"
  shows "matches (upd_issue i f s) (put_row ISSUE [i] d a)"
proof (rule matches_put [OF assms(1)])
  show "tables (upd_issue i f s) = (tables s)((ISSUE, [i]) \<mapsto> d)"
    unfolding assms(4) [symmetric]
    by (rule tables_issue) (use assms(2,3) in \<open>simp_all add: find_issue_upd\<close>)
qed simp_all

lemma find_snoc: "find P (xs @ [x]) = (case find P xs of None \<Rightarrow> if P x then Some x else None | Some y \<Rightarrow> Some y)"
  by (simp add: find_append split: option.split)

text \<open>What logging an event needs of the tables.\<close>

definition tidy :: "db \<Rightarrow> bool" where
  "tidy s \<longleftrightarrow> distinct (map ir_id (db_issues s)) \<and> logs_ok s"

lemma db_ok_tidy: "db_ok s \<Longrightarrow> tidy s"
  by (simp add: tidy_def db_ok_def issues_ok_def)

lemma tidy_upd: "tidy s \<Longrightarrow> (\<And>r. ir_id r = i \<Longrightarrow> ir_id (f r) = i) \<Longrightarrow> tidy (upd_issue i f s)"
  by (simp add: tidy_def ids_upd_issue logs_ok_def)

lemma tidy_log: "tidy s \<Longrightarrow> tidy (log_event i ts a e d s)"
  by (simp add: tidy_def logs_ok_log)

lemma log_numbers:
  assumes "tidy s"
  shows "h \<in> set (db_history s) \<Longrightarrow> hr_seq h \<noteq> db_history_seq s + 1"
    and "e \<in> set (db_outbound s) \<Longrightarrow> or_seq e \<noteq> db_history_seq s + 1"
  using assms by (fastforce simp: tidy_def logs_ok_def)+

lemma own_rows:
  assumes "tidy s"
  shows "filter (\<lambda>r. ir_id r = i) (db_issues s) = (case find_issue s i of None \<Rightarrow> [] | Some r \<Rightarrow> [r])"
proof (cases "find_issue s i")
  case None
  then have "\<forall>r \<in> set (db_issues s). ir_id r \<noteq> i" by (auto simp: find_issue_None)
  then show ?thesis using None by simp
next
  case (Some r)
  have "length (filter (\<lambda>r. ir_id r = i) (db_issues s)) \<le> 1"
    by (rule filter_key_single) (use assms in \<open>simp add: tidy_def\<close>)
  moreover have "r \<in> set (filter (\<lambda>r. ir_id r = i) (db_issues s))"
    using find_issue_mem [OF Some] find_issue_id [OF Some] by simp
  ultimately show ?thesis using Some
    by (cases "filter (\<lambda>r. ir_id r = i) (db_issues s)") auto
qed

lemma str_at_row_project [simp]: "str_at (row_json r) ''project'' = ir_project r"
  by (simp add: str_at_def row_json_def)

lemma load_issue_matches: "matches s a \<Longrightarrow> load_issue a i = map_option row_json (find_issue s i)"
  by (simp add: load_issue_def row_at_matches tables_at)

lemma tables_history:
  assumes "tidy s"
  shows "tables (s\<lparr>db_history_seq := q, db_history := db_history s @ [h]\<rparr>) =
    (if hr_seq h = db_history_seq s + 1
     then (tables s)((MARBLES_EVENT, [show_int (hr_seq h)]) := Some (event_json h))
     else tables (s\<lparr>db_history_seq := q, db_history := db_history s @ [h]\<rparr>))"
proof (cases "hr_seq h = db_history_seq s + 1")
  case True
  have none: "find (\<lambda>x. show_int (hr_seq x) = show_int (hr_seq h)) (db_history s) = None"
    using log_numbers(1) [OF assms] True by (auto simp: find_None_iff_all)
  have "(\<lambda>q. map_option event_json (find (\<lambda>x. show_int (hr_seq x) = q) (db_history s @ [h]))) =
      (\<lambda>q. map_option event_json (find (\<lambda>x. show_int (hr_seq x) = q) (db_history s)))
        (show_int (hr_seq h) := Some (event_json h))"
    using none by (auto simp: fun_eq_iff find_snoc split: option.split)
  with True show ?thesis
    by (simp add: tables_def fun_eq_iff find_project_def find_folder_def find_issue_def)
qed simp

lemma tables_outbound:
  assumes "\<And>x. x \<in> set (db_outbound s) \<Longrightarrow> or_seq x \<noteq> or_seq e"
  shows "tables (s\<lparr>db_outbound := db_outbound s @ [e]\<rparr>) =
    (tables s)((OUTBOUND_EVENT, [show_int (or_seq e)]) := Some (delivery_json e))"
proof -
  have none: "find (\<lambda>x. show_int (or_seq x) = show_int (or_seq e)) (db_outbound s) = None"
    using assms by (auto simp: find_None_iff_all)
  have "(\<lambda>q. map_option delivery_json (find (\<lambda>x. show_int (or_seq x) = q) (db_outbound s @ [e]))) =
      (\<lambda>q. map_option delivery_json (find (\<lambda>x. show_int (or_seq x) = q) (db_outbound s)))
        (show_int (or_seq e) := Some (delivery_json e))"
    using none by (auto simp: fun_eq_iff find_snoc split: option.split)
  then show ?thesis
    by (simp add: tables_def fun_eq_iff find_project_def find_folder_def find_issue_def)
qed

lemma matches_log:
  assumes "matches s a" and "tidy s"
  shows "matches (log_event i ts actor e d s) (ad_log_event i ts actor e d a)"
proof -
  let ?q = "db_history_seq s + 1"
  let ?h = "\<lparr>hr_seq = ?q, hr_issue_id = i, hr_ts = ts, hr_actor = actor, hr_event = e, hr_detail = d\<rparr>"
  let ?s1 = "s\<lparr>db_history_seq := ?q, db_history := db_history s @ [?h]\<rparr>"
  let ?a1 = "put_row MARBLES_EVENT [show_int ?q] (marbles_event_json i ts actor e d) (a\<lparr>inner_seq := ?q\<rparr>)"
  have seq: "inner_seq a = db_history_seq s" using assms(1) by (simp add: matches_def)
  have "tables ?s1 = (tables s)((MARBLES_EVENT, [show_int ?q]) := Some (marbles_event_json i ts actor e d))"
    using tables_history [OF assms(2), where q = ?q and h = ?h] by (simp add: event_json_def)
  then have m1: "matches ?s1 ?a1" using assms(1) by (simp add: matches_def)
  have find1: "find_issue ?s1 i = find_issue s i" by (simp add: find_issue_def)
  note load = load_issue_matches [OF m1, of i]
  show ?thesis
  proof (cases "find_issue s i")
    case None
    then have "log_event i ts actor e d s = ?s1"
      by (simp add: log_event_def Let_def own_rows [OF assms(2)])
    then show ?thesis using m1 load None find1 by (simp add: ad_log_event_def Let_def seq)
  next
    case (Some r)
    let ?e = "\<lparr>or_seq = ?q, or_store_id = db_store_id s, or_issue_id = i, or_project = ir_project r,
        or_occurred_at = ts, or_event = e, or_delivered_at = None, or_attempts = 0,
        or_next_attempt_at = ts, or_last_error = None\<rparr>"
    have log: "log_event i ts actor e d s = ?s1\<lparr>db_outbound := db_outbound ?s1 @ [?e]\<rparr>"
      using find_issue_id [OF Some] by (simp add: log_event_def Let_def own_rows [OF assms(2)] Some)
    have new: "or_seq x \<noteq> or_seq ?e" if "x \<in> set (db_outbound ?s1)" for x
      using log_numbers(2) [OF assms(2)] that by simp
    have dj: "delivery_json ?e = outbound_json ?q (inner_store_id ?a1) i (ir_project r) ts e"
      using m1 by (simp add: delivery_json_def outbound_json_def matches_def jint_opt_def jstr_opt_def)
    have "matches (?s1\<lparr>db_outbound := db_outbound ?s1 @ [?e]\<rparr>)
        (put_row OUTBOUND_EVENT [show_int ?q] (outbound_json ?q (inner_store_id ?a1) i (ir_project r) ts e) ?a1)"
    proof (rule matches_put [OF m1])
      show "tables (?s1\<lparr>db_outbound := db_outbound ?s1 @ [?e]\<rparr>) = (tables ?s1)((OUTBOUND_EVENT, [show_int ?q]) \<mapsto>
          outbound_json ?q (inner_store_id ?a1) i (ir_project r) ts e)"
        unfolding dj [symmetric] by (subst tables_outbound) (use new in simp_all)
    qed simp_all
    then show ?thesis using load Some find1 unfolding log by (simp add: ad_log_event_def Let_def seq)
  qed
qed

end
