(* ===== verification/AdapterReads.thy ===== *)
theory AdapterReads
  imports AdapterSim
begin

text \<open>
  Reading through the adapter: over matching states whose integers fit 64 bits, every query of the
  adapter gives what the SQLite store gives.
\<close>

section \<open>Integers\<close>

definition row_fits :: "issue_row \<Rightarrow> bool" where
  "row_fits r \<longleftrightarrow> fits (ir_priority r) \<and> fits (ir_created_at r) \<and> fits (ir_updated_at r) \<and>
     fits_opt (ir_expires_at r) \<and> fits_opt (ir_available_at r) \<and> fits_opt (ir_closed_at r)"

definition delivery_fits :: "outbound_row \<Rightarrow> bool" where
  "delivery_fits e \<longleftrightarrow> fits (or_seq e) \<and> fits (or_occurred_at e) \<and> fits (or_next_attempt_at e) \<and>
     fits (or_attempts e)"

definition remote_fits :: "remote_dependency \<Rightarrow> bool" where
  "remote_fits d \<longleftrightarrow> fits (rd_asserted_at d) \<and> fits (rd_observed_at d) \<and> rd_freshness d = None"

text \<open>Every stored number is an \<open>i64\<close>, which is what the columns and fields of the source are.\<close>

definition db_fits :: "db \<Rightarrow> bool" where
  "db_fits s \<longleftrightarrow> list_all row_fits (db_issues s) \<and>
     list_all (\<lambda>f. fits (fr_created_at f)) (db_folders s) \<and>
     list_all (\<lambda>h. fits (hr_seq h) \<and> fits (hr_ts h)) (db_history s) \<and>
     list_all delivery_fits (db_outbound s) \<and> list_all (\<lambda>r. remote_fits (snd r)) (db_remote_deps s)"

lemma find_row_fits: "db_fits s \<Longrightarrow> find_issue s i = Some r \<Longrightarrow> row_fits r"
  using find_issue_mem by (fastforce simp: db_fits_def list_all_iff)

section \<open>Keys\<close>

lemma current_keys: "matches s a \<Longrightarrow> current (inner_engine a) n k = tables s (n, k)"
  using row_at_matches [of s a n k] by (simp add: row_at_def)

lemma keys_matches:
  assumes "matches s a"
  shows "row_keys a n = sorted_list_of_set {k. tables s (n, k) \<noteq> None}"
    and "finite {k. tables s (n, k) \<noteq> None}"
proof -
  have ok: "engine_ok (inner_engine a)" using assms by (simp add: matches_def)
  have "live_keys (inner_engine a) n = sorted_list_of_set {k. current (inner_engine a) n k \<noteq> None}"
    by (rule live_keys_sorted_set [OF ok])
  then show "row_keys a n = sorted_list_of_set {k. tables s (n, k) \<noteq> None}"
    by (simp add: row_keys_def current_keys [OF assms])
  have "k \<in> set (live_keys (inner_engine a) n) \<longleftrightarrow> current (inner_engine a) n k \<noteq> None" for k
    using ok by (simp add: engine_ok_def)
  then have "{k. tables s (n, k) \<noteq> None} = set (live_keys (inner_engine a) n)"
    by (auto simp: current_keys [OF assms])
  then show "finite {k. tables s (n, k) \<noteq> None}" by simp
qed

lemma row_keys_set:
  assumes "matches s a"
  shows "set (row_keys a n) = {k. tables s (n, k) \<noteq> None}" "distinct (row_keys a n)" "sorted (row_keys a n)"
  using keys_matches [OF assms, of n] by simp_all

text \<open>Keys of one component are their components, sorted.\<close>

lemma single_keys:
  assumes "matches s a" and "{k. tables s (n, k) \<noteq> None} = (\<lambda>x. [x]) ` X"
  shows "row_keys a n = map (\<lambda>x. [x]) (sorted_list_of_set X)" and "finite X"
proof -
  have "finite ((\<lambda>x. [x]) ` X)" using keys_matches(2) [OF assms(1), of n] assms(2) by simp
  then show fin: "finite X" by (rule finite_imageD) (simp add: inj_on_def)
  have "sorted (map (\<lambda>x. [x]) xs)" if "sorted xs" for xs :: "string list"
    using that by (induction xs) auto
  then have "sorted (map (\<lambda>x. [x]) (sorted_list_of_set X))" by simp
  moreover have "distinct (map (\<lambda>x. [x]) (sorted_list_of_set X))" by (simp add: distinct_map inj_on_def)
  moreover have "set (map (\<lambda>x. [x]) (sorted_list_of_set X)) = set (row_keys a n)"
    unfolding row_keys_set(1) [OF assms(1)] assms(2) using fin by simp
  ultimately show "row_keys a n = map (\<lambda>x. [x]) (sorted_list_of_set X)"
    using sorted_distinct_set_unique [OF row_keys_set(3) [OF assms(1)] row_keys_set(2) [OF assms(1)]] by metis
qed

lemma map_filter_single [simp]:
  "List.map_filter (\<lambda>k. case k of [] \<Rightarrow> None | x # _ \<Rightarrow> f x) (map (\<lambda>x. [x]) xs) = List.map_filter f xs"
  by (induction xs) (simp_all split: option.splits)

lemma map_filter_total: "(\<And>x. x \<in> set xs \<Longrightarrow> f x = Some (g x)) \<Longrightarrow> List.map_filter f xs = map g xs"
  by (induction xs) simp_all

lemma issue_keys:
  assumes "matches s a"
  shows "row_keys a ISSUE = map (\<lambda>x. [x]) (sorted_list_of_set (ir_id ` set (db_issues s)))"
proof (rule single_keys(1) [OF assms])
  have "tables s (ISSUE, k) \<noteq> None \<longleftrightarrow> (\<exists>x. k = [x] \<and> find_issue s x \<noteq> None)" for k
    by (auto simp: tables_at one_def split: list.splits)
  moreover have "find_issue s x \<noteq> None \<longleftrightarrow> x \<in> ir_id ` set (db_issues s)" for x
    unfolding find_issue_None by simp
  ultimately show "{k. tables s (ISSUE, k) \<noteq> None} = (\<lambda>x. [x]) ` ir_id ` set (db_issues s)" by auto
qed

section \<open>Edges\<close>

lemma edge_rows:
  assumes "matches s a"
  shows "set (edges_of a) = set (db_deps s)" and "distinct (edges_of a)"
proof -
  have k: "k \<in> set (row_keys a DEPENDENCY) \<longleftrightarrow> (\<exists>c p. k = [c, p] \<and> (c, p) \<in> set (db_deps s))" for k
    unfolding row_keys_set(1) [OF assms] by (auto simp: tables_at two_def split: list.splits if_splits)
  have edge: "edge_of [c, p] = Some (c, p)" for c p by (simp add: edge_of_def)
  have "d \<in> set (edges_of a) \<longleftrightarrow> d \<in> set (db_deps s)" for d
  proof -
    have "d \<in> set (edges_of a) \<longleftrightarrow> (\<exists>k \<in> set (row_keys a DEPENDENCY). edge_of k = Some d)"
      by (simp add: edges_of_def set_map_filter_Some)
    also have "\<dots> \<longleftrightarrow> (\<exists>c p. (c, p) \<in> set (db_deps s) \<and> edge_of [c, p] = Some d)" using k by metis
    also have "\<dots> \<longleftrightarrow> d \<in> set (db_deps s)" unfolding edge by (cases d) auto
    finally show ?thesis .
  qed
  then show "set (edges_of a) = set (db_deps s)" by blast
  have pairs: "\<forall>k \<in> set ks. \<exists>c p. k = [c, p] \<Longrightarrow> distinct ks \<Longrightarrow>
      distinct (List.map_filter edge_of ks) \<and> (\<lambda>d. [fst d, snd d]) ` set (List.map_filter edge_of ks) \<subseteq> set ks" for ks
  proof (induction ks)
    case (Cons k ks)
    then obtain c p where k: "k = [c, p]" by auto
    have IH: "distinct (List.map_filter edge_of ks)"
      "(\<lambda>d. [fst d, snd d]) ` set (List.map_filter edge_of ks) \<subseteq> set ks" using Cons by auto
    have "k \<notin> set ks" using Cons.prems(2) by simp
    then have "(c, p) \<notin> set (List.map_filter edge_of ks)" using IH(2) k by force
    then show ?case using IH k edge by auto
  qed simp
  show "distinct (edges_of a)"
    using pairs [of "row_keys a DEPENDENCY"] row_keys_set(2) [OF assms] k unfolding edges_of_def by blast
qed

lemma mset_eq_sets: "distinct xs \<Longrightarrow> distinct ys \<Longrightarrow> set xs = set ys \<Longrightarrow> mset xs = mset ys"
  by (simp add: set_eq_iff_mset_eq_distinct)

lemma edge_lists:
  assumes "matches s a" and "db_ok s"
  shows "mset (parents_of a i) = mset (blockers_of s i)"
    and "mset (dependents_of a i) = mset (map fst (filter (\<lambda>d. snd d = i) (db_deps s)))"
proof -
  have d: "distinct (db_deps s)" using assms(2) by (simp add: db_ok_def deps_ok_def)
  have m: "mset (edges_of a) = mset (db_deps s)"
    by (rule mset_eq_sets) (use edge_rows [OF assms(1)] d in auto)
  have f: "mset (filter P (edges_of a)) = mset (filter P (db_deps s))" for P
    using m by (simp add: mset_filter)
  show "mset (parents_of a i) = mset (blockers_of s i)"
    using f [of "\<lambda>d. fst d = i"] by (simp add: parents_of_def blockers_of_def succs_def)
  show "mset (dependents_of a i) = mset (map fst (filter (\<lambda>d. snd d = i) (db_deps s)))"
    using f [of "\<lambda>d. snd d = i"] by (simp add: dependents_of_def)
qed

lemma status_of_matches: "matches s a \<Longrightarrow> status_of a i = map_option ir_status (find_issue s i)"
  by (cases "find_issue s i") (simp_all add: status_of_def load_issue_matches row_json_def)

lemma unfinished_matches:
  "matches s a \<Longrightarrow> unfinished a i \<longleftrightarrow> (\<exists>r. find_issue s i = Some r \<and> ir_status r \<noteq> ''closed'')"
  by (auto simp: unfinished_def status_of_matches is_terminal_def split: option.splits)

lemma count_matches:
  assumes "matches s a" and "db_ok s" and "mset xs = mset ys"
  shows "int (length (filter (unfinished a) xs)) = join_count s ys"
proof -
  have "length (filter (\<lambda>r. ir_id r = i \<and> ir_status r \<noteq> ''closed'') (db_issues s)) =
      (if unfinished a i then 1 else 0)" for i
  proof -
    have "filter (\<lambda>r. ir_id r = i \<and> ir_status r \<noteq> ''closed'') (db_issues s) =
        filter (\<lambda>r. ir_status r \<noteq> ''closed'') (filter (\<lambda>r. ir_id r = i) (db_issues s))"
      by (simp add: conj_commute)
    then show ?thesis
      by (auto simp: own_rows [OF db_ok_tidy [OF assms(2)]] unfinished_matches [OF assms(1)] split: option.split)
  qed
  then have "join_count s ys = int (sum_list (map (\<lambda>i. if unfinished a i then 1 else 0) ys))"
    by (simp add: join_count_def length_concat comp_def)
  also have "sum_list (map (\<lambda>i. if unfinished a i then 1 else 0) ys) = length (filter (unfinished a) ys)"
    by (induction ys) simp_all
  also have "length (filter (unfinished a) ys) = length (filter (unfinished a) xs)"
    using assms(3) by (metis mset_filter size_mset)
  finally show ?thesis by simp
qed

section \<open>Issues\<close>

lemma distinct_mapD: "distinct (map f xs) \<Longrightarrow> distinct xs"
  by (simp add: distinct_map)


lemma sort_mset: "mset xs = mset ys \<Longrightarrow> sort xs = (sort ys :: 'a :: linorder list)"
  by (metis mset_sort properties_for_sort sorted_sort)

lemma view_matches:
  assumes "matches s a" and "db_ok s" and "row_fits r" and "ir_id r = i"
  shows "view_of a i (row_json r) = issue_of_row s r"
proof -
  have f: "fits (ir_priority r)" "fits (ir_created_at r)" "fits (ir_updated_at r)"
    "fits_opt (ir_expires_at r)" "fits_opt (ir_available_at r)" "fits_opt (ir_closed_at r)"
    using assms(3) by (simp_all add: row_fits_def)
  have deps: "sort (parents_of a i) = sort (blockers_of s i)"
    by (rule sort_mset [OF edge_lists(1) [OF assms(1,2)]])
  have counts: "int (length (filter (unfinished a) (parents_of a i))) = join_count s (blockers_of s i)"
    "int (length (filter (unfinished a) (dependents_of a i))) =
       join_count s (map fst (filter (\<lambda>d. snd d = i) (db_deps s)))"
    by (rule count_matches [OF assms(1,2)], rule edge_lists [OF assms(1,2)])+
  show ?thesis
    unfolding view_of_def issue_of_row_def deps counts assms(4)
    using f assms(4) by (simp add: row_json_def str_at_def int_at_def del: as_i64.simps)
qed

lemma get_matches:
  assumes "matches s a" and "db_ok s" and "db_fits s"
  shows "ad_row_to_issue a i = row_to_issue s i" and "ad_get i a = get_issue i s"
proof -
  have "view_of a i (row_json r) = issue_of_row s r" if "find_issue s i = Some r" for r
    using view_matches [OF assms(1,2) find_row_fits [OF assms(3) that]] find_issue_id [OF that] by blast
  then show "ad_row_to_issue a i = row_to_issue s i"
    by (cases "find_issue s i") (simp_all add: ad_row_to_issue_def row_to_issue_def load_issue_matches [OF assms(1)])
  then show "ad_get i a = get_issue i s" by (simp add: ad_get_def get_issue_def)
qed

lemma all_issues_matches:
  assumes "matches s a" and "db_ok s" and "db_fits s"
  shows "all_issues a = map (\<lambda>i. issue_of_row s (the (find_issue s i))) (sorted_list_of_set (ir_id ` set (db_issues s)))"
proof -
  have "ad_row_to_issue a i = Some (issue_of_row s (the (find_issue s i)))"
    if "i \<in> ir_id ` set (db_issues s)" for i
    using that find_issue_None [of s i] by (auto simp: get_matches(1) [OF assms] row_to_issue_def)
  then show ?thesis
    unfolding all_issues_def issue_keys [OF assms(1)] map_filter_single
    by (intro map_filter_total) simp
qed

lemma issue_order_row: "issue_order (issue_of_row s r) = queue_order r"
  by (simp add: issue_order_def queue_order_def issue_of_row_def)

text \<open>Two sorted selections of the same issues are the same list.\<close>

lemma selection_matches:
  assumes "matches s a" and "db_ok s" and "db_fits s"
    and "\<And>r. r \<in> set (db_issues s) \<Longrightarrow> P (issue_of_row s r) \<longleftrightarrow> Q r"
  shows "sort_key issue_order (filter P (all_issues a)) =
    map (issue_of_row s) (sort_key queue_order (filter Q (db_issues s)))" (is "?xs = ?ys")
proof -
  have ids: "distinct (map ir_id (db_issues s))" using assms(2) by (simp add: db_ok_def issues_ok_def)
  let ?V = "issue_of_row s ` set (db_issues s)"
  have row: "issue_of_row s (the (find_issue s (ir_id r))) = issue_of_row s r" if "r \<in> set (db_issues s)" for r
    using find_issue_row [OF ids that] by simp
  have all: "set (all_issues a) = ?V"
    unfolding all_issues_matches [OF assms(1-3)] using row by (force simp: image_image)
  have inj: "inj_on issue_order ?V"
  proof (rule inj_onI)
    fix v w assume vw: "v \<in> ?V" "w \<in> ?V" "issue_order v = issue_order w"
    then obtain r t where rt: "r \<in> set (db_issues s)" "v = issue_of_row s r" "t \<in> set (db_issues s)"
      "w = issue_of_row s t" by blast
    then have "ir_id r = ir_id t" using vw(3) by (simp add: issue_order_row queue_order_def)
    then have "r = t" using rt(1,3) ids by (simp add: distinct_map inj_on_def)
    then show "v = w" using rt by simp
  qed
  have dist: "distinct (map i_id (all_issues a))"
  proof -
    have "i_id (issue_of_row s (the (find_issue s i))) = i" if "i \<in> ir_id ` set (db_issues s)" for i
      using that find_issue_row [OF ids] by (force simp: issue_of_row_def)
    then have "map i_id (all_issues a) = sorted_list_of_set (ir_id ` set (db_issues s))"
      unfolding all_issues_matches [OF assms(1-3)] map_map by (intro map_idI) simp
    then show ?thesis by simp
  qed
  have dys: "distinct ?ys"
  proof -
    have "i_id \<circ> issue_of_row s = ir_id" by (simp add: fun_eq_iff issue_of_row_def)
    moreover have "distinct (map ir_id (sort_key queue_order (filter Q (db_issues s))))"
      using ids by (simp add: distinct_map inj_on_def)
    ultimately have "distinct (map i_id ?ys)" by simp
    then show ?thesis by (rule distinct_mapD)
  qed
  have sub: "set ?xs \<subseteq> ?V" "set ?ys \<subseteq> ?V" using all by auto
  have eq: "set ?xs = set ?ys" using all assms(4) by auto
  have srt: "sorted (map issue_order ?xs)" "sorted (map issue_order ?ys)"
    using issue_order_row by (simp_all add: comp_def)
  have dx: "distinct (map issue_order ?xs)"
    unfolding distinct_map using dist inj_on_subset [OF inj sub(1)] by (simp add: distinct_map)
  have dy: "distinct (map issue_order ?ys)"
    using dys inj_on_subset [OF inj sub(2)] by (simp only: distinct_map [of issue_order])
  have "inj_on issue_order (set ?xs \<union> set ?ys)" using inj_on_subset [OF inj, of "set ?xs \<union> set ?ys"] sub by blast
  then show ?thesis using map_sorted_distinct_set_unique srt dx dy eq by blast
qed

lemma list_matches:
  assumes "matches s a" and "db_ok s" and "db_fits s"
  shows "ad_list project all only_id a = list_issues project all only_id s"
  unfolding ad_list_def list_issues_def
  by (rule selection_matches [OF assms]) (auto simp: issue_of_row_def split: option.splits)

lemma ready_matches:
  assumes "matches s a" and "db_ok s" and "db_fits s"
  shows "ad_ready project now a = ready project now s"
  unfolding ad_ready_def ready_def
proof (rule selection_matches [OF assms])
  fix r assume r: "r \<in> set (db_issues s)"
  have ids: "distinct (map ir_id (db_issues s))" using assms(2) by (simp add: db_ok_def issues_ok_def)
  have row: "row_ok r" using assms(2) r by (simp add: db_ok_def issues_ok_def)
  have ends: "find_issue s p \<noteq> None" if "(ir_id r, p) \<in> set (db_deps s)" for p
    using assms(2) that unfolding find_issue_None by (force simp: db_ok_def deps_ok_def)
  have "set (parents_of a (ir_id r)) = set (blockers_of s (ir_id r))"
    using edge_lists(1) [OF assms(1,2)] mset_eq_setD by blast
  then have "list_all (\<lambda>p. case status_of a p of None \<Rightarrow> False | Some st \<Rightarrow> is_terminal st) (parents_of a (ir_id r)) \<longleftrightarrow>
      (\<forall>p \<in> set (blockers_of s (ir_id r)). \<exists>t. find_issue s p = Some t \<and> ir_status t = ''closed'')"
    by (auto simp: list_all_iff status_of_matches [OF assms(1)] is_terminal_def split: option.splits)
  also have "\<dots> \<longleftrightarrow> \<not> blocked s (ir_id r)"
    using ends unfolding blocked_def open_issue_iff [OF ids] by (force simp: blockers_of_def)
  finally have blk: "list_all (\<lambda>p. case status_of a p of None \<Rightarrow> False | Some st \<Rightarrow> is_terminal st)
      (parents_of a (ir_id r)) \<longleftrightarrow> \<not> blocked s (ir_id r)" .
  have "(case (ir_assignee r, ir_expires_at r) of (Some _, Some e) \<Rightarrow> \<not> now < e | _ \<Rightarrow> True) \<longleftrightarrow> claimable r now"
    using row by (auto simp: row_ok_def lease_ok_def claimable_def split: option.splits)
  with blk show "ad_is_ready a project now (issue_of_row s r) \<longleftrightarrow> is_ready s project now r"
    by (auto simp: ad_is_ready_def is_ready_def issue_of_row_def past_def split: option.splits)
qed

end
