(* ===== verification/AdapterQueries.thy ===== *)
theory AdapterQueries
  imports AdapterReads
begin

text \<open>The remaining queries of the adapter over matching states: logs, outbox, projects, folders, edges, statistics.\<close>

section \<open>Selections from keyed rows\<close>

lemma same_sorted:
  assumes "set xs = set ys" and "distinct (map k xs)" and "distinct (map k ys)"
  shows "sort_key k xs = sort_key k ys"
proof -
  have "inj_on k (set ys)" using assms(3) by (simp add: distinct_map)
  then have "inj_on k (set (sort_key k xs) \<union> set (sort_key k ys))" using assms(1) by simp
  moreover have "distinct (map k (sort_key k xs))" "distinct (map k (sort_key k ys))"
    using assms(2,3) by (simp_all add: distinct_map)
  ultimately show ?thesis using map_sorted_distinct_set_unique assms(1) by (metis set_sort sorted_sort_key)
qed

lemma distinct_map_filter_key:
  assumes "distinct ks" and "\<And>k x. k \<in> set ks \<Longrightarrow> f k = Some x \<Longrightarrow> k = g (h x)"
  shows "distinct (map h (List.map_filter f ks))"
  using assms
proof (induction ks)
  case (Cons k ks)
  have IH: "distinct (map h (List.map_filter f ks))" using Cons by simp
  show ?case
  proof (cases "f k")
    case (Some x)
    have "h x \<notin> h ` set (List.map_filter f ks)"
    proof
      assume "h x \<in> h ` set (List.map_filter f ks)"
      then obtain y j where y: "h x = h y" "j \<in> set ks" "f j = Some y" by (auto simp: set_map_filter_Some)
      then have "j = g (h y)" "k = g (h x)" using Cons.prems(2) [of j y] Cons.prems(2) [of k x] Some by simp_all
      then show False using y(1,2) Cons.prems(1) by simp
    qed
    then show ?thesis using IH Some by simp
  qed (use IH in simp)
qed simp

lemma find_number:
  assumes "sorted_wrt (<) (map q xs)" and "x \<in> set xs"
  shows "find (\<lambda>y. show_int (q y) = show_int (q x)) xs = Some x"
proof -
  have "distinct (map q xs)" using assms(1) by (simp add: strict_sorted_iff)
  then show ?thesis using find_distinct_key [of q xs x] assms(2) by simp
qed

lemma numbered_rows:
  assumes "sorted_wrt (<) (map q xs)"
  shows "one (\<lambda>s. map_option f (find (\<lambda>y. show_int (q y) = s) xs)) k = Some v \<longleftrightarrow>
    (\<exists>x \<in> set xs. k = [show_int (q x)] \<and> v = f x)"
proof
  assume "one (\<lambda>s. map_option f (find (\<lambda>y. show_int (q y) = s) xs)) k = Some v"
  then show "\<exists>x \<in> set xs. k = [show_int (q x)] \<and> v = f x"
    by (auto simp: one_Some dest!: find_SomeD)
next
  assume "\<exists>x \<in> set xs. k = [show_int (q x)] \<and> v = f x"
  then show "one (\<lambda>s. map_option f (find (\<lambda>y. show_int (q y) = s) xs)) k = Some v"
    using find_number [OF assms] by auto
qed

lemma row_key: "matches s a \<Longrightarrow> k \<in> set (row_keys a n) \<longleftrightarrow> (\<exists>v. tables s (n, k) = Some v)"
  by (simp add: row_keys_set(1))

lemma key_rows:
  assumes "matches s a"
  shows "x \<in> set (List.map_filter f (row_keys a n)) \<longleftrightarrow> (\<exists>k v. tables s (n, k) = Some v \<and> f k = Some x)"
  using row_keys_set(1) [OF assms, of n] by (auto simp: set_map_filter_Some)

section \<open>The logs\<close>

definition event_pair :: "history_row \<Rightarrow> int \<times> history_event" where
  "event_pair h = (hr_seq h, \<lparr>he_issue_id = hr_issue_id h, he_ts = hr_ts h, he_actor = hr_actor h,
     he_event = hr_event h, he_detail = hr_detail h\<rparr>)"

lemma event_at_row:
  assumes "matches s a" and "db_ok s" and "db_fits s" and "h \<in> set (db_history s)"
  shows "event_at a i [show_int (hr_seq h)] = (if hr_issue_id h = i then Some (event_pair h) else None)"
proof -
  have "sorted_wrt (<) (map hr_seq (db_history s))" using assms(2) by (simp add: db_ok_def logs_ok_def)
  from find_number [OF this assms(4)]
  have row: "row_at a MARBLES_EVENT [show_int (hr_seq h)] = Some (event_json h)"
    by (simp add: row_at_matches [OF assms(1)] tables_at)
  have f: "fits (hr_seq h)" "fits (hr_ts h)" using assms(3,4) by (auto simp: db_fits_def list_all_iff)
  show ?thesis
    by (simp add: event_at_def parse_show_int [OF f(1)] row event_json_def marbles_event_json_def
        event_pair_def str_at_def int_at_def as_i64_fits [OF f(2)] del: as_i64.simps)
qed

lemma event_at_Some:
  assumes "matches s a" and "db_ok s" and "db_fits s" and "tables s (MARBLES_EVENT, k) = Some v"
  shows "event_at a i k = Some x \<longleftrightarrow>
    (\<exists>h \<in> set (db_history s). k = [show_int (hr_seq h)] \<and> hr_issue_id h = i \<and> x = event_pair h)"
proof -
  have srt: "sorted_wrt (<) (map hr_seq (db_history s))" using assms(2) by (simp add: db_ok_def logs_ok_def)
  obtain h where h: "h \<in> set (db_history s)" "k = [show_int (hr_seq h)]"
    using assms(4) unfolding tables_at numbered_rows [OF srt] by blast
  have same: "g = h" if "g \<in> set (db_history s)" "hr_seq g = hr_seq h" for g
    using find_number [OF srt that(1)] find_number [OF srt h(1)] that(2) by simp
  have "(\<exists>g \<in> set (db_history s). k = [show_int (hr_seq g)] \<and> P g) \<longleftrightarrow> P h" for P
  proof
    assume "\<exists>g \<in> set (db_history s). k = [show_int (hr_seq g)] \<and> P g"
    then obtain g where g: "g \<in> set (db_history s)" "k = [show_int (hr_seq g)]" "P g" by blast
    then have "hr_seq g = hr_seq h" using h(2) by simp
    then have "g = h" by (rule same [OF g(1)])
    then show "P h" using g(3) by simp
  qed (use h in blast)
  then show ?thesis unfolding h(2) event_at_row [OF assms(1-3) h(1)] by (simp add: h(2)) blast
qed

lemma history_matches:
  assumes "matches s a" and "db_ok s" and "db_fits s"
  shows "ad_history i a = history i s"
proof -
  let ?rows = "filter (\<lambda>h. hr_issue_id h = i) (db_history s)"
  let ?L = "List.map_filter (event_at a i) (row_keys a MARBLES_EVENT)"
  have srt: "sorted_wrt (<) (map hr_seq (db_history s))" using assms(2) by (simp add: db_ok_def logs_ok_def)
  then have srt': "sorted_wrt (<) (map hr_seq ?rows)"
    by (simp add: sorted_wrt_map sorted_wrt_filter)
  have fst: "fst (event_pair h) = hr_seq h" for h by (simp add: event_pair_def)
  have mem: "x \<in> set ?L \<longleftrightarrow> x \<in> set (map event_pair ?rows)" for x
  proof -
    have "x \<in> set ?L \<longleftrightarrow> (\<exists>k v. tables s (MARBLES_EVENT, k) = Some v \<and> event_at a i k = Some x)"
      by (rule key_rows [OF assms(1)])
    also have "\<dots> \<longleftrightarrow> (\<exists>h \<in> set (db_history s). hr_issue_id h = i \<and> x = event_pair h)"
      using event_at_Some [OF assms] numbered_rows [OF srt, of event_json] unfolding tables_at by metis
    finally show ?thesis by auto
  qed
  have "distinct (map fst ?L)"
  proof (rule distinct_map_filter_key [where g = "\<lambda>q. [show_int q]"])
    show "distinct (row_keys a MARBLES_EVENT)" by (rule row_keys_set(2) [OF assms(1)])
    show "k = [show_int (fst x)]" if kin: "k \<in> set (row_keys a MARBLES_EVENT)" and ev: "event_at a i k = Some x" for k x
    proof -
      obtain v where "tables s (MARBLES_EVENT, k) = Some v"
        using iffD1 [OF row_key [OF assms(1)] kin] ..
      then obtain h where "k = [show_int (hr_seq h)]" "x = event_pair h"
        using event_at_Some [OF assms, of k v i x] ev by blast
      then show ?thesis using fst [of h] by simp
    qed
  qed
  moreover have "sorted (map hr_seq ?rows)" "distinct (map hr_seq ?rows)"
    using srt' by (simp_all add: strict_sorted_iff)
  moreover have "distinct (map fst (map event_pair ?rows))"
    using \<open>distinct (map hr_seq ?rows)\<close> by (simp add: comp_def fst)
  moreover have "set ?L = set (map event_pair ?rows)" using mem by blast
  ultimately have "sort_key fst ?L = sort_key fst (map event_pair ?rows)" by (intro same_sorted)
  also have "\<dots> = map event_pair ?rows"
    by (rule sort_key_id_if_sorted) (use \<open>sorted (map hr_seq ?rows)\<close> fst in \<open>simp add: comp_def\<close>)
  finally have "ad_history i a = map (snd \<circ> event_pair) ?rows" by (simp add: ad_history_def)
  moreover have "sort_key hr_seq ?rows = ?rows"
    by (rule sort_key_id_if_sorted [OF \<open>sorted (map hr_seq ?rows)\<close>])
  ultimately show ?thesis by (simp add: history_def event_pair_def comp_def)
qed

lemma due_row:
  assumes "matches s a" and "db_ok s" and "db_fits s" and "e \<in> set (db_outbound s)"
  shows "due_event a ts [show_int (or_seq e)] =
    (if or_delivered_at e = None \<and> or_next_attempt_at e \<le> ts then Some (event_of_row e) else None)"
proof -
  have "sorted_wrt (<) (map or_seq (db_outbound s))" using assms(2) by (simp add: db_ok_def logs_ok_def)
  from find_number [OF this assms(4)]
  have row: "row_at a OUTBOUND_EVENT [show_int (or_seq e)] = Some (delivery_json e)"
    by (simp add: row_at_matches [OF assms(1)] tables_at)
  have f: "fits (or_seq e)" "fits (or_occurred_at e)" "fits (or_next_attempt_at e)" "fits (or_attempts e)"
    using assms(3,4) by (auto simp: db_fits_def delivery_fits_def list_all_iff)
  have "is_number (jint_opt v) \<longleftrightarrow> v \<noteq> None" for v by (cases v) (simp_all add: is_number_def jint_opt_def)
  then show ?thesis
    by (simp add: due_event_def parse_show_int [OF f(1)] row delivery_json_def outbound_of_def event_of_row_def
        str_at_def int_at_def as_i64_fits [OF f(2)] as_i64_fits [OF f(3)] as_i64_fits [OF f(4)] del: as_i64.simps)
qed

lemma pending_matches:
  assumes "matches s a" and "db_ok s" and "db_fits s"
  shows "ad_pending_events ts limit a = pending_events ts limit s"
proof -
  let ?rows = "filter (\<lambda>r. or_delivered_at r = None \<and> or_next_attempt_at r \<le> ts) (db_outbound s)"
  let ?L = "List.map_filter (due_event a ts) (row_keys a OUTBOUND_EVENT)"
  have srt: "sorted_wrt (<) (map or_seq (db_outbound s))" using assms(2) by (simp add: db_ok_def logs_ok_def)
  then have srt': "sorted_wrt (<) (map or_seq ?rows)" by (simp add: sorted_wrt_map sorted_wrt_filter)
  have seq: "oe_seq (event_of_row e) = or_seq e" for e by (simp add: event_of_row_def)
  have row: "tables s (OUTBOUND_EVENT, k) = Some v \<longleftrightarrow>
      (\<exists>e \<in> set (db_outbound s). k = [show_int (or_seq e)] \<and> v = delivery_json e)" for k v
    unfolding tables_at by (rule numbered_rows [OF srt])
  have mem: "x \<in> set ?L \<longleftrightarrow> x \<in> set (map event_of_row ?rows)" for x
    unfolding key_rows [OF assms(1)] row using due_row [OF assms] by (auto split: if_splits) metis
  have "distinct (map oe_seq ?L)"
  proof (rule distinct_map_filter_key [where g = "\<lambda>q. [show_int q]"])
    show "distinct (row_keys a OUTBOUND_EVENT)" by (rule row_keys_set(2) [OF assms(1)])
    show "k = [show_int (oe_seq x)]" if kin: "k \<in> set (row_keys a OUTBOUND_EVENT)" and ev: "due_event a ts k = Some x" for k x
    proof -
      obtain v where "tables s (OUTBOUND_EVENT, k) = Some v"
        using iffD1 [OF row_key [OF assms(1)] kin] ..
      then obtain e where e: "e \<in> set (db_outbound s)" "k = [show_int (or_seq e)]"
        using row [of k v] by blast
      then have "x = event_of_row e" using ev due_row [OF assms e(1)] by (simp split: if_splits)
      then show ?thesis using e(2) seq by simp
    qed
  qed
  moreover have "sorted (map or_seq ?rows)" "distinct (map or_seq ?rows)"
    using srt' by (simp_all add: strict_sorted_iff)
  moreover have "distinct (map oe_seq (map event_of_row ?rows))"
    using \<open>distinct (map or_seq ?rows)\<close> by (simp add: comp_def seq)
  moreover have "set ?L = set (map event_of_row ?rows)" using mem by blast
  ultimately have "sort_key oe_seq ?L = sort_key oe_seq (map event_of_row ?rows)" by (intro same_sorted)
  also have "\<dots> = map event_of_row ?rows"
    by (rule sort_key_id_if_sorted) (use \<open>sorted (map or_seq ?rows)\<close> seq in \<open>simp add: comp_def\<close>)
  also have "?rows = sort_key or_seq ?rows"
    by (rule sort_key_id_if_sorted [OF \<open>sorted (map or_seq ?rows)\<close>, symmetric])
  finally show ?thesis by (simp add: ad_pending_events_def pending_events_def take_map)
qed

section \<open>Projects and folders\<close>

lemma sort_key_map: "sort_key k (map f xs) = map f (sort_key (k \<circ> f) xs)"
proof -
  have ins: "insort_key k (f x) (map f ys) = map f (insort_key (k \<circ> f) x ys)" for x ys
    by (induction ys) simp_all
  show ?thesis by (induction xs) (simp_all add: ins [unfolded comp_def] comp_def)
qed

text \<open>Looking the rows of a keyed table up in key order lists the table in key order.\<close>

lemma sorted_keys:
  assumes "distinct (map q rows)"
  shows "sorted_list_of_set (q ` set rows) = map q (sort_key q rows)"
proof (rule sorted_distinct_set_unique)
  show "distinct (map q (sort_key q rows))" using assms by (simp add: distinct_map)
qed simp_all

lemma keyed_lookup:
  assumes "distinct (map q rows)"
  shows "map (\<lambda>x. g (the (find (\<lambda>r. q r = x) rows))) (sorted_list_of_set (q ` set rows)) = map g (sort_key q rows)"
proof -
  have "find (\<lambda>r. q r = q x) rows = Some x" if "x \<in> set (sort_key q rows)" for x
    using that find_distinct_key [OF assms, of x] by simp
  then show ?thesis by (simp add: sorted_keys [OF assms])
qed

lemma keyed_rows:
  assumes "matches s a" and "\<And>k. tables s (n, k) = one (\<lambda>x. map_option f (find (\<lambda>r. q r = x) rows)) k"
    and "distinct (map q rows)" and "\<And>r. r \<in> set rows \<Longrightarrow> h [q r] (f r) = g r"
  shows "List.map_filter (\<lambda>k. case k of [] \<Rightarrow> None | x # _ \<Rightarrow> map_option (h [x]) (row_at a n [x])) (row_keys a n) =
    map g (sort_key q rows)"
proof -
  have found: "find (\<lambda>r. q r = q r') rows = Some r'" if "r' \<in> set rows" for r'
    using find_distinct_key [OF assms(3) that] .
  have "tables s (n, k) \<noteq> None \<longleftrightarrow> (\<exists>r \<in> set rows. k = [q r])" for k
    unfolding assms(2) using found by (auto simp: one_Some dest!: find_SomeD)
  then have keys: "{k. tables s (n, k) \<noteq> None} = (\<lambda>x. [x]) ` q ` set rows" by auto
  have "map_option (h [x]) (row_at a n [x]) = Some (g (the (find (\<lambda>r. q r = x) rows)))" if "x \<in> q ` set rows" for x
    using that found assms(4) by (auto simp: row_at_matches [OF assms(1)] assms(2))
  then have "List.map_filter (\<lambda>x. map_option (h [x]) (row_at a n [x])) (sorted_list_of_set (q ` set rows)) =
      map (\<lambda>x. g (the (find (\<lambda>r. q r = x) rows))) (sorted_list_of_set (q ` set rows))"
    by (intro map_filter_total) simp
  then show ?thesis
    unfolding single_keys(1) [OF assms(1) keys] map_filter_single keyed_lookup [OF assms(3)] .
qed

lemma projects_matches:
  assumes "matches s a" and "db_ok s"
  shows "ad_projects a = projects s"
proof -
  have d: "distinct (map pr_slug (db_projects s))" using assms(2) by (simp add: db_ok_def projects_ok_def)
  let ?rows = "sort_key pr_slug (db_projects s)" and ?g = "\<lambda>p. (pr_slug p, pr_root p, pr_prefix p)"
  let ?h = "\<lambda>k d. (hd k, str_at d ''root'', str_at d ''prefix'')"
  have "List.map_filter (\<lambda>k. case k of [] \<Rightarrow> None | x # _ \<Rightarrow> map_option (?h [x]) (row_at a PROJECT [x]))
      (row_keys a PROJECT) = map ?g ?rows"
    by (rule keyed_rows [OF assms(1) _ d, where f = project_json])
      (simp_all add: tables_at find_project_def project_json_def str_at_def)
  note this [unfolded list.sel]
  then have "ad_projects a = sort (map ?g ?rows)" unfolding ad_projects_def load_project_def by (rule arg_cong)
  also have "\<dots> = map ?g ?rows"
  proof (rule sort_key_id_if_sorted)
    have "sorted_wrt (<) (map pr_slug ?rows)" using d by (simp add: strict_sorted_iff distinct_map)
    then have "sorted_wrt (\<lambda>p q. ?g p \<le> ?g q) ?rows"
      unfolding sorted_wrt_map by (rule sorted_wrt_mono_rel [rotated]) simp
    then show "sorted (map (\<lambda>x. x) (map ?g ?rows))" by (simp add: sorted_wrt_map comp_def)
  qed
  finally show ?thesis by (simp add: projects_def)
qed

lemma folder_view_matches:
  assumes "matches s a" and "db_ok s" and "db_fits s"
  shows "ad_folder_view a = db_folder_view s"
proof -
  have df: "distinct (map fr_slug (db_folders s))" and da: "distinct (map pfr_project (db_project_folders s))"
    using assms(2) by (simp_all add: db_ok_def projects_ok_def folders_ok_def)
  let ?F = "\<lambda>f. \<lparr>fo_slug = fr_slug f, fo_name = fr_name f, fo_parent = fr_parent f, fo_created_at = fr_created_at f\<rparr>"
  let ?A = "\<lambda>x. \<lparr>pf_project = pfr_project x, pf_folder = pfr_folder x\<rparr>"
  have f: "folder_of (folder_json r) = ?F r" if "r \<in> set (db_folders s)" for r
    using that assms(3)
    by (simp add: db_fits_def list_all_iff folder_of_def folder_json_def str_at_def int_at_def del: as_i64.simps)
  have x: "\<lparr>pf_project = str_at (assignment_json r) ''project'', pf_folder = str_at (assignment_json r) ''folder''\<rparr> = ?A r" for r
    by (simp add: assignment_json_def str_at_def)
  have folders: "List.map_filter (\<lambda>k. case k of [] \<Rightarrow> None | slug # _ \<Rightarrow> map_option folder_of (load_folder a slug))
      (row_keys a FOLDER) = map ?F (sort_key fr_slug (db_folders s))"
    unfolding load_folder_def
    by (rule keyed_rows [OF assms(1) _ df, where f = folder_json and h = "\<lambda>_. folder_of"])
      (simp_all add: tables_at find_folder_def f)
  have order: "(\<lambda>f. (fo_name f, fo_slug f)) \<circ> ?F = (\<lambda>f. (fr_name f, fr_slug f))" by (simp add: fun_eq_iff)
  have "sort_key (\<lambda>f. (fo_name f, fo_slug f)) (map ?F (sort_key fr_slug (db_folders s))) =
      map ?F (sort_key (\<lambda>f. (fr_name f, fr_slug f)) (sort_key fr_slug (db_folders s)))"
    unfolding sort_key_map order ..
  also have "sort_key (\<lambda>f. (fr_name f, fr_slug f)) (sort_key fr_slug (db_folders s)) =
      sort_key (\<lambda>f. (fr_name f, fr_slug f)) (db_folders s)"
    by (rule same_sorted) (use df in \<open>auto simp: distinct_map inj_on_def\<close>)
  finally have fv: "fv_folders (ad_folder_view a) = fv_folders (db_folder_view s)"
    by (simp add: ad_folder_view_def db_folder_view_def folders)
  let ?h = "\<lambda>_ d. \<lparr>pf_project = str_at d ''project'', pf_folder = str_at d ''folder''\<rparr>"
  have rows: "row_keys a PROJECT_FOLDER = map (\<lambda>x. [x]) (sorted_list_of_set (pfr_project ` set (db_project_folders s)))"
  proof (rule single_keys(1) [OF assms(1)])
    have "tables s (PROJECT_FOLDER, k) \<noteq> None \<longleftrightarrow> (\<exists>r \<in> set (db_project_folders s). k = [pfr_project r])" for k
      unfolding tables_at using find_distinct_key [OF da] by (auto simp: one_Some dest!: find_SomeD)
    then show "{k. tables s (PROJECT_FOLDER, k) \<noteq> None} = (\<lambda>x. [x]) ` pfr_project ` set (db_project_folders s)"
      by auto
  qed
  have "List.map_filter (\<lambda>k. case k of [] \<Rightarrow> None | x # _ \<Rightarrow> map_option (?h [x]) (row_at a PROJECT_FOLDER [x]))
      (row_keys a PROJECT_FOLDER) = map ?A (sort_key pfr_project (db_project_folders s))"
    by (rule keyed_rows [OF assms(1) _ da, where f = assignment_json]) (simp_all add: tables_at x)
  moreover have "List.map_filter (\<lambda>k. case k of [] \<Rightarrow> None | _ # _ \<Rightarrow> map_option (?h k) (row_at a PROJECT_FOLDER k))
      (map (\<lambda>x. [x]) xs) = List.map_filter (\<lambda>k. case k of [] \<Rightarrow> None | x # _ \<Rightarrow>
        map_option (?h [x]) (row_at a PROJECT_FOLDER [x])) (map (\<lambda>x. [x]) xs)" for xs
    by (induction xs) (simp_all split: option.splits)
  ultimately have "fv_projects (ad_folder_view a) = fv_projects (db_folder_view s)"
    unfolding ad_folder_view_def db_folder_view_def folder_view.simps rows by metis
  with fv show ?thesis by (cases "ad_folder_view a", cases "db_folder_view s") simp
qed

section \<open>Edges to other stores\<close>

text \<open>The primary key of the table.\<close>

definition remote_keyed :: "db \<Rightarrow> bool" where
  "remote_keyed s \<longleftrightarrow> distinct (map (\<lambda>r. (fst r, rd_canonical_ref (snd r))) (db_remote_deps s))"

lemma remote_of_json: "remote_fits d \<Longrightarrow> remote_of (remote_json c d) = d"
  by (cases d) (simp add: remote_of_def remote_json_def remote_fields_def remote_fits_def str_at_def int_at_def
      del: as_i64.simps)

lemma remote_row:
  assumes "remote_keyed s" and "r \<in> set (db_remote_deps s)" and "same_edge c ref r"
  shows "find (same_edge c ref) (db_remote_deps s) = Some r"
proof -
  have "find (\<lambda>x. (fst x, rd_canonical_ref (snd x)) = (fst r, rd_canonical_ref (snd r))) (db_remote_deps s) = Some r"
    by (rule find_distinct_key) (use assms(1,2) in \<open>simp_all add: remote_keyed_def\<close>)
  moreover have "same_edge c ref = (\<lambda>x. (fst x, rd_canonical_ref (snd x)) = (fst r, rd_canonical_ref (snd r)))"
    using assms(3) by (auto simp: same_edge_def fun_eq_iff)
  ultimately show ?thesis by simp
qed

lemma remote_matches:
  assumes "matches s a" and "db_fits s" and "remote_keyed s"
  shows "ad_remote_dependencies c a = remote_dependencies c s"
proof -
  let ?f = "\<lambda>k. case k of [] \<Rightarrow> None | x # _ \<Rightarrow>
      if x \<noteq> c then None else map_option remote_of (row_at a REMOTE_DEP k)"
  let ?L = "List.map_filter ?f (row_keys a REMOTE_DEP)"
  let ?R = "map snd (filter (\<lambda>r. fst r = c) (db_remote_deps s))"
  have fits: "remote_fits (snd r)" if "r \<in> set (db_remote_deps s)" for r
    using assms(2) that by (simp add: db_fits_def list_all_iff)
  have row: "row_at a REMOTE_DEP [x, ref] = Some (remote_json x (snd r))"
    if "r \<in> set (db_remote_deps s)" "same_edge x ref r" for x ref r
    using remote_row [OF assms(3) that] by (simp add: row_at_matches [OF assms(1)] tables_at)
  have key: "tables s (REMOTE_DEP, k) = Some v \<longleftrightarrow>
      (\<exists>r \<in> set (db_remote_deps s). k = [fst r, rd_canonical_ref (snd r)] \<and> v = remote_json (fst r) (snd r))" for k v
  proof
    assume "tables s (REMOTE_DEP, k) = Some v"
    then show "\<exists>r \<in> set (db_remote_deps s). k = [fst r, rd_canonical_ref (snd r)] \<and> v = remote_json (fst r) (snd r)"
      by (force simp: tables_at two_Some same_edge_def dest!: find_SomeD)
  next
    assume "\<exists>r \<in> set (db_remote_deps s). k = [fst r, rd_canonical_ref (snd r)] \<and> v = remote_json (fst r) (snd r)"
    then obtain r where r: "r \<in> set (db_remote_deps s)" "k = [fst r, rd_canonical_ref (snd r)]"
      "v = remote_json (fst r) (snd r)" by blast
    have "find (same_edge (fst r) (rd_canonical_ref (snd r))) (db_remote_deps s) = Some r"
      by (rule remote_row [OF assms(3) r(1)]) (simp add: same_edge_def)
    then show "tables s (REMOTE_DEP, k) = Some v" by (simp add: tables_at r(2,3))
  qed
  have f: "?f [fst r, rd_canonical_ref (snd r)] = (if fst r = c then Some (snd r) else None)"
    if "r \<in> set (db_remote_deps s)" for r
    using row [OF that, of "fst r" "rd_canonical_ref (snd r)"] remote_of_json [OF fits [OF that]]
    by (auto simp: same_edge_def)
  have mem: "x \<in> set ?L \<longleftrightarrow> x \<in> set ?R" for x
  proof -
    have "x \<in> set ?L \<longleftrightarrow> (\<exists>r \<in> set (db_remote_deps s). ?f [fst r, rd_canonical_ref (snd r)] = Some x)"
      unfolding key_rows [OF assms(1)] key by blast
    also have "\<dots> \<longleftrightarrow> (\<exists>r \<in> set (db_remote_deps s). fst r = c \<and> snd r = x)" using f by (simp cong: bex_cong) blast
    finally show ?thesis by auto
  qed
  have "distinct (map rd_canonical_ref ?L)"
  proof (rule distinct_map_filter_key [where g = "\<lambda>ref. [c, ref]"])
    show "distinct (row_keys a REMOTE_DEP)" by (rule row_keys_set(2) [OF assms(1)])
    show "k = [c, rd_canonical_ref x]" if kin: "k \<in> set (row_keys a REMOTE_DEP)" and ev: "?f k = Some x" for k x
    proof -
      obtain v where "tables s (REMOTE_DEP, k) = Some v" using iffD1 [OF row_key [OF assms(1)] kin] ..
      then obtain r where r: "r \<in> set (db_remote_deps s)" "k = [fst r, rd_canonical_ref (snd r)]"
        using key [of k v] by blast
      show ?thesis using ev f [OF r(1)] unfolding r(2) by (simp split: if_splits)
    qed
  qed
  moreover have "distinct (map rd_canonical_ref ?R)"
  proof -
    have "distinct (map (\<lambda>r. (fst r, rd_canonical_ref (snd r))) (filter (\<lambda>r. fst r = c) (db_remote_deps s)))"
      using assms(3) unfolding remote_keyed_def by (rule distinct_map_filter)
    moreover have eq: "map (\<lambda>r. (fst r, rd_canonical_ref (snd r))) (filter (\<lambda>r. fst r = c) rs) =
        map (Pair c) (map (rd_canonical_ref \<circ> snd) (filter (\<lambda>r. fst r = c) rs))" for rs
      by (induction rs) simp_all
    ultimately have "distinct (map (Pair c) (map (rd_canonical_ref \<circ> snd) (filter (\<lambda>r. fst r = c) (db_remote_deps s))))"
      by (rule subst [where P = distinct, rotated])
    then have "distinct (map (rd_canonical_ref \<circ> snd) (filter (\<lambda>r. fst r = c) (db_remote_deps s)))"
      by (rule distinct_mapD)
    then show ?thesis by simp
  qed
  moreover have "set ?L = set ?R" using mem by blast
  ultimately have "sort_key rd_canonical_ref ?L = sort_key rd_canonical_ref ?R" by (intro same_sorted)
  then show ?thesis by (simp add: ad_remote_dependencies_def remote_dependencies_def)
qed

section \<open>Statistics\<close>

lemma map_of_tagged: "map_of (map (\<lambda>x. (x, g x)) xs) x = (if x \<in> set xs then Some (g x) else None)"
  by (induction xs) auto

lemma bt_ok_tagged: "bt_ok (map (\<lambda>x. (x, g x)) (bs_collect xs))"
  by (simp add: bt_ok_def comp_def bs_collect_def)

lemma set_bs_collect [simp]: "set (bs_collect xs) = set xs"
  by (simp add: bs_collect_def)

text \<open>How often each status occurs among the pairs of a project; what the nested counters hold.\<close>

definition status_counts :: "(string \<times> string) list \<Rightarrow> string \<Rightarrow> (string \<times> int) list" where
  "status_counts xs p = map (\<lambda>st. (st, int (length (filter (\<lambda>x. x = (p, st)) xs))))
     (bs_collect (map snd (filter (\<lambda>x. fst x = p) xs)))"

definition all_counts :: "(string \<times> string) list \<Rightarrow> (string \<times> (string \<times> int) list) list" where
  "all_counts xs = map (\<lambda>p. (p, status_counts xs p)) (bs_collect (map fst xs))"

lemma map_of_status_counts:
  "map_of (status_counts xs p) st =
    (if (p, st) \<in> set xs then Some (int (length (filter (\<lambda>x. x = (p, st)) xs))) else None)"
proof -
  have "st \<in> set (bs_collect (map snd (filter (\<lambda>x. fst x = p) xs))) \<longleftrightarrow> (p, st) \<in> set xs" by force
  then show ?thesis unfolding status_counts_def map_of_tagged by simp
qed

lemma map_of_all_counts:
  "map_of (all_counts xs) p = (if p \<in> fst ` set xs then Some (status_counts xs p) else None)"
  unfolding all_counts_def map_of_tagged by simp

lemma bump_all_counts: "bump p st (all_counts xs) = all_counts (xs @ [(p, st)])"
proof -
  let ?n = "or_else (map_of (or_nil (map_of (all_counts xs) p)) st) 0"
  have nil: "status_counts xs p = []" if "p \<notin> fst ` set xs"
  proof -
    have "filter (\<lambda>x. fst x = p) xs = []" using that by (auto simp: filter_empty_conv)
    then show ?thesis by (simp add: status_counts_def bs_collect_def)
  qed
  then have inner: "or_nil (map_of (all_counts xs) p) = status_counts xs p"
    by (simp add: map_of_all_counts or_nil_def)
  have none: "filter (\<lambda>x. x = (p, st)) xs = []" if "(p, st) \<notin> set xs"
    using that by (auto simp: filter_empty_conv)
  have n: "or_else (map_of (status_counts xs p) st) 0 = int (length (filter (\<lambda>x. x = (p, st)) xs))"
    using none by (simp add: map_of_status_counts)
  have here: "bt_insert st (int (length (filter (\<lambda>x. x = (p, st)) xs)) + 1) (status_counts xs p) =
      status_counts (xs @ [(p, st)]) p"
  proof (rule bt_insert_eqI)
    show "bt_ok (bt_insert st (int (length (filter (\<lambda>x. x = (p, st)) xs)) + 1) (status_counts xs p))"
      unfolding status_counts_def by (intro bt_ok_insert bt_ok_tagged)
    show "bt_ok (status_counts (xs @ [(p, st)]) p)" unfolding status_counts_def by (rule bt_ok_tagged)
  qed (auto simp: fun_eq_iff map_of_status_counts)
  have there: "status_counts (xs @ [(p, st)]) q = status_counts xs q" if "q \<noteq> p" for q
    using that by (simp add: status_counts_def)
  have "bump p st (all_counts xs) = bt_insert p (status_counts (xs @ [(p, st)]) p) (all_counts xs)"
    unfolding bump_def Let_def inner n here ..
  also have "\<dots> = all_counts (xs @ [(p, st)])"
  proof (rule bt_insert_eqI)
    show "bt_ok (bt_insert p (status_counts (xs @ [(p, st)]) p) (all_counts xs))"
      unfolding all_counts_def by (intro bt_ok_insert bt_ok_tagged)
    show "bt_ok (all_counts (xs @ [(p, st)]))" unfolding all_counts_def by (rule bt_ok_tagged)
  qed (auto simp: fun_eq_iff map_of_all_counts there)
  finally show ?thesis .
qed

lemma fold_bump: "fold (\<lambda>x. bump (fst x) (snd x)) xs (all_counts ys) = all_counts (ys @ xs)"
  by (induction xs arbitrary: ys) (simp_all add: bump_all_counts)

lemma fold_bump_new: "fold (\<lambda>x. bump (fst x) (snd x)) xs [] = all_counts xs"
  using fold_bump [of xs "[]"] by (simp add: all_counts_def [of "[]"] bs_collect_def)

lemma all_counts_mset:
  assumes "mset xs = mset ys"
  shows "all_counts xs = all_counts ys"
proof -
  have "set xs = set ys" by (rule mset_eq_setD [OF assms])
  then have "bs_collect (map fst xs) = bs_collect (map fst ys)"
    "bs_collect (map snd (filter (\<lambda>x. fst x = p) xs)) = bs_collect (map snd (filter (\<lambda>x. fst x = p) ys))" for p
    by (simp_all add: bs_collect_def)
  moreover have "length (filter P xs) = length (filter P ys)" for P using assms by (metis mset_filter size_mset)
  ultimately show ?thesis by (simp add: all_counts_def status_counts_def)
qed

lemma bt_ok_map_snd: "bt_ok (map (\<lambda>(k, v). (k, f v)) m) = bt_ok m"
  by (simp add: bt_ok_def comp_def case_prod_unfold)

lemma all_counts_issues: "all_counts (map (\<lambda>r. (ir_project r, ir_status r)) (db_issues s)) = stats_counts s"
  by (simp add: all_counts_def status_counts_def stats_counts_def filter_map comp_def)

lemma obj_sorted: "bt_ok m \<Longrightarrow> obj m = JObj m"
  unfolding obj_def
  by (rule arg_cong [where f = JObj], rule bt_insert_eqI) (simp_all add: map_of_rev_distinct bt_ok_distinct)

lemma stats_json:
  "obj (map (\<lambda>(project, statuses). (project, obj
       [(''by_status'', obj (map (\<lambda>(st, n). (st, JInt n)) statuses)),
        (''total'', JInt (sum_list (map snd statuses)))])) (all_counts xs)) =
   JObj (map (\<lambda>(p, statuses). (p, JObj
     [(''by_status'', JObj (map (\<lambda>(st, n). (st, JInt n)) statuses)),
      (''total'', JInt (sum_list (map snd statuses)))])) (all_counts xs))"
proof -
  have two: "obj [(''by_status'', u), (''total'', v)] = JObj [(''by_status'', u), (''total'', v)]" for u v
    by (simp add: obj_def bt_collect_def)
  have inner: "obj (map (\<lambda>(st, n). (st, JInt n)) (status_counts xs p)) =
      JObj (map (\<lambda>(st, n). (st, JInt n)) (status_counts xs p))" for p
    by (rule obj_sorted) (simp only: bt_ok_map_snd, simp only: status_counts_def bt_ok_tagged)
  have ok: "bt_ok (map (\<lambda>(k, v). (k, f v)) (all_counts xs))" for f :: "(string \<times> int) list \<Rightarrow> json"
    by (simp only: bt_ok_map_snd, simp only: all_counts_def bt_ok_tagged)
  show ?thesis
    unfolding two by (subst obj_sorted [OF ok]) (simp add: all_counts_def inner)
qed

lemma stats_matches:
  assumes "matches s a" and "db_ok s"
  shows "ad_stats a = stats s"
proof -
  have ids: "distinct (map ir_id (db_issues s))" using assms(2) by (simp add: db_ok_def issues_ok_def)
  let ?pair = "\<lambda>r. (ir_project r, ir_status r)"
  let ?step = "\<lambda>k counts. case k of [] \<Rightarrow> counts | i # _ \<Rightarrow>
      (case load_issue a i of None \<Rightarrow> counts | Some d \<Rightarrow> bump (str_at d ''project'') (str_at d ''status'') counts)"
  have st: "str_at (row_json r) ''status'' = ir_status r" for r by (simp add: str_at_def row_json_def)
  have step: "(case load_issue a (ir_id r) of None \<Rightarrow> counts
      | Some d \<Rightarrow> bump (str_at d ''project'') (str_at d ''status'') counts) = bump (ir_project r) (ir_status r) counts"
    if "r \<in> set (db_issues s)" for r counts
    using find_issue_row [OF ids that] by (simp add: load_issue_matches [OF assms(1)] st)
  have keys: "row_keys a ISSUE = map (\<lambda>r. [ir_id r]) (sort_key ir_id (db_issues s))"
    by (simp add: issue_keys [OF assms(1)] sorted_keys [OF ids])
  have "fold ?step (map (\<lambda>r. [ir_id r]) rs) counts = fold (\<lambda>x. bump (fst x) (snd x)) (map ?pair rs) counts"
    if "set rs \<subseteq> set (db_issues s)" for rs counts
    using that by (induction rs arbitrary: counts) (simp_all add: step)
  then have counts: "fold ?step (row_keys a ISSUE) [] = all_counts (map ?pair (sort_key ir_id (db_issues s)))"
    unfolding keys by (simp add: fold_bump_new)
  have "all_counts (map ?pair (sort_key ir_id (db_issues s))) = all_counts (map ?pair (db_issues s))"
    by (rule all_counts_mset) simp
  then show ?thesis
    unfolding ad_stats_def Let_def counts stats_def stats_json by (simp only: all_counts_issues)
qed

end
