(* ===== verification/AdapterCalls.thy ===== *)
theory AdapterCalls
  imports AdapterQueries
begin

text \<open>
  The mutations of the adapter, one simulation lemma each: over matching states, where the two stores
  are meant to agree, the adapter answers what the SQLite store answers and the states match again.
\<close>

section \<open>Reading, changing and saving one issue\<close>

lemma on_issue_matches:
  assumes "matches s a" and "db_ok s" and "db_fits s"
  shows "on_issue i a f = (case find_issue s i of None \<Rightarrow> (Inl (NotFound i), a) | Some r \<Rightarrow> f (issue_of_row s r))"
  by (simp add: on_issue_def get_matches [OF assms] get_issue_def row_to_issue_def split: option.split)

lemma issue_json_row [simp]: "issue_to_json (issue_of_row s r) = row_json r"
  by (simp add: issue_to_json_def row_json_def issue_of_row_def)

lemma matches_save:
  assumes "matches s a" and "find_issue s i = Some r" and "\<And>r. ir_id r = i \<Longrightarrow> ir_id (f r) = i"
    and "issue_to_json v = row_json (f r)" and "i_id v = i"
  shows "matches (upd_issue i f s) (save_issue v a)"
  unfolding save_issue_def assms(4,5) by (rule matches_upd) (use assms in simp_all)

lemma get_of_row: "find_issue s i = Some r \<Longrightarrow> get_issue i s = Inr (issue_of_row s r)"
  by (simp add: get_issue_def row_to_issue_def)

lemma view_fields [simp]:
  "i_id (issue_of_row s r) = ir_id r" "i_assignee (issue_of_row s r) = ir_assignee r"
  "i_expires_at (issue_of_row s r) = ir_expires_at r" "i_actor_kind (issue_of_row s r) = ir_actor_kind r"
  "i_labels (issue_of_row s r) = ir_labels r" "i_evidence (issue_of_row s r) = ir_evidence r"
  "i_status (issue_of_row s r) = ir_status r" "i_metadata (issue_of_row s r) = ir_metadata r"
  "i_title (issue_of_row s r) = ir_title r" "i_description (issue_of_row s r) = ir_description r"
  "i_priority (issue_of_row s r) = ir_priority r" "i_available_at (issue_of_row s r) = ir_available_at r"
  by (simp_all add: issue_of_row_def)

lemma saved_and_logged:
  assumes "matches s a" and "tidy s" and "find_issue s i = Some r" and "\<And>r. ir_id r = i \<Longrightarrow> ir_id (f r) = i"
    and "issue_to_json v = row_json (f r)" and "i_id v = i"
  shows "matches (log_event i ts actor e d (upd_issue i f s)) (ad_log_event i ts actor e d (save_issue v a))"
  by (rule matches_log [OF matches_save tidy_upd]) (use assms in simp_all)

section \<open>Claims\<close>

lemma fresh_cas:
  assumes "matches s a" and "find_issue s i = Some r" and "i_id v = i"
  shows "\<exists>w. issue_version a i = Inr w \<and> save_issue_cas v w a = (Inr True, save_issue v a)"
proof -
  have "current (inner_engine a) ISSUE [i] \<noteq> None"
    using assms(2) by (simp add: current_keys [OF assms(1)] tables_at)
  then obtain x where x: "latest_revision (inner_engine a) ISSUE [i] = Some x"
    by (auto simp: current_latest split: bind_splits)
  then have "admits (latest_revision (inner_engine a) ISSUE [i]) (Some (memory_version x))"
    by (simp add: admits_def)
  then have "save_issue_cas v (memory_version x) a = (Inr True, save_issue v a)"
    using assms(3) by (simp add: save_issue_cas_def swap_unfold swap_in_def save_issue_def put_row_def split: prod.split)
  moreover have "issue_version a i = Inr (memory_version x)" using x by (simp add: issue_version_def version_of_def)
  ultimately show ?thesis by blast
qed

lemma claim_sim:
  assumes m: "matches s a" "db_ok s" "db_fits s" and "claim req ts s = (out, s')"
  shows "\<exists>a'. ad_claim req ts a = (out, a') \<and> matches s' a'"
proof (cases "claim_ttl (db_policy s) (db_week s) req ts")
  case None
  then show ?thesis using assms by (simp add: claim_def ad_claim_def matches_def)
next
  case (Some ttl)
  have pw: "inner_policy a = db_policy s" "inner_week a = db_week s" using m(1) by (simp_all add: matches_def)
  let ?i = "cr_id req"
  have proj: "project_of a ?i = (case find_issue s ?i of None \<Rightarrow> Inl (NotFound ?i) | Some r \<Rightarrow> Inr (ir_project r))"
    by (simp add: project_of_def load_issue_matches [OF m(1)] split: option.split)
  show ?thesis
  proof (cases "find_issue s ?i")
    case None
    then show ?thesis using assms Some proj pw by (simp add: claim_def ad_claim_def tx_def)
  next
    case row: (Some r)
    let ?v = "issue_of_row s r"
    let ?w = "?v\<lparr>i_assignee := Some (cr_assignee req), i_actor_kind := Some (actor_kind_str (cr_actor_kind req)),
        i_expires_at := Some (ts + ttl), i_updated_at := ts\<rparr>"
    have id: "ir_id r = ?i" by (rule find_issue_id [OF row])
    obtain w where w: "issue_version a ?i = Inr w" "save_issue_cas ?w w a = (Inr True, save_issue ?w a)"
      using fresh_cas [OF m(1) row, of ?w] id by auto
    have json: "issue_to_json ?w = row_json (set_claim req ts ttl r)"
      by (simp add: issue_to_json_def row_json_def issue_of_row_def set_claim_def)
    have fin: "matches (log_event ?i ts (cr_assignee req) ''claimed'' (actor_kind_str (cr_actor_kind req))
        (upd_issue ?i (set_claim req ts ttl) s))
        (ad_log_event ?i ts (cr_assignee req) ''claimed'' (actor_kind_str (cr_actor_kind req)) (save_issue ?w a))"
      by (rule saved_and_logged [where f = "set_claim req ts ttl", OF m(1) db_ok_tidy [OF m(2)] row _ json])
        (simp_all add: id)
    have "ad_claim req ts a =
        (if held r ts \<and> ir_assignee r \<noteq> Some (cr_assignee req)
         then (Inl (AlreadyClaimed ?i (the (ir_assignee r))), a)
         else (Inr \<lparr>rc_id = ?i, rc_assignee = cr_assignee req, rc_actor_kind = cr_actor_kind req,
                     rc_expires_at = ts + ttl\<rparr>,
               ad_log_event ?i ts (cr_assignee req) ''claimed'' (actor_kind_str (cr_actor_kind req)) (save_issue ?w a)))"
      by (simp add: ad_claim_def pw proj on_issue_matches [OF m] row Some w held_def)
    then show ?thesis
      using assms(4) row Some fin m(1) by (simp add: claim_def tx_def split: if_splits) (blast | fastforce)+
  qed
qed

lemma touch_sim:
  assumes m: "matches s a" "db_ok s" "db_fits s" and "touch i who ts s = (out, s')"
  shows "\<exists>a'. ad_touch i who ts a = (out, a') \<and> matches s' a'"
proof (cases "find_issue s i")
  case None
  then show ?thesis using assms by (simp add: touch_def ad_touch_def on_issue_matches [OF m] tx_def)
next
  case row: (Some r)
  have pw: "inner_policy a = db_policy s" "inner_week a = db_week s" using m(1) by (simp_all add: matches_def)
  have id: "ir_id r = i" by (rule find_issue_id [OF row])
  have ttl: "(case Option.bind (ir_actor_kind r) actor_kind_parse of
        Some Human \<Rightarrow> map_option (\<lambda>e. e - ts) (human_expiry (db_week s) ts (db_policy s))
      | _ \<Rightarrow> Some (agent_ttl_seconds (db_policy s))) = touch_ttl (db_policy s) (db_week s) r ts"
    by (cases "ir_actor_kind r") (simp_all add: touch_ttl_def actor_kind_parse_def)
  have eq: "ad_touch i who ts a = (if ir_assignee r \<noteq> Some who then (Inl (Bad (NotClaimedBy i who)), a)
      else case touch_ttl (db_policy s) (db_week s) r ts of
        None \<Rightarrow> (Inl (Panic ''calendar overflow''), a)
      | Some t \<Rightarrow> (Inr (ts + t), ad_log_event i ts who ''heartbeat'' []
          (save_issue (issue_of_row s r\<lparr>i_expires_at := Some (ts + t), i_updated_at := ts\<rparr>) a)))"
    unfolding ad_touch_def on_issue_matches [OF m] row pw by (simp only: option.case view_fields ttl)
  have "matches (log_event i ts who ''heartbeat'' [] (upd_issue i (\<lambda>r. r\<lparr>ir_expires_at := Some t, ir_updated_at := ts\<rparr>) s))
      (ad_log_event i ts who ''heartbeat'' [] (save_issue (issue_of_row s r\<lparr>i_expires_at := Some t, i_updated_at := ts\<rparr>) a))" for t
    by (rule saved_and_logged [OF m(1) db_ok_tidy [OF m(2)] row])
      (simp_all add: id issue_to_json_def row_json_def issue_of_row_def)
  then show ?thesis
    using assms(4) m(1) row unfolding eq by (auto simp: touch_def tx_def split: option.splits if_splits)
qed

lemma unclaimed_json:
  "issue_to_json (unclaimed ts (issue_of_row s r)) = row_json ((clear_claim r)\<lparr>ir_updated_at := ts\<rparr>)"
  by (simp add: issue_to_json_def row_json_def issue_of_row_def unclaimed_def clear_claim_def)

lemma unclaimed_id [simp]: "i_id (unclaimed ts v) = i_id v"
  by (simp add: unclaimed_def)

lemma release_sim:
  assumes m: "matches s a" "db_ok s" "db_fits s" and "release i actor ts s = (out, s')" and "find_issue s i \<noteq> None"
  shows "\<exists>a'. ad_release i actor ts a = (out, a') \<and> matches s' a'"
proof -
  obtain r where row: "find_issue s i = Some r" using assms(5) by blast
  have id: "ir_id r = i" by (rule find_issue_id [OF row])
  have "matches (log_event i ts actor ''released'' [] (upd_issue i (\<lambda>r. (clear_claim r)\<lparr>ir_updated_at := ts\<rparr>) s))
      (ad_log_event i ts actor ''released'' [] (save_issue (unclaimed ts (issue_of_row s r)) a))"
    by (rule saved_and_logged [OF m(1) db_ok_tidy [OF m(2)] row]) (simp_all add: id unclaimed_json)
  then show ?thesis using assms(4) row by (auto simp: release_def ad_release_def on_issue_matches [OF m] tx_def)
qed

section \<open>Labels\<close>

text \<open>
  The adapter leaves \<open>updated_at\<close> alone where the SQLite store sets it, so the two agree on an issue
  that was updated at the same instant.
\<close>

lemma label_row:
  assumes m: "matches s a" "db_ok s" and row: "find_issue s i = Some r" and "ir_updated_at r = ts"
  shows "matches (log_event i ts actor ''labels'' d (upd_issue i (\<lambda>r. r\<lparr>ir_labels := ls, ir_updated_at := ts\<rparr>) s))
    (ad_log_event i ts actor ''labels'' d (save_issue (issue_of_row s r\<lparr>i_labels := ls\<rparr>) a))"
  by (rule saved_and_logged [OF m(1) db_ok_tidy [OF m(2)] row])
    (use find_issue_id [OF row] assms(4) in \<open>simp_all add: issue_to_json_def row_json_def issue_of_row_def\<close>)

lemma set_labels_sim:
  assumes m: "matches s a" "db_ok s" "db_fits s" and "set_labels i ls actor ts s = (out, s')"
    and "sorted ls" and "\<And>r. find_issue s i = Some r \<Longrightarrow> ir_updated_at r = ts"
  shows "\<exists>a'. ad_set_labels i ls actor ts a = (out, a') \<and> matches s' a'"
proof (cases "find_issue s i")
  case None
  then show ?thesis using assms by (simp add: set_labels_def ad_set_labels_def on_issue_matches [OF m] tx_def)
next
  case (Some r)
  then show ?thesis using assms(4) label_row [OF m(1,2) Some assms(6) [OF Some]] assms(5)
    by (auto simp: set_labels_def ad_set_labels_def on_issue_matches [OF m] tx_def sorted_sort_id)
qed

lemma remove_label_sim:
  assumes m: "matches s a" "db_ok s" "db_fits s" and "remove_label i l actor ts s = (out, s')"
    and "\<And>r. find_issue s i = Some r \<Longrightarrow> ir_updated_at r = ts"
  shows "\<exists>a'. ad_remove_label i l actor ts a = (out, a') \<and> matches s' a'"
proof (cases "find_issue s i")
  case None
  then show ?thesis using assms
    by (simp add: remove_label_def ad_remove_label_def on_issue_matches [OF m] get_issue_def row_to_issue_def)
next
  case (Some r)
  then show ?thesis using assms(4) label_row [OF m(1,2) Some assms(5) [OF Some]]
    by (auto simp: remove_label_def ad_remove_label_def on_issue_matches [OF m] get_of_row set_labels_def tx_def Let_def)
qed

lemma add_label_sim:
  assumes m: "matches s a" "db_ok s" "db_fits s" and "add_label i l actor ts s = (out, s')"
    and "\<And>r. find_issue s i = Some r \<Longrightarrow> ir_updated_at r = ts \<or> l \<in> set (ir_labels r)"
  shows "\<exists>a'. ad_add_label i l actor ts a = (out, a') \<and> matches s' a'"
proof (cases "find_issue s i")
  case None
  then show ?thesis using assms
    by (simp add: add_label_def ad_add_label_def on_issue_matches [OF m] get_issue_def row_to_issue_def)
next
  case (Some r)
  show ?thesis
  proof (cases "l \<in> set (ir_labels r)")
    case True
    then show ?thesis using assms(4) Some m(1)
      by (simp add: add_label_def add_label_write_def ad_add_label_def on_issue_matches [OF m] get_of_row)
  next
    case False
    then have "ir_updated_at r = ts" using assms(5) [OF Some] by simp
    from label_row [OF m(1,2) Some this] False show ?thesis using assms(4) Some
      by (auto simp: add_label_def add_label_write_def ad_add_label_def on_issue_matches [OF m] get_of_row
          set_labels_def tx_def Let_def)
  qed
qed

section \<open>Creation and edits\<close>

lemma pick_id_sim: "matches s a \<Longrightarrow> ad_pick_id prefix a ds = pick_id prefix s ds"
  by (induction ds) (simp_all add: load_issue_matches Let_def)

lemma tables_insert_issue:
  assumes "find_issue s (ir_id r) = None"
  shows "tables (s\<lparr>db_issues := db_issues s @ [r]\<rparr>) = (tables s)((ISSUE, [ir_id r]) := Some (row_json r))"
proof (rule tables_issue)
  show "find_issue (s\<lparr>db_issues := db_issues s @ [r]\<rparr>) j = (if j = ir_id r then Some r else find_issue s j)" for j
    using assms by (auto simp: find_issue_def find_append split: option.split)
qed simp_all

lemma insert_issue_sim:
  assumes m: "matches s a" "db_ok s" and "find_issue s i = None"
  shows "case insert_issue spec project i ts s of
      Inl e \<Rightarrow> ad_insert spec project i ts a = (Inl e, a)
    | Inr (x, s') \<Rightarrow> \<exists>a'. ad_insert spec project i ts a = (Inr x, a') \<and> matches s' a'"
proof -
  let ?grace = "case n_available_at spec of Some t \<Rightarrow> t | None \<Rightarrow> ts + creation_grace_seconds (db_policy s)"
  have pol: "inner_policy a = db_policy s" using m(1) by (simp add: matches_def)
  have meta: "create_metadata spec = (case or_else (n_metadata spec) (obj []) of
        JObj x \<Rightarrow> Inr (case n_external_ref spec of None \<Rightarrow> JObj x
                       | Some reference \<Rightarrow> set_key ''external_ref'' (JStr reference) (JObj x))
      | _ \<Rightarrow> Inl (Bad CreateMetadataNotObject))"
    by (cases "n_metadata spec") (auto simp: create_metadata_def obj_def bt_collect_def set_key_def
        split: json.split option.split)
  have put: "matches (log_event i ts who ''created'' (n_title spec)
        (s\<lparr>db_issues := db_issues s @ [new_row spec i project md g ts]\<rparr>))
      (ad_log_event i ts who ''created'' (n_title spec)
        (put_row ISSUE [i] (issue_to_json (ad_new_issue spec i project md g ts)) a))" for who md g
  proof (rule matches_log [OF matches_put [OF m(1)]])
    let ?r = "new_row spec i project md g ts"
    have id: "ir_id ?r = i" by (simp add: new_row_def)
    have json: "issue_to_json (ad_new_issue spec i project md g ts) = row_json ?r"
      by (simp add: issue_to_json_def ad_new_issue_def row_json_def new_row_def)
    show "tables (s\<lparr>db_issues := db_issues s @ [?r]\<rparr>) =
        (tables s)((ISSUE, [i]) \<mapsto> issue_to_json (ad_new_issue spec i project md g ts))"
      unfolding json using tables_insert_issue [of s ?r] assms(3) by (simp only: id)
    show "tidy (s\<lparr>db_issues := db_issues s @ [?r]\<rparr>)"
      using db_ok_tidy [OF m(2)] assms(3) by (simp add: tidy_def logs_ok_def id find_issue_None)
  qed simp_all
  have who: "(case n_created_by spec of None \<Rightarrow> ''system'' | Some x \<Rightarrow> x) = or_else (n_created_by spec) ''system''"
    by (simp add: or_else_def)
  show ?thesis
    unfolding insert_issue_def ad_insert_def meta pol Let_def who
    by (cases "or_else (n_metadata spec) (obj [])") (auto intro!: put split: option.split)
qed

lemma create_sim:
  assumes m: "matches s a" "db_ok s"
  shows "case create spec draws ts s of
      None \<Rightarrow> ad_create spec draws ts a = None
    | Some (out, s') \<Rightarrow> \<exists>a'. ad_create spec draws ts a = Some (out, a') \<and> matches s' a'"
proof (cases "n_project spec")
  case None
  then show ?thesis using m(1) by (simp add: create_def ad_create_def)
next
  case (Some project)
  have prefix: "ad_prefix_for a project = prefix_for s project"
    by (simp add: ad_prefix_for_def prefix_for_def load_project_def row_at_matches [OF m(1)] tables_at
        project_json_def str_at_def split: option.split)
  have parent: "ad_parent_problem a project p = parent_problem s project p" for p
    by (cases p) (simp_all add: ad_parent_problem_def parent_problem_def load_issue_matches [OF m(1)] split: option.split)
  have ins: "find_issue s i = None \<Longrightarrow> \<exists>a'. ad_insert spec project i ts a =
        (fst (tx (\<lambda>_. insert_issue spec project i ts s) s), a') \<and>
      matches (snd (tx (\<lambda>_. insert_issue spec project i ts s) s)) a'" for i
    using insert_issue_sim [OF m, of i spec project ts] m(1) by (auto simp: tx_def split: sum.splits)
  show ?thesis
  proof (cases "prefix_for s project")
    case (Inl e)
    then show ?thesis using Some m(1) by (simp add: create_def create_body_def ad_create_def prefix tx_def)
  next
    case pre: (Inr pre)
    show ?thesis
    proof (cases "parent_problem s project (n_parent spec)")
      case (Some e)
      then show ?thesis using \<open>n_project spec = Some project\<close> pre m(1)
        by (simp add: create_def create_body_def ad_create_def prefix parent tx_def)
    next
      case par: None
      show ?thesis
      proof (cases "n_id spec")
        case None
        show ?thesis
        proof (cases "pick_id pre s draws")
          case None
          then show ?thesis using \<open>n_project spec = Some project\<close> pre par \<open>n_id spec = None\<close>
            by (simp add: create_def create_body_def ad_create_def prefix parent pick_id_sim [OF m(1)])
        next
          case (Some i)
          obtain a' where "ad_insert spec project i ts a = (fst (tx (\<lambda>_. insert_issue spec project i ts s) s), a')"
            "matches (snd (tx (\<lambda>_. insert_issue spec project i ts s) s)) a'"
            using ins [OF pick_id_free [OF Some]] by blast
          then show ?thesis using \<open>n_project spec = Some project\<close> pre par \<open>n_id spec = None\<close> Some
            by (simp add: create_def create_body_def ad_create_def prefix parent pick_id_sim [OF m(1)] case_prod_unfold)
        qed
      next
        case (Some i)
        show ?thesis
        proof (cases "find_issue s i")
          case None
          obtain a' where "ad_insert spec project i ts a = (fst (tx (\<lambda>_. insert_issue spec project i ts s) s), a')"
            "matches (snd (tx (\<lambda>_. insert_issue spec project i ts s) s)) a'"
            using ins [OF None] by blast
          then show ?thesis using \<open>n_project spec = Some project\<close> pre par Some None
            by (simp add: create_def create_body_def ad_create_def prefix parent load_issue_matches [OF m(1)] case_prod_unfold)
        next
          case taken: (Some r)
          then show ?thesis using \<open>n_project spec = Some project\<close> pre par Some m(1)
            by (simp add: create_def create_body_def ad_create_def prefix parent load_issue_matches [OF m(1)] tx_def)
        qed
      qed
    qed
  qed
qed

end
