(* ===== verification/AdapterEdges.thy ===== *)
theory AdapterEdges
  imports AdapterCalls
begin

text \<open>Edits, dependency edges and closing, simulated as in \<open>AdapterCalls\<close>.\<close>

section \<open>Edits\<close>

lemma patch_text_view: "ad_patch_text patch (issue_of_row s r) = issue_of_row s (patch_text patch r)"
  by (simp add: ad_patch_text_def patch_text_def issue_of_row_def append_notes_def Let_def split: option.split)

lemma patch_metadata_view:
  "ad_patch_metadata merge (issue_of_row s r) = map_sum id (issue_of_row s) (patch_metadata merge r)"
  by (simp add: ad_patch_metadata_def patch_metadata_def issue_of_row_def merge_object_def Let_def split: json.split)

lemma patch_keeps_status:
  "ir_status (patch_text patch r) = ir_status r"
  "patch_metadata merge r = Inr r' \<Longrightarrow> ir_status r' = ir_status r"
  "patch_metadata merge r = Inr r' \<Longrightarrow> ir_available_at r' = ir_available_at r"
  by (auto simp: patch_text_def patch_metadata_def Let_def split: json.splits)

lemma patch_status_view:
  "(case p_status patch of None \<Rightarrow> issue_of_row s r
    | Some st \<Rightarrow> (issue_of_row s r)\<lparr>i_status := st, i_closed_at := (if st = ''closed'' then Some ts else None)\<rparr>) =
   issue_of_row s (patch_status patch ts r)"
  by (simp add: patch_status_def issue_of_row_def split: option.split)

lemma patch_status_keeps: "ir_available_at (patch_status patch ts r) = ir_available_at r"
  by (simp add: patch_status_def split: option.split)

lemma update_sim:
  assumes m: "matches s a" "db_ok s" "db_fits s" and "update i patch actor ts s = (out, s')" and "db_fits s'"
  shows "\<exists>a'. ad_update i patch actor ts a = (out, a') \<and> matches s' a'"
proof (cases "\<exists>st. p_status patch = Some st \<and> st \<notin> set STATUSES")
  case True
  then show ?thesis using assms(4) m(1) by (auto simp: update_def ad_update_def)
next
  case False
  then have bad: "(case p_status patch of None \<Rightarrow> None | Some st \<Rightarrow> if st \<notin> set STATUSES then Some st else None) = None"
    by (simp split: option.split)
  have upd: "(out, s') = then_get i (tx (update_body i patch actor ts) s)"
    using False assms(4) by (auto simp: update_def split: option.splits if_splits)
  have pol: "inner_policy a = db_policy s" using m(1) by (simp add: matches_def)
  have get: "ad_get i a = get_issue i s" by (rule get_matches [OF m])
  show ?thesis
  proof (cases "find_issue s i")
    case None
    then show ?thesis using upd m(1)
      by (simp add: ad_update_def bad get get_issue_def row_to_issue_def update_body_def tx_def then_get_def)
  next
    case row: (Some r)
    let ?cur = "case p_metadata patch of None \<Rightarrow> Inr (patch_text patch r)
        | Some merge \<Rightarrow> patch_metadata merge (patch_text patch r)"
    have cur: "(case p_metadata patch of None \<Rightarrow> Inr (ad_patch_text patch (issue_of_row s r))
        | Some merge \<Rightarrow> ad_patch_metadata merge (ad_patch_text patch (issue_of_row s r))) =
        map_sum id (issue_of_row s) ?cur"
      by (simp add: patch_text_view patch_metadata_view split: option.split)
    show ?thesis
    proof (cases ?cur)
      case (Inl e)
      then show ?thesis using upd row m(1)
        by (simp add: ad_update_def bad get get_of_row cur update_body_def patch_row_def tx_def then_get_def)
    next
      case (Inr c)
      have st: "ir_status c = ir_status r" and av: "ir_available_at c = ir_available_at r" and id: "ir_id c = i"
        using Inr find_issue_id [OF row] patch_keeps_status patch_text_ok(2) [of patch r]
          patch_metadata_ok(2) [of _ "patch_text patch r" c]
        by (auto simp: patch_text_def [of patch r] split: option.splits)
      let ?r' = "(patch_status patch ts c)\<lparr>ir_available_at := Some (case p_available_at patch of Some t \<Rightarrow> t
          | None \<Rightarrow> max (ts + edit_deferral_seconds (db_policy s)) (or_else (ir_available_at r) 0)), ir_updated_at := ts\<rparr>"
      have pr: "patch_row (db_policy s) patch ts r = Inr ?r'" using Inr by (simp add: patch_row_def)
      have id': "ir_id ?r' = i" using id patch_status_ok(2) [of patch ts c] by simp
      let ?changed = "case p_status patch of None \<Rightarrow> False | Some st \<Rightarrow> st \<noteq> ir_status r"
      let ?s1 = "upd_issue i (\<lambda>_. ?r') s"
      let ?s2 = "if ?changed then log_event i ts actor ''status'' (status_detail (ir_status ?r')) ?s1 else ?s1"
      let ?s3 = "log_event i ts actor ''updated'' [] ?s2"
      let ?a1 = "save_issue (issue_of_row s ?r') a"
      let ?a2 = "if ?changed then ad_log_event i ts actor ''status'' (status_detail (ir_status ?r')) ?a1 else ?a1"
      let ?a3 = "ad_log_event i ts actor ''updated'' [] ?a2"
      have s': "s' = ?s3" "out = get_issue i s'"
        using upd row pr by (simp_all add: update_body_def tx_def then_get_def Let_def)
      have m1: "matches ?s1 ?a1" by (rule matches_save [OF m(1) row]) (simp_all add: id')
      have t1: "tidy ?s1" by (rule tidy_upd [OF db_ok_tidy [OF m(2)]]) (rule id')
      have m2: "matches ?s2 ?a2" "tidy ?s2" using matches_log [OF m1 t1] m1 tidy_log [OF t1] t1 by simp_all
      have m3: "matches ?s3 ?a3" by (rule matches_log [OF m2])
      have view: "issue_of_row s (patch_status patch ts c)\<lparr>i_updated_at := ts, i_available_at := Some t\<rparr> =
          issue_of_row s ((patch_status patch ts c)\<lparr>ir_available_at := Some t, ir_updated_at := ts\<rparr>)" for t
        by (simp add: issue_of_row_def)
      have "ad_update i patch actor ts a = (ad_get i ?a3, ?a3)"
        unfolding ad_update_def bad get get_of_row [OF row] option.case sum.case cur Inr map_sum.simps
          patch_status_view Let_def view_fields patch_status_keeps av st pol view by (simp add: st)
      moreover have "db_ok s'" using update_ok [OF m(2), of i patch actor ts] assms(4) by simp
      then have "ad_get i ?a3 = get_issue i s'" using get_matches(2) [of ?s3 ?a3 i] m3 assms(5) s'(1) by simp
      ultimately show ?thesis using m3 s' by auto
    qed
  qed
qed

section \<open>The path search\<close>

text \<open>The search from a stack finds the target exactly when an element of the stack reaches it.\<close>

lemma ad_walk_iff:
  assumes "\<forall>x \<in> set seen. \<forall>y. (x, y) \<in> set E \<longrightarrow> y \<noteq> t \<and> y \<in> set seen \<union> set stack"
  shows "ad_walk E t stack seen \<longleftrightarrow> (\<exists>x \<in> set stack. (x, t) \<in> (set E)\<^sup>+)"
  using assms
proof (induction E t stack seen rule: ad_walk.induct)
  case (2 E t node stack seen)
  have leave: "\<exists>y \<in> set S. (y, t) \<in> (set E)\<^sup>+"
    if "(x, t) \<in> (set E)\<^sup>+" "x \<in> set K" "\<forall>x \<in> set K. \<forall>y. (x, y) \<in> set E \<longrightarrow> y \<noteq> t \<and> y \<in> set K \<union> set S" for x K S
    using that(1,2)
  proof (induction rule: converse_trancl_induct)
    case (base y)
    then show ?case using that(3) by blast
  next
    case (step y z)
    then show ?case using that(3) by blast
  qed
  show ?case
  proof (cases "node \<in> set seen")
    case True
    have inv: "\<forall>x \<in> set seen. \<forall>y. (x, y) \<in> set E \<longrightarrow> y \<noteq> t \<and> y \<in> set seen \<union> set stack"
      using "2.prems" True by fastforce
    have "\<exists>y \<in> set stack. (y, t) \<in> (set E)\<^sup>+" if "(node, t) \<in> (set E)\<^sup>+" by (rule leave [OF that True inv])
    then show ?thesis using True "2.IH"(1) [OF True inv] by auto
  next
    case new: False
    show ?thesis
    proof (cases "t \<in> set (succs E node)")
      case True
      then show ?thesis using new by auto
    next
      case False
      have inv: "\<forall>x \<in> set (node # seen). \<forall>y. (x, y) \<in> set E \<longrightarrow>
          y \<noteq> t \<and> y \<in> set (node # seen) \<union> set (rev (succs E node) @ stack)"
        using "2.prems" False by fastforce
      have "(node, t) \<in> (set E)\<^sup>+ \<longleftrightarrow> (\<exists>y \<in> set (succs E node). (y, t) \<in> (set E)\<^sup>+)"
      proof
        assume "(node, t) \<in> (set E)\<^sup>+"
        then obtain y where "(node, y) \<in> set E" "y = t \<or> (y, t) \<in> (set E)\<^sup>+"
          by (auto elim: converse_tranclE)
        then show "\<exists>y \<in> set (succs E node). (y, t) \<in> (set E)\<^sup>+" using False by auto
      qed (auto intro: trancl_into_trancl2)
      then show ?thesis using "2.IH"(2) [OF new False inv] new False by auto
    qed
  qed
qed simp

lemma ad_reachable_matches:
  assumes "matches s a"
  shows "ad_reachable a x y = reachable s x y"
proof -
  have "ad_walk (edges_of a) y [x] [] \<longleftrightarrow> (x, y) \<in> (set (db_deps s))\<^sup>+"
    by (subst ad_walk_iff) (simp_all add: edge_rows(1) [OF assms])
  then show ?thesis by (auto simp: ad_reachable_def reachable_iff rtrancl_eq_or_trancl)
qed

section \<open>Local edges\<close>

lemma edge_frame:
  "find_issue (s\<lparr>db_deps := ds\<rparr>) i = find_issue s i" "db_fits (s\<lparr>db_deps := ds\<rparr>) = db_fits s"
  "tidy (s\<lparr>db_deps := ds\<rparr>) = tidy s"
  by (simp_all add: find_issue_def db_fits_def tidy_def logs_ok_def)

lemma tables_deps:
  assumes "\<And>c' p'. (c', p') \<in> set ds \<longleftrightarrow> (if c' = c \<and> p' = p then v \<noteq> None else (c', p') \<in> set (db_deps s))"
    and "v \<noteq> None \<Longrightarrow> v = Some (edge_json c p)"
  shows "tables (s\<lparr>db_deps := ds\<rparr>) = (tables s)((DEPENDENCY, [c, p]) := v)"
proof -
  have "(\<lambda>c' p'. if (c', p') \<in> set ds then Some (edge_json c' p') else None) =
      (\<lambda>c' p'. if c' = c \<and> p' = p then v else if (c', p') \<in> set (db_deps s) then Some (edge_json c' p') else None)"
    using assms by (auto simp: fun_eq_iff)
  then show ?thesis
    by (simp add: tables_def fun_eq_iff find_project_def find_folder_def find_issue_def)
qed

lemma touched_and_logged:
  assumes "matches s a" "db_ok s" "db_fits s" and row: "find_issue s i = Some r"
  shows "\<exists>v. ad_get i a = Inr v \<and>
    matches (log_event i ts actor e d (touch_updated i ts s))
      (ad_log_event i ts actor e d (save_issue (v\<lparr>i_updated_at := ts\<rparr>) a))"
proof -
  have "ad_get i a = Inr (issue_of_row s r)" by (simp add: get_matches [OF assms(1-3)] get_of_row [OF row])
  moreover have "matches (log_event i ts actor e d (touch_updated i ts s))
      (ad_log_event i ts actor e d (save_issue (issue_of_row s r\<lparr>i_updated_at := ts\<rparr>) a))"
    unfolding touch_updated_def
    by (rule saved_and_logged [OF assms(1) db_ok_tidy [OF assms(2)] row])
      (use find_issue_id [OF row] in \<open>simp_all add: issue_to_json_def row_json_def issue_of_row_def\<close>)
  ultimately show ?thesis by blast
qed

lemma add_dep_sim:
  assumes m: "matches s a" "db_ok s" "db_fits s" and "add_dep c p actor ts s = (out, s')"
    and new: "(c, p) \<notin> set (db_deps s)"
  shows "\<exists>a'. ad_add_dep c p actor ts a = (out, a') \<and> matches s' a'"
proof (cases "c = p \<or> find_issue s c = None \<or> find_issue s p = None \<or> reachable s p c")
  case True
  then show ?thesis using assms(4) m(1)
    by (auto simp: add_dep_def ad_add_dep_def tx_def load_issue_matches [OF m(1)] ad_reachable_matches [OF m(1)]
        split: if_splits)
next
  case False
  then obtain r where row: "find_issue s c = Some r" by auto
  let ?s1 = "s\<lparr>db_deps := db_deps s @ [(c, p)]\<rparr>" and ?a1 = "put_row DEPENDENCY [c, p] (edge_json c p) a"
  have ins: "insert_dep c p s = ?s1" using new by (simp add: insert_dep_def)
  have m1: "matches ?s1 ?a1"
    by (rule matches_put [OF m(1)], rule tables_deps) auto
  have "db_ok ?s1" using insert_dep_ok [OF m(2), of p c] False by (simp add: ins reachable_iff)
  then have "\<exists>v. ad_get c ?a1 = Inr v \<and>
      matches (log_event c ts actor ''depends_on'' p (touch_updated c ts ?s1))
        (ad_log_event c ts actor ''depends_on'' p (save_issue (v\<lparr>i_updated_at := ts\<rparr>) ?a1))"
    by (rule touched_and_logged [OF m1]) (use m(3) row in \<open>simp_all add: edge_frame\<close>)
  then obtain v where v: "ad_get c ?a1 = Inr v"
    "matches (log_event c ts actor ''depends_on'' p (touch_updated c ts ?s1))
      (ad_log_event c ts actor ''depends_on'' p (save_issue (v\<lparr>i_updated_at := ts\<rparr>) ?a1))" by auto
  have "row_at a DEPENDENCY [c, p] = None" using new by (simp add: row_at_matches [OF m(1)] tables_at)
  then have "ad_add_dep c p actor ts a = (Inr (), ad_log_event c ts actor ''depends_on'' p
      (save_issue (v\<lparr>i_updated_at := ts\<rparr>) ?a1))"
    using False v(1) unfolding edge_json_def
    by (simp add: ad_add_dep_def load_issue_matches [OF m(1)] ad_reachable_matches [OF m(1)] Let_def)
  moreover have "s' = log_event c ts actor ''depends_on'' p (touch_updated c ts ?s1)" "out = Inr ()"
    using assms(4) False by (auto simp: add_dep_def tx_def ins)
  ultimately show ?thesis using v(2) by blast
qed

lemma remove_dep_sim:
  assumes m: "matches s a" "db_ok s" and "remove_dep c p actor ts s = (out, s')" and "(c, p) \<in> set (db_deps s)"
  shows "\<exists>a'. ad_remove_dep c p actor ts a = (out, a') \<and> matches s' a'"
proof -
  let ?s1 = "s\<lparr>db_deps := filter (\<lambda>d. d \<noteq> (c, p)) (db_deps s)\<rparr>"
  have m1: "matches ?s1 (tombstone DEPENDENCY [c, p] a)"
    by (rule matches_tombstone [OF m(1)], rule tables_deps) auto
  have "tidy ?s1" using db_ok_tidy [OF m(2)] by (simp add: edge_frame)
  from matches_log [OF m1 this] show ?thesis
    using assms(3,4) by (auto simp: remove_dep_def ad_remove_dep_def tx_def row_at_matches [OF m(1)] tables_at)
qed

section \<open>Edges to other stores\<close>

lemma remote_fields_obj:
  "remote_fields c d (obj xs) = obj (xs @
     [(''child'', JStr c), (''canonical_ref'', JStr (rd_canonical_ref d)),
      (''store_id'', JStr (rd_store_id d)), (''remote_issue_id'', JStr (rd_remote_issue_id d)),
      (''state'', JStr (rd_state d)), (''asserted_at'', JInt (rd_asserted_at d)),
      (''observed_at'', JInt (rd_observed_at d)), (''signature'', JStr (rd_signature d)),
      (''key_id'', JStr (rd_key_id d))])"
  by (simp add: remote_fields_def)

text \<open>Every field is assigned, so what the row held before does not matter.\<close>

lemma remote_fields_over: "remote_fields c d (remote_json c' e) = remote_json c (d\<lparr>rd_freshness := v\<rparr>)"
  "remote_fields c d (obj [(''child'', JStr c)]) = remote_json c (d\<lparr>rd_freshness := v\<rparr>)"
  unfolding remote_json_def remote_fields_obj by (rule obj_eqI, simp add: fun_eq_iff)+

lemma find_upsert:
  "find (same_edge c' ref) (db_remote_deps (upsert_remote c d s)) =
    (if c' = c \<and> ref = rd_canonical_ref d then Some (c, d\<lparr>rd_freshness := None\<rparr>)
     else find (same_edge c' ref) (db_remote_deps s))"
proof -
  let ?row = "(c, d\<lparr>rd_freshness := None\<rparr>)" and ?Q = "same_edge c (rd_canonical_ref d)"
  have row: "same_edge c' ref ?row \<longleftrightarrow> c' = c \<and> ref = rd_canonical_ref d" by (auto simp: same_edge_def)
  have hit: "\<exists>r \<in> set rs. ?Q r \<Longrightarrow> find ?Q (map (\<lambda>r. if ?Q r then ?row else r) rs) = Some ?row" for rs
    by (induction rs) (auto simp: same_edge_def)
  have off: "find (same_edge c' ref) (map (\<lambda>r. if ?Q r then ?row else r) rs) = find (same_edge c' ref) rs"
    if "\<not> (c' = c \<and> ref = rd_canonical_ref d)" for rs
    using that by (induction rs) (auto simp: same_edge_def)
  have none: "\<not> (\<exists>r \<in> set (db_remote_deps s). ?Q r) \<Longrightarrow> find ?Q (db_remote_deps s) = None"
    by (auto simp: find_None_iff_all)
  show ?thesis
  proof (cases "c' = c \<and> ref = rd_canonical_ref d")
    case True
    then show ?thesis using hit none row
      by (auto simp: upsert_remote_def Let_def find_snoc)
  next
    case False
    then show ?thesis using off row
      by (auto simp: upsert_remote_def Let_def find_snoc split: option.split)
  qed
qed

lemma upsert_remote_rest:
  "db_store_id (upsert_remote c d s) = db_store_id s" "db_policy (upsert_remote c d s) = db_policy s"
  "db_week (upsert_remote c d s) = db_week s" "find_issue (upsert_remote c d s) i = find_issue s i"
  "find_project (upsert_remote c d s) i = find_project s i" "find_folder (upsert_remote c d s) i = find_folder s i"
  by (simp_all add: upsert_remote_def Let_def find_issue_def find_project_def find_folder_def)

lemma tables_upsert:
  "tables (upsert_remote c d s) = (tables s)((REMOTE_DEP, [c, rd_canonical_ref d]) :=
    Some (remote_json c (d\<lparr>rd_freshness := None\<rparr>)))"
proof -
  have "(\<lambda>c' ref. map_option (\<lambda>r. remote_json c' (snd r)) (find (same_edge c' ref) (db_remote_deps (upsert_remote c d s)))) =
      (\<lambda>c' ref. if c' = c \<and> ref = rd_canonical_ref d then Some (remote_json c (d\<lparr>rd_freshness := None\<rparr>))
        else map_option (\<lambda>r. remote_json c' (snd r)) (find (same_edge c' ref) (db_remote_deps s)))"
    by (simp add: fun_eq_iff find_upsert)
  then show ?thesis by (simp add: tables_def fun_eq_iff upsert_remote_rest)
qed

lemma fits_touched_log:
  "db_fits (log_event i ts actor e d (touch_updated i ts s)) \<Longrightarrow>
    list_all (\<lambda>r. remote_fits (snd r)) (db_remote_deps s)"
  by (simp add: db_fits_def touch_updated_def)

lemma add_remote_dep_sim:
  assumes m: "matches s a" "db_ok s" "db_fits s" and "add_remote_dep c d actor ts s = (out, s')"
    and ref: "parse_ref (rd_canonical_ref d) = Inr r" "ref_names r (rd_store_id d) (rd_remote_issue_id d)"
    and fit: "db_fits s'"
  shows "\<exists>a'. ad_add_remote_dep c d actor ts a = (out, a') \<and> matches s' a'"
proof (cases "find_issue s c")
  case None
  then show ?thesis using assms(4) ref m(1)
    by (simp add: add_remote_dep_def ad_add_remote_dep_def tx_def load_issue_matches [OF m(1)])
next
  case (Some row)
  let ?s1 = "upsert_remote c d s" and ?j = "remote_json c (d\<lparr>rd_freshness := None\<rparr>)"
  let ?a1 = "put_row REMOTE_DEP [c, rd_canonical_ref d] ?j a"
  have s': "s' = log_event c ts actor ''depends_on_remote'' (rd_canonical_ref d) (touch_updated c ts ?s1)" "out = Inr ()"
    using assms(4) ref Some by (simp_all add: add_remote_dep_def tx_def)
  have m1: "matches ?s1 ?a1" by (rule matches_put [OF m(1) tables_upsert]) (simp_all add: upsert_remote_rest)
  have fits1: "db_fits ?s1"
    using fits_touched_log [OF fit [unfolded s'(1)]] m(3) by (simp add: db_fits_def upsert_remote_def Let_def)
  have ok1: "db_ok ?s1" using m(2) db_ok_remote [of s] by (simp add: upsert_remote_def Let_def)
  have "\<exists>v. ad_get c ?a1 = Inr v \<and>
      matches (log_event c ts actor ''depends_on_remote'' (rd_canonical_ref d) (touch_updated c ts ?s1))
        (ad_log_event c ts actor ''depends_on_remote'' (rd_canonical_ref d) (save_issue (v\<lparr>i_updated_at := ts\<rparr>) ?a1))"
    by (rule touched_and_logged [OF m1 ok1 fits1]) (simp add: upsert_remote_rest Some)
  then obtain v where v: "ad_get c ?a1 = Inr v"
    "matches s' (ad_log_event c ts actor ''depends_on_remote'' (rd_canonical_ref d) (save_issue (v\<lparr>i_updated_at := ts\<rparr>) ?a1))"
    unfolding s'(1) by auto
  have old: "row_at a REMOTE_DEP [c, rd_canonical_ref d] =
      map_option (\<lambda>r. remote_json c (snd r)) (find (same_edge c (rd_canonical_ref d)) (db_remote_deps s))"
    by (simp add: row_at_matches [OF m(1)] tables_at)
  have data: "remote_fields c d (or_else (row_at a REMOTE_DEP [c, rd_canonical_ref d]) (obj [(''child'', JStr c)])) = ?j"
    unfolding old by (cases "find (same_edge c (rd_canonical_ref d)) (db_remote_deps s)")
      (simp_all only: option.map or_else_simps remote_fields_over [where v = None])
  have "ad_add_remote_dep c d actor ts a = (Inr (),
      ad_log_event c ts actor ''depends_on_remote'' (rd_canonical_ref d) (save_issue (v\<lparr>i_updated_at := ts\<rparr>) ?a1))"
    using Some v(1) by (simp add: ad_add_remote_dep_def load_issue_matches [OF m(1)] Let_def data)
  then show ?thesis using v(2) s'(2) by simp
qed

lemma upsert_keyed:
  assumes "remote_keyed s"
  shows "remote_keyed (upsert_remote c d s)"
proof -
  let ?k = "\<lambda>r. (fst r, rd_canonical_ref (snd r))"
  let ?row = "(c, d\<lparr>rd_freshness := None\<rparr>)"
  have "map ?k (map (\<lambda>r. if same_edge c (rd_canonical_ref d) r then ?row else r) rs) = map ?k rs" for rs
    by (induction rs) (auto simp: same_edge_def)
  moreover have "\<not> (\<exists>r \<in> set (db_remote_deps s). same_edge c (rd_canonical_ref d) r) \<Longrightarrow>
      (c, rd_canonical_ref d) \<notin> ?k ` set (db_remote_deps s)"
    by (auto simp: same_edge_def)
  ultimately show ?thesis using assms by (simp add: remote_keyed_def upsert_remote_def Let_def del: map_map)
qed

section \<open>Closing\<close>

lemma merge_evidence_matches: "ad_merge_evidence given old = merge_evidence old given"
proof -
  have "(\<exists>e \<in> set merged. ev_kind e = ev_kind x \<and> ev_value e = ev_value x) \<longleftrightarrow> x \<in> set merged" for x and merged :: "evidence list"
    by (metis evidence.equality unit_eq)
  then show ?thesis by (simp add: ad_merge_evidence_def merge_evidence_def)
qed

lemma close_unchecked_sim:
  assumes m: "matches s a" "db_ok s" "db_fits s" and "close_unchecked i reason ev actor ts s = (out, s')"
    and "find_issue s i \<noteq> None" and fit: "db_fits s'"
  shows "\<exists>a'. ad_close_unchecked i reason ev actor ts a = (out, a') \<and> matches s' a'"
proof -
  obtain r where row: "find_issue s i = Some r" using assms(5) by auto
  have id: "ir_id r = i" by (rule find_issue_id [OF row])
  let ?f = "close_row reason (merge_evidence (ir_evidence r) ev) ts"
  let ?v = "(unclaimed ts (issue_of_row s r))\<lparr>i_evidence := ad_merge_evidence ev (ir_evidence r),
      i_status := ''closed'', i_closed_at := Some ts\<rparr>"
  let ?a1 = "ad_log_event i ts actor ''closed'' (close_detail reason ev) (save_issue ?v a)"
  have s': "s' = log_event i ts actor ''closed'' (close_detail reason ev) (upd_issue i ?f s)" "out = get_issue i s'"
    using assms(4) row by (auto simp: close_unchecked_def tx_def then_get_def)
  have json: "issue_to_json ?v = row_json (?f r)"
    by (simp add: issue_to_json_def row_json_def issue_of_row_def unclaimed_def close_row_def clear_claim_def
        merge_evidence_matches)
  have m': "matches s' ?a1" unfolding s'(1)
    by (rule saved_and_logged [OF m(1) db_ok_tidy [OF m(2)] row]) (use json id in \<open>simp_all add: unclaimed_def\<close>)
  have "db_ok s'" using close_unchecked_ok [OF m(2), of i reason ev actor ts] assms(4) by simp
  then have "ad_get i ?a1 = get_issue i s'" by (rule get_matches(2) [OF m' _ fit])
  then show ?thesis using m' row s'(2)
    by (simp add: ad_close_unchecked_def on_issue_matches [OF m] Let_def)
qed

text \<open>With more than one open blocker the two stores may name different ones.\<close>

definition one_open_blocker :: "db \<Rightarrow> string \<Rightarrow> bool" where
  "one_open_blocker s i \<longleftrightarrow> length (filter (open_issue s) (blockers_of s i)) \<le> 1"

lemma find_unique:
  assumes "set xs = set ys" and "length (filter P ys) \<le> 1"
  shows "find P xs = find P ys"
proof (cases "filter P ys")
  case Nil
  then have "\<forall>x \<in> set ys. \<not> P x" by (simp add: filter_empty_conv)
  then have "find P xs = None" "find P ys = None" using assms(1) by (simp_all add: find_None_iff_all)
  then show ?thesis by simp
next
  case (Cons y rest)
  then have "filter P ys = [y]" using assms(2) by simp
  then have "set (filter P ys) = {y}" by simp
  then have only: "x \<in> set ys \<and> P x \<longleftrightarrow> x = y" for x by auto
  have "find P zs = Some y" if "set zs = set ys" for zs
  proof (cases "find P zs")
    case None
    then show ?thesis using only that by (auto simp: find_None_iff_all)
  next
    case (Some z)
    then show ?thesis using only [of z] that find_SomeD [OF Some] by simp
  qed
  then show ?thesis using assms(1) by simp
qed

lemma close_sim:
  assumes m: "matches s a" "db_ok s" "db_fits s" and "close i reason ev actor ts s = (out, s')"
    and "find_issue s i \<noteq> None" and fit: "db_fits s'" and "one_open_blocker s i"
  shows "\<exists>a'. ad_close i reason ev actor ts a = (out, a') \<and> matches s' a'"
proof -
  have ids: "distinct (map ir_id (db_issues s))" using m(2) by (simp add: db_ok_def issues_ok_def)
  have un: "unfinished a = open_issue s"
    by (simp add: fun_eq_iff unfinished_matches [OF m(1)] open_issue_iff [OF ids])
  have P: "(\<lambda>b. case find_issue s b of None \<Rightarrow> False | Some r \<Rightarrow> \<not> is_terminal (ir_status r)) = open_issue s"
    by (auto simp: fun_eq_iff open_issue_iff [OF ids] is_terminal_def split: option.split)
  have "set (parents_of a i) = set (blockers_of s i)" using edge_lists(1) [OF m(1,2)] mset_eq_setD by blast
  then have "find (unfinished a) (parents_of a i) = open_blocker s i"
    unfolding open_blocker_def un P by (rule find_unique) (use assms(7) in \<open>simp add: one_open_blocker_def\<close>)
  then have chk: "ad_check_blockers a i = check_blockers s i" by (simp add: ad_check_blockers_def check_blockers_def)
  show ?thesis
  proof (cases "ev = [] \<or> check_blockers s i \<noteq> None")
    case True
    then show ?thesis using assms(4) m(1) by (auto simp: close_def ad_close_def chk)
  next
    case False
    then show ?thesis using assms(4) close_unchecked_sim [OF m _ assms(5) fit]
      by (simp add: close_def ad_close_def chk)
  qed
qed

lemma fits_log: "db_fits (log_event i ts actor e d s) \<Longrightarrow> db_fits s"
  by (auto simp: db_fits_def log_event_def Let_def)

lemma fits_relabel:
  assumes "db_ok s" and "find_issue s i = Some r" and "ir_updated_at r = ts"
    and "db_fits (upd_issue i (\<lambda>r. r\<lparr>ir_labels := ls, ir_updated_at := ts\<rparr>) s)"
  shows "db_fits s"
proof -
  have ids: "distinct (map ir_id (db_issues s))" using assms(1) by (simp add: db_ok_def issues_ok_def)
  have same: "row_fits q" if q: "q \<in> set (db_issues s)" for q
  proof (cases "ir_id q = i")
    case True
    then have "q = r" using find_issue_row [OF ids q] assms(2) by simp
    moreover have "row_fits (q\<lparr>ir_labels := ls, ir_updated_at := ts\<rparr>)"
      using assms(4) q True by (force simp: db_fits_def upd_issue_def list_all_iff)
    ultimately show ?thesis using assms(3) by (simp add: row_fits_def)
  next
    case False
    then show ?thesis using assms(4) q by (force simp: db_fits_def upd_issue_def list_all_iff)
  qed
  then show ?thesis using assms(4) by (simp add: db_fits_def upd_issue_def list_all_iff)
qed

lemma fits_add_label:
  assumes "db_ok s" and "find_issue s i = Some r" and "ir_updated_at r = ts"
    and "add_label i l actor ts s = (out, s')" and "db_fits s'"
  shows "db_fits s"
proof (cases "l \<in> set (ir_labels r)")
  case True
  then show ?thesis using assms(2,4,5) by (simp add: add_label_def add_label_write_def get_of_row)
next
  case False
  then have "s' = log_event i ts actor ''labels'' (join_char CHR '','' (sort (ir_labels r @ [l])))
      (upd_issue i (\<lambda>x. x\<lparr>ir_labels := sort (ir_labels r @ [l]), ir_updated_at := ts\<rparr>) s)"
    using assms(2,4) by (auto simp: add_label_def add_label_write_def get_of_row set_labels_def tx_def Let_def)
  then show ?thesis using fits_relabel [OF assms(1-3)] fits_log assms(5) by blast
qed

lemma supersede_sim:
  assumes m: "matches s a" "db_ok s" "db_fits s" and "supersede i rep actor ts s = (out, s')"
    and "find_issue s i \<noteq> None" and fit: "db_fits s'"
  shows "\<exists>a'. ad_supersede i rep actor ts a = (out, a') \<and> matches s' a'"
proof (cases "find_issue s rep")
  case None
  then show ?thesis using assms(4) m(1) by (simp add: supersede_def ad_supersede_def on_issue_matches [OF m])
next
  case rep: (Some q)
  obtain r where row: "find_issue s i = Some r" using assms(5) by auto
  let ?why = "''superseded by '' @ rep" and ?l = "''supersedes:'' @ rep"
  let ?r1 = "close_row (Some ?why) (merge_evidence (ir_evidence r) [evidence_ack ?why]) ts r"
  obtain v s1 where cl: "close_unchecked i (Some ?why) [evidence_ack ?why] actor ts s = (Inr v, s1)"
    and s1: "s1 = log_event i ts actor ''closed'' (close_detail (Some ?why) [evidence_ack ?why])
      (upd_issue i (close_row (Some ?why) (merge_evidence (ir_evidence r) [evidence_ack ?why]) ts) s)"
    using close_unchecked_total [OF row] by blast
  have lab: "add_label i ?l actor ts s1 = (out, s')"
    using assms(4) rep cl by (simp add: supersede_def Let_def)
  have row1: "find_issue s1 i = Some ?r1" using row by (simp add: s1 find_issue_upd)
  have up: "ir_updated_at ?r1 = ts" by (simp add: close_row_def)
  have ok1: "db_ok s1" using close_unchecked_ok [OF m(2), of i "Some ?why" "[evidence_ack ?why]" actor ts] cl by simp
  have fit1: "db_fits s1" by (rule fits_add_label [OF ok1 row1 up lab fit])
  obtain a1 where a1: "ad_close_unchecked i (Some ?why) [evidence_ack ?why] actor ts a = (Inr v, a1)" "matches s1 a1"
    using close_unchecked_sim [OF m cl assms(5) fit1] by blast
  obtain a' where "ad_add_label i ?l actor ts a1 = (out, a')" "matches s' a'"
    using add_label_sim [OF a1(2) ok1 fit1 lab] row1 up by auto
  then show ?thesis using a1(1) rep by (auto simp: ad_supersede_def on_issue_matches [OF m] Let_def)
qed

end
