(* ===== verification/AdapterFolders.thy ===== *)
theory AdapterFolders
  imports AdapterEdges
begin

text \<open>Projects, folders and the outbox, simulated as in \<open>AdapterCalls\<close>.\<close>

section \<open>Projects\<close>

lemma load_project_matches: "matches s a \<Longrightarrow> load_project a p = map_option project_json (find_project s p)"
  by (simp add: load_project_def row_at_matches tables_at)

lemma load_folder_matches: "matches s a \<Longrightarrow> load_folder a f = map_option folder_json (find_folder s f)"
  by (simp add: load_folder_def row_at_matches tables_at)

lemma or_set_obj: "or_set k v (obj xs) = (if map_of (rev xs) k = None then obj (xs @ [(k, v)]) else obj xs)"
  by (simp add: or_set_def)

lemma map_of_rev_None: "map_of (rev xs) k = None \<longleftrightarrow> k \<notin> fst ` set xs"
  by (simp add: map_of_eq_None_iff)

text \<open>A keyed table after its row is updated in place or appended.\<close>

lemma find_replace:
  assumes "\<And>x. k (f x) = k x"
  shows "find (\<lambda>x. k x = j) (map (\<lambda>x. if k x = i then f x else x) xs) =
    (if j = i then map_option f (find (\<lambda>x. k x = i) xs) else find (\<lambda>x. k x = j) xs)"
  using assms by (induction xs) auto

lemma project_json_fields:
  "set_key ''root'' (JStr base) (set_key ''slug'' (JStr (pr_slug p)) (project_json p)) =
     project_json (p\<lparr>pr_root := base\<rparr>)"
  "set_key ''root'' (JStr base) (set_key ''slug'' (JStr slug)
     (obj [(''slug'', JStr slug), (''prefix'', JStr prefix), (''created_at'', JInt ts)])) =
     project_json \<lparr>pr_slug = slug, pr_root = base, pr_prefix = prefix, pr_created_at = ts\<rparr>"
  unfolding project_json_def set_key_obj by (rule obj_eqI, simp add: fun_eq_iff)+

lemma project_json_kept:
  "or_set ''created_at'' c (or_set ''prefix'' d (project_json p)) = project_json p"
  by (simp add: project_json_def or_set_obj)

lemma tables_projects:
  assumes "\<And>j. find (\<lambda>p. pr_slug p = j) ps = (if j = slug then Some p else find_project s j)"
  shows "tables (s\<lparr>db_projects := ps\<rparr>) = (tables s)((PROJECT, [slug]) := Some (project_json p))"
proof -
  have "(\<lambda>j. map_option project_json (find (\<lambda>p. pr_slug p = j) ps)) =
      (\<lambda>j. if j = slug then Some (project_json p) else map_option project_json (find_project s j))"
    using assms by (simp add: fun_eq_iff)
  then show ?thesis by (simp add: tables_def fun_eq_iff find_project_def find_folder_def find_issue_def)
qed

lemma ensure_project_sim:
  assumes m: "matches s a" and "ensure_project slug base prefix ts s = (out, s')"
    and free: "\<forall>p \<in> set (db_projects s). pr_root p = base \<longrightarrow> pr_slug p = slug"
  shows "\<exists>a'. ad_ensure_project slug base prefix ts a = (out, a') \<and> matches s' a'"
proof (cases "find_project s slug")
  case None
  let ?p = "\<lparr>pr_slug = slug, pr_root = base, pr_prefix = prefix, pr_created_at = ts\<rparr>"
  have s': "s' = s\<lparr>db_projects := db_projects s @ [?p]\<rparr>" "out = Inr ()"
    using assms(2) free None by (auto simp: ensure_project_def tx_def split: if_splits)
  have "ad_ensure_project slug base prefix ts a = (Inr (), put_row PROJECT [slug] (project_json ?p) a)"
    unfolding ad_ensure_project_def load_project_matches [OF m] None Let_def option.map or_else_simps
      project_json_fields project_json_kept ..
  moreover have "matches s' (put_row PROJECT [slug] (project_json ?p) a)"
    unfolding s' by (rule matches_put [OF m tables_projects])
      (use None in \<open>auto simp: find_snoc find_project_def split: option.split\<close>)
  ultimately show ?thesis using s' by blast
next
  case (Some p)
  have slug: "pr_slug p = slug" using Some by (auto simp: find_project_def dest: find_SomeD)
  let ?p = "p\<lparr>pr_root := base\<rparr>" and ?ps = "map (\<lambda>p. if pr_slug p = slug then p\<lparr>pr_root := base\<rparr> else p) (db_projects s)"
  have s': "s' = s\<lparr>db_projects := ?ps\<rparr>" "out = Inr ()"
    using assms(2) free Some by (auto simp: ensure_project_def tx_def split: if_splits)
  have "set_key ''root'' (JStr base) (set_key ''slug'' (JStr slug) (project_json p)) = project_json ?p"
    using project_json_fields(1) [of base p] by (simp only: slug)
  then have "ad_ensure_project slug base prefix ts a = (Inr (), put_row PROJECT [slug] (project_json ?p) a)"
    unfolding ad_ensure_project_def load_project_matches [OF m] Some Let_def option.map or_else_simps
    by (simp only: project_json_kept)
  moreover have "matches s' (put_row PROJECT [slug] (project_json ?p) a)"
    unfolding s'
  proof (rule matches_put [OF m tables_projects])
    show "find (\<lambda>p. pr_slug p = j) ?ps = (if j = slug then Some ?p else find_project s j)" for j
      by (subst find_replace) (use Some in \<open>simp_all add: find_project_def\<close>)
  qed simp_all
  ultimately show ?thesis using s' by blast
qed

section \<open>Folders\<close>

lemma parent_of_matches: "matches s a \<Longrightarrow> parent_of a f = Option.bind (find_folder s f) fr_parent"
  by (cases "find_folder s f") (simp_all add: parent_of_def load_folder_matches folder_json_def)

lemma parent_edge:
  assumes "db_ok s"
  shows "(x, y) \<in> set (folder_edges s) \<longleftrightarrow> Option.bind (find_folder s x) fr_parent = Some y"
proof -
  have d: "distinct (map fr_slug (db_folders s))" using assms by (simp add: db_ok_def folders_ok_def)
  show ?thesis
  proof
    assume "(x, y) \<in> set (folder_edges s)"
    then obtain f where f: "f \<in> set (db_folders s)" "fr_slug f = x" "fr_parent f = Some y"
      by (auto simp: folder_edges_mem)
    then have "find_folder s x = Some f" using find_distinct_key [OF d f(1)] by (simp add: find_folder_def)
    then show "Option.bind (find_folder s x) fr_parent = Some y" using f(3) by simp
  next
    assume "Option.bind (find_folder s x) fr_parent = Some y"
    then obtain f where "find_folder s x = Some f" "fr_parent f = Some y" by (auto simp: Option.bind_eq_Some_conv)
    then show "(x, y) \<in> set (folder_edges s)" by (auto simp: folder_edges_mem find_folder_def dest!: find_SomeD)
  qed
qed

text \<open>The tree of folders has no cycle, so the walk up from any folder ends.\<close>

lemma climbs_matches:
  assumes m: "matches s a" and ok: "db_ok s"
  shows "climbs a slug (Some n) = Some ((n, slug) \<in> (set (folder_edges s))\<^sup>*)"
proof -
  let ?E = "set (folder_edges s)"
  have edge: "(x, y) \<in> ?E \<longleftrightarrow> parent_of a x = Some y" for x y
    by (simp add: parent_edge [OF ok] parent_of_matches [OF m])
  have "acyclic ?E" using ok by (simp add: db_ok_def folders_ok_def)
  then have "wf (?E\<inverse>)" by (simp add: finite_acyclic_wf_converse)
  then show ?thesis
  proof (induction n rule: wf_induct_rule)
    case (less n)
    show ?case
    proof (cases "n = slug")
      case True
      then show ?thesis by (subst climbs.simps) simp
    next
      case False
      show ?thesis
      proof (cases "parent_of a n")
        case None
        then have "(n, slug) \<notin> ?E\<^sup>*" using False edge by (auto elim: converse_rtranclE)
        then show ?thesis using False None by (subst climbs.simps) (simp add: climbs.simps [of _ _ None])
      next
        case (Some q)
        then have "(n, q) \<in> ?E" by (simp add: edge)
        then have IH: "climbs a slug (Some q) = Some ((q, slug) \<in> ?E\<^sup>*)" using less by simp
        have "(n, slug) \<in> ?E\<^sup>* \<longleftrightarrow> (q, slug) \<in> ?E\<^sup>*"
          using False Some edge \<open>(n, q) \<in> ?E\<close>
          by (metis converse_rtranclE converse_rtrancl_into_rtrancl option.inject)
        then show ?thesis using False Some IH by (subst climbs.simps) simp
      qed
    qed
  qed
qed

lemma folder_problem_matches:
  assumes m: "matches s a" and ok: "db_ok s"
  shows "ad_folder_problem a slug parent = Some (folder_parent_problem s slug parent)"
proof (cases parent)
  case (Some p)
  show ?thesis
  proof (cases "p = slug \<or> find_folder s p = None")
    case True
    then show ?thesis
      unfolding Some ad_folder_problem_def folder_parent_problem_def option.case load_folder_matches [OF m]
      by (elim disjE) simp_all
  next
    case False
    have "climbs a slug (parent_of a p) = Some ((p, slug) \<in> (set (folder_edges s))\<^sup>*)"
    proof -
      have "climbs a slug (Some p) = climbs a slug (parent_of a p)"
        using False by (subst climbs.simps) simp
      then show ?thesis using climbs_matches [OF m ok, of slug p] by simp
    qed
    then show ?thesis using False Some
      by (auto simp: ad_folder_problem_def folder_parent_problem_def load_folder_matches [OF m] cte_reach_iff)
  qed
qed (simp add: ad_folder_problem_def folder_parent_problem_def)

lemma folder_json_fields:
  "or_set ''created_at'' c (set_key ''parent'' (jstr_opt parent) (set_key ''name'' (JStr name)
     (set_key ''slug'' (JStr (fr_slug f)) (folder_json f)))) =
     folder_json (f\<lparr>fr_name := name, fr_parent := parent\<rparr>)"
  "or_set ''created_at'' c (set_key ''parent'' (jstr_opt parent) (set_key ''name'' (JStr name)
     (set_key ''slug'' (JStr slug) (obj [(''slug'', JStr slug), (''name'', JStr name), (''parent'', JNull),
        (''created_at'', JInt ts)])))) =
     folder_json \<lparr>fr_slug = slug, fr_name = name, fr_parent = parent, fr_created_at = ts\<rparr>"
  unfolding folder_json_def set_key_obj or_set_obj
  by (simp_all add: map_of_rev_None) (rule obj_eqI, simp add: fun_eq_iff)+

lemma tables_folders:
  assumes "\<And>j. find (\<lambda>f. fr_slug f = j) fs = (if j = slug then Some f else find_folder s j)"
  shows "tables (s\<lparr>db_folders := fs\<rparr>) = (tables s)((FOLDER, [slug]) := Some (folder_json f))"
proof -
  have "(\<lambda>j. map_option folder_json (find (\<lambda>f. fr_slug f = j) fs)) =
      (\<lambda>j. if j = slug then Some (folder_json f) else map_option folder_json (find_folder s j))"
    using assms by (simp add: fun_eq_iff)
  then show ?thesis by (simp add: tables_def fun_eq_iff find_project_def find_folder_def find_issue_def)
qed

lemma write_folder_sim:
  assumes m: "matches s a"
  shows "matches (if find_folder s slug \<noteq> None
     then s\<lparr>db_folders := map (\<lambda>r. if fr_slug r = slug then r\<lparr>fr_name := name, fr_parent := parent\<rparr> else r) (db_folders s)\<rparr>
     else s\<lparr>db_folders := db_folders s @ [\<lparr>fr_slug = slug, fr_name = name, fr_parent = parent, fr_created_at = ts\<rparr>]\<rparr>)
    (put_row FOLDER [slug] (or_set ''created_at'' (JInt ts) (set_key ''parent'' (jstr_opt parent) (set_key ''name'' (JStr name)
     (set_key ''slug'' (JStr slug) (or_else (load_folder a slug)
       (obj [(''slug'', JStr slug), (''name'', JStr name), (''parent'', JNull), (''created_at'', JInt ts)])))))) a)"
    (is "matches _ (put_row _ _ ?data a)")
proof (cases "find_folder s slug")
  case None
  let ?f = "\<lparr>fr_slug = slug, fr_name = name, fr_parent = parent, fr_created_at = ts\<rparr>"
  have "?data = folder_json ?f"
    unfolding load_folder_matches [OF m] None option.map or_else_simps folder_json_fields ..
  moreover have "matches (s\<lparr>db_folders := db_folders s @ [?f]\<rparr>) (put_row FOLDER [slug] (folder_json ?f) a)"
    by (rule matches_put [OF m tables_folders])
      (use None in \<open>auto simp: find_snoc find_folder_def split: option.split\<close>)
  ultimately show ?thesis using None by simp
next
  case (Some f)
  have slug: "fr_slug f = slug" using Some by (auto simp: find_folder_def dest: find_SomeD)
  let ?f = "f\<lparr>fr_name := name, fr_parent := parent\<rparr>"
  let ?fs = "map (\<lambda>r. if fr_slug r = slug then r\<lparr>fr_name := name, fr_parent := parent\<rparr> else r) (db_folders s)"
  have "?data = folder_json ?f"
    unfolding load_folder_matches [OF m] Some option.map or_else_simps
    using folder_json_fields(1) [of _ parent name f] by (simp only: slug)
  moreover have "matches (s\<lparr>db_folders := ?fs\<rparr>) (put_row FOLDER [slug] (folder_json ?f) a)"
  proof (rule matches_put [OF m tables_folders])
    show "find (\<lambda>f. fr_slug f = j) ?fs = (if j = slug then Some ?f else find_folder s j)" for j
      by (subst find_replace) (use Some in \<open>simp_all add: find_folder_def\<close>)
  qed simp_all
  ultimately show ?thesis using Some by simp
qed

lemma ensure_folder_sim:
  assumes m: "matches s a" and ok: "db_ok s" and "ensure_folder f ts s = (out, s')"
  shows "\<exists>a'. ad_ensure_folder f ts a = Some (out, a') \<and> matches s' a'"
proof (cases "trim (fo_slug f) = [] \<or> trim (fo_name f) = []")
  case True
  then show ?thesis using assms(3) m by (auto simp: ensure_folder_def ad_ensure_folder_def Let_def split: if_splits)
next
  case False
  let ?slug = "trim (fo_slug f)" and ?parent = "nonempty_trimmed (fo_parent f)" and ?name = "trim (fo_name f)"
  note prob = folder_problem_matches [OF m ok, of ?slug ?parent]
  show ?thesis
  proof (cases "folder_parent_problem s ?slug ?parent")
    case (Some e)
    then show ?thesis using assms(3) m False prob by (auto simp: ensure_folder_def ad_ensure_folder_def Let_def tx_def)
  next
    case None
    have s': "s' = (if find_folder s ?slug \<noteq> None
        then s\<lparr>db_folders := map (\<lambda>r. if fr_slug r = ?slug then r\<lparr>fr_name := ?name, fr_parent := ?parent\<rparr> else r) (db_folders s)\<rparr>
        else s\<lparr>db_folders := db_folders s @ [\<lparr>fr_slug = ?slug, fr_name = ?name, fr_parent = ?parent, fr_created_at = ts\<rparr>]\<rparr>)"
      and out: "out = Inr ()"
      using assms(3) False None by (auto simp: ensure_folder_def Let_def tx_def split: if_splits)
    show ?thesis
      using write_folder_sim [OF m, where slug = ?slug and name = ?name and parent = ?parent and ts = ts] False None
      unfolding s' out ad_ensure_folder_def Let_def prob by simp
  qed
qed

section \<open>Assignments\<close>

lemma assignment_json_fields:
  "set_key ''assigned_at'' (JInt ts) (set_key ''folder'' (JStr f) (set_key ''project'' (JStr (pfr_project x))
     (assignment_json x))) = assignment_json (x\<lparr>pfr_folder := f, pfr_assigned_at := ts\<rparr>)"
  "set_key ''assigned_at'' (JInt ts) (set_key ''folder'' (JStr f) (set_key ''project'' (JStr p)
     (obj [(''project'', JStr p), (''assigned_at'', JInt ts)]))) =
     assignment_json \<lparr>pfr_project = p, pfr_folder = f, pfr_assigned_at = ts\<rparr>"
  unfolding assignment_json_def set_key_obj by (rule obj_eqI, simp add: fun_eq_iff)+

lemma tables_assignments:
  assumes "\<And>j. map_option assignment_json (find (\<lambda>x. pfr_project x = j) xs) =
    (if j = p then v else map_option assignment_json (find (\<lambda>x. pfr_project x = j) (db_project_folders s)))"
  shows "tables (s\<lparr>db_project_folders := xs\<rparr>) = (tables s)((PROJECT_FOLDER, [p]) := v)"
  using assms by (simp add: tables_def fun_eq_iff find_project_def find_folder_def find_issue_def)

lemma assign_folder_sim:
  assumes m: "matches s a"
  shows "matches (assign_folder p f ts s) (put_row PROJECT_FOLDER [p]
    (set_key ''assigned_at'' (JInt ts) (set_key ''folder'' (JStr f) (set_key ''project'' (JStr p)
      (or_else (row_at a PROJECT_FOLDER [p]) (obj [(''project'', JStr p), (''assigned_at'', JInt ts)]))))) a)"
    (is "matches _ (put_row _ _ ?data a)")
proof (cases "find (\<lambda>x. pfr_project x = p) (db_project_folders s)")
  case None
  let ?x = "\<lparr>pfr_project = p, pfr_folder = f, pfr_assigned_at = ts\<rparr>"
  have data: "?data = assignment_json ?x"
    by (simp only: row_at_matches [OF m] tables_at one_simps None option.map or_else_simps assignment_json_fields)
  have eq: "assign_folder p f ts s = s\<lparr>db_project_folders := db_project_folders s @ [?x]\<rparr>"
    using None by (auto simp: assign_folder_def find_None_iff_all)
  show ?thesis
    unfolding data eq by (rule matches_put [OF m tables_assignments])
      (use None in \<open>auto simp: find_snoc split: option.split\<close>)
next
  case (Some x)
  have p: "pfr_project x = p" "x \<in> set (db_project_folders s)" using Some by (auto dest: find_SomeD)
  let ?x = "x\<lparr>pfr_folder := f, pfr_assigned_at := ts\<rparr>"
  have data: "?data = assignment_json ?x"
    using assignment_json_fields(1) [of ts f x]
    by (simp only: row_at_matches [OF m] tables_at one_simps Some option.map or_else_simps p(1))
  have eq: "assign_folder p f ts s = s\<lparr>db_project_folders := map (\<lambda>x. if pfr_project x = p
      then x\<lparr>pfr_folder := f, pfr_assigned_at := ts\<rparr> else x) (db_project_folders s)\<rparr>"
    using p by (auto simp: assign_folder_def)
  show ?thesis
    unfolding data eq
  proof (rule matches_put [OF m tables_assignments])
    fix j
    show "map_option assignment_json (find (\<lambda>x. pfr_project x = j) (map (\<lambda>x. if pfr_project x = p
        then x\<lparr>pfr_folder := f, pfr_assigned_at := ts\<rparr> else x) (db_project_folders s))) =
      (if j = p then Some (assignment_json ?x)
       else map_option assignment_json (find (\<lambda>x. pfr_project x = j) (db_project_folders s)))"
      by (subst find_replace) (use Some in simp_all)
  qed simp_all
qed

lemma find_removed:
  "find (\<lambda>x. k x = j) (filter (\<lambda>x. k x \<noteq> i) xs) = (if j = i then None else find (\<lambda>x. k x = j) xs)"
  by (induction xs) auto

lemma set_project_folder_sim:
  assumes m: "matches s a" and "set_project_folder p f ts s = (out, s')"
  shows "\<exists>a'. ad_set_project_folder p f ts a = (out, a') \<and> matches s' a'"
proof (cases "find_project s p")
  case None
  then show ?thesis using assms
    by (simp add: set_project_folder_def ad_set_project_folder_def tx_def load_project_matches [OF m])
next
  case proj: (Some q)
  show ?thesis
  proof (cases "nonempty_trimmed f")
    case None
    have "matches (s\<lparr>db_project_folders := filter (\<lambda>x. pfr_project x \<noteq> p) (db_project_folders s)\<rparr>)
        (tombstone PROJECT_FOLDER [p] a)"
      by (rule matches_tombstone [OF m tables_assignments]) (simp_all add: find_removed)
    then show ?thesis using assms(2) proj None
      by (auto simp: set_project_folder_def ad_set_project_folder_def tx_def load_project_matches [OF m])
  next
    case (Some g)
    then show ?thesis using assms proj assign_folder_sim [OF m, of p g ts]
      by (auto simp: set_project_folder_def ad_set_project_folder_def tx_def load_project_matches [OF m]
          load_folder_matches [OF m] Let_def split: if_splits)
  qed
qed

section \<open>The outbox\<close>

lemma tables_deliveries:
  assumes "\<And>q. map_option delivery_json (find (\<lambda>x. show_int (or_seq x) = q) xs) =
    (if q = show_int n then v else map_option delivery_json (find (\<lambda>x. show_int (or_seq x) = q) (db_outbound s)))"
  shows "tables (s\<lparr>db_outbound := xs\<rparr>) = (tables s)((OUTBOUND_EVENT, [show_int n]) := v)"
  using assms by (simp add: tables_def fun_eq_iff find_project_def find_folder_def find_issue_def)

lemma is_number_opt [simp]: "is_number (jint_opt v) \<longleftrightarrow> v \<noteq> None"
  by (cases v) (simp_all add: is_number_def jint_opt_def)

lemma mark_event_sim:
  assumes m: "matches s a" and ok: "db_ok s"
    and key: "\<And>e. or_seq (f e) = or_seq e"
    and json: "\<And>e. e \<in> set (db_outbound s) \<Longrightarrow> g (delivery_json e) = delivery_json (f e)"
  shows "\<exists>a'. mark_open_event n g a = (Inr (), a') \<and> matches (upd_outbound n f s) a'"
proof -
  have srt: "sorted_wrt (<) (map or_seq (db_outbound s))" using ok by (simp add: db_ok_def logs_ok_def)
  have row: "row_at a OUTBOUND_EVENT [show_int n] = map_option delivery_json (find (\<lambda>x. or_seq x = n) (db_outbound s))"
    by (simp add: row_at_matches [OF m] tables_at)
  have same: "x = e" if "find (\<lambda>x. or_seq x = n) (db_outbound s) = Some e" "x \<in> set (db_outbound s)" "or_seq x = n" for x e
    using find_number [OF srt that(2)] that(1,3) by simp
  have number: "is_number (at_key (delivery_json e) ''delivered_at'') \<longleftrightarrow> or_delivered_at e \<noteq> None" for e
    by (simp add: delivery_json_def)
  let ?f = "\<lambda>r. if or_seq r = n \<and> or_delivered_at r = None then f r else r"
  show ?thesis
  proof (cases "find (\<lambda>x. or_seq x = n) (db_outbound s)")
    case None
    then have "map ?f (db_outbound s) = db_outbound s" by (intro map_idI) (auto simp: find_None_iff_all)
    then show ?thesis using m row None by (simp add: mark_open_event_def upd_outbound_def)
  next
    case (Some e)
    have e: "e \<in> set (db_outbound s)" "or_seq e = n" using Some by (auto dest: find_SomeD)
    show ?thesis
    proof (cases "or_delivered_at e")
      case None
      have "?f x = (if or_seq x = n then f x else x)" if "x \<in> set (db_outbound s)" for x
        using same [OF Some that] None by auto
      then have eq: "map ?f (db_outbound s) = map (\<lambda>x. if or_seq x = n then f x else x) (db_outbound s)" by simp
      have "matches (upd_outbound n f s) (put_row OUTBOUND_EVENT [show_int n] (g (delivery_json e)) a)"
        unfolding upd_outbound_def eq
      proof (rule matches_put [OF m tables_deliveries])
        fix q
        have "find (\<lambda>x. show_int (or_seq x) = q) (map (\<lambda>x. if show_int (or_seq x) = show_int n then f x else x) (db_outbound s)) =
            (if q = show_int n then map_option f (find (\<lambda>x. show_int (or_seq x) = show_int n) (db_outbound s))
             else find (\<lambda>x. show_int (or_seq x) = q) (db_outbound s))"
          by (rule find_replace) (simp add: key)
        then show "map_option delivery_json (find (\<lambda>x. show_int (or_seq x) = q)
            (map (\<lambda>x. if or_seq x = n then f x else x) (db_outbound s))) =
          (if q = show_int n then Some (g (delivery_json e))
           else map_option delivery_json (find (\<lambda>x. show_int (or_seq x) = q) (db_outbound s)))"
          using Some json [OF e(1)] by simp
      qed simp_all
      then show ?thesis using row Some None by (simp add: mark_open_event_def number)
    next
      case (Some t)
      then have "map ?f (db_outbound s) = db_outbound s"
        using same [OF \<open>find _ _ = Some e\<close>] by (intro map_idI) auto
      then show ?thesis using m row Some \<open>find _ _ = Some e\<close>
        by (simp add: mark_open_event_def upd_outbound_def number)
    qed
  qed
qed

lemma delivery_attempts: "fits (or_attempts e) \<Longrightarrow> int_at (delivery_json e) ''attempts'' = or_attempts e"
  by (simp add: int_at_def delivery_json_def del: as_i64.simps)

lemma outbound_fits: "db_fits s \<Longrightarrow> e \<in> set (db_outbound s) \<Longrightarrow> fits (or_attempts e)"
  by (simp add: db_fits_def delivery_fits_def list_all_iff)

lemma mark_delivered_sim:
  assumes m: "matches s a" "db_ok s" "db_fits s" and "mark_event_delivered n ts s = (out, s')"
  shows "\<exists>a'. ad_mark_event_delivered n ts a = (out, a') \<and> matches s' a'"
proof -
  let ?f = "\<lambda>r. r\<lparr>or_delivered_at := Some ts, or_attempts := or_attempts r + 1, or_last_error := None\<rparr>"
  have "s' = upd_outbound n ?f s" "out = Inr ()" using assms(4) by (auto simp: mark_event_delivered_def tx_def)
  moreover have "\<exists>a'. ad_mark_event_delivered n ts a = (Inr (), a') \<and> matches (upd_outbound n ?f s) a'"
    unfolding ad_mark_event_delivered_def
  proof (rule mark_event_sim [OF m(1,2)])
    fix e assume e: "e \<in> set (db_outbound s)"
    show "set_key ''last_error'' JNull (set_key ''attempts'' (JInt (int_at (delivery_json e) ''attempts'' + 1))
        (set_key ''delivered_at'' (JInt ts) (delivery_json e))) = delivery_json (?f e)"
      unfolding delivery_attempts [OF outbound_fits [OF m(3) e]] unfolding delivery_json_def set_key_obj
      by (intro obj_eqI) (simp add: fun_eq_iff jint_opt_def jstr_opt_def)
  qed simp
  ultimately show ?thesis by simp
qed

lemma mark_failed_sim:
  assumes m: "matches s a" "db_ok s" "db_fits s" and "mark_event_failed n next err s = (out, s')"
  shows "\<exists>a'. ad_mark_event_failed n next err a = (out, a') \<and> matches s' a'"
proof -
  let ?f = "\<lambda>r. r\<lparr>or_attempts := or_attempts r + 1, or_next_attempt_at := next, or_last_error := Some err\<rparr>"
  have "s' = upd_outbound n ?f s" "out = Inr ()" using assms(4) by (auto simp: mark_event_failed_def tx_def)
  moreover have "\<exists>a'. ad_mark_event_failed n next err a = (Inr (), a') \<and> matches (upd_outbound n ?f s) a'"
    unfolding ad_mark_event_failed_def
  proof (rule mark_event_sim [OF m(1,2)])
    fix e assume e: "e \<in> set (db_outbound s)"
    show "set_key ''last_error'' (JStr err) (set_key ''next_attempt_at'' (JInt next)
        (set_key ''attempts'' (JInt (int_at (delivery_json e) ''attempts'' + 1)) (delivery_json e))) = delivery_json (?f e)"
      unfolding delivery_attempts [OF outbound_fits [OF m(3) e]] unfolding delivery_json_def set_key_obj
      by (intro obj_eqI) (simp add: fun_eq_iff jint_opt_def jstr_opt_def)
  qed simp
  ultimately show ?thesis by simp
qed

end
