(* ===== verification/AdapterProps.thy ===== *)
theory AdapterProps
  imports AdapterFolders Demo RecordProps
begin

text \<open>
  What the two stores have in common. A call is a constructor of \<open>db_op\<close>, its answer a value of
  \<open>answer\<close>; a run of calls that the side conditions of \<open>shared\<close> admit gives the same answers on the
  SQLite store and on the adapter, and afterwards every query of the one is the query of the other.
\<close>

section \<open>Sweeping\<close>






section \<open>Calls\<close>









section \<open>Runs\<close>






section \<open>The key of the edges to other stores\<close>













section \<open>The adapter stands in for the SQLite store\<close>






section \<open>Two new stores\<close>






section \<open>The properties\<close>





end
