(* ===== verification/Auth.thy ===== *)
theory Auth
  imports CanonicalRef
begin

text \<open>
  \<open>src/src/auth.rs\<close>: who is calling. A bearer token resolves to a principal through the token files
  of the state directory or through the signing keys of the OIDC issuer. The directory listing and
  the answers of the issuer are inputs; \<open>jsonwebtoken\<close> is the parameter \<open>jwt\<close>. Instants are counted
  in nanoseconds.
\<close>

record principal =
  pn_kind :: actor_kind
  pn_name :: string
  pn_company_id :: "string option"

record auth_config =
  ac_oidc_issuer :: "string option"
  ac_oidc_audience :: "string option"
  ac_jwks_uri :: "string option"
  ac_agent_client_ids :: "string list"
  ac_company_claim :: "string option"

section \<open>Token files\<close>

text \<open>
  A file with its name, where that is UTF-8, and its content, where it can be read. A listing is
  \<open>None\<close> when the directory cannot be read.
\<close>

record token_file =
  tf_name :: "string option"
  tf_content :: "string option"

record company_dir =
  cd_name :: "string option"
  cd_files :: "token_file list option"

datatype token_entry =
    TokenFile token_file
  | Companies "company_dir list option"  \<comment> \<open>the entry named \<open>companies\<close>\<close>

fun company_files :: "string \<Rightarrow> string \<Rightarrow> token_file list \<Rightarrow> principal option" where
  "company_files company token [] = None"
| "company_files company token (f # fs) =
     (case Option.bind (tf_name f) (strip_prefix ''agent-'') of
        None \<Rightarrow> company_files company token fs
      | Some name \<Rightarrow>
          (case tf_content f of
             None \<Rightarrow> company_files company token fs
           | Some content \<Rightarrow>
               if trim content = token
               then Some \<lparr>pn_kind = Agent, pn_name = name, pn_company_id = Some company\<rparr>
               else company_files company token fs))"

text \<open>The \<open>?\<close> on the listing of one company leaves the whole search.\<close>

fun company_dirs :: "string \<Rightarrow> company_dir list \<Rightarrow> principal option" where
  "company_dirs token [] = None"
| "company_dirs token (d # ds) =
     (case cd_name d of
        None \<Rightarrow> company_dirs token ds
      | Some company \<Rightarrow>
          if company = [] \<or> company = ''.'' \<or> company = ''..'' then company_dirs token ds
          else (case cd_files d of
             None \<Rightarrow> None
           | Some fs \<Rightarrow>
               (case company_files company token fs of
                  Some p \<Rightarrow> Some p
                | None \<Rightarrow> company_dirs token ds)))"

definition company_static_token :: "company_dir list option \<Rightarrow> string \<Rightarrow> principal option" where
  "company_static_token companies token = Option.bind companies (company_dirs token)"

fun token_entries :: "string \<Rightarrow> token_entry list \<Rightarrow> principal option" where
  "token_entries token [] = None"
| "token_entries token (Companies ds # es) =
     (case company_static_token ds token of
        Some p \<Rightarrow> Some p
      | None \<Rightarrow> token_entries token es)"
| "token_entries token (TokenFile f # es) =
     (case (tf_name f, tf_content f) of
        (Some stem, Some content) \<Rightarrow>
          if trim content = token
          then (case strip_prefix ''human-'' stem of
                  Some name \<Rightarrow> Some \<lparr>pn_kind = Human, pn_name = name, pn_company_id = None\<rparr>
                | None \<Rightarrow>
                    (case strip_prefix ''agent-'' stem of
                       Some name \<Rightarrow> Some \<lparr>pn_kind = Agent, pn_name = name, pn_company_id = None\<rparr>
                     | None \<Rightarrow> token_entries token es))
          else token_entries token es
      | _ \<Rightarrow> token_entries token es)"

definition static_token :: "token_entry list option \<Rightarrow> string \<Rightarrow> principal option" where
  "static_token entries token = Option.bind entries (token_entries token)"

section \<open>The signing keys of the issuer\<close>

record jwk =
  jk_kid :: "string option"
  jk_kty :: string
  jk_n :: "string option"
  jk_e :: "string option"
  jk_x :: "string option"
  jk_y :: "string option"
  jk_alg :: "string option"

record jwks_state =
  js_jwks :: "(time \<times> jwk list) option"  \<comment> \<open>when the keys were stored\<close>
  js_attempt :: "time option"  \<comment> \<open>when the last fetch ended\<close>

definition from_secs :: "int \<Rightarrow> time" where
  "from_secs n = n * 1000000000"

definition TTL :: time where
  "TTL = from_secs 900"

definition COOLDOWN :: time where
  "COOLDOWN = from_secs 5"

definition cached_jwks :: "jwks_state \<Rightarrow> time \<Rightarrow> time \<Rightarrow> jwk list option" where
  "cached_jwks s now ttl =
     Option.bind (js_jwks s) (\<lambda>(stored_at, keys). if now - stored_at < ttl then Some keys else None)"

text \<open>What the issuer's endpoints answer: the discovery document's \<open>jwks_uri\<close> and the key set, by URL.\<close>

record issuer_http =
  ih_discovery :: "string \<Rightarrow> string option"
  ih_keys :: "string \<Rightarrow> jwk list option"

definition trim_end_slashes :: "string \<Rightarrow> string" where
  "trim_end_slashes s = rev (dropWhile (\<lambda>c. c = CHR ''/'') (rev s))"

definition jwks_location :: "auth_config \<Rightarrow> issuer_http \<Rightarrow> string option" where
  "jwks_location cfg http =
     (case ac_jwks_uri cfg of
        Some uri \<Rightarrow> Some uri
      | None \<Rightarrow> Option.bind (ac_oidc_issuer cfg) (\<lambda>issuer.
          ih_discovery http (trim_end_slashes issuer @ ''/.well-known/openid-configuration'')))"

text \<open>\<open>at\<close> is the instant the key set arrived.\<close>

definition fetch_jwks :: "auth_config \<Rightarrow> issuer_http \<Rightarrow> time \<Rightarrow> jwks_state \<Rightarrow> jwk list option \<times> jwks_state" where
  "fetch_jwks cfg http arrived s =
     (case Option.bind (jwks_location cfg http) (ih_keys http) of
        None \<Rightarrow> (None, s)
      | Some keys \<Rightarrow> (Some keys, s\<lparr>js_jwks := Some (arrived, keys)\<rparr>))"

text \<open>
  One call at \<open>now\<close>, with the instant \<open>arrived\<close> at which a fetch would end. The lock on the last
  attempt makes the calls that may fetch follow one another, so the second look at the cache, under
  the lock, is the look of the later call.
\<close>

definition jwks :: "auth_config \<Rightarrow> issuer_http \<Rightarrow> time \<Rightarrow> time \<Rightarrow> bool \<Rightarrow> jwks_state \<Rightarrow> jwk list option \<times> jwks_state" where
  "jwks cfg http now arrived force s =
     (let freshness = if force then COOLDOWN else TTL in
      case cached_jwks s now freshness of
        Some keys \<Rightarrow> (Some keys, s)
      | None \<Rightarrow>
          if (case js_attempt s of None \<Rightarrow> False | Some t \<Rightarrow> now - t < COOLDOWN)
          then (cached_jwks s now TTL, s)
          else (case fetch_jwks cfg http arrived s of
                  (result, s') \<Rightarrow> (result, s'\<lparr>js_attempt := Some arrived\<rparr>)))"

section \<open>OIDC tokens\<close>

record claims =
  cl_sub :: string
  cl_client_id :: "string option"
  cl_azp :: "string option"
  cl_extra :: "(string \<times> json) list"

text \<open>
  \<open>jsonwebtoken\<close>: the key id of a token's header (\<open>None\<close> for a header that does not decode), the
  two key constructors, the algorithm names it knows, and the verification of a token against key,
  algorithm, issuer and audience, which also checks the expiry.
\<close>

record 'k jwt =
  jw_kid :: "string \<Rightarrow> string option option"
  jw_rsa :: "string \<Rightarrow> string \<Rightarrow> 'k option"
  jw_ec :: "string \<Rightarrow> string \<Rightarrow> 'k option"
  jw_algorithm :: "string \<Rightarrow> bool"
  jw_decode :: "string \<Rightarrow> 'k \<Rightarrow> string \<Rightarrow> string \<Rightarrow> string option \<Rightarrow> claims option"

definition decoding_from_jwk :: "'k jwt \<Rightarrow> jwk \<Rightarrow> 'k option" where
  "decoding_from_jwk lib key =
     (if jk_kty key = ''RSA'' then Option.bind (jk_n key) (\<lambda>n. Option.bind (jk_e key) (jw_rsa lib n))
      else if jk_kty key = ''EC'' then Option.bind (jk_x key) (\<lambda>x. Option.bind (jk_y key) (jw_ec lib x))
      else None)"

definition algorithm_of :: "'k jwt \<Rightarrow> jwk \<Rightarrow> string" where
  "algorithm_of lib key =
     (let name = (case jk_alg key of None \<Rightarrow> ''RS256'' | Some a \<Rightarrow> a)
      in if jw_algorithm lib name then name else ''RS256'')"

fun claim_path :: "json \<Rightarrow> string list \<Rightarrow> json option" where
  "claim_path v [] = Some v"
| "claim_path v (p # ps) =
     (case v of JObj m \<Rightarrow> Option.bind (map_of m p) (\<lambda>v'. claim_path v' ps) | _ \<Rightarrow> None)"

definition claim_value :: "(string \<times> json) list \<Rightarrow> string \<Rightarrow> json option" where
  "claim_value cs path = claim_path (JObj cs) (split_char CHR ''.'' path)"

definition principal_of_claims :: "auth_config \<Rightarrow> claims \<Rightarrow> principal" where
  "principal_of_claims cfg cs =
     (let caller_client = (case cl_client_id cs of None \<Rightarrow> cl_azp cs | Some c \<Rightarrow> Some c);
          is_agent = (case caller_client of None \<Rightarrow> False | Some i \<Rightarrow> i \<in> set (ac_agent_client_ids cfg))
      in \<lparr>pn_kind = (if is_agent then Agent else Human),
          pn_name = (case caller_client of None \<Rightarrow> cl_sub cs | Some c \<Rightarrow> c),
          pn_company_id = Option.bind (ac_company_claim cfg) (\<lambda>claim.
            Option.bind (claim_value (cl_extra cs) claim) as_str)\<rparr>)"

definition knows_kid :: "string \<Rightarrow> jwk list \<Rightarrow> bool" where
  "knows_kid kid keys \<longleftrightarrow> (\<exists>k \<in> set keys. jk_kid k = Some kid)"

definition check_token :: "'k jwt \<Rightarrow> auth_config \<Rightarrow> string \<Rightarrow> string \<Rightarrow> string \<Rightarrow> jwk list \<Rightarrow> principal option" where
  "check_token lib cfg issuer token kid keys =
     Option.bind (find (\<lambda>k. jk_kid k = Some kid) keys) (\<lambda>key.
       Option.bind (decoding_from_jwk lib key) (\<lambda>dk.
         map_option (principal_of_claims cfg)
           (jw_decode lib token dk (algorithm_of lib key) issuer (ac_oidc_audience cfg))))"

text \<open>The instants of the two looks at the key set, and of the arrival of what each may fetch.\<close>

record oidc_clock =
  oc_first :: time
  oc_first_arrived :: time
  oc_second :: time
  oc_second_arrived :: time

definition oidc ::
  "'k jwt \<Rightarrow> auth_config \<Rightarrow> issuer_http \<Rightarrow> oidc_clock \<Rightarrow> string \<Rightarrow> jwks_state \<Rightarrow> principal option \<times> jwks_state" where
  "oidc lib cfg http clock token s =
     (case (ac_oidc_issuer cfg, jw_kid lib token) of
        (Some issuer, Some (Some kid)) \<Rightarrow>
          (case jwks cfg http (oc_first clock) (oc_first_arrived clock) False s of
             (None, s1) \<Rightarrow> (None, s1)
           | (Some keys, s1) \<Rightarrow>
               if knows_kid kid keys then (check_token lib cfg issuer token kid keys, s1)
               else (case jwks cfg http (oc_second clock) (oc_second_arrived clock) True s1 of
                  (None, s2) \<Rightarrow> (None, s2)
                | (Some keys', s2) \<Rightarrow> (check_token lib cfg issuer token kid keys', s2)))
      | _ \<Rightarrow> (None, s))"

definition authenticate ::
  "'k jwt \<Rightarrow> auth_config \<Rightarrow> token_entry list option \<Rightarrow> issuer_http \<Rightarrow> oidc_clock \<Rightarrow> string option \<Rightarrow>
    jwks_state \<Rightarrow> principal option \<times> jwks_state" where
  "authenticate lib cfg tokens http clock bearer s =
     (case bearer of
        None \<Rightarrow> (None, s)
      | Some b \<Rightarrow>
          (let token = trim b in
           if token = [] then (None, s)
           else case static_token tokens token of
             Some p \<Rightarrow> (Some p, s)
           | None \<Rightarrow> if ac_oidc_issuer cfg \<noteq> None then oidc lib cfg http clock token s else (None, s)))"

text \<open>Minting: the file a secret is written to, and what it holds.\<close>

definition mint_token :: "actor_kind \<Rightarrow> string \<Rightarrow> string \<Rightarrow> token_file" where
  "mint_token kind name secret =
     \<lparr>tf_name = Some ((case kind of Human \<Rightarrow> ''human'' | Agent \<Rightarrow> ''agent'') @ ''-'' @ name),
      tf_content = Some (secret @ [CHR 0x0A])\<rparr>"

section \<open>What a token file gives\<close>

lemma company_files_Some:
  assumes "company_files company token fs = Some p"
  shows "\<exists>f \<in> set fs. \<exists>name. tf_name f = Some (''agent-'' @ name) \<and> (\<exists>c. tf_content f = Some c \<and> trim c = token) \<and>
    p = \<lparr>pn_kind = Agent, pn_name = name, pn_company_id = Some company\<rparr>"
  using assms
  by (induction company token fs rule: company_files.induct)
    (auto simp: Option.bind_eq_Some_conv split: option.splits if_splits)

lemma company_dirs_step:
  assumes "company_dirs token (d # ds) = Some p"
  shows "(\<exists>company fs. cd_name d = Some company \<and> cd_files d = Some fs \<and> company_files company token fs = Some p) \<or>
    company_dirs token ds = Some p"
  using assms by (simp split: option.splits if_split_asm)

lemma company_dirs_Some:
  assumes "company_dirs token ds = Some p"
  shows "\<exists>d \<in> set ds. \<exists>company fs. cd_name d = Some company \<and> cd_files d = Some fs \<and>
    company_files company token fs = Some p"
  using assms
proof (induction ds)
  case (Cons d ds)
  from company_dirs_step [OF Cons.prems] Cons.IH show ?case by auto
qed simp

definition named_for :: "token_file \<Rightarrow> principal \<Rightarrow> bool" where
  "named_for f p \<longleftrightarrow> pn_company_id p = None \<and>
     tf_name f = Some ((case pn_kind p of Human \<Rightarrow> ''human-'' | Agent \<Rightarrow> ''agent-'') @ pn_name p)"

lemma file_step:
  assumes "token_entries token (TokenFile f # es) = Some p"
  shows "(\<exists>c. tf_content f = Some c \<and> trim c = token \<and> named_for f p) \<or> token_entries token es = Some p"
proof (cases "\<exists>stem c. tf_name f = Some stem \<and> tf_content f = Some c \<and> trim c = token")
  case True
  then obtain stem c where f: "tf_name f = Some stem" "tf_content f = Some c" "trim c = token" by blast
  show ?thesis
  proof (cases "strip_prefix ''human-'' stem")
    case (Some n)
    then have "stem = ''human-'' @ n" by (rule strip_prefix_Some [THEN iffD1])
    then show ?thesis using assms f Some by (auto simp: named_for_def simp del: strip_prefix_Some)
  next
    case human: None
    show ?thesis
    proof (cases "strip_prefix ''agent-'' stem")
      case (Some n)
      then have "stem = ''agent-'' @ n" by (rule strip_prefix_Some [THEN iffD1])
      then show ?thesis using assms f Some human by (auto simp: named_for_def simp del: strip_prefix_Some)
    next
      case None
      then show ?thesis using assms f human by (simp del: strip_prefix_Some)
    qed
  qed
next
  case False
  then show ?thesis using assms by (simp del: strip_prefix_Some split: option.splits if_split_asm)
qed

lemma token_entries_Some:
  assumes "token_entries token es = Some p"
  shows "(\<exists>f c. TokenFile f \<in> set es \<and> tf_content f = Some c \<and> trim c = token \<and> named_for f p) \<or>
    (\<exists>ds. Companies ds \<in> set es \<and> company_static_token ds token = Some p)"
  using assms
proof (induction es)
  case (Cons e es)
  show ?case
  proof (cases e)
    case (TokenFile f)
    from file_step [OF Cons.prems [unfolded TokenFile]] show ?thesis
    proof
      assume "token_entries token es = Some p"
      then show ?thesis using Cons.IH by auto
    qed (auto simp: TokenFile)
  next
    case (Companies ds)
    then show ?thesis using Cons by (cases "company_static_token ds token") auto
  qed
qed simp

section \<open>The refresh of the keys\<close>

lemma jwks_cases:
  obtains (kept) "snd (jwks cfg http now arrived force s) = s"
    "fst (jwks cfg http now arrived force s) \<noteq> None \<longrightarrow>
       (\<exists>t keys. js_jwks s = Some (t, keys) \<and> fst (jwks cfg http now arrived force s) = Some keys \<and> now - t < TTL)"
  | (fetched) "js_attempt (snd (jwks cfg http now arrived force s)) = Some arrived"
    "\<And>t. js_attempt s = Some t \<Longrightarrow> COOLDOWN \<le> now - t"
    "fst (jwks cfg http now arrived force s) = Option.bind (jwks_location cfg http) (ih_keys http)"
proof -
  have c: "COOLDOWN \<le> TTL" by (simp add: COOLDOWN_def TTL_def from_secs_def)
  let ?f = "if force then COOLDOWN else TTL"
  show thesis
  proof (cases "cached_jwks s now ?f")
    case (Some keys)
    then obtain t where "js_jwks s = Some (t, keys)" "now - t < ?f"
      by (auto simp: cached_jwks_def Option.bind_eq_Some_conv split: if_splits)
    then show thesis using Some c kept by (auto simp: jwks_def Let_def split: if_splits)
  next
    case None
    show thesis
    proof (cases "case js_attempt s of None \<Rightarrow> False | Some t \<Rightarrow> now - t < COOLDOWN")
      case True
      have eq: "jwks cfg http now arrived force s = (cached_jwks s now TTL, s)"
        using None True by (simp add: jwks_def)
      show thesis
        by (rule kept) (auto simp: eq cached_jwks_def Option.bind_eq_Some_conv split: if_splits)
    next
      case False
      have eq: "jwks cfg http now arrived force s =
          (case fetch_jwks cfg http arrived s of (result, s') \<Rightarrow> (result, s'\<lparr>js_attempt := Some arrived\<rparr>))"
        using None False by (simp add: jwks_def)
      show thesis
      proof (rule fetched)
        show "COOLDOWN \<le> now - t" if "js_attempt s = Some t" for t using False that by simp
      qed (simp_all add: eq fetch_jwks_def split: option.split)
    qed
  qed
qed

end
