(* ===== verification/Import.thy ===== *)
theory Import
  imports DbSteps Queue
begin

text \<open>
  \<open>import\<close> of \<open>src/src/import.rs\<close>: the rows of a Beads export, one after the other, each created
  under its own id, then its edges, then its status. Reading the export (serde) is not modelled.
\<close>

datatype import_error = ImportStore error | ImportPromised string string

record import_report =
  im_issues :: int
  im_deps :: int
  im_statused :: int
  im_missing_deps :: int

definition no_patch :: issue_patch where
  "no_patch =
     \<lparr>p_title = None, p_description = None, p_status = None, p_priority = None, p_append_notes = None,
      p_available_at = None, p_evidence = None, p_metadata = None\<rparr>"

definition imported_issue :: "string \<Rightarrow> issue \<Rightarrow> new_issue" where
  "imported_issue project row =
     \<lparr>n_title = i_title row, n_description = i_description row,
      n_issue_type = (if i_issue_type row = [] then ''task'' else i_issue_type row),
      n_priority = i_priority row, n_labels = i_labels row, n_parent = i_parent row,
      n_id = Some (i_id row), n_project = Some project, n_available_at = Some 0,
      n_created_by = Some ''marbles-import'', n_metadata = None, n_external_ref = None\<rparr>"

fun import_deps :: "string \<Rightarrow> time \<Rightarrow> dependency list \<Rightarrow> import_report \<Rightarrow> db \<Rightarrow> (error + import_report) \<times> db" where
  "import_deps i ts [] rep s = (Inr rep, s)"
| "import_deps i ts (d # ds) rep s =
     (case depends_on_id d of
        None \<Rightarrow> import_deps i ts ds rep s
      | Some parent \<Rightarrow>
          (case add_dep i parent ''marbles-import'' ts s of
             (Inr _, s') \<Rightarrow> import_deps i ts ds (rep\<lparr>im_deps := im_deps rep + 1\<rparr>) s'
           | (Inl (NotFound _), s') \<Rightarrow> import_deps i ts ds (rep\<lparr>im_missing_deps := im_missing_deps rep + 1\<rparr>) s'
           | (Inl e, s') \<Rightarrow> (Inl e, s')))"

definition import_status :: "time \<Rightarrow> issue \<Rightarrow> import_report \<Rightarrow> db \<Rightarrow> (error + import_report) \<times> db" where
  "import_status now row rep s =
     (if i_status row \<noteq> ''open''
      then (case update (i_id row) (no_patch\<lparr>p_status := Some (i_status row)\<rparr>) ''marbles-import'' now s of
              (Inl e, s') \<Rightarrow> (Inl e, s')
            | (Inr _, s') \<Rightarrow> (Inr (rep\<lparr>im_statused := im_statused rep + 1\<rparr>), s'))
      else (Inr rep, s))"

text \<open>\<open>None\<close> is \<open>create\<close> without an outcome, which needs an issue without an id.\<close>

fun import_rows ::
  "time \<Rightarrow> string \<Rightarrow> issue list \<Rightarrow> import_report \<Rightarrow> db \<Rightarrow> ((import_error + import_report) \<times> db) option" where
  "import_rows now project [] rep s = Some (Inr rep, s)"
| "import_rows now project (row # rows) rep s =
     (let created_at = (if 0 < i_created_at row then i_created_at row else now) in
      case create (imported_issue project row) [] created_at s of
        None \<Rightarrow> None
      | Some (Inl e, s1) \<Rightarrow> Some (Inl (ImportStore e), s1)
      | Some (Inr i, s1) \<Rightarrow>
          if i \<noteq> i_id row then Some (Inl (ImportPromised (i_id row) i), s1)
          else (case import_deps (i_id row) created_at (i_dependencies row) rep s1 of
             (Inl e, s2) \<Rightarrow> Some (Inl (ImportStore e), s2)
           | (Inr rep2, s2) \<Rightarrow>
               (case import_status now row rep2 s2 of
                  (Inl e, s3) \<Rightarrow> Some (Inl (ImportStore e), s3)
                | (Inr rep3, s3) \<Rightarrow>
                    import_rows now project rows (rep3\<lparr>im_issues := im_issues rep3 + 1\<rparr>) s3)))"

definition import :: "time \<Rightarrow> string \<Rightarrow> issue list \<Rightarrow> db \<Rightarrow> ((import_error + import_report) \<times> db) option" where
  "import now project rows s =
     import_rows now project rows \<lparr>im_issues = 0, im_deps = 0, im_statused = 0, im_missing_deps = 0\<rparr> s"

section \<open>What an import leaves\<close>

text \<open>The part of each row that the report and the test speak of.\<close>

definition row_card :: "issue_row \<Rightarrow> string \<times> string \<times> string \<times> string" where
  "row_card r = (ir_id r, ir_project r, ir_title r, ir_status r)"

definition cards :: "db \<Rightarrow> (string \<times> string \<times> string \<times> string) list" where
  "cards s = map row_card (db_issues s)"

lemma cards_frame [simp]:
  "cards (log_event i ts a e d s) = cards s" "cards (insert_dep c p s) = cards s" "cards (s\<lparr>db_deps := ds\<rparr>) = cards s"
  "cards (touch_updated i ts s) = cards s"
  by (auto simp: cards_def row_card_def touch_updated_def upd_issue_def)

lemma ids_cards: "ir_id ` set (db_issues s) = fst ` set (cards s)"
  by (force simp: cards_def row_card_def)

lemma known_id: "find_issue s i \<noteq> None \<longleftrightarrow> i \<in> fst ` set (cards s)"
  unfolding find_issue_None ids_cards by simp

text \<open>
  The edges an import stores: those to an issue that is in the store by then, which is the ones of the
  store before the import and the rows up to the edge's own.
\<close>

fun kept_edges :: "string list \<Rightarrow> issue list \<Rightarrow> (string \<times> string) list" where
  "kept_edges known [] = []"
| "kept_edges known (row # rows) =
     map (Pair (i_id row)) (filter (\<lambda>p. p \<in> set (i_id row # known)) (List.map_filter depends_on_id (i_dependencies row))) @
     kept_edges (i_id row # known) rows"

definition named_deps :: "issue list \<Rightarrow> string list" where
  "named_deps rows = concat (map (\<lambda>r. List.map_filter depends_on_id (i_dependencies r)) rows)"

lemma import_deps_Inr:
  assumes "import_deps i ts ds rep s = (Inr rep', s')" and "find_issue s i \<noteq> None" and "db_ok s"
  defines "kept \<equiv> filter (\<lambda>p. find_issue s p \<noteq> None) (List.map_filter depends_on_id ds)"
  shows "cards s' = cards s \<and> db_ok s' \<and> set (db_deps s') = set (db_deps s) \<union> Pair i ` set kept \<and>
    rep' = rep\<lparr>im_deps := im_deps rep + int (length kept),
               im_missing_deps := im_missing_deps rep + int (length (List.map_filter depends_on_id ds) - length kept)\<rparr>"
  using assms(1-3) unfolding kept_def
proof (induction ds arbitrary: rep s)
  case (Cons d ds)
  show ?case
  proof (cases "depends_on_id d")
    case None
    then show ?thesis using Cons by simp
  next
    case (Some p)
    let ?ps = "List.map_filter depends_on_id ds"
    let ?K = "filter (\<lambda>p. find_issue s p \<noteq> None) ?ps"
    have le: "length ?K \<le> length ?ps" by simp
    obtain out s1 where a: "add_dep i p ''marbles-import'' ts s = (out, s1)" by fastforce
    have ok1: "db_ok s1" using add_dep_ok [OF Cons.prems(3), of i p "''marbles-import''" ts] a by simp
    show ?thesis
    proof (cases out)
      case (Inr u)
      have dep: "set (db_deps s1) = insert (i, p) (set (db_deps s))" "find_issue s p \<noteq> None"
        using add_dep_deps [of i p "''marbles-import''" ts s s1] a Inr by simp_all
      have "s1 = log_event i ts ''marbles-import'' ''depends_on'' p (touch_updated i ts (insert_dep i p s))"
        using a Inr by (auto simp: add_dep_def tx_def split: if_splits)
      then have c1: "cards s1 = cards s" by simp
      then have same: "find_issue s1 q \<noteq> None \<longleftrightarrow> find_issue s q \<noteq> None" for q by (simp only: known_id)
      have K: "filter (\<lambda>p. find_issue s1 p \<noteq> None) ?ps = ?K" by (simp only: same)
      have run: "import_deps i ts ds (rep\<lparr>im_deps := im_deps rep + 1\<rparr>) s1 = (Inr rep', s')"
        using Cons.prems(1) Some a Inr by simp
      have "find_issue s1 i \<noteq> None" using Cons.prems(2) same by blast
      note IH = Cons.IH [OF run this ok1, unfolded K]
      show ?thesis using IH c1 dep Some by simp
    next
      case (Inl e)
      then obtain q where e: "e = NotFound q" using Cons.prems(1) Some a by (auto split: error.splits)
      then have s1: "s1 = s" and none: "find_issue s p = None"
        using a Inl Cons.prems(2) by (auto simp: add_dep_def tx_def split: if_splits)
      have run: "import_deps i ts ds (rep\<lparr>im_missing_deps := im_missing_deps rep + 1\<rparr>) s = (Inr rep', s')"
        using Cons.prems(1) Some a Inl e s1 by simp
      note IH = Cons.IH [OF run Cons.prems(2,3)]
      show ?thesis using IH none Some le by (simp add: Suc_diff_le)
    qed
  qed
qed simp

lemma import_status_Inr:
  assumes "import_status now row rep s = (Inr rep', s')" and "db_ok s" and "find_issue s (i_id row) = Some r"
    and "ir_status r = ''open''"
  shows "cards s' = map (\<lambda>x. if fst x = i_id row then (i_id row, ir_project r, ir_title r, i_status row) else x) (cards s)"
    and "db_ok s'" and "db_deps s' = db_deps s"
    and "rep' = (if i_status row = ''open'' then rep else rep\<lparr>im_statused := im_statused rep + 1\<rparr>)"
proof -
  have ids: "distinct (map ir_id (db_issues s))" using assms(2) by (simp add: db_ok_def issues_ok_def)
  have own: "x = r" if "x \<in> set (db_issues s)" "ir_id x = i_id row" for x
    using find_issue_row [OF ids that(1)] that(2) assms(3) by simp
  have id: "ir_id r = i_id row" by (rule find_issue_id [OF assms(3)])
  have *: "cards s' = map (\<lambda>x. if fst x = i_id row then (i_id row, ir_project r, ir_title r, i_status row) else x) (cards s) \<and>
      db_ok s' \<and> db_deps s' = db_deps s \<and>
      rep' = (if i_status row = ''open'' then rep else rep\<lparr>im_statused := im_statused rep + 1\<rparr>)"
  proof (cases "i_status row = ''open''")
    case True
    then have "cards s = map (\<lambda>x. if fst x = i_id row then (i_id row, ir_project r, ir_title r, i_status row) else x) (cards s)"
      using own assms(4) id by (auto simp: cards_def row_card_def)
    then show ?thesis using True assms(1,2) by (simp add: import_status_def)
  next
    case False
    let ?patch = "no_patch\<lparr>p_status := Some (i_status row)\<rparr>"
    obtain v where u: "update (i_id row) ?patch ''marbles-import'' now s = (Inr v, s')"
      and rep: "rep' = rep\<lparr>im_statused := im_statused rep + 1\<rparr>"
      using assms(1) False by (auto simp: import_status_def split: sum.splits prod.splits)
    have ok: "db_ok s'" using update_ok [OF assms(2), of "i_id row" ?patch "''marbles-import''" now] u by simp
    let ?r' = "(patch_status ?patch now r)\<lparr>ir_available_at := Some (max (now + edit_deferral_seconds (db_policy s))
        (or_else (ir_available_at r) 0)), ir_updated_at := now\<rparr>"
    have pr: "patch_row (db_policy s) ?patch now r = Inr ?r'"
      by (simp add: patch_row_def patch_text_def patch_status_def no_patch_def or_else_def append_notes_def Let_def)
    have ur: "row_card ?r' = (i_id row, ir_project r, ir_title r, i_status row)"
      by (simp add: row_card_def patch_status_def no_patch_def id)
    have "cards s' = cards (upd_issue (i_id row) (\<lambda>_. ?r') s)" "db_deps s' = db_deps s"
      using u assms(3) pr by (auto simp: update_def update_body_def tx_def then_get_def Let_def no_patch_def split: if_splits)
    moreover have "cards (upd_issue (i_id row) (\<lambda>_. ?r') s) =
        map (\<lambda>x. if fst x = i_id row then (i_id row, ir_project r, ir_title r, i_status row) else x) (cards s)"
      unfolding cards_def upd_issue_def by (simp add: ur) (auto simp: row_card_def)
    ultimately show ?thesis using False ok rep by simp
  qed
  then show "cards s' = map (\<lambda>x. if fst x = i_id row then (i_id row, ir_project r, ir_title r, i_status row) else x) (cards s)"
    and "db_ok s'" and "db_deps s' = db_deps s"
    and "rep' = (if i_status row = ''open'' then rep else rep\<lparr>im_statused := im_statused rep + 1\<rparr>)" by auto
qed

definition card_of :: "string \<Rightarrow> issue \<Rightarrow> string \<times> string \<times> string \<times> string" where
  "card_of project row = (i_id row, project, i_title row, i_status row)"

lemma created_card:
  assumes "create (imported_issue project row) [] ts s = Some (Inr i, s1)" and "db_ok s"
  shows "i \<notin> fst ` set (cards s)" and "cards s1 = cards s @ [(i, project, i_title row, ''open'')]"
    and "db_deps s1 = db_deps s" and "db_ok s1"
proof -
  obtain q prefix meta g where c: "n_project (imported_issue project row) = Some q" "find_issue s i = None"
    "s1 = log_event i ts (or_else (n_created_by (imported_issue project row)) ''system'') ''created'' (n_title (imported_issue project row))
       (s\<lparr>db_issues := db_issues s @ [new_row (imported_issue project row) i q meta g ts]\<rparr>)"
    using create_Inr [OF assms(1)] by metis
  show "i \<notin> fst ` set (cards s)" using c(2) known_id by blast
  show "cards s1 = cards s @ [(i, project, i_title row, ''open'')]" "db_deps s1 = db_deps s"
    using c(1) by (simp_all add: c(3), simp add: cards_def row_card_def new_row_def imported_issue_def)
  show "db_ok s1" using create_ok [OF assms(2)] assms(1) by blast
qed

lemma import_row:
  assumes "create (imported_issue project row) [] ts s = Some (Inr (i_id row), s1)"
    and "import_deps (i_id row) ts (i_dependencies row) rep s1 = (Inr rep2, s2)"
    and "import_status now row rep2 s2 = (Inr rep3, s3)" and "db_ok s" and "set known = fst ` set (cards s)"
  defines "kept \<equiv> filter (\<lambda>p. p \<in> set (i_id row # known)) (List.map_filter depends_on_id (i_dependencies row))"
  shows "cards s3 = cards s @ [card_of project row] \<and> db_ok s3 \<and>
    set (db_deps s3) = set (db_deps s) \<union> Pair (i_id row) ` set kept \<and>
    rep3 = rep\<lparr>im_deps := im_deps rep + int (length kept),
      im_missing_deps := im_missing_deps rep +
        int (length (List.map_filter depends_on_id (i_dependencies row)) - length kept),
      im_statused := im_statused rep + (if i_status row = ''open'' then 0 else 1)\<rparr>"
proof -
  note new = created_card [OF assms(1,4)]
  have known: "find_issue s1 p \<noteq> None \<longleftrightarrow> p \<in> set (i_id row # known)" for p
    unfolding known_id new(2) using assms(5) by auto
  then have "find_issue s1 (i_id row) \<noteq> None" by simp
  note deps = import_deps_Inr [OF assms(2) this new(4)]
  have K: "filter (\<lambda>p. find_issue s1 p \<noteq> None) (List.map_filter depends_on_id (i_dependencies row)) = kept"
    unfolding kept_def known ..
  have c2: "cards s2 = cards s @ [(i_id row, project, i_title row, ''open'')]" using deps new(2) by simp
  then have "find_issue s2 (i_id row) \<noteq> None" unfolding known_id by simp
  then obtain r where r: "find_issue s2 (i_id row) = Some r" by auto
  have "row_card r \<in> set (cards s2)" "fst (row_card r) = i_id row"
    using find_issue_mem [OF r] find_issue_id [OF r] by (simp_all add: cards_def) (simp add: row_card_def)
  then have "row_card r = (i_id row, project, i_title row, ''open'')" using c2 new(1) by force
  then have st: "ir_status r = ''open''" "ir_project r = project" "ir_title r = i_title row" by (simp_all add: row_card_def)
  have "db_ok s2" using deps by simp
  note fin = import_status_Inr [OF assms(3) this r st(1)]
  have "map (\<lambda>x. if fst x = i_id row then (i_id row, project, i_title row, i_status row) else x) (cards s) = cards s"
    using new(1) by (intro map_idI) force
  then have "cards s3 = cards s @ [card_of project row]"
    using fin(1) [unfolded st(2,3) c2 map_append] by (simp add: card_of_def)
  then show ?thesis using deps fin(2-4) new(3) unfolding K by simp
qed

lemma kept_le: "length (kept_edges known rows) \<le> length (named_deps rows)"
  by (induction known rows rule: kept_edges.induct) (auto simp: named_deps_def intro: add_mono)

lemma import_rows_Inr:
  assumes "import_rows now project rows rep s = Some (Inr rep', s')" and "db_ok s" and "set known = fst ` set (cards s)"
  shows "cards s' = cards s @ map (card_of project) rows \<and> db_ok s' \<and>
    set (db_deps s') = set (db_deps s) \<union> set (kept_edges known rows) \<and>
    rep' = \<lparr>im_issues = im_issues rep + int (length rows), im_deps = im_deps rep + int (length (kept_edges known rows)),
      im_statused = im_statused rep + int (length (filter (\<lambda>r. i_status r \<noteq> ''open'') rows)),
      im_missing_deps = im_missing_deps rep + int (length (named_deps rows) - length (kept_edges known rows))\<rparr>"
  using assms
proof (induction rows arbitrary: rep s known)
  case Nil
  then show ?case by (simp add: named_deps_def)
next
  case (Cons row rows)
  let ?ts = "if 0 < i_created_at row then i_created_at row else now"
  obtain s1 where c: "create (imported_issue project row) [] ?ts s = Some (Inr (i_id row), s1)"
    using Cons.prems(1) by (auto simp: Let_def split: option.splits sum.splits if_splits)
  obtain rep2 s2 where d: "import_deps (i_id row) ?ts (i_dependencies row) rep s1 = (Inr rep2, s2)"
    using Cons.prems(1) c by (auto simp: Let_def split: option.splits sum.splits prod.splits)
  obtain rep3 s3 where u: "import_status now row rep2 s2 = (Inr rep3, s3)"
    using Cons.prems(1) c d by (auto simp: Let_def split: sum.splits prod.splits)
  let ?kept = "filter (\<lambda>p. p \<in> set (i_id row # known)) (List.map_filter depends_on_id (i_dependencies row))"
  note step = import_row [OF c d u Cons.prems(2,3)]
  have rest: "import_rows now project rows (rep3\<lparr>im_issues := im_issues rep3 + 1\<rparr>) s3 = Some (Inr rep', s')"
    using Cons.prems(1) c d u by (simp add: Let_def)
  have known: "set (i_id row # known) = fst ` set (cards s3)" using step Cons.prems(3) by (simp add: card_of_def)
  have "db_ok s3" using step by simp
  note IH = Cons.IH [OF rest this known]
  have le: "length ?kept \<le> length (List.map_filter depends_on_id (i_dependencies row))"
    "length (kept_edges (i_id row # known) rows) \<le> length (named_deps rows)"
    using kept_le by simp_all
  have names: "named_deps (row # rows) = List.map_filter depends_on_id (i_dependencies row) @ named_deps rows"
    by (simp add: named_deps_def)
  have "set (db_deps s') = set (db_deps s) \<union> set (kept_edges known (row # rows))"
    using IH step by (simp only: kept_edges.simps set_append set_map) (simp only: Un_assoc)
  moreover have "int (length (named_deps (row # rows)) - length (kept_edges known (row # rows))) =
      int (length (List.map_filter depends_on_id (i_dependencies row)) - length ?kept) +
      int (length (named_deps rows) - length (kept_edges (i_id row # known) rows))"
    using le by (simp only: names kept_edges.simps length_append length_map of_nat_diff of_nat_add add_mono)
  moreover have "int (length (kept_edges known (row # rows))) = int (length ?kept) + int (length (kept_edges (i_id row # known) rows))"
    by (simp only: kept_edges.simps length_append length_map of_nat_add)
  ultimately show ?case using IH step by simp
qed

end
