(* ===== verification/Api.thy ===== *)
theory Api
  imports Auth Import PlanLoad Views DbProjects
begin

text \<open>
  The server of \<open>src/src/api.rs\<close> and the registry of company stores of \<open>src/src/db.rs\<close>. A request is a
  constructor with its decoded body, a handler a function of the caller, the request and the state.
  The clock, the draws of new ids and the result of opening a store's file are inputs of the call; a
  handler reads the clock once. \<open>/healthz\<close> and \<open>/metrics\<close> are not modelled.
\<close>

section \<open>The registry of company stores\<close>

text \<open>
  \<open>CompanyStores::for_company\<close>: the open store of the company, or the one its file gives, kept open
  from then on.
\<close>

definition for_company ::
  "(string \<Rightarrow> error + db) \<Rightarrow> string \<Rightarrow> (string \<times> db) list \<Rightarrow> (error + db) \<times> (string \<times> db) list" where
  "for_company open_db company stores =
     (case validate_company_id company of
        Some e \<Rightarrow> (Inl e, stores)
      | None \<Rightarrow>
          (case map_of stores company of
             Some s \<Rightarrow> (Inr s, stores)
           | None \<Rightarrow>
               (case open_db company of
                  Inl e \<Rightarrow> (Inl e, stores)
                | Inr s \<Rightarrow> (Inr s, bt_insert company s stores))))"

text \<open>\<open>CompanyStores::new\<close>: the directories that hold a database, opened one after the other; a name that is no UTF-8 is skipped.\<close>

fun company_stores :: "(string \<Rightarrow> error + db) \<Rightarrow> string option list \<Rightarrow> (string \<times> db) list \<Rightarrow> error + (string \<times> db) list" where
  "company_stores open_db [] stores = Inr stores"
| "company_stores open_db (None # names) stores = company_stores open_db names stores"
| "company_stores open_db (Some company # names) stores =
     (case validate_company_id company of
        Some e \<Rightarrow> Inl e
      | None \<Rightarrow>
          (case for_company open_db company stores of
             (Inl e, _) \<Rightarrow> Inl e
           | (Inr _, stores') \<Rightarrow> company_stores open_db names stores'))"

text \<open>The sweep of every open store, in company order; the first error ends it.\<close>

fun sweep_open :: "time \<Rightarrow> (string \<times> db) list \<Rightarrow> (error + (string \<times> sweep_report) list) \<times> (string \<times> db) list" where
  "sweep_open now [] = (Inr [], [])"
| "sweep_open now ((company, s) # stores) =
     (case sweep now s of
        (Inl e, s') \<Rightarrow> (Inl e, (company, s') # stores)
      | (Inr rep, s') \<Rightarrow>
          (case sweep_open now stores of
             (Inl e, stores') \<Rightarrow> (Inl e, (company, s') # stores')
           | (Inr reps, stores') \<Rightarrow> (Inr ((company, rep) # reps), (company, s') # stores')))"

section \<open>Requests, replies, errors\<close>

record list_body =
  lb_project :: "string option"
  lb_all :: bool
  lb_id :: "string option"

record close_body =
  cb_id :: string
  cb_reason :: "string option"
  cb_evidence :: "evidence list"
  cb_pr :: "string option"
  cb_commit :: "string option"
  cb_ack :: "string option"

record claim_body =
  mb_id :: string
  mb_assignee :: "string option"
  mb_ttl_seconds :: "int option"

record dashboard_body =
  db_scope :: view_scope
  db_days :: int
  db_stale_days :: int

record gantt_body =
  gb_scope :: view_scope
  gb_include_closed :: bool
  gb_default_estimate_min :: int

datatype request =
    ProjectsEnsure string string string
  | ProjectsList
  | ProjectsMove string "string option"
  | FoldersList
  | FoldersCreate folder
  | IssuesCreate new_issue
  | IssuesGet string
  | IssuesList list_body
  | IssuesReady list_body
  | PlansShow string
  | PlansGantt string
  | PlansReady string
  | PlansCreate resolved_plan
  | ViewsDashboard dashboard_body
  | ViewsScrum view_scope
  | ViewsGantt gantt_body
  | IssuesUpdate string issue_patch
  | IssuesClose close_body
  | IssuesSupersede string string
  | DepsAdd string string
  | DepsRemove string string
  | LabelsAdd string string
  | LabelsRemove string string
  | ClaimsClaim claim_body
  | ClaimsTouch claim_body
  | ClaimsRelease claim_body
  | ClaimsSweep
  | HistoryGet string
  | IssuesImport string "issue list"
  | Stats

record scrum_view =
  sv_schema :: string
  sv_generated_at :: time
  sv_scope :: view_scope
  sv_board :: scrum_board

datatype reply =
    SlugReply string
  | ProjectsReply "project_info list"
  | MovedReply string "string option"
  | FolderReply folder_view
  | IdReply string
  | IssueReply issue
  | IssuesReply "issue list"
  | SupersededReply string string
  | OkReply
  | ReceiptReply claim_receipt
  | TouchedReply string time
  | SweepReply sweep_report
  | HistoryReply "history_event list"
  | ImportReply import_report
  | StatsReply json
  | PlanReply plan_view
  | GanttReply gantt
  | ReadyReply ready_view
  | CreatedReply create_report
  | DashboardReply dashboard
  | ScrumReply scrum_view
  | GanttViewReply gantt_view

text \<open>\<open>plan::create\<close> fails with a text, which becomes \<open>Error::Bad\<close>; the import's text becomes a status.\<close>

datatype api_error =
    Refused nat string
  | FromDb error
  | FromPlan create_error
  | FromImport import_error

text \<open>\<open>into_response\<close>; a panic of the storage worker is its own status.\<close>

definition http_status :: "api_error \<Rightarrow> nat" where
  "http_status e =
     (case e of
        Refused status _ \<Rightarrow> status
      | FromDb err \<Rightarrow>
          (case err of
             NotFound _ \<Rightarrow> 404 | NoProject _ \<Rightarrow> 404
           | AlreadyClaimed _ _ \<Rightarrow> 409 | CycleError _ _ \<Rightarrow> 409
           | BadStatus _ \<Rightarrow> 422 | Bad _ \<Rightarrow> 422 | NoEvidence _ \<Rightarrow> 422
           | Sqlite _ \<Rightarrow> 500 | Panic _ \<Rightarrow> 500)
      | FromPlan _ \<Rightarrow> 422
      | FromImport _ \<Rightarrow> 400)"

section \<open>The state and the caller's store\<close>

record api =
  api_db :: db
  api_company_stores :: "(string \<times> db) list option"

text \<open>The inputs of one call.\<close>

record call_env =
  cv_now :: time
  cv_draws :: "draw list"
  cv_plan_draws :: "draw list list"
  cv_open :: "string \<Rightarrow> error + db"
  cv_date :: "time \<Rightarrow> string"

type_synonym 'a served = "((api_error + 'a) \<times> db) option"

text \<open>
  \<open>db_for\<close> and what the handler does with the store it gives; stores are shared, so what the handler
  does to the store stays. \<open>None\<close>: the draws of ids ran out.
\<close>

definition db_for ::
  "call_env \<Rightarrow> principal \<Rightarrow> (db \<Rightarrow> reply served) \<Rightarrow> api \<Rightarrow> ((api_error + reply) \<times> api) option" where
  "db_for env p f a =
     (case api_company_stores a of
        None \<Rightarrow> map_option (\<lambda>(r, s). (r, a\<lparr>api_db := s\<rparr>)) (f (api_db a))
      | Some stores \<Rightarrow>
          (case pn_company_id p of
             None \<Rightarrow> Some (Inl (Refused 403 ''credential is not scoped to an FPL Auth company''), a)
           | Some company \<Rightarrow>
               (case for_company (cv_open env) company stores of
                  (Inl e, stores') \<Rightarrow> Some (Inl (FromDb e), a\<lparr>api_company_stores := Some stores'\<rparr>)
                | (Inr s, stores') \<Rightarrow>
                    map_option (\<lambda>(r, s'). (r, a\<lparr>api_company_stores := Some (bt_insert company s' stores')\<rparr>)) (f s))))"

definition done_with :: "('a \<Rightarrow> reply) \<Rightarrow> (error + 'a) \<times> db \<Rightarrow> reply served" where
  "done_with f out = Some (map_sum FromDb f (fst out), snd out)"

definition read_as :: "(error + reply) \<Rightarrow> db \<Rightarrow> reply served" where
  "read_as r s = Some (map_sum FromDb id r, s)"

section \<open>Projects, folders, issues\<close>

definition projects_ensure :: "call_env \<Rightarrow> string \<Rightarrow> string \<Rightarrow> string \<Rightarrow> db \<Rightarrow> reply served" where
  "projects_ensure env slug base prefix s =
     done_with (\<lambda>_. SlugReply slug) (ensure_project slug base prefix (cv_now env) s)"

text \<open>\<open>view_projects\<close>, and the same rows as JSON in \<open>projects_list\<close>.\<close>

definition view_projects :: "db \<Rightarrow> project_info list" where
  "view_projects s =
     map (\<lambda>(slug, base, prefix).
        \<lparr>pi_slug = slug, pi_root = base, pi_prefix = prefix,
         pi_folder = map_option pf_folder (find (\<lambda>x. pf_project x = slug) (fv_projects (db_folder_view s)))\<rparr>)
       (projects s)"

definition projects_list :: "db \<Rightarrow> reply served" where
  "projects_list s = read_as (Inr (ProjectsReply (view_projects s))) s"

definition projects_move :: "call_env \<Rightarrow> string \<Rightarrow> string option \<Rightarrow> db \<Rightarrow> reply served" where
  "projects_move env project folder s =
     done_with (\<lambda>_. MovedReply project folder) (set_project_folder project folder (cv_now env) s)"

definition folders_list :: "db \<Rightarrow> reply served" where
  "folders_list s = read_as (Inr (FolderReply (db_folder_view s))) s"

definition folders_create :: "call_env \<Rightarrow> folder \<Rightarrow> db \<Rightarrow> reply served" where
  "folders_create env f s = done_with (\<lambda>_. SlugReply (fo_slug f)) (ensure_folder f (cv_now env) s)"

definition issues_create :: "call_env \<Rightarrow> principal \<Rightarrow> new_issue \<Rightarrow> db \<Rightarrow> reply served" where
  "issues_create env p spec s =
     (let spec = (if n_created_by spec = None then spec\<lparr>n_created_by := Some (pn_name p)\<rparr> else spec)
      in Option.bind (create spec (cv_draws env) (cv_now env) s) (done_with IdReply))"

definition issues_get :: "string \<Rightarrow> db \<Rightarrow> reply served" where
  "issues_get i s = read_as (map_sum id IssueReply (get_issue i s)) s"

definition issues_list :: "list_body \<Rightarrow> db \<Rightarrow> reply served" where
  "issues_list b s = read_as (Inr (IssuesReply (list_issues (lb_project b) (lb_all b) (lb_id b) s))) s"

definition issues_ready :: "call_env \<Rightarrow> list_body \<Rightarrow> db \<Rightarrow> reply served" where
  "issues_ready env b s = read_as (Inr (IssuesReply (ready (lb_project b) (cv_now env) s))) s"

definition issues_update :: "call_env \<Rightarrow> principal \<Rightarrow> string \<Rightarrow> issue_patch \<Rightarrow> db \<Rightarrow> reply served" where
  "issues_update env p i patch s = done_with IssueReply (update i patch (pn_name p) (cv_now env) s)"

definition all_evidence :: "close_body \<Rightarrow> evidence list" where
  "all_evidence b =
     (let ev = cb_evidence b;
          ev = (case cb_pr b of None \<Rightarrow> ev | Some x \<Rightarrow> ev @ [evidence_pr x]);
          ev = (case cb_commit b of None \<Rightarrow> ev | Some x \<Rightarrow> ev @ [evidence_commit x])
      in case cb_ack b of None \<Rightarrow> ev | Some x \<Rightarrow> ev @ [evidence_ack x])"

definition issues_close :: "call_env \<Rightarrow> principal \<Rightarrow> close_body \<Rightarrow> db \<Rightarrow> reply served" where
  "issues_close env p b s =
     done_with IssueReply (close (cb_id b) (cb_reason b) (all_evidence b) (pn_name p) (cv_now env) s)"

definition issues_supersede :: "call_env \<Rightarrow> principal \<Rightarrow> string \<Rightarrow> string \<Rightarrow> db \<Rightarrow> reply served" where
  "issues_supersede env p i replacement s =
     done_with (\<lambda>_. SupersededReply i replacement) (supersede i replacement (pn_name p) (cv_now env) s)"

section \<open>Dependencies and labels\<close>

definition deps_add :: "call_env \<Rightarrow> principal \<Rightarrow> string \<Rightarrow> string \<Rightarrow> db \<Rightarrow> reply served" where
  "deps_add env p child parent s = done_with (\<lambda>_. OkReply) (add_dep child parent (pn_name p) (cv_now env) s)"

definition deps_remove :: "call_env \<Rightarrow> principal \<Rightarrow> string \<Rightarrow> string \<Rightarrow> db \<Rightarrow> reply served" where
  "deps_remove env p child parent s = done_with (\<lambda>_. OkReply) (remove_dep child parent (pn_name p) (cv_now env) s)"

definition labels_add :: "call_env \<Rightarrow> principal \<Rightarrow> string \<Rightarrow> string \<Rightarrow> db \<Rightarrow> reply served" where
  "labels_add env p i label s = done_with (\<lambda>_. OkReply) (add_label i label (pn_name p) (cv_now env) s)"

definition labels_remove :: "call_env \<Rightarrow> principal \<Rightarrow> string \<Rightarrow> string \<Rightarrow> db \<Rightarrow> reply served" where
  "labels_remove env p i label s = done_with (\<lambda>_. OkReply) (remove_label i label (pn_name p) (cv_now env) s)"

section \<open>Claims\<close>

definition holder_for :: "principal \<Rightarrow> string option \<Rightarrow> string" where
  "holder_for p assignee =
     (case pn_kind p of Human \<Rightarrow> pn_name p | Agent \<Rightarrow> (case assignee of Some a \<Rightarrow> a | None \<Rightarrow> pn_name p))"

definition claims_claim :: "call_env \<Rightarrow> principal \<Rightarrow> claim_body \<Rightarrow> db \<Rightarrow> reply served" where
  "claims_claim env p b s =
     (let req = \<lparr>cr_id = mb_id b, cr_assignee = holder_for p (mb_assignee b), cr_actor_kind = pn_kind p,
                 cr_ttl_seconds = mb_ttl_seconds b\<rparr>
      in done_with ReceiptReply (claim req (cv_now env) s))"

definition claims_touch :: "call_env \<Rightarrow> principal \<Rightarrow> claim_body \<Rightarrow> db \<Rightarrow> reply served" where
  "claims_touch env p b s =
     done_with (TouchedReply (mb_id b)) (touch (mb_id b) (holder_for p (mb_assignee b)) (cv_now env) s)"

definition owns :: "principal \<Rightarrow> string option \<Rightarrow> string \<Rightarrow> bool" where
  "owns p assignee who \<longleftrightarrow>
     (case pn_kind p of
        Human \<Rightarrow> who = pn_name p
      | Agent \<Rightarrow> assignee = Some who \<or> who = pn_name p)"

definition claims_release :: "call_env \<Rightarrow> principal \<Rightarrow> claim_body \<Rightarrow> db \<Rightarrow> reply served" where
  "claims_release env p b s =
     (case get_issue (mb_id b) s of
        Inl e \<Rightarrow> Some (Inl (FromDb e), s)
      | Inr v \<Rightarrow>
          (case i_assignee v of
             Some who \<Rightarrow>
               if owns p (mb_assignee b) who
               then done_with (\<lambda>_. OkReply) (release (mb_id b) (pn_name p) (cv_now env) s)
               else Some (Inl (Refused 403 (mb_id b @ '' is held by '' @ who)), s)
           | None \<Rightarrow> done_with (\<lambda>_. OkReply) (release (mb_id b) (pn_name p) (cv_now env) s)))"

definition claims_sweep :: "call_env \<Rightarrow> db \<Rightarrow> reply served" where
  "claims_sweep env s = done_with SweepReply (sweep (cv_now env) s)"

definition issues_import :: "call_env \<Rightarrow> string \<Rightarrow> issue list \<Rightarrow> db \<Rightarrow> reply served" where
  "issues_import env project rows s =
     (case ensure_project project (''unhosted/'' @ project) project (cv_now env) s of
        (Inl e, s1) \<Rightarrow> Some (Inl (FromDb e), s1)
      | (Inr _, s1) \<Rightarrow>
          map_option (\<lambda>(r, s2). (map_sum FromImport ImportReply r, s2)) (import (cv_now env) project rows s1))"

section \<open>History, statistics, plans and views\<close>

definition history_get :: "string \<Rightarrow> db \<Rightarrow> reply served" where
  "history_get i s = read_as (Inr (HistoryReply (history i s))) s"

definition stats_get :: "db \<Rightarrow> reply served" where
  "stats_get s = read_as (Inr (StatsReply (stats s))) s"

definition with_plan :: "string \<Rightarrow> (plan_graph \<Rightarrow> error + reply) \<Rightarrow> db \<Rightarrow> reply served" where
  "with_plan plan f s = read_as (case load s plan of Inl e \<Rightarrow> Inl e | Inr g \<Rightarrow> f g) s"

definition plans_show :: "string \<Rightarrow> db \<Rightarrow> reply served" where
  "plans_show plan = with_plan plan (\<lambda>g. map_sum id PlanReply (plan_view_of g))"

definition plans_gantt :: "call_env \<Rightarrow> string \<Rightarrow> db \<Rightarrow> reply served" where
  "plans_gantt env plan = with_plan plan (\<lambda>g. map_sum id GanttReply (gantt_of g (cv_now env)))"

definition plans_ready :: "call_env \<Rightarrow> string \<Rightarrow> db \<Rightarrow> reply served" where
  "plans_ready env plan = with_plan plan (\<lambda>g. map_sum id ReadyReply (plan_ready g (cv_now env)))"

definition plans_create :: "call_env \<Rightarrow> principal \<Rightarrow> resolved_plan \<Rightarrow> db \<Rightarrow> reply served" where
  "plans_create env p plan s =
     map_option (\<lambda>(r, s'). (map_sum FromPlan CreatedReply r, s'))
       (plan_create plan (cv_plan_draws env) (cv_now env) (pn_name p) s)"

definition views_dashboard :: "call_env \<Rightarrow> dashboard_body \<Rightarrow> db \<Rightarrow> reply served" where
  "views_dashboard env b s =
     read_as (map_sum id DashboardReply
       (dashboard_of (cv_date env) (view_projects s) (fv_folders (db_folder_view s))
          (list_issues None True None s) (db_scope b) (db_days b) (db_stale_days b) DEFAULT_ESTIMATE_MINUTES
          (cv_now env))) s"

definition views_scrum :: "call_env \<Rightarrow> view_scope \<Rightarrow> db \<Rightarrow> reply served" where
  "views_scrum env scope s =
     (let all_rows = list_issues None True None s;
          selected = scope_issues all_rows (view_projects s) scope
      in read_as (Inr (ScrumReply
           \<lparr>sv_schema = ''marbles.view.scrum.v1'', sv_generated_at = cv_now env, sv_scope = scope,
            sv_board = scrum selected all_rows (cv_now env)\<rparr>)) s)"

definition views_gantt :: "call_env \<Rightarrow> gantt_body \<Rightarrow> db \<Rightarrow> reply served" where
  "views_gantt env b s =
     (let all_rows = list_issues None True None s;
          scope = gb_scope b;
          selected = scope_issues all_rows (view_projects s) scope
      in read_as (map_sum id GanttViewReply
           (gantt_scoped all_rows selected
              \<lparr>sc_project = vs_project scope, sc_folder = vs_folder scope, sc_plan = vs_plan scope\<rparr>
              (gb_include_closed b) (max (gb_default_estimate_min b) 1) (cv_now env))) s)"

section \<open>The routes\<close>

text \<open>What the handler of each route does on the caller's store.\<close>

fun route :: "call_env \<Rightarrow> principal \<Rightarrow> request \<Rightarrow> db \<Rightarrow> reply served" where
  "route env p (ProjectsEnsure slug base prefix) = projects_ensure env slug base prefix"
| "route env p ProjectsList = projects_list"
| "route env p (ProjectsMove project folder) = projects_move env project folder"
| "route env p FoldersList = folders_list"
| "route env p (FoldersCreate f) = folders_create env f"
| "route env p (IssuesCreate spec) = issues_create env p spec"
| "route env p (IssuesGet i) = issues_get i"
| "route env p (IssuesList b) = issues_list b"
| "route env p (IssuesReady b) = issues_ready env b"
| "route env p (PlansShow plan) = plans_show plan"
| "route env p (PlansGantt plan) = plans_gantt env plan"
| "route env p (PlansReady plan) = plans_ready env plan"
| "route env p (PlansCreate plan) = plans_create env p plan"
| "route env p (ViewsDashboard b) = views_dashboard env b"
| "route env p (ViewsScrum scope) = views_scrum env scope"
| "route env p (ViewsGantt b) = views_gantt env b"
| "route env p (IssuesUpdate i patch) = issues_update env p i patch"
| "route env p (IssuesClose b) = issues_close env p b"
| "route env p (IssuesSupersede i replacement) = issues_supersede env p i replacement"
| "route env p (DepsAdd child parent) = deps_add env p child parent"
| "route env p (DepsRemove child parent) = deps_remove env p child parent"
| "route env p (LabelsAdd i label) = labels_add env p i label"
| "route env p (LabelsRemove i label) = labels_remove env p i label"
| "route env p (ClaimsClaim b) = claims_claim env p b"
| "route env p (ClaimsTouch b) = claims_touch env p b"
| "route env p (ClaimsRelease b) = claims_release env p b"
| "route env p ClaimsSweep = claims_sweep env"
| "route env p (HistoryGet i) = history_get i"
| "route env p (IssuesImport project rows) = issues_import env project rows"
| "route env p Stats = stats_get"

text \<open>The two operator actions are refused to agents before any store is looked at.\<close>

definition human_only :: "request \<Rightarrow> string option" where
  "human_only req =
     (case req of
        ClaimsSweep \<Rightarrow> Some ''only a human principal may sweep claims''
      | IssuesImport _ _ \<Rightarrow> Some ''only a human principal may import a tracker''
      | _ \<Rightarrow> None)"

definition handle :: "call_env \<Rightarrow> principal \<Rightarrow> request \<Rightarrow> api \<Rightarrow> ((api_error + reply) \<times> api) option" where
  "handle env p req a =
     (case human_only req of
        Some message \<Rightarrow>
          if pn_kind p \<noteq> Human then Some (Inl (Refused 403 message), a)
          else db_for env p (route env p req) a
      | None \<Rightarrow> db_for env p (route env p req) a)"

text \<open>The middleware: the header's bearer token, resolved, or 401.\<close>

definition require_principal ::
  "(string option \<Rightarrow> principal option) \<Rightarrow> call_env \<Rightarrow> string option \<Rightarrow> request \<Rightarrow> api \<Rightarrow>
    ((api_error + reply) \<times> api) option" where
  "require_principal auth env header req a =
     (case auth (Option.bind header (strip_prefix ''Bearer '')) of
        Some p \<Rightarrow> handle env p req a
      | None \<Rightarrow> Some (Inl (Refused 401 ''unknown or missing credential''), a))"

end
