(* ===== verification/Holders.thy ===== *)
theory Holders
  imports Api Demo
begin

text \<open>
  What a request does to the claims of a store. \<open>only_frees\<close>: every claim of the later state was there
  before. All operations but \<open>claim\<close> only free.
\<close>

definition claim_on :: "db \<Rightarrow> string \<Rightarrow> (string \<times> string option) option" where
  "claim_on s i = Option.bind (find_issue s i) (\<lambda>r. map_option (\<lambda>who. (who, ir_actor_kind r)) (ir_assignee r))"

definition only_frees :: "db \<Rightarrow> db \<Rightarrow> bool" where
  "only_frees s s' \<longleftrightarrow> (\<forall>i. claim_on s' i = None \<or> claim_on s' i = claim_on s i)"

lemma of_refl [simp, intro]: "only_frees s s"
  by (simp add: only_frees_def)

lemma of_trans: "only_frees s t \<Longrightarrow> only_frees t u \<Longrightarrow> only_frees s u"
  unfolding only_frees_def by metis

lemma of_tx: "(\<And>v s'. f s = Inr (v, s') \<Longrightarrow> only_frees s s') \<Longrightarrow> only_frees s (snd (tx f s))"
  by (auto simp: tx_def split: sum.split)

lemma of_same: "(\<And>i. find_issue s' i = find_issue s i) \<Longrightarrow> only_frees s s'"
  by (simp add: only_frees_def claim_on_def)

lemma claim_on_log [simp]: "claim_on (log_event i ts a e d s) j = claim_on s j"
  by (simp add: claim_on_def)

lemma of_log [simp]:
  "only_frees s (log_event i ts a e d t) = only_frees s t" "only_frees (log_event i ts a e d s) t = only_frees s t"
  by (simp_all add: only_frees_def)

lemma of_upd:
  assumes "\<And>r. ir_id r = i \<Longrightarrow> ir_id (f r) = i"
    and "\<And>r. find_issue s i = Some r \<Longrightarrow>
      ir_assignee (f r) = None \<or> ir_assignee (f r) = ir_assignee r \<and> ir_actor_kind (f r) = ir_actor_kind r"
  shows "only_frees s (upd_issue i f s)"
  unfolding only_frees_def
proof
  fix j
  have "find_issue (upd_issue i f s) j = (if j = i then map_option f (find_issue s i) else find_issue s j)"
    by (rule find_issue_upd [OF assms(1)])
  then show "claim_on (upd_issue i f s) j = None \<or> claim_on (upd_issue i f s) j = claim_on s j"
    using assms(2) by (cases "find_issue s i") (auto simp: claim_on_def)
qed

section \<open>Every operation but the claim\<close>

lemma patch_row_claim:
  assumes "patch_row pol patch ts r = Inr r'"
  shows "ir_id r' = ir_id r" and "ir_assignee r' = ir_assignee r" and "ir_actor_kind r' = ir_actor_kind r"
proof -
  show "ir_id r' = ir_id r"
    using assms by (auto simp: patch_row_def patch_metadata_def patch_text_def patch_status_def Let_def
        split: option.splits sum.splits json.splits)
  show "ir_actor_kind r' = ir_actor_kind r"
    using assms by (auto simp: patch_row_def patch_metadata_def patch_text_def patch_status_def Let_def
        split: option.splits sum.splits json.splits)
  show "ir_assignee r' = ir_assignee r" by (rule patch_row_fields(8) [OF assms])
qed

lemma of_update: "only_frees s (snd (update i patch actor ts s))"
proof -
  have "only_frees s s'" if body: "update_body i patch actor ts s = Inr (v, s')" for v s'
  proof -
    from body obtain r r' where r: "find_issue s i = Some r" "patch_row (db_policy s) patch ts r = Inr r'"
      and s': "only_frees s s' = only_frees s (upd_issue i (\<lambda>_. r') s)"
      by (auto simp: update_body_def Let_def split: option.splits sum.splits if_splits)
    have "only_frees s (upd_issue i (\<lambda>_. r') s)"
      using find_issue_id [OF r(1)] r(1) by (intro of_upd) (simp_all add: patch_row_claim [OF r(2)])
    then show ?thesis by (simp only: s')
  qed
  then show ?thesis
    unfolding update_def snd_then_get by (auto simp: snd_then_get split: option.split intro: of_tx)
qed

lemma of_set_labels: "only_frees s (snd (set_labels i ls actor ts s))"
  unfolding set_labels_def by (rule of_tx) (auto split: option.splits intro!: of_upd)

lemma of_labels: "only_frees s (snd (add_label i l actor ts s))" "only_frees s (snd (remove_label i l actor ts s))"
  by (simp_all add: add_label_def add_label_write_def remove_label_def of_set_labels split: sum.split)

lemma of_touch_updated: "only_frees s (touch_updated i ts s)"
  unfolding touch_updated_def by (rule of_upd) simp_all

lemma of_deps: "only_frees s (snd (add_dep c p actor ts s))" "only_frees s (snd (remove_dep c p actor ts s))"
proof -
  have "only_frees s (insert_dep c p s)" by (rule of_same) (simp add: insert_dep_def find_issue_def)
  then have "only_frees s (touch_updated c ts (insert_dep c p s))" using of_trans of_touch_updated by blast
  then show "only_frees s (snd (add_dep c p actor ts s))"
    unfolding add_dep_def by (auto split: if_splits intro!: of_tx)
  have "only_frees s (s\<lparr>db_deps := ds\<rparr>)" for ds by (rule of_same) (simp add: find_issue_def)
  then show "only_frees s (snd (remove_dep c p actor ts s))" unfolding remove_dep_def by (intro of_tx) auto
qed

lemma of_folders:
  "only_frees s (snd (ensure_project slug dir prefix ts s))" "only_frees s (snd (ensure_folder f ts s))"
  "only_frees s (snd (set_project_folder q g ts s))"
  by (rule of_same, auto simp: ensure_project_def ensure_folder_def set_project_folder_def assign_folder_def
      Let_def tx_def find_issue_def split: if_splits option.splits)+

lemma of_claims: "only_frees s (snd (touch i who ts s))" "only_frees s (snd (release i actor ts s))"
  unfolding touch_def release_def
  by (auto simp: clear_claim_def split: option.splits if_splits intro!: of_tx of_upd)

lemma of_close:
  "only_frees s (snd (close_unchecked i reason ev actor ts s))" "only_frees s (snd (close i reason ev actor ts s))"
  "only_frees s (snd (supersede i j actor ts s))"
proof -
  show u: "only_frees s (snd (close_unchecked i reason ev actor ts s))" for reason ev
    unfolding close_unchecked_def snd_then_get
    by (rule of_tx) (auto simp: close_row_def clear_claim_def split: option.splits intro!: of_upd)
  then show "only_frees s (snd (close i reason ev actor ts s))" by (simp add: close_def split: option.split)
  obtain out s1 where cl: "close_unchecked i (Some (''superseded by '' @ j)) [evidence_ack (''superseded by '' @ j)] actor ts s = (out, s1)"
    by fastforce
  then have "only_frees s s1" using u [of "Some (''superseded by '' @ j)"] by (metis snd_conv)
  then show "only_frees s (snd (supersede i j actor ts s))"
    using cl of_trans [OF _ of_labels(1)] by (auto simp: supersede_def Let_def split: sum.split)
qed

lemma of_sweep: "only_frees s (snd (sweep ts s))"
proof -
  have row: "only_frees (snd st) (snd (sweep_row ts x st))" for x st
    by (auto simp: sweep_row_def clear_claim_def split: prod.split intro!: of_upd)
  have rows: "only_frees (snd st) (snd (fold (sweep_row ts) xs st))" for xs st
  proof (induction xs arbitrary: st)
    case (Cons x xs)
    show ?case using of_trans [OF row Cons.IH] by simp
  qed simp
  have "only_frees s s'" if "fold (sweep_row ts) xs (rep0, s) = (rep, s')" for xs rep0 rep s'
    using rows [of "(rep0, s)" xs] that by simp
  then show ?thesis unfolding sweep_def Let_def by (intro of_tx) (auto split: if_splits)
qed

lemma of_create: "create spec draws ts s = Some (out, s') \<Longrightarrow> only_frees s s'"
proof -
  assume c: "create spec draws ts s = Some (out, s')"
  show ?thesis
  proof (cases out)
    case (Inl e)
    then show ?thesis using c by (auto simp: create_def split: option.splits)
  next
    case (Inr i)
    obtain q meta g where s': "find_issue s i = None"
      "s' = log_event i ts (or_else (n_created_by spec) ''system'') ''created'' (n_title spec)
        (s\<lparr>db_issues := db_issues s @ [new_row spec i q meta g ts]\<rparr>)"
      using create_Inr [OF c [unfolded Inr]] by metis
    have "only_frees s (s\<lparr>db_issues := db_issues s @ [new_row spec i q meta g ts]\<rparr>)"
      by (auto simp: only_frees_def claim_on_def find_issue_def find_append new_row_def split: option.split)
    then show ?thesis by (simp add: s'(2))
  qed
qed

lemma of_import_deps: "only_frees s (snd (import_deps i ts ds rep s))"
proof (induction ds arbitrary: rep s)
  case (Cons d ds)
  show ?case
  proof (cases "depends_on_id d")
    case (Some p)
    obtain out s1 where a: "add_dep i p ''marbles-import'' ts s = (out, s1)" by fastforce
    have "only_frees s s1" using of_deps(1) [of s i p "''marbles-import''" ts] a by simp
    then show ?thesis using Some a of_trans [OF _ Cons.IH] by (auto split: sum.split error.split)
  qed (simp add: Cons.IH)
qed simp

lemma of_import_rows: "import_rows now project rows rep s = Some (out, s') \<Longrightarrow> only_frees s s'"
proof (induction rows arbitrary: rep s)
  case (Cons row rows)
  let ?ts = "if 0 < i_created_at row then i_created_at row else now"
  obtain o1 s1 where c: "create (imported_issue project row) [] ?ts s = Some (o1, s1)"
    using Cons.prems by (auto simp: Let_def split: option.splits)
  obtain o2 s2 where d: "import_deps (i_id row) ?ts (i_dependencies row) rep s1 = (o2, s2)" by fastforce
  have 1: "only_frees s s1" by (rule of_create [OF c])
  have 2: "only_frees s s2" using of_trans [OF 1 of_import_deps, of "i_id row" ?ts "i_dependencies row" rep] d by simp
  have 3: "only_frees s (snd (import_status now row r s2))" for r
    using of_trans [OF 2 of_update] by (auto simp: import_status_def 2 split: prod.split sum.split) (metis snd_conv)+
  show ?case
  proof (cases o1)
    case (Inl e)
    then show ?thesis using Cons.prems c 1 by (simp add: Let_def)
  next
    case (Inr i)
    show ?thesis
    proof (cases "i = i_id row")
      case False
      then show ?thesis using Cons.prems c 1 Inr by (simp add: Let_def)
    next
      case True
      show ?thesis
      proof (cases o2)
        case (Inl e)
        then show ?thesis using Cons.prems c d 2 Inr True by (simp add: Let_def)
      next
        case r2: (Inr rep2)
        obtain o3 s3 where u: "import_status now row rep2 s2 = (o3, s3)" by fastforce
        have s3: "only_frees s s3" using 3 [of rep2] u by simp
        show ?thesis
        proof (cases o3)
          case (Inl e)
          then show ?thesis using Cons.prems c d u s3 Inr True r2 by (simp add: Let_def)
        next
          case r3: (Inr rep3)
          have "import_rows now project rows (rep3\<lparr>im_issues := im_issues rep3 + 1\<rparr>) s3 = Some (out, s')"
            using Cons.prems c d u Inr True r2 r3 by (simp add: Let_def)
          from of_trans [OF s3 Cons.IH [OF this]] show ?thesis .
        qed
      qed
    qed
  qed
qed simp

lemma of_create_nodes: "create_nodes plan ts actor nodes draws acc s = Some (out, s') \<Longrightarrow> only_frees s s'"
proof (induction plan ts actor nodes draws acc s rule: create_nodes.induct)
  case (2 plan ts actor node nodes draws m created s)
  obtain o1 s1 where c: "create (node_issue plan ts actor node) (concat (take 1 draws)) ts s = Some (o1, s1)"
    using "2.prems" by (auto split: option.splits)
  show ?case
  proof (cases o1)
    case (Inl e)
    then show ?thesis using "2.prems" c of_create [OF c] by simp
  next
    case (Inr i)
    then show ?thesis using "2.prems" "2.IH" [OF c [unfolded Inr]] c of_trans [OF of_create [OF c]] by simp
  qed
qed simp

lemma of_link_deps: "link_deps ts actor m pairs edges s = (out, s') \<Longrightarrow> only_frees s s'"
proof (induction pairs arbitrary: edges s)
  case (Cons pr rest)
  obtain child parent where pr: "pr = (child, parent)" by fastforce
  show ?case
  proof (cases "\<exists>c p. m child = Some c \<and> m parent = Some p")
    case True
    then obtain c p where cp: "m child = Some c" "m parent = Some p" by blast
    obtain o1 s1 where a: "add_dep c p actor ts s = (o1, s1)" by fastforce
    have s1: "only_frees s s1" using of_deps(1) [of s c p actor ts] a by simp
    show ?thesis
    proof (cases o1)
      case (Inl e)
      then show ?thesis using Cons.prems cp a s1 pr by simp
    next
      case (Inr u)
      have "only_frees s1 s'" using Cons.prems Cons.IH cp a Inr pr by simp
      then show ?thesis by (rule of_trans [OF s1])
    qed
  next
    case False
    then show ?thesis using Cons.prems pr by (auto split: option.splits)
  qed
qed simp

lemma of_plan_create: "plan_create plan draws ts actor s = Some (out, s') \<Longrightarrow> only_frees s s'"
proof -
  assume c: "plan_create plan draws ts actor s = Some (out, s')"
  show ?thesis
  proof (cases "create_nodes plan ts actor (rp_nodes plan) draws (Map.empty, []) s")
    case None
    then show ?thesis using c by (auto simp: plan_create_def split: option.splits sum.splits if_splits)
  next
    case (Some r)
    obtain o1 s1 where r: "r = (o1, s1)" by (cases r)
    have s1: "only_frees s s1" using of_create_nodes Some r by blast
    have s2: "only_frees s s2" if "link_deps ts actor m pairs edges s1 = (o2, s2)" for m pairs edges o2 s2
      by (rule of_trans [OF s1 of_link_deps [OF that]])
    show ?thesis using c Some r s1 s2 by (auto simp: plan_create_def split: option.splits sum.splits if_splits prod.splits)
  qed
qed

end
