(* ===== verification/ServerProps.thy ===== *)
theory ServerProps
  imports Holders
begin

text \<open>
  What the server promises its callers: whose credential can put a claim on an issue, that one company's
  requests neither see nor change another's store, and how often the signing keys are fetched.
\<close>

section \<open>The store a request reaches\<close>

text \<open>
  The single store, or a company's: open already, or as its file would give it.
\<close>

fun reached :: "call_env \<Rightarrow> api \<Rightarrow> string option \<Rightarrow> db option" where
  "reached env a None = Some (api_db a)"
| "reached env a (Some company) =
     (case api_company_stores a of
        None \<Rightarrow> None
      | Some stores \<Rightarrow>
          (case map_of stores company of
             Some s \<Rightarrow> Some s
           | None \<Rightarrow> (case cv_open env company of Inl _ \<Rightarrow> None | Inr s \<Rightarrow> Some s)))"

lemma for_company_Inl: "for_company f company stores = (Inl e, stores') \<Longrightarrow> stores' = stores"
  by (auto simp: for_company_def split: option.splits sum.splits)

lemma for_company_Inr:
  assumes "for_company f company stores = (Inr s, stores')"
  shows "map_of stores' = (map_of stores)(company \<mapsto> s)"
    and "map_of stores company = Some s \<or> map_of stores company = None \<and> f company = Inr s"
  using assms by (auto simp: for_company_def fun_upd_idem split: option.splits sum.splits)

lemma db_for_cases:
  assumes "db_for env p f a = Some (r, a')"
  obtains (refused) "a' = a" "isl r"
  | (served) k s s' where "reached env a k = Some s" "f s = Some (r, s')" "reached env a' = (reached env a)(k \<mapsto> s')"
proof (cases "api_company_stores a")
  case None
  then obtain s' where "f (api_db a) = Some (r, s')" "a' = a\<lparr>api_db := s'\<rparr>"
    using assms by (auto simp: db_for_def)
  moreover from this have "reached env a' k = ((reached env a)(None \<mapsto> s')) k" for k
    using None by (cases k) auto
  then have "reached env a' = (reached env a)(None \<mapsto> s')" by (rule ext)
  ultimately show thesis by (intro served) simp_all
next
  case (Some stores)
  show thesis
  proof (cases "pn_company_id p")
    case None
    then show thesis using assms Some refused by (auto simp: db_for_def)
  next
    case company: (Some c)
    obtain out stores' where o: "for_company (cv_open env) c stores = (out, stores')" by fastforce
    show thesis
    proof (cases out)
      case (Inl e)
      have "a' = a\<lparr>api_company_stores := Some stores\<rparr> \<and> isl r"
        using assms Some company o Inl for_company_Inl [of "cv_open env" c stores e stores'] by (auto simp: db_for_def)
      then show thesis using refused Some by simp
    next
      case (Inr s)
      note fc = for_company_Inr [OF o [unfolded Inr]]
      obtain s' where s': "f s = Some (r, s')" "a' = a\<lparr>api_company_stores := Some (bt_insert c s' stores')\<rparr>"
        using assms Some company o Inr by (auto simp: db_for_def)
      have "reached env a (Some c) = Some s" using Some fc(2) by auto
      moreover have "reached env a' k = ((reached env a)(Some c \<mapsto> s')) k" for k
        using s'(2) Some fc(1) by (cases k) auto
      then have "reached env a' = (reached env a)(Some c \<mapsto> s')" by (rule ext)
      ultimately show thesis using s'(1) by (intro served)
    qed
  qed
qed

lemma handle_cases:
  assumes "handle env p req a = Some (r, a')"
  obtains (refused) "a' = a" "isl r"
  | (served) k s s' where "reached env a k = Some s" "route env p req s = Some (r, s')"
    "reached env a' = (reached env a)(k \<mapsto> s')" "pn_kind p = Human \<or> human_only req = None"
  using assms
proof (cases "human_only req \<noteq> None \<and> pn_kind p \<noteq> Human")
  case True
  then show ?thesis using assms refused by (auto simp: handle_def)
next
  case False
  then have "db_for env p (route env p req) a = Some (r, a')"
    using assms by (auto simp: handle_def split: option.splits)
  then show ?thesis
    by (rule db_for_cases) (use refused served False in blast)+
qed

section \<open>What a handler does to the claims\<close>

lemma done_with_Some: "done_with f out = Some (r, s') \<longleftrightarrow> s' = snd out \<and> r = map_sum FromDb f (fst out)"
  by (auto simp: done_with_def)

lemma read_as_Some: "read_as v s = Some (r, s') \<longleftrightarrow> s' = s \<and> r = map_sum FromDb id v"
  by (auto simp: read_as_def)

lemmas reads =
  projects_list_def folders_list_def issues_get_def issues_list_def issues_ready_def history_get_def stats_get_def
  with_plan_def plans_show_def plans_gantt_def plans_ready_def views_dashboard_def views_scrum_def views_gantt_def

lemmas writes =
  projects_ensure_def projects_move_def folders_create_def issues_update_def issues_close_def issues_supersede_def
  deps_add_def deps_remove_def labels_add_def labels_remove_def claims_touch_def claims_sweep_def

lemmas frees = of_update of_labels of_deps of_folders of_claims of_close of_sweep

lemma of_issues_create: "issues_create env p spec s = Some (r, s') \<Longrightarrow> only_frees s s'"
  by (auto simp: issues_create_def Let_def Option.bind_eq_Some_conv done_with_Some intro: of_create)

lemma of_plans_create: "plans_create env p plan s = Some (r, s') \<Longrightarrow> only_frees s s'"
  by (auto simp: plans_create_def intro: of_plan_create)

lemma of_claims_release: "claims_release env p b s = Some (r, s') \<Longrightarrow> only_frees s s'"
  by (auto simp: claims_release_def done_with_Some frees split: sum.splits option.splits if_splits)

lemma of_issues_import:
  assumes "issues_import env project rows s = Some (r, s')"
  shows "only_frees s s'"
proof -
  obtain out s1 where e: "ensure_project project (''unhosted/'' @ project) project (cv_now env) s = (out, s1)" by fastforce
  have s1: "only_frees s s1"
    using of_folders(1) [of s project "''unhosted/'' @ project" project "cv_now env"] e by simp
  show ?thesis
  proof (cases out)
    case (Inl x)
    then show ?thesis using assms e s1 by (simp add: issues_import_def)
  next
    case (Inr u)
    then obtain r2 where "import (cv_now env) project rows s1 = Some (r2, s')"
      using assms e by (auto simp: issues_import_def)
    then show ?thesis unfolding import_def by (intro of_trans [OF s1]) (rule of_import_rows)
  qed
qed

lemma of_route:
  assumes "route env p req s = Some (r, s')" and "\<And>b. req \<noteq> ClaimsClaim b"
  shows "only_frees s s'"
  using assms
  by (cases req)
    (auto simp: reads read_as_Some writes done_with_Some frees Let_def
      intro: of_issues_create of_plans_create of_claims_release of_issues_import)

definition named_holder :: "principal \<Rightarrow> string option \<Rightarrow> string \<Rightarrow> bool" where
  "named_holder p assignee who \<longleftrightarrow> who = pn_name p \<or> pn_kind p = Agent \<and> assignee = Some who"

lemma claim_route:
  assumes "route env p (ClaimsClaim b) s = Some (r, s')"
  shows "claim_on s' i = claim_on s i \<or>
    i = mb_id b \<and> (\<exists>who. claim_on s' i = Some (who, Some (actor_kind_str (pn_kind p))) \<and> named_holder p (mb_assignee b) who)"
proof -
  let ?req = "\<lparr>cr_id = mb_id b, cr_assignee = holder_for p (mb_assignee b), cr_actor_kind = pn_kind p,
                 cr_ttl_seconds = mb_ttl_seconds b\<rparr>"
  obtain out where c: "claim ?req (cv_now env) s = (out, s')"
    using assms by (cases "claim ?req (cv_now env) s") (auto simp: claims_claim_def Let_def done_with_Some)
  show ?thesis
  proof (cases out)
    case (Inl e)
    then show ?thesis using c by (auto simp: claim_def tx_def split: option.splits if_splits)
  next
    case (Inr rc)
    obtain ttl row where row: "find_issue s (mb_id b) = Some row"
      and s': "s' = log_event (mb_id b) (cv_now env) (holder_for p (mb_assignee b)) ''claimed''
        (actor_kind_str (pn_kind p)) (upd_issue (mb_id b) (set_claim ?req (cv_now env) ttl) s)"
      by (rule claim_Inr [OF c [unfolded Inr]]) simp
    have "find_issue (upd_issue (mb_id b) (set_claim ?req (cv_now env) ttl) s) i =
      (if i = mb_id b then map_option (set_claim ?req (cv_now env) ttl) (find_issue s (mb_id b)) else find_issue s i)"
      by (rule find_issue_upd) simp
    then have "claim_on s' i = (if i = mb_id b then Some (holder_for p (mb_assignee b), Some (actor_kind_str (pn_kind p)))
        else claim_on s i)"
      using row unfolding s' claim_on_log by (cases "i = mb_id b") (simp_all add: claim_on_def set_claim_def)
    then show ?thesis
      by (auto simp: holder_for_def named_holder_def split: actor_kind.split option.split)
  qed
qed

text \<open>
  C5. Whatever a request does, in whatever store, every claim the server has afterwards it had before,
  but for one: the claim that \<open>/v1/claims/claim\<close> takes on the issue it names. That claim is of the
  caller's kind, so an agent's token cannot make a human claim, which would not be requeued on expiry; and
  for a human's credential its holder is the credential's name, whatever the body says.
\<close>

theorem credentials_decide_holders:
  assumes "handle env p req a = Some (r, a')" and "reached env a' k = Some s'" and "claim_on s' i = Some (who, kind)"
  shows "(\<exists>s. reached env a k = Some s \<and> claim_on s i = Some (who, kind)) \<or>
    (\<exists>b. req = ClaimsClaim b \<and> mb_id b = i \<and> kind = Some (actor_kind_str (pn_kind p)) \<and>
      named_holder p (mb_assignee b) who)"
  using assms(1)
proof (cases rule: handle_cases)
  case refused
  then show ?thesis using assms by auto
next
  case (served k1 s s1)
  show ?thesis
  proof (cases "k = k1")
    case False
    then show ?thesis using served assms by auto
  next
    case True
    then have s1: "s1 = s'" using served assms(2) by simp
    have "claim_on s' i = claim_on s i \<or> (\<exists>b. req = ClaimsClaim b \<and> i = mb_id b \<and>
        (\<exists>who. claim_on s' i = Some (who, Some (actor_kind_str (pn_kind p))) \<and> named_holder p (mb_assignee b) who))"
    proof (cases "\<exists>b. req = ClaimsClaim b")
      case True
      then show ?thesis using claim_route served(2) s1 by blast
    next
      case False
      then have "only_frees s s'" using of_route served(2) s1 by blast
      then show ?thesis using assms(3) unfolding only_frees_def by (metis option.distinct(1))
    qed
    then show ?thesis using True served(1) assms(3) by auto
  qed
qed

definition served_issues :: api where
  "served_issues = \<lparr>api_db = demo0, api_company_stores = None\<rparr>"

definition served_env :: call_env where
  "served_env = \<lparr>cv_now = 1000, cv_draws = [], cv_plan_draws = [], cv_open = (\<lambda>_. Inl (Sqlite (UniqueViolation []))),
     cv_date = (\<lambda>_. [])\<rparr>"

definition served_claim :: request where
  "served_claim = ClaimsClaim \<lparr>mb_id = ''a'', mb_assignee = Some ''w'', mb_ttl_seconds = Some 60\<rparr>"

definition bot_of :: "string option \<Rightarrow> principal" where
  "bot_of company = \<lparr>pn_kind = Agent, pn_name = ''bot'', pn_company_id = company\<rparr>"

text \<open>An agent claims an open issue for its worker.\<close>

theorem credentials_decide_holders_witness:
  "\<exists>r a' s'. handle served_env (bot_of None) served_claim served_issues = Some (r, a') \<and>
     claim_on demo0 ''a'' = None \<and> claim_on s' ''a'' = Some (''w'', Some ''agent'') \<and>
     (\<exists>b. served_claim = ClaimsClaim b \<and> mb_id b = ''a'' \<and> named_holder (bot_of None) (mb_assignee b) ''w'')"
proof -
  let ?out = "handle served_env (bot_of None) served_claim served_issues"
  have n: "?out \<noteq> None" by code_simp
  have c: "claim_on (api_db (snd (the ?out))) ''a'' = Some (''w'', Some ''agent'')" by code_simp
  have none: "claim_on demo0 ''a'' = None" by code_simp
  from n obtain r a' where run: "?out = Some (r, a')" by auto
  have c': "claim_on (api_db a') ''a'' = Some (''w'', Some ''agent'')" using c unfolding run by simp
  have st: "reached served_env a' None = Some (api_db a')" by simp
  have "\<not> (\<exists>s. reached served_env served_issues None = Some s \<and> claim_on s ''a'' = Some (''w'', Some ''agent''))"
    using none by (simp add: served_issues_def)
  with credentials_decide_holders [OF run st c'] run none c' show ?thesis by blast
qed

section \<open>One company's requests and another's store\<close>

definition company_store :: "call_env \<Rightarrow> api \<Rightarrow> string \<Rightarrow> error + db" where
  "company_store env a c =
     (case validate_company_id c of
        Some e \<Rightarrow> Inl e
      | None \<Rightarrow> (case reached env a (Some c) of Some s \<Rightarrow> Inr s | None \<Rightarrow> cv_open env c))"

lemma for_company_store:
  "api_company_stores a = Some m \<Longrightarrow> fst (for_company (cv_open env) c m) = company_store env a c"
  by (auto simp: for_company_def company_store_def split: option.split sum.split)

lemma db_for_hosted:
  assumes "api_company_stores a \<noteq> None" and "pn_company_id p = Some c"
  shows "(case company_store env a c of
      Inl e \<Rightarrow> db_for env p f a = Some (Inl (FromDb e), a)
    | Inr s \<Rightarrow> (case f s of
        None \<Rightarrow> db_for env p f a = None
      | Some (r, s') \<Rightarrow> \<exists>a'. db_for env p f a = Some (r, a') \<and> api_db a' = api_db a \<and>
          reached env a' = (reached env a)(Some c \<mapsto> s')))"
proof -
  obtain m where m: "api_company_stores a = Some m" using assms(1) by blast
  obtain out m' where o: "for_company (cv_open env) c m = (out, m')" by fastforce
  have store: "company_store env a c = out" using for_company_store [OF m, of env c] o by simp
  show ?thesis
  proof (cases out)
    case (Inl e)
    have "m' = m" using for_company_Inl o Inl by metis
    then show ?thesis using m o store assms(2) Inl by (simp add: db_for_def)
  next
    case (Inr s)
    note fc = for_company_Inr [OF o [unfolded Inr]]
    have "reached env (a\<lparr>api_company_stores := Some (bt_insert c s' m')\<rparr>) k = ((reached env a)(Some c \<mapsto> s')) k" for s' k
      using m fc(1) by (cases k) auto
    then have "reached env (a\<lparr>api_company_stores := Some (bt_insert c s' m')\<rparr>) = (reached env a)(Some c \<mapsto> s')" for s'
      by (rule ext)
    then show ?thesis using m o store assms(2) Inr by (auto simp: db_for_def split: option.split)
  qed
qed

lemma hosted_requests:
  assumes "db_for env p f a = Some (r, a')" and "pn_company_id p = Some c" and "api_company_stores a \<noteq> None"
    and "api_company_stores b \<noteq> None" and "reached env b (Some c) = reached env a (Some c)"
  shows "api_db a' = api_db a \<and> (\<forall>d. d \<noteq> c \<longrightarrow> reached env a' (Some d) = reached env a (Some d)) \<and>
    (\<exists>b'. db_for env p f b = Some (r, b') \<and> reached env b' (Some c) = reached env a' (Some c))"
proof -
  have same: "company_store env b c = company_store env a c" by (simp only: company_store_def assms(5))
  note ha = db_for_hosted [OF assms(3,2), of env f] and hb = db_for_hosted [OF assms(4,2), of env f, unfolded same]
  show ?thesis
  proof (cases "company_store env a c")
    case (Inl e)
    then show ?thesis using assms(1,5) ha hb by simp
  next
    case (Inr s)
    then obtain s' where s': "f s = Some (r, s')" using assms(1) ha by (auto split: option.splits)
    have a': "api_db a' = api_db a" "reached env a' = (reached env a)(Some c \<mapsto> s')"
      using ha Inr s' assms(1) by auto
    moreover obtain b' where "db_for env p f b = Some (r, b')" "reached env b' = (reached env b)(Some c \<mapsto> s')"
      using hb Inr s' by auto
    ultimately show ?thesis by (auto simp del: reached.simps)
  qed
qed

text \<open>
  C37. In hosted mode a credential of one company works on that company's store alone: the request leaves
  the server's own store and every other company's store as they were, and both its reply and what it
  leaves in its own store are those it has on any server whose other stores hold something else.
\<close>

theorem companies_do_not_interfere:
  assumes "handle env p req a = Some (r, a')" and "pn_company_id p = Some c" and "api_company_stores a \<noteq> None"
    and "api_company_stores b \<noteq> None" and "reached env b (Some c) = reached env a (Some c)"
  shows "api_db a' = api_db a \<and> (\<forall>d. d \<noteq> c \<longrightarrow> reached env a' (Some d) = reached env a (Some d)) \<and>
    (\<exists>b'. handle env p req b = Some (r, b') \<and> reached env b' (Some c) = reached env a' (Some c))"
proof (cases "human_only req \<noteq> None \<and> pn_kind p \<noteq> Human")
  case True
  then show ?thesis using assms(1,5) by (auto simp: handle_def)
next
  case False
  then have run: "handle env p req x = db_for env p (route env p req) x" for x
    by (auto simp: handle_def split: option.split)
  show ?thesis unfolding run by (rule hosted_requests [OF assms(1) [unfolded run] assms(2-5)])
qed

text \<open>The same request on two servers that share only the company's store.\<close>

theorem companies_do_not_interfere_witness:
  "\<exists>r a' b'.
     handle served_env (bot_of (Some ''c'')) served_claim (served_issues\<lparr>api_company_stores := Some [(''c'', demo0), (''d'', demo0)]\<rparr>) = Some (r, a') \<and>
     handle served_env (bot_of (Some ''c'')) served_claim (served_issues\<lparr>api_company_stores := Some [(''c'', demo0), (''e'', demo)]\<rparr>) = Some (r, b') \<and>
     reached served_env a' (Some ''d'') = Some demo0 \<and> reached served_env b' (Some ''c'') = reached served_env a' (Some ''c'')"
proof -
  let ?a = "served_issues\<lparr>api_company_stores := Some [(''c'', demo0), (''d'', demo0)]\<rparr>"
  let ?b = "served_issues\<lparr>api_company_stores := Some [(''c'', demo0), (''e'', demo)]\<rparr>"
  let ?out = "handle served_env (bot_of (Some ''c'')) served_claim ?a"
  have "?out \<noteq> None" by code_simp
  then obtain r a' where run: "?out = Some (r, a')" by auto
  have c: "pn_company_id (bot_of (Some ''c'')) = Some ''c''" by (simp add: bot_of_def)
  have d: "''d'' \<noteq> ''c''" "reached served_env ?a (Some ''d'') = Some demo0" by simp_all
  have hosted: "api_company_stores ?a \<noteq> None" "api_company_stores ?b \<noteq> None" by simp_all
  have "reached served_env ?b (Some ''c'') = reached served_env ?a (Some ''c'')" by simp
  from companies_do_not_interfere [OF run c hosted this] run d show ?thesis by metis
qed

section \<open>The signing keys\<close>

text \<open>The calls that ask the issuer, as the guards of \<open>jwks\<close> have them, and a run of calls.\<close>

definition asks_issuer :: "time \<Rightarrow> bool \<Rightarrow> jwks_state \<Rightarrow> bool" where
  "asks_issuer now force s \<longleftrightarrow>
     cached_jwks s now (if force then COOLDOWN else TTL) = None \<and>
     (case js_attempt s of None \<Rightarrow> True | Some t \<Rightarrow> COOLDOWN \<le> now - t)"

record jwks_call =
  jc_http :: issuer_http
  jc_now :: time
  jc_arrived :: time
  jc_force :: bool

definition jwks_call :: "auth_config \<Rightarrow> jwks_call \<Rightarrow> jwks_state \<Rightarrow> jwk list option \<times> jwks_state" where
  "jwks_call cfg c = jwks cfg (jc_http c) (jc_now c) (jc_arrived c) (jc_force c)"

fun fetches :: "auth_config \<Rightarrow> jwks_call list \<Rightarrow> jwks_state \<Rightarrow> (time \<times> time) list" where
  "fetches cfg [] s = []"
| "fetches cfg (c # cs) s =
     (if asks_issuer (jc_now c) (jc_force c) s then [(jc_now c, jc_arrived c)] else []) @
     fetches cfg cs (snd (jwks_call cfg c s))"

lemma jwks_asking:
  assumes "asks_issuer now force s"
  shows "js_attempt (snd (jwks cfg http now arrived force s)) = Some arrived"
    and "fst (jwks cfg http now arrived force s) = Option.bind (jwks_location cfg http) (ih_keys http)"
proof -
  have "jwks cfg http now arrived force s =
      (case fetch_jwks cfg http arrived s of (result, s') \<Rightarrow> (result, s'\<lparr>js_attempt := Some arrived\<rparr>))"
    using assms by (auto simp: jwks_def asks_issuer_def split: option.splits)
  then show "js_attempt (snd (jwks cfg http now arrived force s)) = Some arrived"
    and "fst (jwks cfg http now arrived force s) = Option.bind (jwks_location cfg http) (ih_keys http)"
    by (auto simp: fetch_jwks_def split: option.split)
qed

lemma jwks_not_asking:
  assumes "\<not> asks_issuer now force s"
  shows "jwks cfg http now arrived force s = (cached_jwks s now TTL, s)"
proof (cases "cached_jwks s now (if force then COOLDOWN else TTL)")
  case None
  then show ?thesis using assms by (auto simp: jwks_def asks_issuer_def split: option.splits)
next
  case (Some keys)
  then have "cached_jwks s now TTL = Some keys"
    by (auto simp: cached_jwks_def Option.bind_eq_Some_conv COOLDOWN_def TTL_def from_secs_def split: if_splits)
  then show ?thesis using Some by (simp add: jwks_def)
qed

lemma fetches_spaced:
  assumes "\<And>c. c \<in> set cs \<Longrightarrow> jc_now c \<le> jc_arrived c"
  shows "sorted_wrt (\<lambda>x y. snd x + COOLDOWN \<le> fst y) (fetches cfg cs s) \<and>
    (\<forall>x \<in> set (fetches cfg cs s). fst x \<le> snd x \<and> (\<forall>t. js_attempt s = Some t \<longrightarrow> t + COOLDOWN \<le> fst x))"
  using assms
proof (induction cs arbitrary: s)
  case (Cons c cs)
  show ?case
  proof (cases "asks_issuer (jc_now c) (jc_force c) s")
    case False
    then have "snd (jwks_call cfg c s) = s" by (simp add: jwks_call_def jwks_not_asking)
    then show ?thesis using Cons False by simp
  next
    case True
    let ?s = "snd (jwks_call cfg c s)"
    have a: "js_attempt ?s = Some (jc_arrived c)" using jwks_asking(1) [OF True] by (simp add: jwks_call_def)
    have t: "t + COOLDOWN \<le> jc_now c" if "js_attempt s = Some t" for t using True that by (simp add: asks_issuer_def)
    have le: "jc_now c \<le> jc_arrived c" using Cons.prems by simp
    have c0: "0 \<le> COOLDOWN" by (simp add: COOLDOWN_def from_secs_def)
    have IH: "sorted_wrt (\<lambda>x y. snd x + COOLDOWN \<le> fst y) (fetches cfg cs ?s)"
      "\<forall>x \<in> set (fetches cfg cs ?s). fst x \<le> snd x \<and> jc_arrived c + COOLDOWN \<le> fst x"
      using Cons.IH [of ?s] Cons.prems a by auto
    have "t + COOLDOWN \<le> fst x" if "x \<in> set (fetches cfg cs ?s)" "js_attempt s = Some t" for x t
      using IH(2) that t le c0 by force
    then show ?thesis using IH True t le by auto
  qed
qed simp

lemma spaced_count:
  assumes "sorted_wrt (\<lambda>x y. snd x + d \<le> fst y) xs" and "\<And>x. x \<in> set xs \<Longrightarrow> fst x \<le> snd x \<and> t \<le> fst x \<and> fst x < t + w"
    and "xs \<noteq> []"
  shows "(int (length xs) - 1) * d < (w::int)"
proof -
  have "(int (length xs) - 1) * d \<le> fst (last xs) - fst (hd xs)" using assms
  proof (induction xs rule: rev_induct)
    case (snoc x xs)
    show ?case
    proof (cases "xs = []")
      case False
      have IH: "(int (length xs) - 1) * d \<le> fst (last xs) - fst (hd xs)" using snoc False by (auto simp: sorted_wrt_append)
      have "snd (last xs) + d \<le> fst x" "fst (last xs) \<le> snd (last xs)"
        using snoc.prems False by (auto simp: sorted_wrt_append)
      then show ?thesis using IH False by (simp add: algebra_simps hd_append)
    qed simp
  qed simp
  moreover have "fst (last xs) < t + w" "t \<le> fst (hd xs)" using assms(2,3) by simp_all
  ultimately show ?thesis by linarith
qed

text \<open>
  C39. However many requests carry tokens with unknown key ids, and whatever the issuer answers, the
  server asks it rarely: two fetches of the keys are five seconds apart, from the end of one to the start
  of the next, so a stretch of \<open>w\<close> nanoseconds sees at most \<open>w / COOLDOWN + 1\<close>, counting
  failed ones. A call that does not ask serves keys younger than the TTL, and none when there are none.
\<close>

theorem jwks_refresh_is_bounded:
  assumes "\<And>c. c \<in> set cs \<Longrightarrow> jc_now c \<le> jc_arrived c" and "0 \<le> w"
  shows "sorted_wrt (\<lambda>x y. snd x + COOLDOWN \<le> fst y) (fetches cfg cs s) \<and>
    int (length (filter (\<lambda>x. t \<le> fst x \<and> fst x < t + w) (fetches cfg cs s))) \<le> w div COOLDOWN + 1 \<and>
    (\<forall>c \<in> set cs. \<forall>s. \<not> asks_issuer (jc_now c) (jc_force c) s \<longrightarrow>
      jwks_call cfg c s = (cached_jwks s (jc_now c) TTL, s))"
proof -
  let ?xs = "filter (\<lambda>x. t \<le> fst x \<and> fst x < t + w) (fetches cfg cs s)"
  note all = fetches_spaced [OF assms(1), of cs cfg s]
  have "int (length ?xs) \<le> w div COOLDOWN + 1"
  proof (cases "?xs = []")
    case False
    have "sorted_wrt (\<lambda>x y. snd x + COOLDOWN \<le> fst y) ?xs" using all by (simp add: sorted_wrt_filter)
    then have "(int (length ?xs) - 1) * COOLDOWN < w" using all by (intro spaced_count [OF _ _ False, of _ t]) auto
    then have "int (length ?xs) - 1 \<le> w div COOLDOWN"
      by (simp add: COOLDOWN_def from_secs_def)
    then show ?thesis by simp
  next
    case True
    then show ?thesis using assms(2) by (simp add: COOLDOWN_def from_secs_def pos_imp_zdiv_nonneg_iff)
  qed
  then show ?thesis using all by (simp add: jwks_call_def jwks_not_asking)
qed

text \<open>Three tokens with unknown key ids in six seconds, the issuer down.\<close>

definition issuer_down :: issuer_http where
  "issuer_down = \<lparr>ih_discovery = (\<lambda>_. None), ih_keys = (\<lambda>_. None)\<rparr>"

definition some_issuer :: auth_config where
  "some_issuer =
     \<lparr>ac_oidc_issuer = Some ''i'', ac_oidc_audience = None, ac_jwks_uri = Some ''u'', ac_agent_client_ids = [''bot''],
      ac_company_claim = Some ''org''\<rparr>"

definition hammering :: "jwks_call list" where
  "hammering = map (\<lambda>(b, e). \<lparr>jc_http = issuer_down, jc_now = b, jc_arrived = e, jc_force = True\<rparr>)
     [(0, 1000000000), (2000000000, 3000000000), (6000000000, 6000000001)]"

theorem jwks_refresh_is_bounded_witness:
  "length (fetches some_issuer hammering \<lparr>js_jwks = None, js_attempt = None\<rparr>) = 2 \<and>
   int (length (filter (\<lambda>x. 0 \<le> fst x \<and> fst x < 0 + from_secs 6)
     (fetches some_issuer hammering \<lparr>js_jwks = None, js_attempt = None\<rparr>))) \<le> from_secs 6 div COOLDOWN + 1"
proof -
  have "jc_now c \<le> jc_arrived c" if "c \<in> set hammering" for c using that by (auto simp: hammering_def)
  moreover have "0 \<le> from_secs 6" by (simp add: from_secs_def)
  moreover have "length (fetches some_issuer hammering \<lparr>js_jwks = None, js_attempt = None\<rparr>) = 2" by code_simp
  ultimately show ?thesis
    using jwks_refresh_is_bounded [of hammering "from_secs 6" some_issuer "\<lparr>js_jwks = None, js_attempt = None\<rparr>" 0] by blast
qed

section \<open>Who is let in\<close>

lemma jwks_fresh:
  assumes "jwks cfg http now arrived force s = (Some keys, s')"
  shows "(\<exists>t. js_jwks s = Some (t, keys) \<and> now - t < TTL) \<or> Option.bind (jwks_location cfg http) (ih_keys http) = Some keys"
proof (cases "asks_issuer now force s")
  case True
  then show ?thesis using jwks_asking(2) [OF True, of cfg http arrived] assms by simp
next
  case False
  then have "cached_jwks s now TTL = Some keys" using jwks_not_asking [OF False, of cfg http arrived] assms by simp
  then show ?thesis by (auto simp: cached_jwks_def Option.bind_eq_Some_conv split: if_splits)
qed

text \<open>A token that a key of the set, the one its header names, verifies.\<close>

definition vouched :: "'k jwt \<Rightarrow> auth_config \<Rightarrow> string \<Rightarrow> jwk list \<Rightarrow> principal \<Rightarrow> bool" where
  "vouched lib cfg token keys p \<longleftrightarrow>
     (\<exists>issuer kid key dk cs. ac_oidc_issuer cfg = Some issuer \<and> jw_kid lib token = Some (Some kid) \<and>
        key \<in> set keys \<and> jk_kid key = Some kid \<and> decoding_from_jwk lib key = Some dk \<and>
        jw_decode lib token dk (algorithm_of lib key) issuer (ac_oidc_audience cfg) = Some cs \<and>
        p = principal_of_claims cfg cs)"

lemma check_token_Some:
  assumes "check_token lib cfg issuer token kid keys = Some p"
    and "ac_oidc_issuer cfg = Some issuer" and "jw_kid lib token = Some (Some kid)"
  shows "vouched lib cfg token keys p"
proof -
  obtain key dk cs where k: "find (\<lambda>k. jk_kid k = Some kid) keys = Some key" "decoding_from_jwk lib key = Some dk"
    "jw_decode lib token dk (algorithm_of lib key) issuer (ac_oidc_audience cfg) = Some cs"
    "p = principal_of_claims cfg cs"
    using assms(1) by (auto simp: check_token_def Option.bind_eq_Some_conv)
  have "key \<in> set keys" "jk_kid key = Some kid" using k(1) by (auto simp: find_Some_iff)
  then show ?thesis using k assms(2,3) unfolding vouched_def by blast
qed

text \<open>The key sets the server may judge by in a call: one still fresh in its cache, or the issuer's answer to it.\<close>

definition current_keys :: "auth_config \<Rightarrow> issuer_http \<Rightarrow> oidc_clock \<Rightarrow> jwks_state \<Rightarrow> jwk list \<Rightarrow> bool" where
  "current_keys cfg http clock s keys \<longleftrightarrow>
     (\<exists>t. js_jwks s = Some (t, keys) \<and> (oc_first clock - t < TTL \<or> oc_second clock - t < TTL)) \<or>
     Option.bind (jwks_location cfg http) (ih_keys http) = Some keys"

lemma jwks_state:
  "js_jwks (snd (jwks cfg http now arrived force s)) = js_jwks s \<or>
   (\<exists>t keys. js_jwks (snd (jwks cfg http now arrived force s)) = Some (t, keys) \<and>
     Option.bind (jwks_location cfg http) (ih_keys http) = Some keys)"
proof (cases "asks_issuer now force s")
  case True
  then have "jwks cfg http now arrived force s =
      (case fetch_jwks cfg http arrived s of (result, s') \<Rightarrow> (result, s'\<lparr>js_attempt := Some arrived\<rparr>))"
    by (auto simp: jwks_def asks_issuer_def split: option.splits)
  then show ?thesis by (auto simp: fetch_jwks_def split: option.split)
next
  case False
  then show ?thesis by (simp add: jwks_not_asking)
qed

lemma oidc_Some:
  assumes "oidc lib cfg http clock token s = (Some p, s')"
  shows "\<exists>keys. current_keys cfg http clock s keys \<and> vouched lib cfg token keys p"
proof -
  obtain issuer kid where i: "ac_oidc_issuer cfg = Some issuer" "jw_kid lib token = Some (Some kid)"
    using assms by (auto simp: oidc_def split: option.splits)
  obtain keys s1 where k: "jwks cfg http (oc_first clock) (oc_first_arrived clock) False s = (Some keys, s1)"
    using assms i by (auto simp: oidc_def split: option.splits prod.splits)
  have cur: "current_keys cfg http clock s keys" using jwks_fresh [OF k] by (auto simp: current_keys_def)
  show ?thesis
  proof (cases "knows_kid kid keys")
    case True
    then have "check_token lib cfg issuer token kid keys = Some p" using assms i k by (simp add: oidc_def)
    then show ?thesis using cur check_token_Some i by blast
  next
    case False
    then obtain keys2 where k2: "jwks cfg http (oc_second clock) (oc_second_arrived clock) True s1 = (Some keys2, s')"
      and c: "check_token lib cfg issuer token kid keys2 = Some p"
      using assms i k by (auto simp: oidc_def split: option.splits prod.splits)
    have "current_keys cfg http clock s keys2"
      using jwks_fresh [OF k2] jwks_state [of cfg http "oc_first clock" "oc_first_arrived clock" False s] k
      by (auto simp: current_keys_def)
    then show ?thesis using c check_token_Some i by blast
  qed
qed

definition in_company :: "company_dir list option \<Rightarrow> string \<Rightarrow> principal \<Rightarrow> bool" where
  "in_company ds token p \<longleftrightarrow> pn_kind p = Agent \<and>
     (\<exists>dirs d fs f c. ds = Some dirs \<and> d \<in> set dirs \<and> cd_name d \<noteq> None \<and> cd_name d = pn_company_id p \<and>
        cd_files d = Some fs \<and> f \<in> set fs \<and> tf_name f = Some (''agent-'' @ pn_name p) \<and>
        tf_content f = Some c \<and> trim c = token)"

lemma company_static_token_Some:
  assumes "company_static_token ds token = Some p"
  shows "in_company ds token p"
proof -
  obtain dirs where dirs: "ds = Some dirs" "company_dirs token dirs = Some p"
    using assms by (auto simp: company_static_token_def Option.bind_eq_Some_conv)
  obtain d company fs where d: "d \<in> set dirs" "cd_name d = Some company" "cd_files d = Some fs"
    "company_files company token fs = Some p" using company_dirs_Some [OF dirs(2)] by blast
  from company_files_Some [OF d(4)] d dirs(1) show ?thesis by (fastforce simp: in_company_def)
qed

text \<open>
  C38. The middleware lets nobody in without a credential. A principal comes from a token file whose name
  is the principal and whose trimmed content is the presented token, from an agent file of a company's
  directory, which gives that company and never a human, or from a token that the key named in its header
  verifies, a key of a set the issuer served and the cache still holds fresh or the issuer serves now; the
  principal is then the one the verified claims name.
\<close>

theorem no_principal_without_credential:
  assumes "authenticate lib cfg tokens http clock bearer s = (Some p, s')"
  shows "\<exists>token. token \<noteq> [] \<and> map_option trim bearer = Some token \<and>
    ((\<exists>es f c. tokens = Some es \<and> TokenFile f \<in> set es \<and> tf_content f = Some c \<and> trim c = token \<and> named_for f p) \<or>
     (\<exists>es ds. tokens = Some es \<and> Companies ds \<in> set es \<and> in_company ds token p) \<or>
     (\<exists>keys. current_keys cfg http clock s keys \<and> vouched lib cfg token keys p))"
proof -
  obtain b where b: "bearer = Some b" "trim b \<noteq> []"
    using assms by (auto simp: authenticate_def Let_def split: option.splits if_splits)
  show ?thesis
  proof (cases "static_token tokens (trim b)")
    case (Some q)
    then have "q = p" using assms b by (simp add: authenticate_def)
    with Some obtain es where es: "tokens = Some es" "token_entries (trim b) es = Some p"
      by (auto simp: static_token_def Option.bind_eq_Some_conv)
    from token_entries_Some [OF es(2)] show ?thesis using b es(1) company_static_token_Some by fastforce
  next
    case None
    then have "oidc lib cfg http clock (trim b) s = (Some p, s')"
      using assms b by (auto simp: authenticate_def split: if_splits)
    from oidc_Some [OF this] show ?thesis using b by auto
  qed
qed

text \<open>A library that verifies the token \<open>''t''\<close> with the key \<open>''n''\<close> alone.\<close>

definition sample_jwt :: "string jwt" where
  "sample_jwt =
     \<lparr>jw_kid = (\<lambda>t. Some (Some ''k'')), jw_rsa = (\<lambda>n e. Some n), jw_ec = (\<lambda>x y. None), jw_algorithm = (\<lambda>a. a = ''RS256''),
      jw_decode = (\<lambda>t key alg issuer audience.
        if t = ''t'' \<and> key = ''n'' then Some \<lparr>cl_sub = ''u'', cl_client_id = None, cl_azp = Some ''bot'', cl_extra = [(''org'', JStr ''c'')]\<rparr>
        else None)\<rparr>"

definition issuer_up :: issuer_http where
  "issuer_up =
     \<lparr>ih_discovery = (\<lambda>_. None),
      ih_keys = (\<lambda>_. Some [\<lparr>jk_kid = Some ''k'', jk_kty = ''RSA'', jk_n = Some ''n'', jk_e = Some ''e'', jk_x = None, jk_y = None, jk_alg = None\<rparr>])\<rparr>"

definition sample_clock :: oidc_clock where
  "sample_clock = \<lparr>oc_first = 0, oc_first_arrived = 1, oc_second = 2, oc_second_arrived = 3\<rparr>"

theorem no_principal_without_credential_witness:
  "fst (authenticate sample_jwt some_issuer None issuer_up sample_clock (Some ''t '') \<lparr>js_jwks = None, js_attempt = None\<rparr>) =
     Some (bot_of (Some ''c'')) \<and>
   (\<exists>keys. current_keys some_issuer issuer_up sample_clock \<lparr>js_jwks = None, js_attempt = None\<rparr> keys \<and>
     vouched sample_jwt some_issuer ''t'' keys (bot_of (Some ''c'')))"
proof -
  let ?out = "authenticate sample_jwt some_issuer None issuer_up sample_clock (Some ''t '') \<lparr>js_jwks = None, js_attempt = None\<rparr>"
  have f: "fst ?out = Some (bot_of (Some ''c''))" by code_simp
  have t: "map_option trim (Some ''t '') = Some ''t''" by code_simp
  have "?out = (Some (bot_of (Some ''c'')), snd ?out)" by (rule pair_snd [OF f])
  from no_principal_without_credential [OF this, unfolded t] f show ?thesis by auto
qed

section \<open>Imports\<close>





end
