(* ===== verification/Spec2Isabelle.thy ===== *)
theory Spec2Isabelle
  imports Demo PlanProps FederationProps ReportProps RecordProps AdapterProps ServerProps
begin

text \<open>
  Marbles (\<open>src/src/\<close>, Rust) is an issue tracker for agents: a store of issues with dependencies and
  leases, plans laid over its issues, and a federation of stores that show one another signed
  claims. This development models the code that decides, in the order the code has it, and proves
  what makes it correct. Each definition keeps the source's name where Isabelle allows it.

  \<^bold>\<open>The store\<close> (\<open>types.rs\<close>, \<open>time.rs\<close>, \<open>store.rs\<close>, \<open>db.rs\<close>).
  \<open>Types\<close> has the domain structs, \<open>WorkTime\<close> the business hours behind human deadlines, \<open>Json\<close> the
  values of \<open>serde_json\<close>. \<open>Store\<close> is the database as a record with one list per SQL table, in
  insertion order, and \<open>log_event\<close>; \<open>DbProjects\<close>, \<open>DbIssues\<close>, \<open>DbDeps\<close>, \<open>DbClaims\<close> and
  \<open>DbClose\<close> hold the methods of \<open>Db\<close>, one definition each, as functions from the state to a
  result and the next state; \<open>tx\<close> is the transaction that commits or drops. \<open>DbInv\<close> has the
  invariant \<open>db_ok\<close> and the step relation of the public mutations, \<open>DbSteps\<close> shows that every
  one keeps it, \<open>Leases\<close> what a claim excludes, \<open>Queue\<close> what the ready query returns and how claims,
  closes and edges move it, \<open>Audit_Log\<close> that a failed operation changes nothing and that the two
  logs agree. \<open>Demo\<close> is one concrete run. Most of C1 to C13, and C29 and C30, are here.

  \<^bold>\<open>Plans\<close> (\<open>plan.rs\<close>).
  \<open>PlanSpec\<close> validates a spec with the coloured depth-first search and drafts it, \<open>PlanCheck\<close> shows
  the search exact; \<open>PlanCreate\<close> writes a plan into the store, \<open>PlanLoad\<close> reads it back;
  \<open>PlanGraph\<close> orders it (Kahn's algorithm), \<open>PlanGantt\<close> schedules it (earliest starts, slack,
  critical path, peak concurrency) and \<open>PlanReady\<close> offers the frontier. \<open>PlanProps\<close> has the
  properties C15 to C21.

  \<^bold>\<open>Federation\<close> (\<open>identity.rs\<close>, \<open>assertion_cache.rs\<close>, \<open>refs.rs\<close>, \<open>webhook.rs\<close>).
  \<open>CanonicalRef\<close> parses and prints references; \<open>Identity\<close> has a store's keys, descriptors and
  rotation, \<open>Registry\<close> the pins of other stores. The locale \<open>key_ring\<close> is the contract both share, a
  ring of keys with deadlines, interpreted on the identity and on the pin. \<open>Assertion\<close> caches
  signed claims about issues, \<open>Receipts\<close> audits stored ones, \<open>Webhook\<close> has the event identities, the
  replay guard and the delivery of the outbox. \<open>Demo_Codec\<close> is a concrete codec with two stores,
  \<open>FederationProps\<close> has the properties C22 to C28 and two runs where the code departs from its
  documentation.

  \<^bold>\<open>Reports\<close> (\<open>report.rs\<close>, the readiness rows of \<open>main.rs\<close>).
  \<open>Float64\<close> is binary64 arithmetic as far as the reports use it (rounding to nearest, ties to even).
  \<open>Rollup\<close> counts statuses and progress, \<open>GoalTree\<close> walks the parent links, \<open>Portfolio\<close> has the
  tallies of projects and folders, \<open>Views\<close> the scrum board, the burndown and the dashboard, \<open>Parents\<close>
  the invariant that parent links form a forest, \<open>RemoteReport\<close> joins the ready queue with the
  assertion cache. \<open>ReportProps\<close> has the properties C7, C14, C31 and C32.

  \<^bold>\<open>The second store\<close> (\<open>records.rs\<close>, \<open>adapter.rs\<close>).
  \<open>Records\<close> is the append-only record engine with its conditional writes and the replay of its file,
  \<open>RecordProps\<close> has C33 to C35 and a concrete text of the file. \<open>Adapter\<close> and \<open>AdapterOps\<close> are the
  store over it, at the level of its JSON rows. \<open>AdapterSim\<close> relates its records to the tables of the
  SQLite store (\<open>matches\<close>); \<open>AdapterReads\<close> and \<open>AdapterQueries\<close> show that every query then reads the
  same, \<open>AdapterCalls\<close>, \<open>AdapterEdges\<close> and \<open>AdapterFolders\<close> that every mutation keeps the relation
  where the two are meant to agree (\<open>shared\<close>), and \<open>AdapterProps\<close> has C36.

  \<^bold>\<open>The server\<close> (\<open>auth.rs\<close>, \<open>api.rs\<close>, \<open>import.rs\<close>, \<open>CompanyStores\<close> of \<open>db.rs\<close>).
  \<open>Auth\<close> resolves a bearer token to a principal, from token files or the issuer's keys, which it caches.
  \<open>Import\<close> writes a Beads export into a store. \<open>Api\<close> has one definition per handler, the requests as a
  datatype, \<open>db_for\<close> that picks the caller's store and \<open>handle\<close> that runs a request to its end.
  \<open>Holders\<close> shows for every operation that it adds no claim, and \<open>ServerProps\<close> has C5 and C37 to C40.

  \<^bold>\<open>What the lemmas show.\<close>
  Invariants by rule induction over the steps of the store; exactness of each query and search
  against a specification over sets and relations (readiness, reachability, validation,
  topological order, schedules); round trips of references, plans and recorded claims; what errors
  leave behind; agreement of the two sides of a rotation and of the two code paths of an audit.

  \<^bold>\<open>Modelling decisions.\<close>
  Strings are byte strings. Times and counters are unbounded integers; the sums of the source that
  saturate are \<open>sat_add\<close> and \<open>sat_sub\<close>. Sequence numbers, estimates and times stay far below
  \<open>2 ^ 63\<close> in use, and an overflow there panics in debug builds and wraps in release builds, which is
  outside the model. Bytes and hashes are \<open>8 word\<close>. A SQL query reads rows in table order where it
  has no ORDER BY. Random bytes, clocks, the answers of a receiver and the outcome of a file
  write are inputs. OpenSSL, base64, SHA-256, HMAC, \<open>jsonwebtoken\<close>, serde and chrono's parser are parameters; what a
  property needs of them is a hypothesis (\<open>key_pair\<close>, \<open>json_injective\<close>, \<open>only_signed\<close>). A panic of
  the source is a value (\<open>Panic\<close>, or \<open>None\<close> of an option).

  \<^bold>\<open>Fuel.\<close>
  The deadline walk has fuel for the minutes it may count and the depth-first search of a plan fuel for
  its nodes; the critical path is chased at most as often as there are nodes; the goal tree has
  fuel for the issues it may print. C29, C15, C20 and \<open>goal_tree_exact\<close> show that the fuel is enough. Every other loop is total by its termination proof; the ids of new issues are
  drawn until one is free, which ends when the given draws do.

  \<^bold>\<open>Not modelled.\<close>
  The rest of the command line (\<open>main.rs\<close>), the web framework around the handlers with
  \<open>/healthz\<close> and \<open>/metrics\<close>, the client and the device login (\<open>client.rs\<close>, \<open>oidc.rs\<close>), the
  PostgreSQL store (SQL text run by a server, with the contract modelled here), the JSONL log, the
  offline cache, snapshots, configuration and set-up, and the text output of \<open>plan.rs\<close>: I/O over what
  is modelled. Two requests do not interleave inside a handler; \<open>claims_release\<close>, which reads and writes
  in two steps, is one step here.
\<close>

section \<open>The store: invariants\<close>

text \<open>
  C1. In every state the store can reach, the dependency edges form an acyclic relation between
  existing issues, no edge is stored twice, and the folder tree has no cycle and no dangling parent.
\<close>

theorem graphs_stay_acyclic:
  assumes "db_reachable s"
  shows "acyclic (set (db_deps s)) \<and> distinct (db_deps s) \<and>
    (\<forall>c p. (c, p) \<in> set (db_deps s) \<longrightarrow> find_issue s c \<noteq> None \<and> find_issue s p \<noteq> None) \<and>
    acyclic (set (folder_edges s)) \<and>
    (\<forall>f p. f \<in> set (db_folders s) \<longrightarrow> fr_parent f = Some p \<longrightarrow> find_folder s p \<noteq> None)"
proof -
  have "deps_ok s" "folders_ok s" using db_reachable_ok [OF assms] by (simp_all add: db_ok_def)
  moreover have "find_folder s p \<noteq> None" if "f \<in> set (db_folders s)" "fr_parent f = Some p" for f p
  proof -
    have "p \<in> fr_slug ` set (db_folders s)"
      using \<open>folders_ok s\<close> that by (auto simp: folders_ok_def)
    then show ?thesis by (auto simp: find_folder_def find_None_iff_all)
  qed
  ultimately show ?thesis
    using reach_dep [OF assms] unfolding deps_ok_def folders_ok_def by blast
qed

theorem graphs_stay_acyclic_witness:
  "db_deps demo = [(''b'', ''a'')] \<and> acyclic (set (db_deps demo)) \<and>
   folder_edges demo = [(''g'', ''f'')] \<and> acyclic (set (folder_edges demo))"
proof -
  have "folder_edges demo = [(''g'', ''f'')]" by code_simp
  with graphs_stay_acyclic [OF demo_reachable] demo_deps show ?thesis by simp
qed

text \<open>
  C2. In every reachable state an issue's status is one of the six, it carries a close time exactly
  when it is closed, its metadata is an object, and its lease is whole: with an assignee there
  are an expiry and a known actor kind, without one neither.
\<close>

theorem issue_rows_coherent:
  assumes "db_reachable s" and "find_issue s i = Some r"
  shows "ir_status r \<in> set STATUSES \<and> (is_terminal (ir_status r) \<longleftrightarrow> ir_closed_at r \<noteq> None) \<and>
    (\<exists>m. ir_metadata r = JObj m) \<and>
    (case holder s i of
       None \<Rightarrow> ir_assignee r = None \<and> ir_actor_kind r = None \<and> ir_expires_at r = None
     | Some (a, e) \<Rightarrow> ir_assignee r = Some a \<and> ir_expires_at r = Some e \<and>
         ir_actor_kind r \<in> {Some ''agent'', Some ''human''})"
proof -
  have "row_ok r" using reach_row [OF assms] .
  then show ?thesis
    using assms(2)
    by (cases "ir_assignee r")
      (auto simp: row_ok_def status_ok_def lease_ok_def is_object_def is_terminal_def holder_def
        actor_kind_parse_def Option.bind_eq_Some_conv split: json.splits if_splits)
qed

theorem issue_rows_coherent_witness:
  "\<exists>r. find_issue demo ''a'' = Some r \<and> ir_status r \<in> set STATUSES \<and> ir_assignee r = Some ''w''"
proof -
  have "find_issue demo ''a'' \<noteq> None" by code_simp
  then obtain r where r: "find_issue demo ''a'' = Some r" by blast
  from issue_rows_coherent [OF demo_reachable r] r show ?thesis by (simp add: demo_holder)
qed

text \<open>
  C3. In every reachable state the numbers of the history and of the outbox increase strictly, no
  event is numbered beyond the counter, and every outbox row is the event of the history row
  with its number: same issue, same event, same time.
\<close>

theorem outbox_mirrors_history:
  assumes "db_reachable s"
  shows "sorted_wrt (<) (map hr_seq (db_history s)) \<and> sorted_wrt (<) (map or_seq (db_outbound s)) \<and>
    (\<forall>h \<in> set (db_history s). hr_seq h \<le> db_history_seq s) \<and>
    out_key ` set (db_outbound s) \<subseteq> hist_key ` set (db_history s)"
proof -
  have "logs_ok s" using db_reachable_ok [OF assms] by (simp add: db_ok_def)
  moreover from this have "out_key e \<in> hist_key ` set (db_history s)" if "e \<in> set (db_outbound s)" for e
    using that by (force simp: logs_ok_def out_key_def hist_key_def)
  ultimately show ?thesis unfolding logs_ok_def by blast
qed

theorem outbox_mirrors_history_witness:
  "map out_key (db_outbound demo) =
     [(1, ''a'', ''created'', 0), (2, ''b'', ''created'', 0), (3, ''b'', ''depends_on'', 5),
      (4, ''a'', ''claimed'', 1000)] \<and>
   out_key ` set (db_outbound demo) \<subseteq> hist_key ` set (db_history demo)"
  using outbox_mirrors_history [OF demo_reachable] by (intro conjI) (code_simp, blast)

section \<open>The store: leases\<close>

text \<open>
  C4. A successful claim is exclusive until it lapses. Whatever operations follow, in any order and
  at any times before the expiry, as long as none of them is a renewal by the holder or closes,
  releases or removes the issue, the claimant still holds it with the promised expiry, and a
  claim by anyone else is refused and changes nothing.
\<close>

theorem claim_excludes_rivals:
  assumes "db_reachable s" and "claim req ts s = (Inr rc, s1)"
    and "undisturbed (cr_id req) (cr_assignee req) (rc_expires_at rc) ops s1"
    and "exec_all ops s1 = Some s2"
  shows "holder s2 (cr_id req) = Some (cr_assignee req, rc_expires_at rc) \<and>
    (\<forall>rival now. cr_id rival = cr_id req \<longrightarrow> cr_assignee rival \<noteq> cr_assignee req \<longrightarrow>
       now < rc_expires_at rc \<longrightarrow> (\<exists>e. claim rival now s2 = (Inl e, s2)))"
proof -
  have "exec ts (Claim req) s = Some s1" using assms(2) by simp
  then have "db_reachable s1" using assms(1) exec_reachable by blast
  moreover have "holder s1 (cr_id req) = Some (cr_assignee req, rc_expires_at rc)"
    using claim_holder [OF assms(2)] by simp
  ultimately have "holder s2 (cr_id req) = Some (cr_assignee req, rc_expires_at rc)"
    using exec_all_keeps_lease assms(3,4) by blast
  then show ?thesis using db_lease.claim_excl by force
qed

theorem claim_excludes_rivals_witness:
  "holder (the (exec_all [(1050, Sweep), (1060, AddLabel ''a'' ''l'' ''x'')]
      (snd (claim (demo_claim ''a'' ''w'') 1000 demo0)))) ''a'' = Some (''w'', 1100)"
proof -
  let ?s1 = "snd (claim (demo_claim ''a'' ''w'') 1000 demo0)"
  let ?ops = "[(1050, Sweep), (1060, AddLabel ''a'' ''l'' ''x'')]"
  let ?rc = "\<lparr>rc_id = ''a'', rc_assignee = ''w'', rc_actor_kind = Agent, rc_expires_at = 1100\<rparr>"
  have 1: "claim (demo_claim ''a'' ''w'') 1000 demo0 = (Inr ?rc, ?s1)"
    by (rule pair_snd) code_simp
  have 2: "undisturbed (cr_id (demo_claim ''a'' ''w'')) (cr_assignee (demo_claim ''a'' ''w''))
      (rc_expires_at ?rc) ?ops ?s1" by code_simp
  have 3: "exec_all ?ops ?s1 = Some (the (exec_all ?ops ?s1))" by (rule some_the) code_simp
  from claim_excludes_rivals [OF demo0_reachable 1 2 3] show ?thesis
    by (simp add: demo_claim_def)
qed

text \<open>
  Of any number of claims racing for one issue by different claimants, served in any order
  within the winner's lease, exactly the first to succeed wins: every later one for that issue gets
  an error, and the winner holds it at the end.
\<close>

theorem racing_claims_one_winner:
  assumes "claim req ts s = (Inr rc, s1)"
    and "\<forall>(rival, now) \<in> set rivals. now < rc_expires_at rc \<and>
      (cr_id rival = cr_id req \<longrightarrow> cr_assignee rival \<noteq> cr_assignee req)"
  shows "holder (snd (serve claim rivals s1)) (cr_id req) = Some (cr_assignee req, rc_expires_at rc) \<and>
    list_all2 (\<lambda>c out. cr_id (fst c) = cr_id req \<longrightarrow> (\<exists>e. out = Inl e)) rivals
      (fst (serve claim rivals s1))"
  using db_lease.one_winner [OF assms(1), of rivals] assms(2) by fast

theorem racing_claims_one_winner_witness:
  "fst (serve claim [(demo_claim ''a'' ''x'', 1001), (demo_claim ''a'' ''y'', 1002)]
      (snd (claim (demo_claim ''a'' ''w'') 1000 demo0))) =
     [Inl (AlreadyClaimed ''a'' ''w''), Inl (AlreadyClaimed ''a'' ''w'')] \<and>
   holder (snd (serve claim [(demo_claim ''a'' ''x'', 1001), (demo_claim ''a'' ''y'', 1002)]
      (snd (claim (demo_claim ''a'' ''w'') 1000 demo0)))) ''a'' = Some (''w'', 1100)"
proof -
  let ?s1 = "snd (claim (demo_claim ''a'' ''w'') 1000 demo0)"
  let ?rc = "\<lparr>rc_id = ''a'', rc_assignee = ''w'', rc_actor_kind = Agent, rc_expires_at = 1100\<rparr>"
  have 1: "claim (demo_claim ''a'' ''w'') 1000 demo0 = (Inr ?rc, ?s1)"
    by (rule pair_snd) code_simp
  have out: "fst (serve claim [(demo_claim ''a'' ''x'', 1001), (demo_claim ''a'' ''y'', 1002)] ?s1) =
     [Inl (AlreadyClaimed ''a'' ''w''), Inl (AlreadyClaimed ''a'' ''w'')]" by code_simp
  from racing_claims_one_winner [OF 1, of "[(demo_claim ''a'' ''x'', 1001), (demo_claim ''a'' ''y'', 1002)]"]
  show ?thesis using out by (simp add: demo_claim_def)
qed

section \<open>The store: the ready queue\<close>

text \<open>
  C6. \<open>ready\<close> returns exactly the issues that can be worked on: open, past their grace or deferral
  time, in the asked project, every blocker closed, and no live lease; each once, ordered by
  priority, then age, then id.
\<close>

theorem ready_is_the_workable_queue:
  assumes "db_reachable s"
  shows "(\<forall>v. v \<in> set (ready project now s) \<longleftrightarrow>
      (\<exists>r. find_issue s (i_id v) = Some r \<and> v = issue_of_row s r \<and> ir_status r = ''open'' \<and>
        past (ir_available_at r) now \<and> (project = None \<or> project = Some (ir_project r)) \<and>
        all_blockers_closed s (i_id v) \<and> lease_lapsed s (i_id v) now)) \<and>
    distinct (map i_id (ready project now s)) \<and> sorted (map issue_order (ready project now s))"
  using in_ready_iff [OF assms] ready_distinct [OF reach_ids [OF assms]] ready_sorted by blast

theorem ready_is_the_workable_queue_witness:
  "map i_id (ready None 1000 demo0) = [''a''] \<and> map i_id (ready None 1000 demo) = [] \<and>
   sorted (map issue_order (ready None 1000 demo0))"
proof -
  have "map i_id (ready None 1000 demo) = []" by code_simp
  with ready_is_the_workable_queue [OF demo0_reachable, of None 1000] demo0_ready show ?thesis by blast
qed



text \<open>
  C9. Closing demands proof and finished prerequisites: \<open>close\<close> fails exactly when no evidence is
  given, the issue is unknown, or one of its blockers is not closed.
\<close>

theorem close_refused_iff:
  assumes "db_reachable s"
  shows "isl (fst (close i reason ev actor ts s)) \<longleftrightarrow>
    ev = [] \<or> find_issue s i = None \<or> \<not> all_blockers_closed s i"
proof -
  have blk: "check_blockers s i = None \<longleftrightarrow> all_blockers_closed s i"
    using reach_dep(2) [OF assms]
    by (fastforce simp: check_blockers_def open_blocker_None all_blockers_closed_def)
  show ?thesis
  proof (cases "find_issue s i")
    case None
    then show ?thesis
      by (auto simp: close_def close_unchecked_def then_get_def tx_def split: option.split)
  next
    case (Some r)
    with close_unchecked_total [OF Some, of reason ev actor ts] blk show ?thesis
      by (auto simp: close_def split: option.split)
  qed
qed

theorem close_refused_iff_witness:
  "isl (fst (close ''b'' None [evidence_ack ''ok''] ''w'' 2000 demo)) \<and>
   isl (fst (close ''a'' None [] ''w'' 2000 demo)) \<and>
   \<not> isl (fst (close ''a'' None [evidence_ack ''ok''] ''w'' 2000 demo))"
proof -
  have "\<not> all_blockers_closed demo ''b''" "all_blockers_closed demo ''a''" "find_issue demo ''a'' \<noteq> None"
    by code_simp+
  then show ?thesis by (simp only: close_refused_iff [OF demo_reachable]) simp
qed

text \<open>
  C10. A successful \<open>close\<close> had evidence, leaves the issue closed at that time with its old evidence
  kept and all the new added, ends its lease, and touches no other issue and no edge.
\<close>

theorem close_effect:
  assumes "close i reason ev actor ts s = (Inr v, s')"
  shows "ev \<noteq> [] \<and> holder s' i = None \<and>
    (\<exists>r r'. find_issue s i = Some r \<and> find_issue s' i = Some r' \<and> v = issue_of_row s' r' \<and>
      is_terminal (ir_status r') \<and> ir_closed_at r' = Some ts \<and> ir_close_reason r' = reason \<and>
      (\<exists>added. ir_evidence r' = ir_evidence r @ added) \<and>
      set (ir_evidence r') = set (ir_evidence r) \<union> set ev) \<and>
    (\<forall>j. j \<noteq> i \<longrightarrow> find_issue s' j = find_issue s j) \<and> db_deps s' = db_deps s"
proof -
  have "close_unchecked i reason ev actor ts s = (Inr v, s')" using close_Inr(3) [OF assms] .
  then obtain r where r: "find_issue s i = Some r"
    and f: "find_issue s' i = Some (close_row reason (merge_evidence (ir_evidence r) ev) ts r)"
      "\<And>j. j \<noteq> i \<Longrightarrow> find_issue s' j = find_issue s j" "db_deps s' = db_deps s"
      "v = issue_of_row s' (close_row reason (merge_evidence (ir_evidence r) ev) ts r)"
    by (rule close_unchecked_find) blast
  let ?r' = "close_row reason (merge_evidence (ir_evidence r) ev) ts r"
  have "ir_status ?r' = ''closed'' \<and> ir_closed_at ?r' = Some ts \<and> ir_close_reason ?r' = reason \<and>
      ir_evidence ?r' = merge_evidence (ir_evidence r) ev \<and> ir_assignee ?r' = None"
    by (simp add: close_row_def clear_claim_def)
  moreover from this f(1) have "holder s' i = None" by (simp add: holder_def)
  ultimately show ?thesis
    using close_Inr(1) [OF assms] r f merge_evidence_prefix [of "ir_evidence r" ev]
    by (auto simp: is_terminal_def)
qed

theorem close_effect_witness:
  "holder (snd (close ''a'' None [evidence_ack ''ok''] ''w'' 2000 demo)) ''a'' = None"
proof -
  have "\<not> isl (fst (close ''a'' None [evidence_ack ''ok''] ''w'' 2000 demo))" by code_simp
  then obtain v where "close ''a'' None [evidence_ack ''ok''] ''w'' 2000 demo =
      (Inr v, snd (close ''a'' None [evidence_ack ''ok''] ''w'' 2000 demo))" using not_isl by blast
  from close_effect [OF this] show ?thesis by blast
qed

text \<open>
  C11. Closing a blocker releases exactly what it held back: right after \<open>close\<close>, another issue is
  in the queue if and only if it is open, due, not leased, and all its blockers other than the one
  just closed were closed already.
\<close>

theorem close_unblocks:
  assumes "db_reachable s" and "close i reason ev actor ts s = (Inr v, s')" and "j \<noteq> i"
  shows "j \<in> i_id ` set (ready None now s') \<longleftrightarrow>
    (\<exists>r. find_issue s j = Some r \<and> ir_status r = ''open'' \<and> past (ir_available_at r) now \<and>
      lease_lapsed s j now \<and>
      (\<forall>b. (j, b) \<in> set (db_deps s) \<longrightarrow> b \<noteq> i \<longrightarrow> map_option ir_status (find_issue s b) = Some ''closed''))"
proof -
  have u: "close_unchecked i reason ev actor ts s = (Inr v, s')" using close_Inr(3) [OF assms(2)] .
  have "exec ts (Close i reason ev actor) s = Some s'" using assms(2) by simp
  then have r': "db_reachable s'" using assms(1) exec_reachable by blast
  from u have f: "find_issue s' j = find_issue s j" by (rule close_unchecked_find) (simp add: assms(3))
  then have "lease_lapsed s' j now \<longleftrightarrow> lease_lapsed s j now" by (simp add: lease_lapsed_def holder_def)
  with ready_ids_iff [OF r', of j None now] f all_blockers_closed_close [OF u, of j]
  show ?thesis by auto
qed

theorem close_unblocks_witness:
  "\<exists>v s'. close ''a'' None [evidence_ack ''ok''] ''w'' 2000 demo = (Inr v, s') \<and>
     ''b'' \<in> i_id ` set (ready None 2000 s') \<and> ''b'' \<notin> i_id ` set (ready None 2000 demo)"
proof -
  let ?c = "close ''a'' None [evidence_ack ''ok''] ''w'' 2000 demo"
  have "\<not> isl (fst ?c)" by code_simp
  then obtain v where c: "?c = (Inr v, snd ?c)" using not_isl by blast
  have "map_option (\<lambda>r. ir_status r = ''open'' \<and> past (ir_available_at r) 2000) (find_issue demo ''b'') = Some True"
    "lease_lapsed demo ''b'' 2000" by code_simp+
  then have "''b'' \<in> i_id ` set (ready None 2000 (snd ?c))"
    by (subst close_unblocks [OF demo_reachable c]) (auto simp: demo_deps)
  moreover have "''b'' \<notin> set (map i_id (ready None 2000 demo))" by code_simp
  ultimately show ?thesis using c by auto
qed

section \<open>The store: edges\<close>

text \<open>
  C12. The cycle check is exact: between two known issues \<open>add_dep\<close> is refused if and only if the
  new edge would close a cycle, and otherwise it adds that edge and nothing else.
\<close>

theorem add_dep_exact:
  assumes "db_reachable s" and "find_issue s c \<noteq> None" and "find_issue s p \<noteq> None"
  shows "(isl (fst (add_dep c p actor ts s)) \<longleftrightarrow> \<not> acyclic (insert (c, p) (set (db_deps s)))) \<and>
    set (db_deps (snd (add_dep c p actor ts s))) =
      (if acyclic (insert (c, p) (set (db_deps s))) then insert (c, p) (set (db_deps s)) else set (db_deps s))"
proof -
  have ac: "acyclic (set (db_deps s))"
    using db_reachable_ok [OF assms(1)] by (simp add: db_ok_def deps_ok_def)
  show ?thesis
  proof (cases "acyclic (insert (c, p) (set (db_deps s)))")
    case True
    then obtain s' where "add_dep c p actor ts s = (Inr (), s')"
      using add_dep_refuses_iff [OF assms(2,3) ac] by blast
    with add_dep_deps(1) True show ?thesis by fastforce
  next
    case False
    then have "\<not> (\<exists>s'. add_dep c p actor ts s = (Inr (), s'))"
      using add_dep_refuses_iff [OF assms(2,3) ac] by blast
    then have l: "isl (fst (add_dep c p actor ts s))"
      by (cases "add_dep c p actor ts s"; cases "fst (add_dep c p actor ts s)") auto
    then have "snd (add_dep c p actor ts s) = s" by (auto simp: add_dep_def tx_fails split: if_splits)
    with l False show ?thesis by (simp del: acyclic_insert)
  qed
qed

theorem add_dep_exact_witness:
  "isl (fst (add_dep ''a'' ''b'' ''me'' 9 demo)) \<and> \<not> acyclic (insert (''a'', ''b'') (set (db_deps demo)))"
proof -
  have "isl (fst (add_dep ''a'' ''b'' ''me'' 9 demo))" "find_issue demo ''a'' \<noteq> None"
    "find_issue demo ''b'' \<noteq> None" by code_simp+
  with add_dep_exact [OF demo_reachable this(2,3)] show ?thesis by blast
qed

text \<open>
  An edge to an issue that is not closed takes its child out of the queue at once, for every
  project filter and at every time.
\<close>

theorem add_dep_blocks:
  assumes "db_reachable s" and "add_dep c p actor ts s = (Inr (), s')"
    and "map_option ir_status (find_issue s p) \<noteq> Some ''closed''"
  shows "c \<notin> i_id ` set (ready project now s')"
proof -
  have "exec ts (AddDep c p actor) s = Some s'" using assms(2) by simp
  then have r': "db_reachable s'" using assms(1) exec_reachable by blast
  note d = add_dep_deps [OF assms(2)]
  have "find_issue s' p = find_issue s p" using add_dep_find [OF assms(2), of p] d(2) by simp
  then obtain r where "find_issue s' p = Some r" "ir_status r \<noteq> ''closed''" using d(5) assms(3) by auto
  then show ?thesis using open_blocker_not_ready [OF r'] d(1) by blast
qed

theorem add_dep_blocks_witness:
  "\<exists>s'. add_dep ''b'' ''a'' ''me'' 5 demo = (Inr (), s') \<and> ''b'' \<notin> i_id ` set (ready None 9999 s')"
proof -
  have 1: "add_dep ''b'' ''a'' ''me'' 5 demo = (Inr (), snd (add_dep ''b'' ''a'' ''me'' 5 demo))"
    by (rule pair_snd) code_simp
  have "map_option ir_status (find_issue demo ''a'') \<noteq> Some ''closed''" by code_simp
  with add_dep_blocks [OF demo_reachable 1] 1 show ?thesis by blast
qed

text \<open>
  An edge to another store is recorded under its canonical reference and shown with the issue,
  but it never decides readiness: every queue at every later time offers the same issues.
\<close>

theorem remote_edges_never_block:
  assumes "db_reachable s" and "add_remote_dep c d actor ts s = (Inr (), s')"
  shows "d\<lparr>rd_freshness := None\<rparr> \<in> set (remote_dependencies c s') \<and>
    (\<exists>r. parse_ref (rd_canonical_ref d) = Inr r \<and> ref_names r (rd_store_id d) (rd_remote_issue_id d)) \<and>
    i_id ` set (ready project now s') = i_id ` set (ready project now s)"
proof -
  obtain r where pr: "parse_ref (rd_canonical_ref d) = Inr r"
    "ref_names r (rd_store_id d) (rd_remote_issue_id d)"
    and s': "s' = log_event c ts actor ''depends_on_remote'' (rd_canonical_ref d)
               (touch_updated c ts (upsert_remote c d s))"
    using assms(2) by (rule add_remote_dep_Inr)
  have "remote_dependencies c s' = remote_dependencies c (upsert_remote c d s)"
    by (simp add: s' remote_dependencies_def touch_updated_def)
  then have vis: "d\<lparr>rd_freshness := None\<rparr> \<in> set (remote_dependencies c s')"
    using upsert_remote_visible by simp
  have "exec ts (AddRemoteDep c d actor) s = Some s'" using assms(2) by simp
  then have r': "db_reachable s'" using assms(1) exec_reachable by blast
  have find: "find_issue s' j = (if j = c then map_option (\<lambda>r. r\<lparr>ir_updated_at := ts\<rparr>) (find_issue s c)
      else find_issue s j)" for j
  proof -
    have "find_issue (upsert_remote c d s) k = find_issue s k" for k by (simp add: find_issue_def)
    then show ?thesis by (simp add: s' touch_updated_def find_issue_upd)
  qed
  have "map_option ir_status (find_issue s' j) = map_option ir_status (find_issue s j)" for j
    by (cases "find_issue s c") (auto simp: find)
  then have blk: "all_blockers_closed s' j \<longleftrightarrow> all_blockers_closed s j" for j
    by (simp add: all_blockers_closed_def s')
  have "holder s' j = holder s j" for j
    using holder_dep_ops(3) [of c d actor ts s j] assms(2) by simp
  then have ll: "lease_lapsed s' j now \<longleftrightarrow> lease_lapsed s j now" for j by (simp add: lease_lapsed_def)
  have "j \<in> i_id ` set (ready project now s') \<longleftrightarrow> j \<in> i_id ` set (ready project now s)" for j
    unfolding ready_ids_iff [OF r'] ready_ids_iff [OF assms(1)] blk ll
    by (cases "find_issue s j") (auto simp: find)
  with vis pr show ?thesis by blast
qed

definition demo_remote :: remote_dependency where
  "demo_remote =
     \<lparr>rd_canonical_ref = ''marbles://s2/co/q/q-1'', rd_store_id = ''s2'', rd_remote_issue_id = ''q-1'',
      rd_state = ''open'', rd_asserted_at = 0, rd_observed_at = 0, rd_signature = [], rd_key_id = [],
      rd_freshness = None\<rparr>"

theorem remote_edges_never_block_witness:
  "\<exists>s'. add_remote_dep ''a'' demo_remote ''me'' 7 demo0 = (Inr (), s') \<and>
     ''a'' \<in> i_id ` set (ready None 1000 s')"
proof -
  have 1: "add_remote_dep ''a'' demo_remote ''me'' 7 demo0 =
      (Inr (), snd (add_remote_dep ''a'' demo_remote ''me'' 7 demo0))" by (rule pair_snd) code_simp
  have "''a'' \<in> i_id ` set (ready None 1000 demo0)"
    using demo0_ready by (metis list.set_intros(1) list.set_map)
  with remote_edges_never_block [OF demo0_reachable 1, of None 1000] 1 show ?thesis by blast
qed

section \<open>The store: creation, edits, sweeping\<close>

text \<open>
  Creation never reuses an id and appends one open, unleased issue to the table; an id of its
  own making is the project's prefix with a four-letter suffix. Until its grace time the new issue
  is in no queue.
\<close>

theorem create_is_fresh_and_graced:
  assumes "db_reachable s" and "create spec draws ts s = Some (Inr i, s')"
  shows "find_issue s i = None \<and>
    (\<exists>r. find_issue s' i = Some r \<and> db_issues s' = db_issues s @ [r] \<and> ir_status r = ''open'' \<and>
      ir_assignee r = None \<and> n_project spec = Some (ir_project r) \<and> ir_title r = n_title spec) \<and>
    (n_id spec = None \<longrightarrow> (\<exists>p d. i = pr_prefix p @ ''-'' @ short_suffix d \<and> p \<in> set (db_projects s))) \<and>
    (\<forall>project now. now < or_else (n_available_at spec) (ts + creation_grace_seconds (db_policy s)) \<longrightarrow>
      i \<notin> i_id ` set (ready project now s'))"
proof -
  obtain p prefix meta g where c: "n_project spec = Some p" "prefix_for s p = Inr prefix"
    "find_issue s i = None"
    "n_id spec = Some i \<or> n_id spec = None \<and> (\<exists>d \<in> set draws. i = prefix @ ''-'' @ short_suffix d)"
    "g = or_else (n_available_at spec) (ts + creation_grace_seconds (db_policy s))"
    and s': "s' = log_event i ts (or_else (n_created_by spec) ''system'') ''created'' (n_title spec)
           (s\<lparr>db_issues := db_issues s @ [new_row spec i p meta g ts]\<rparr>)"
    using assms(2) by (rule create_Inr)
  have "exec ts (Create spec draws) s = Some s'" using assms(2) by simp
  then have r': "db_reachable s'" using assms(1) exec_reachable by blast
  let ?r = "new_row spec i p meta g ts"
  have iss: "db_issues s' = db_issues s @ [?r]" by (simp add: s')
  moreover have "ir_id ?r = i" by (simp add: new_row_def)
  ultimately have f: "find_issue s' i = Some ?r"
    using find_issue_row [OF reach_ids [OF r'], of ?r] by simp
  then have "i \<notin> i_id ` set (ready project now s')" if "now < g" for project now
    using that by (auto simp: ready_ids_iff [OF r'] past_def new_row_def)
  moreover have "\<exists>q \<in> set (db_projects s). pr_prefix q = prefix"
    using c(2) by (auto simp: prefix_for_def find_project_def split: option.splits dest!: find_Some_mem)
  ultimately show ?thesis using c iss f by (fastforce simp: new_row_def)
qed

theorem create_is_fresh_and_graced_witness:
  "\<exists>s'. create (demo_issue ''c'') [] 0 demo = Some (Inr ''c'', s') \<and>
     ''c'' \<notin> i_id ` set (ready None 599 s')"
proof -
  obtain s' where s': "create (demo_issue ''c'') [] 0 demo = Some (Inr ''c'', s')"
  proof -
    have "map_option fst (create (demo_issue ''c'') [] 0 demo) = Some (Inr ''c'')" by code_simp
    with that show ?thesis by (cases "create (demo_issue ''c'') [] 0 demo") (auto simp: prod_eq_iff)
  qed
  have "(599 :: int) < or_else (n_available_at (demo_issue ''c'')) (0 + creation_grace_seconds (db_policy demo))"
    by code_simp
  with create_is_fresh_and_graced [OF demo_reachable s'] s' show ?thesis by blast
qed

text \<open>
  An edit that sets no availability time defers the issue: it returns the patched row, leaves
  the lease and every other issue alone, refuses unknown statuses, and until the deferral has
  passed the issue is in no queue.
\<close>

theorem update_defers:
  assumes "db_reachable s" and "update i patch actor ts s = (Inr v, s')"
    and "p_available_at patch = None"
  shows "(\<forall>st. p_status patch = Some st \<longrightarrow> st \<in> set STATUSES \<and> i_status v = st) \<and>
    (\<forall>t. p_title patch = Some t \<longrightarrow> i_title v = t) \<and>
    holder s' i = holder s i \<and> (\<forall>j. j \<noteq> i \<longrightarrow> find_issue s' j = find_issue s j) \<and>
    (\<forall>project now. now < ts + edit_deferral_seconds (db_policy s) \<longrightarrow>
      i \<notin> i_id ` set (ready project now s'))"
proof -
  obtain r r' where r: "find_issue s i = Some r" "patch_row (db_policy s) patch ts r = Inr r'"
    and f: "find_issue s' i = Some r'" "\<forall>j. j \<noteq> i \<longrightarrow> find_issue s' j = find_issue s j"
    and st: "\<forall>st. p_status patch = Some st \<longrightarrow> st \<in> set STATUSES"
    using assms(2) by (rule update_Inr)
  note fields = patch_row_fields [OF r(2)]
  have "get_issue i s' = Inr v"
    using assms(2) by (auto simp: update_def then_get_def split: option.splits if_splits sum.splits)
  then have v: "v = issue_of_row s' r'" using f(1) by (simp add: get_issue_def row_to_issue_def)
  have "exec ts (Update i patch actor) s = Some s'" using assms(2) by simp
  then have r': "db_reachable s'" using assms(1) exec_reachable by blast
  have "i \<notin> i_id ` set (ready project now s')"
    if "now < ts + edit_deferral_seconds (db_policy s)" for project now
    using that f(1) fields(3) assms(3) by (auto simp: ready_ids_iff [OF r'] past_def or_else_def)
  moreover have "holder s' i = holder s i" using f(1) r(1) fields(8,9) by (simp add: holder_def)
  ultimately show ?thesis
    using st f(2) fields(1,2) by (simp add: v issue_of_row_def or_else_def)
qed

definition demo_patch :: issue_patch where
  "demo_patch =
     \<lparr>p_title = Some ''A'', p_description = None, p_status = None, p_priority = None,
      p_append_notes = None, p_available_at = None, p_evidence = None, p_metadata = None\<rparr>"

theorem update_defers_witness:
  "\<exists>v s'. update ''a'' demo_patch ''me'' 1000 demo0 = (Inr v, s') \<and> i_title v = ''A'' \<and>
     ''a'' \<notin> i_id ` set (ready None 1119 s')"
proof -
  let ?u = "update ''a'' demo_patch ''me'' 1000 demo0"
  have "\<not> isl (fst ?u)" by code_simp
  then obtain v where u: "?u = (Inr v, snd ?u)" using not_isl by blast
  have t: "(1119 :: int) < 1000 + edit_deferral_seconds (db_policy demo0)" by code_simp
  have p: "p_available_at demo_patch = None" "p_title demo_patch = Some ''A''"
    by (simp_all add: demo_patch_def)
  note d = update_defers [OF demo0_reachable u p(1)]
  have "i_title v = ''A''" using d p(2) by blast
  moreover have "''a'' \<notin> i_id ` set (ready None 1119 (snd ?u))" using d t by blast
  ultimately show ?thesis using u by blast
qed

text \<open>
  The sweep always succeeds; it clears exactly the lapsed claims not held by a human, reports
  exactly their issues as requeued, and changes no other row: a live claim and a lapsed human hold
  keep their holder.
\<close>

theorem sweep_clears_lapsed_agents:
  assumes "db_reachable s"
  shows "\<exists>rep s'. sweep ts s = (Inr rep, s') \<and>
    distinct (requeued rep) \<and> set (requeued rep) = {ir_id r | r. r \<in> set (db_issues s) \<and> sweepable ts r} \<and>
    (\<forall>i. find_issue s' i =
      map_option (\<lambda>r. if sweepable ts r then clear_claim r else r) (find_issue s i)) \<and>
    (\<forall>i. holder s' i = (case find_issue s i of None \<Rightarrow> None
       | Some r \<Rightarrow> if sweepable ts r then None else holder s i))"
proof -
  obtain rep s' where sw: "sweep ts s = (Inr rep, s')"
    and q: "requeued rep = map ir_id (filter (sweepable ts) (db_issues s))"
    and f: "\<And>i. find_issue s' i =
      map_option (\<lambda>r. if sweepable ts r then clear_claim r else r) (find_issue s i)"
    using assms by (rule sweep_effect) blast
  have "holder s' i = (case find_issue s i of None \<Rightarrow> None
       | Some r \<Rightarrow> if sweepable ts r then None else holder s i)" for i
    using f [of i] by (auto simp: holder_def clear_claim_def split: option.split)
  moreover have "distinct (requeued rep)"
    unfolding q by (rule distinct_map_filter [OF reach_ids [OF assms]])
  moreover have "set (requeued rep) = {ir_id r | r. r \<in> set (db_issues s) \<and> sweepable ts r}"
    unfolding q by auto
  ultimately show ?thesis using sw f by blast
qed

theorem sweep_clears_lapsed_agents_witness:
  "holder demo ''a'' = Some (''w'', 1100) \<and>
   (\<exists>rep s'. sweep 1100 demo = (Inr rep, s') \<and> holder s' ''a'' = None)"
proof -
  have "map_option (sweepable 1100) (find_issue demo ''a'') = Some True" by code_simp
  with sweep_clears_lapsed_agents [OF demo_reachable, of 1100] demo_holder show ?thesis by fastforce
qed

text \<open>
  A heartbeat succeeds only for the recorded holder and moves only that issue's expiry, to the
  instant it returns; for anyone else it fails.
\<close>

theorem heartbeat_only_by_holder:
  "(touch i a ts s = (Inr e, s') \<longrightarrow>
     map_option ir_assignee (find_issue s i) = Some (Some a) \<and>
     (\<forall>j. holder s' j = (if j = i then Some (a, e) else holder s j))) \<and>
   (map_option ir_assignee (find_issue s i) \<noteq> Some (Some a) \<longrightarrow> isl (fst (touch i a ts s)))"
proof (intro conjI impI)
  assume t: "touch i a ts s = (Inr e, s')"
  show "map_option ir_assignee (find_issue s i) = Some (Some a)" using touch_Inr(1) [OF t] by auto
  show "\<forall>j. holder s' j = (if j = i then Some (a, e) else holder s j)"
    using touch_Inr(2,3) [OF t] by simp
next
  assume "map_option ir_assignee (find_issue s i) \<noteq> Some (Some a)"
  then show "isl (fst (touch i a ts s))"
    by (auto simp: touch_def tx_def split: option.split)
qed

theorem heartbeat_only_by_holder_witness:
  "isl (fst (touch ''a'' ''x'' 1050 demo)) \<and> holder (snd (touch ''a'' ''w'' 1050 demo)) ''a'' = Some (''w'', 2850)"
proof -
  have 1: "touch ''a'' ''w'' 1050 demo = (Inr 2850, snd (touch ''a'' ''w'' 1050 demo))"
    by (rule pair_snd) code_simp
  have "map_option ir_assignee (find_issue demo ''a'') \<noteq> Some (Some ''x'')" by code_simp
  with heartbeat_only_by_holder [of "''a''" "''x''" 1050 demo]
    heartbeat_only_by_holder [of "''a''" "''w''" 1050 demo 2850 "snd (touch ''a'' ''w'' 1050 demo)"] 1
  show ?thesis by simp
qed

text \<open>
  The folder tree is guarded exactly: with a name, a slug and a known parent, \<open>ensure_folder\<close>
  refuses if and only if the folder is its own parent or one of the parent's ancestors.
\<close>

theorem ensure_folder_exact:
  assumes "trim (fo_slug f) \<noteq> []" and "trim (fo_name f) \<noteq> []"
    and "nonempty_trimmed (fo_parent f) = Some p" and "find_folder s p \<noteq> None"
  shows "isl (fst (ensure_folder f ts s)) \<longleftrightarrow> (p, trim (fo_slug f)) \<in> (set (folder_edges s))\<^sup>*"
  unfolding ensure_folder_isl [OF assms(1,2)] assms(3)
  using assms(4) by (auto simp: folder_parent_problem_def cte_reach_iff)

theorem ensure_folder_exact_witness:
  "isl (fst (ensure_folder \<lparr>fo_slug = ''f'', fo_name = ''F'', fo_parent = Some ''g'', fo_created_at = 0\<rparr> 9 demo)) \<and>
   (''g'', ''f'') \<in> (set (folder_edges demo))\<^sup>*"
proof -
  let ?f = "\<lparr>fo_slug = ''f'', fo_name = ''F'', fo_parent = Some ''g'', fo_created_at = 0\<rparr> :: folder"
  have t: "trim (fo_slug ?f) = ''f''" "trim (fo_name ?f) \<noteq> []" by code_simp+
  have "nonempty_trimmed (fo_parent ?f) = Some ''g''" "find_folder demo ''g'' \<noteq> None" by code_simp+
  moreover have "isl (fst (ensure_folder ?f 9 demo))" by code_simp
  ultimately show ?thesis using ensure_folder_exact [of ?f "''g''" demo 9] t by simp
qed

section \<open>The store: transactions and the outbox\<close>

text \<open>
  C13. Failure is all or nothing: an operation that returns an error leaves every table, counter
  and log exactly as it was, \<open>supersede\<close> included, which commits twice.
\<close>

theorem failed_operation_changes_nothing:
  assumes "fails ts op s" and "exec ts op s = Some s'"
  shows "s' = s"
  using failed_exec [OF assms] .

theorem failed_operation_changes_nothing_witness:
  "exec 9 (Supersede ''a'' ''missing'' ''me'') demo = Some demo"
proof -
  have "fails 9 (Supersede ''a'' ''missing'' ''me'') demo" by code_simp
  with failed_operation_changes_nothing [of 9 "Supersede ''a'' ''missing'' ''me''" demo] show ?thesis by simp
qed

text \<open>
  The outbox is transactional. Every operation that is not a project removal or a delivery mark
  only appends to the history, under new numbers, and in the same commit appends to the outbox
  exactly the undelivered copies of the new events whose issue has a row.
\<close>

theorem events_reach_the_outbox:
  assumes "db_reachable s" and "exec ts op s = Some s'" and "\<not> edits_logs op"
  shows "\<exists>hs es. db_history s' = db_history s @ hs \<and> db_outbound s' = db_outbound s @ es \<and>
    (\<forall>h \<in> set hs. db_history_seq s < hr_seq h) \<and> (\<forall>e \<in> set es. or_delivered_at e = None) \<and>
    map out_key es = map hist_key (filter (\<lambda>h. hr_issue_id h \<in> ids s') hs)"
  using exec_appends [OF assms] unfolding appends_def by blast

theorem events_reach_the_outbox_witness:
  "\<exists>s'. exec 9 (Release ''a'' ''me'') demo = Some s' \<and>
    (\<exists>es. db_outbound s' = db_outbound demo @ es)"
  using events_reach_the_outbox [OF demo_reachable, of 9 "Release ''a'' ''me''"] by fastforce

text \<open>
  A delivered event is never offered again: once \<open>mark_event_delivered\<close> has seen a number that
  was issued, no later state, whatever operations lead there, lists it as pending.
\<close>

theorem delivered_once:
  assumes "db_reachable s" and "seq \<le> db_history_seq s"
    and "exec_all ops (snd (mark_event_delivered seq ts s)) = Some s'"
  shows "seq \<notin> oe_seq ` set (pending_events now limit s')"
proof -
  have "exec ts (MarkDelivered seq) s = Some (snd (mark_event_delivered seq ts s))" by simp
  then have "db_reachable (snd (mark_event_delivered seq ts s))" using assms(1) exec_reachable by blast
  then show ?thesis
    using settled_exec_all mark_settles [OF assms(2)] assms(3) settled_not_pending by blast
qed

theorem delivered_once_witness:
  "map oe_seq (pending_events 2000 10 demo) = [1, 2, 3, 4] \<and>
   2 \<notin> oe_seq ` set (pending_events 2000 10 (the (exec_all [(9, MarkFailed 2 ''late'')]
      (snd (mark_event_delivered 2 8 demo)))))"
proof -
  let ?ops = "[(9, MarkFailed 2 ''late'')]" and ?s = "snd (mark_event_delivered 2 8 demo)"
  have 1: "exec_all ?ops ?s = Some (the (exec_all ?ops ?s))" by (rule some_the) simp
  have "(2 :: int) \<le> db_history_seq demo" by code_simp
  moreover have "map oe_seq (pending_events 2000 10 demo) = [1, 2, 3, 4]" by code_simp
  ultimately show ?thesis using delivered_once [OF demo_reachable _ 1] by blast
qed

section \<open>Working time\<close>



text \<open>
  The exclusion in C22 is needed: a day that ends at midnight is followed by a day that starts at
  midnight, but the walk restarts one minute later, so every midnight crossed costs a minute.
\<close>

definition nonstop_week :: work_week where
  "nonstop_week = default_week\<lparr>ww_days := [1, 2, 3, 4, 5, 6, 7], ww_start_hour := 0, ww_end_hour := 24\<rparr>"

theorem nonstop_week_drifts:
  "week_ok nonstop_week \<and> deadline nonstop_week 0 (24 * 60) = Some (24 * 60 * 60) \<and>
   deadline nonstop_week 0 (24 * 60 + 1) = Some ((24 * 60 + 1) * 60 + 60) \<and>
   deadline nonstop_week 0 (7 * 24 * 60) = Some (7 * 24 * 60 * 60 + 7 * 60)"
  by code_simp

section \<open>Canonical references\<close>

text \<open>
  C30. Parsing and printing of canonical references are inverse: a text that parses prints back to
  itself and names four well-formed segments, and every such reference parses back from its text.
\<close>

theorem canonical_ref_roundtrip:
  "(parse_ref s = Inr r \<longrightarrow> display_ref r = s \<and> ref_ok r) \<and>
   (ref_ok r \<longrightarrow> parse_ref (display_ref r) = Inr r)"
  using display_parse parse_ref_ok parse_display by blast

theorem canonical_ref_roundtrip_witness:
  "\<exists>r. parse_ref ''marbles://s/co/p/p-1'' = Inr r \<and> display_ref r = ''marbles://s/co/p/p-1''"
proof -
  have "\<not> isl (parse_ref ''marbles://s/co/p/p-1'')" by code_simp
  then obtain r where "parse_ref ''marbles://s/co/p/p-1'' = Inr r"
    by (cases "parse_ref ''marbles://s/co/p/p-1''") auto
  with canonical_ref_roundtrip show ?thesis by blast
qed

end
